(* ===== verification/Kernel_Prelude.thy ===== *)
theory Kernel_Prelude
  imports Main "HOL-Library.Word" "HOL-Library.Monad_Syntax"
begin

unbundle bit_operations_syntax

text \<open>
  The prelude of the development: the machine-integer types of \<^verbatim>\<open>inc/riscv/types.h\<close>, the
  error codes of \<^verbatim>\<open>inc/riscv/error.h\<close>, the collections of simplification rules the component
  theories fill, and the facts on options, lists, linked chains and words they share.

  Conventions used by every component:
  \<^item> a panic, a failed assertion or a kernel fault is \<open>None\<close> of the option type; code that
    runs to completion is \<open>Some (result, new state)\<close>;
  \<^item> an error return of the C code is a negative \<open>int\<close>, as the code returns it
    (\<open>- E_NO_MEM\<close> is \<open>-4\<close>);
  \<^item> a C array of structures is a function from its index, a pointer into it is that index
    and the null pointer is \<open>None\<close>.
\<close>

type_synonym u8 = "8 word"
type_synonym u16 = "16 word"
type_synonym u32 = "32 word"
type_synonym u64 = "64 word"
type_synonym paddr = "64 word"
type_synonym vaddr = "64 word"

named_theorems mmu_simps \<open>address and page-table-entry arithmetic\<close>
named_theorems kop_defs \<open>definitions of the kernel operations\<close>

section \<open>Error codes\<close>

abbreviation (input) E_UNSPECIFIED :: int where "E_UNSPECIFIED \<equiv> 1"
abbreviation (input) E_BAD_ENV :: int where "E_BAD_ENV \<equiv> 2"
abbreviation (input) E_INVAL :: int where "E_INVAL \<equiv> 3"
abbreviation (input) E_NO_MEM :: int where "E_NO_MEM \<equiv> 4"
abbreviation (input) E_NO_FREE_ENV :: int where "E_NO_FREE_ENV \<equiv> 5"
abbreviation (input) E_FAULT :: int where "E_FAULT \<equiv> 6"
abbreviation (input) E_IPC_NOT_RECV :: int where "E_IPC_NOT_RECV \<equiv> 7"
abbreviation (input) E_EOF :: int where "E_EOF \<equiv> 8"
abbreviation (input) E_NO_DISK :: int where "E_NO_DISK \<equiv> 9"
abbreviation (input) E_MAX_OPEN :: int where "E_MAX_OPEN \<equiv> 10"
abbreviation (input) E_NOT_FOUND :: int where "E_NOT_FOUND \<equiv> 11"
abbreviation (input) E_BAD_PATH :: int where "E_BAD_PATH \<equiv> 12"
abbreviation (input) E_FILE_EXISTS :: int where "E_FILE_EXISTS \<equiv> 13"
abbreviation (input) E_NOT_EXEC :: int where "E_NOT_EXEC \<equiv> 14"
abbreviation (input) E_NOT_SUPP :: int where "E_NOT_SUPP \<equiv> 15"
abbreviation (input) E_WAIT :: int where "E_WAIT \<equiv> 16"
abbreviation (input) MAXERROR :: int where "MAXERROR \<equiv> 17"

section \<open>Options and assertions\<close>

text \<open>\<open>assert P\<close> of the code: execution continues only if the condition holds.\<close>

definition assert_that :: "bool \<Rightarrow> unit option" where
  "assert_that b = (if b then Some () else None)"

lemma assert_that_simps [simp]:
  "assert_that True = Some ()" "assert_that False = None"
  "(assert_that b = Some u) = b" "(assert_that b = None) = (\<not> b)"
  by (auto simp: assert_that_def)

lemma bind_assert_that [simp]:
  "(assert_that b \<bind> (\<lambda>u. f u) = Some y) \<longleftrightarrow> b \<and> f () = Some y"
  by (cases b) auto

lemma bind_eq_SomeE:
  assumes "f \<bind> g = Some y"
  obtains x where "f = Some x" "g x = Some y"
  using assms by (auto simp: Option.bind_eq_Some_conv)

text \<open>A \<open>for\<close> loop over the elements of a list whose body may panic.\<close>

primrec ofold :: "('a \<Rightarrow> 's \<Rightarrow> 's option) \<Rightarrow> 'a list \<Rightarrow> 's \<Rightarrow> 's option" where
  "ofold f [] s = Some s"
| "ofold f (x # xs) s = f x s \<bind> ofold f xs"

lemma ofold_invariant:
  assumes "\<And>x s s'. x \<in> set xs \<Longrightarrow> P s \<Longrightarrow> f x s = Some s' \<Longrightarrow> P s'"
  shows "P s \<Longrightarrow> ofold f xs s = Some s' \<Longrightarrow> P s'"
  using assms by (induction xs arbitrary: s) (auto simp: Option.bind_eq_Some_conv)

section \<open>Chains: linked lists threaded through an array of structures\<close>

text \<open>
  \<open>chain lnk p xs\<close>: following the link field \<open>lnk\<close> from the pointer \<open>p\<close> visits
  exactly the array elements \<open>xs\<close> and then reaches the null pointer. The free lists of
  physical pages and of environments are such chains.
\<close>

fun chain :: "('i \<Rightarrow> 'i option) \<Rightarrow> 'i option \<Rightarrow> 'i list \<Rightarrow> bool" where
  "chain lnk p [] \<longleftrightarrow> p = None"
| "chain lnk p (x # xs) \<longleftrightarrow> p = Some x \<and> chain lnk (lnk x) xs"

lemma chain_None [simp]: "chain lnk None xs \<longleftrightarrow> xs = []"
  by (cases xs) auto

lemma chain_Some: "chain lnk (Some x) xs \<longleftrightarrow> (\<exists>ys. xs = x # ys \<and> chain lnk (lnk x) ys)"
  by (cases xs) auto

lemma chain_unique: "chain lnk p xs \<Longrightarrow> chain lnk p ys \<Longrightarrow> xs = ys"
proof (induction xs arbitrary: p ys)
  case Nil
  then show ?case by simp
next
  case (Cons x xs)
  then show ?case by (cases ys) auto
qed

lemma chain_cong:
  "chain lnk p xs \<Longrightarrow> (\<And>x. x \<in> set xs \<Longrightarrow> lnk' x = lnk x) \<Longrightarrow> chain lnk' p xs"
  by (induction xs arbitrary: p) auto

lemma chain_upd [simp]: "x \<notin> set xs \<Longrightarrow> chain (lnk(x := v)) p xs = chain lnk p xs"
  by (induction xs arbitrary: p) auto

lemma chain_append:
  "chain lnk p (xs @ ys) \<Longrightarrow> ys \<noteq> [] \<Longrightarrow> \<exists>q. chain lnk q ys \<and> q = Some (hd ys)"
proof (induction xs arbitrary: p)
  case Nil
  then show ?case by (cases ys) auto
next
  case (Cons x xs)
  then show ?case by auto
qed

lemma chain_distinct: "chain lnk p xs \<Longrightarrow> distinct xs"
proof (induction xs arbitrary: p)
  case Nil
  then show ?case by simp
next
  case (Cons x xs)
  have "x \<notin> set xs"
  proof
    assume "x \<in> set xs"
    then obtain us vs where xs: "xs = us @ x # vs"
      by (auto simp: in_set_conv_decomp)
    from Cons.prems have tail: "chain lnk (lnk x) xs" by simp
    with xs have "chain lnk (Some x) (x # vs)"
      using chain_append [of lnk "lnk x" us "x # vs"] by auto
    then have "chain lnk (lnk x) vs" by simp
    with tail have "xs = vs" by (rule chain_unique)
    with xs have "length vs = length us + Suc (length vs)" by (metis length_append length_Cons)
    then show False by simp
  qed
  with Cons show ?case by auto
qed

lemma chain_no_self: "chain lnk p xs \<Longrightarrow> x \<in> set xs \<Longrightarrow> lnk x \<noteq> Some x"
proof
  assume c: "chain lnk p xs" and x: "x \<in> set xs" and self: "lnk x = Some x"
  from x obtain us vs where xs: "xs = us @ x # vs"
    by (auto simp: in_set_conv_decomp)
  with c have "chain lnk (Some x) (x # vs)"
    using chain_append [of lnk p us "x # vs"] by auto
  moreover from this have "distinct (x # vs)" by (rule chain_distinct)
  ultimately show False using self by (cases vs) auto
qed

lemma chain_link_Some:
  "chain lnk p xs \<Longrightarrow> x \<in> set xs \<Longrightarrow> x \<noteq> last xs \<Longrightarrow> lnk x \<noteq> None"
proof (induction xs arbitrary: p)
  case (Cons y ys)
  then show ?case by (cases ys) auto
qed simp

section \<open>Words\<close>

lemma word_and_mask_less: "unat (w AND mask n :: 'a::len word) < 2 ^ n" if "n \<le> LENGTH('a)"
proof -
  have "take_bit n (unat w) < 2 ^ n" by simp
  then show ?thesis by (simp flip: take_bit_eq_mask add: unsigned_take_bit_eq)
qed

lemma bit_AND_one: "w AND 1 = 0 \<longleftrightarrow> \<not> bit w 0" for w :: "'a::len word"
  by (simp add: and_one_eq bit_0 flip: even_iff_mod_2_eq_zero)

lemma unat_Suc_word: "w \<noteq> - 1 \<Longrightarrow> unat (w + 1) = Suc (unat w)" for w :: "'a::len word"
  using unatSuc [of w] by (simp add: add.commute eq_neg_iff_add_eq_0)

lemma off_t_pos: "unat (w :: u32) < 2 ^ 31 \<Longrightarrow> sint w = int (unat w)"
proof -
  assume "unat w < 2 ^ 31"
  then have "int (unat w) < int (2 ^ 31)" unfolding of_nat_less_iff .
  then have "uint w < 2 ^ 31" by simp
  moreover have "- (2 ^ 31) \<le> uint w" by (rule order_trans [OF _ uint_ge_0]) simp
  ultimately have "signed_take_bit 31 (uint w) = uint w" by (intro signed_take_bit_int_eq_self)
  then show "sint w = int (unat w)" by (simp add: sint_uint)
qed

lemma scast_pos: "unat w < 2 ^ 31 \<Longrightarrow> unat (scast w :: u64) = unat w" for w :: u32
proof -
  assume h: "unat w < 2 ^ 31"
  have "(scast w :: u64) = word_of_int (sint w)" by simp
  also have "\<dots> = word_of_nat (unat w)" by (simp add: off_t_pos [OF h])
  finally show ?thesis using h by (simp add: unsigned_ucast_eq take_bit_nat_eq_self)
qed

end
