(* ===== verification/Mmu.thy ===== *)
theory Mmu
  imports Kernel_Prelude
begin

unbundle bit_operations_syntax

text \<open>
  Address arithmetic of the kernel: the rounding macros of \<^verbatim>\<open>inc/riscv/types.h\<close>, the
  decomposition of a virtual address and the page-table-entry flags of \<^verbatim>\<open>inc/riscv/mmu.h\<close>,
  the memory layout of \<^verbatim>\<open>inc/riscv/memlayout.h\<close>, and the conversions between page numbers,
  physical addresses and page-table entries of \<^verbatim>\<open>kern/riscv/pmap.h\<close>.

  The lemmas show that the conversions are inverse to each other on the addresses the kernel
  uses: rounding gives the nearest multiple, an address is determined by its four indices and
  its offset, and a page-table entry built from a physical page and nine flag bits is read back
  as that page.
\<close>

section \<open>Rounding (inc/riscv/types.h)\<close>

definition ROUNDDOWN :: "u64 \<Rightarrow> u64 \<Rightarrow> u64" where
  "ROUNDDOWN a n = a - a mod n"

definition ROUNDUP :: "u64 \<Rightarrow> u64 \<Rightarrow> u64" where
  "ROUNDUP a n = ROUNDDOWN (a + n - 1) n"

section \<open>Virtual addresses (inc/riscv/mmu.h)\<close>

abbreviation (input) PGSIZE :: u64 where "PGSIZE \<equiv> 4096"
abbreviation (input) NPTENTRIES :: nat where "NPTENTRIES \<equiv> 512"
abbreviation (input) PTSIZE :: u64 where "PTSIZE \<equiv> 0x200000"
abbreviation (input) PHYMASK :: u64 where "PHYMASK \<equiv> 0x7fffffff"

definition PGNUM :: "u64 \<Rightarrow> nat" where
  "PGNUM la = unat (drop_bit 12 (la AND PHYMASK))"

definition PD0X :: "vaddr \<Rightarrow> nat" where
  "PD0X la = unat (drop_bit 39 la AND 0x1FF)"

definition PD1X :: "vaddr \<Rightarrow> nat" where
  "PD1X la = unat (drop_bit 30 la AND 0x1FF)"

definition PD2X :: "vaddr \<Rightarrow> nat" where
  "PD2X la = unat (drop_bit 21 la AND 0x1FF)"

definition PTX :: "vaddr \<Rightarrow> nat" where
  "PTX la = unat (drop_bit 12 la AND 0x1FF)"

definition PGOFF :: "vaddr \<Rightarrow> u64" where
  "PGOFF la = la AND 0xFFF"

definition PGADDR :: "u64 \<Rightarrow> u64 \<Rightarrow> u64 \<Rightarrow> u64 \<Rightarrow> u64 \<Rightarrow> vaddr" where
  "PGADDR d0 d1 d2 t off =
     push_bit 39 d0 OR push_bit 30 d1 OR push_bit 21 d2 OR push_bit 12 t OR off"

definition TPGNUM :: "vaddr \<Rightarrow> nat" where
  "TPGNUM la = unat (drop_bit 12 (la AND 0x0000ffffffffffff))"

section \<open>Page-table-entry flags (inc/riscv/mmu.h)\<close>

abbreviation (input) PTE_V :: u64 where "PTE_V \<equiv> 0x001"
abbreviation (input) PTE_R :: u64 where "PTE_R \<equiv> 0x002"
abbreviation (input) PTE_W :: u64 where "PTE_W \<equiv> 0x004"
abbreviation (input) PTE_X :: u64 where "PTE_X \<equiv> 0x008"
abbreviation (input) PTE_U :: u64 where "PTE_U \<equiv> 0x010"
abbreviation (input) PTE_G :: u64 where "PTE_G \<equiv> 0x020"
abbreviation (input) PTE_A :: u64 where "PTE_A \<equiv> 0x040"
abbreviation (input) PTE_D :: u64 where "PTE_D \<equiv> 0x080"
abbreviation (input) PTE_AVAIL :: u64 where "PTE_AVAIL \<equiv> 0x300"

definition PTE_SYSCALL :: u64 where
  "PTE_SYSCALL = PTE_AVAIL OR PTE_X OR PTE_V OR PTE_W OR PTE_R OR PTE_U"

section \<open>Memory layout (inc/riscv/memlayout.h)\<close>

abbreviation (input) KERNBASE :: vaddr where "KERNBASE \<equiv> 0xFFFFFFFF00000000"
abbreviation (input) PHYMEMOFF :: paddr where "PHYMEMOFF \<equiv> 0x80000000"
abbreviation (input) EXTPHYSMEM :: paddr where "EXTPHYSMEM \<equiv> 0x80200000 - PHYMEMOFF"
abbreviation (input) KSTACKTOP :: vaddr where "KSTACKTOP \<equiv> KERNBASE"
abbreviation (input) KSTKSIZE :: u64 where "KSTKSIZE \<equiv> 8 * PGSIZE"
abbreviation (input) KSTKGAP :: u64 where "KSTKGAP \<equiv> 8 * PGSIZE"
abbreviation (input) MMIOLIM :: vaddr where "MMIOLIM \<equiv> 0xffffff7ff0000000"
abbreviation (input) MMIOBASE :: vaddr where "MMIOBASE \<equiv> 0xfffffefff0000000"
abbreviation (input) ULIM :: vaddr where "ULIM \<equiv> MMIOBASE"
abbreviation (input) UVPT :: vaddr where "UVPT \<equiv> 0xffff800000000000"
abbreviation (input) UPAGES :: vaddr where "UPAGES \<equiv> 0xfffffdfff0000000"
abbreviation (input) UENVS :: vaddr where "UENVS \<equiv> 0xfffffd7ff0000000"
abbreviation (input) UTOP :: vaddr where "UTOP \<equiv> UENVS"
abbreviation (input) UXSTACKTOP :: vaddr where "UXSTACKTOP \<equiv> 0xfffffbfff0000000"
abbreviation (input) USTACKTOP :: vaddr where "USTACKTOP \<equiv> 0xfffffcfff0000000"
abbreviation (input) UTEXT :: vaddr where "UTEXT \<equiv> 4 * PTSIZE"
abbreviation (input) UTEMP :: vaddr where "UTEMP \<equiv> 2 * PTSIZE"
abbreviation (input) MPENTRY_PADDR :: paddr where "MPENTRY_PADDR \<equiv> 0x80100000"
abbreviation (input) FLASH_MAP_ADDR :: vaddr where "FLASH_MAP_ADDR \<equiv> 0xfffff00000000000"
abbreviation (input) PCIE_MAP_ECAM_SIZE :: u64 where "PCIE_MAP_ECAM_SIZE \<equiv> 0x10000000"
abbreviation (input) PCIE_MAP_ECAM_ADDR :: vaddr where "PCIE_MAP_ECAM_ADDR \<equiv> 0xfffff00030000000"

section \<open>Pages and entries (kern/riscv/pmap.h)\<close>

definition PDE_ENTRY :: "paddr \<Rightarrow> u64" where
  "PDE_ENTRY pa = push_bit 10 (drop_bit 12 pa)"

definition PTE_ENTRY :: "paddr \<Rightarrow> u64" where
  "PTE_ENTRY pa = push_bit 10 (drop_bit 12 pa)"

definition PDE_PHY :: "u64 \<Rightarrow> paddr" where
  "PDE_PHY e = push_bit 12 (drop_bit 10 e)"

definition PTE_PHY :: "u64 \<Rightarrow> paddr" where
  "PTE_PHY e = push_bit 12 (drop_bit 10 e)"

definition PTE_ADDR :: "u64 \<Rightarrow> paddr" where
  "PTE_ADDR pte = PTE_PHY (pte AND NOT 0xff800000000003FF)"

text \<open>\<open>PADDR\<close> panics on an address below \<open>KERNBASE\<close>.\<close>

definition PADDR :: "vaddr \<Rightarrow> paddr option" where
  "PADDR kva = (if kva < KERNBASE then None else Some (kva - KERNBASE))"

definition page2pa :: "nat \<Rightarrow> paddr" where
  "page2pa pp = push_bit 12 (of_nat pp) + PHYMEMOFF"

section \<open>Facts\<close>

lemma PDX_less [simp]: "PD0X la < 512" "PD1X la < 512" "PD2X la < 512" "PTX la < 512"
proof -
  have "unat (w AND 0x1FF :: u64) < 512" for w
    using word_and_mask_less [of 9 w] by (simp add: mask_eq_exp_minus_1)
  then show "PD0X la < 512" "PD1X la < 512" "PD2X la < 512" "PTX la < 512"
    by (simp_all add: PD0X_def PD1X_def PD2X_def PTX_def)
qed

lemma unat_ROUNDDOWN: "unat (ROUNDDOWN a n) = unat a - unat a mod unat n"
proof -
  have "a mod n \<le> a" by (simp add: word_le_nat_alt unat_mod_distrib)
  then show ?thesis by (simp add: ROUNDDOWN_def unat_sub unat_mod_distrib)
qed

lemma ROUNDDOWN_dvd: "unat n dvd unat (ROUNDDOWN a n)"
  by (simp add: unat_ROUNDDOWN minus_mod_eq_mult_div)

lemma unat_ROUNDUP:
  assumes "n \<noteq> 0" and "unat a + unat n \<le> 2 ^ 64"
  shows "unat (ROUNDUP a n) = unat n * ((unat a + unat n - 1) div unat n)"
proof -
  have n: "0 < unat n" using assms(1) by (simp add: unat_gt_0)
  have eq: "a + n - 1 = a + (n - 1)" by simp
  have n1: "unat (n - 1) = unat n - 1" using assms(1) by (simp add: unat_minus_one)
  from assms n have "unat a + (unat n - 1) < 2 ^ 64" by simp
  then have "unat (a + n - 1) = unat a + unat n - 1"
    unfolding eq using n by (subst unat_word_ariths(1)) (simp add: n1)
  then show ?thesis
    by (simp add: ROUNDUP_def unat_ROUNDDOWN minus_mod_eq_mult_div)
qed

lemma ROUNDUP_least:
  assumes "n \<noteq> 0" and "unat a + unat n \<le> 2 ^ 64"
  shows "unat n dvd unat (ROUNDUP a n) \<and> unat a \<le> unat (ROUNDUP a n) \<and>
         unat (ROUNDUP a n) < unat a + unat n"
proof -
  have n: "0 < unat n" using assms(1) by (simp add: unat_gt_0)
  let ?m = "unat a + unat n - 1"
  have "?m mod unat n < unat n" using n by simp
  then have "unat a \<le> unat n * (?m div unat n) \<and> unat n * (?m div unat n) < unat a + unat n"
    using n mult_div_mod_eq [of "unat n" ?m] by linarith
  then show ?thesis unfolding unat_ROUNDUP [OF assms] by simp
qed

lemma unat_page2pa: "unat (page2pa n) = n * 4096 + 0x80000000" if "n < 2 ^ 19"
proof -
  have "unat (of_nat n :: u64) = n" using that by (simp add: unat_of_nat)
  then show ?thesis using that by (simp add: page2pa_def push_bit_eq_mult unat_word_ariths)
qed

lemma PGNUM_eq: "PGNUM pa = unat pa mod 2 ^ 31 div 2 ^ 12"
proof -
  have "pa AND PHYMASK = take_bit 31 pa" by (simp add: take_bit_eq_mask mask_eq_exp_minus_1)
  then show ?thesis
    by (simp add: PGNUM_def drop_bit_eq_div take_bit_eq_mod unat_div_distrib unat_mod_distrib)
qed

lemma PDX_eq: "PD0X la = unat la div 2 ^ 39 mod 512" "PD1X la = unat la div 2 ^ 30 mod 512"
   "PD2X la = unat la div 2 ^ 21 mod 512" "PTX la = unat la div 2 ^ 12 mod 512"
proof -
  have m: "unat (drop_bit k la AND 0x1FF) = unat la div 2 ^ k mod 512" for k
  proof -
    have "drop_bit k la AND 0x1FF = take_bit 9 (drop_bit k la)"
      by (simp add: take_bit_eq_mask mask_eq_exp_minus_1)
    then have "unat (drop_bit k la AND 0x1FF) = take_bit 9 (drop_bit k (unat la))"
      by (simp only: unsigned_take_bit_eq unat_drop_bit_eq)
    then show ?thesis
      by (simp add: drop_bit_eq_div take_bit_eq_mod)
  qed
  show "PD0X la = unat la div 2 ^ 39 mod 512" "PD1X la = unat la div 2 ^ 30 mod 512"
   "PD2X la = unat la div 2 ^ 21 mod 512" "PTX la = unat la div 2 ^ 12 mod 512"
    by (simp_all only: PD0X_def PD1X_def PD2X_def PTX_def m)
qed

lemma PTE_PHY_ENTRY: "PTE_PHY (PTE_ENTRY pa OR perm) = pa"
 if "take_bit 12 pa = 0" "drop_bit 56 pa = 0" "drop_bit 10 perm = 0"
proof (rule bit_word_eqI)
  fix i assume i: "i < LENGTH(64)"
  have a: "bit pa i \<Longrightarrow> 12 \<le> i" using that(1) bit_take_bit_iff [of 12 pa i] by (auto simp del: take_bit_eq_0_iff)
  have b: "bit pa i \<Longrightarrow> i < 56" using that(2) bit_drop_bit_eq [of 56 pa, THEN fun_cong, of "i - 56"]
    by (cases "i < 56") auto
  have c: "\<not> bit perm (10 + k)" for k using that(3) bit_drop_bit_eq [of 10 perm, THEN fun_cong, of k] by auto
  show "bit (PTE_PHY (PTE_ENTRY pa OR perm)) i = bit pa i"
    using a b i c [of "i - 12"] by (auto simp: PTE_PHY_def PTE_ENTRY_def bit_simps)
qed

lemma TPGNUM_eq: "TPGNUM la = unat la mod 2 ^ 48 div 2 ^ 12"
proof -
  have "la AND 0x0000ffffffffffff = take_bit 48 la" by (simp add: take_bit_eq_mask mask_eq_exp_minus_1)
  then show ?thesis
    by (simp add: TPGNUM_def drop_bit_eq_div take_bit_eq_mod unat_div_distrib unat_mod_distrib)
qed

lemma TPGNUM_PDX:
  "TPGNUM la = 512 * (512 * (512 * PD0X la + PD1X la) + PD2X la) + PTX la"
proof -
  define u where "u = unat la div 2 ^ 12"
  have d: "unat la div 2 ^ 12 div 512 = unat la div 2 ^ 21"
    "unat la div 2 ^ 21 div 512 = unat la div 2 ^ 30" "unat la div 2 ^ 30 div 512 = unat la div 2 ^ 39"
    by (simp_all flip: div_mult2_eq)
  have "unat la mod (2 ^ 12 * 2 ^ 36) div 2 ^ 12 = u mod 2 ^ 36"
    unfolding u_def by (simp only: mod_mult2_eq) simp
  then have "TPGNUM la = u mod (512 * (512 * (512 * 512)))" by (simp add: TPGNUM_eq)
  also have "\<dots> = 512 * (512 * (512 * (u div 512 div 512 div 512 mod 512) + u div 512 div 512 mod 512)
      + u div 512 mod 512) + u mod 512"
    by (simp only: mod_mult2_eq)
  finally show ?thesis unfolding u_def d PDX_eq .
qed

lemma digit512_eq: "512 * a + b = 512 * a' + b' \<longleftrightarrow> a = a' \<and> b = b'"
  if "b < 512" "b' < 512" for a a' b b' :: nat
proof
  assume eq: "512 * a + b = 512 * a' + b'"
  have "a = (512 * a + b) div 512" "a' = (512 * a' + b') div 512" using that by simp_all
  with eq have "a = a'" by simp
  with eq show "a = a' \<and> b = b'" by simp
qed simp

lemma TPGNUM_eq_iff:
  "TPGNUM va = TPGNUM va' \<longleftrightarrow>
   PD0X va = PD0X va' \<and> PD1X va = PD1X va' \<and> PD2X va = PD2X va' \<and> PTX va = PTX va'"
  unfolding TPGNUM_PDX by (simp only: digit512_eq PDX_less conj_assoc)

lemma u64_masks: "(0x1FF :: u64) = mask 9" "(0xFFF :: u64) = mask 12" "(0x0000ffffffffffff :: u64) = mask 48"
  by (simp_all add: mask_eq_exp_minus_1)

lemma bit_less_exp: "bit (w :: u64) i \<Longrightarrow> unat w < 2 ^ n \<Longrightarrow> i < n"
proof (rule ccontr)
  assume b: "bit w i" and w: "unat w < 2 ^ n" and i: "\<not> i < n"
  from w have "unat (take_bit n w) = unat w"
    by (simp only: unsigned_take_bit_eq take_bit_nat_eq_self)
  then have "take_bit n w = w" by (simp only: word_unat_eq_iff)
  with b i show False by (metis bit_take_bit_iff)
qed

lemma PGNUM_page2pa: "n < 2 ^ 19 \<Longrightarrow> PGNUM (page2pa n) = n"
  by (simp add: PGNUM_eq unat_page2pa)

lemma page2pa_inj: "page2pa m = page2pa n \<Longrightarrow> m < 2^19 \<Longrightarrow> n < 2^19 \<Longrightarrow> m = n"
  by (metis PGNUM_page2pa)

lemma page2pa_shape: "n < 2 ^ 19 \<Longrightarrow> take_bit 12 (page2pa n) = 0" "n < 2 ^ 19 \<Longrightarrow> drop_bit 56 (page2pa n) = 0"
proof -
  assume n: "n < 2 ^ 19"
  have "unat (take_bit 12 (page2pa n)) = 0"
    by (simp add: unsigned_take_bit_eq unat_page2pa [OF n] take_bit_eq_mod unat_mod_distrib)
  then show "take_bit 12 (page2pa n) = 0" by (simp add: unat_eq_zero)
  have "unat (drop_bit 56 (page2pa n)) = 0" using n
    by (simp add: unat_drop_bit_eq unat_page2pa [OF n] drop_bit_eq_div unat_div_distrib)
  then show "drop_bit 56 (page2pa n) = 0" by (simp add: unat_eq_zero)
qed

lemma PGADDR_decompose:
  "PGADDR (of_nat (PD0X la)) (of_nat (PD1X la)) (of_nat (PD2X la)) (of_nat (PTX la)) (PGOFF la)
   = la AND 0x0000ffffffffffff"
proof (rule bit_word_eqI)
  fix i assume i: "i < LENGTH(64)"
  consider "i < 12" | "12 \<le> i" "i < 21" | "21 \<le> i" "i < 30" | "30 \<le> i" "i < 39"
    | "39 \<le> i" "i < 48" | "48 \<le> i" by linarith
  then show "bit (PGADDR (of_nat (PD0X la)) (of_nat (PD1X la)) (of_nat (PD2X la)) (of_nat (PTX la)) (PGOFF la)) i
    = bit (la AND 0x0000ffffffffffff) i"
    unfolding PGADDR_def PD0X_def PD1X_def PD2X_def PTX_def PGOFF_def u64_masks
    using i by cases (simp_all add: bit_simps less_diff_conv2, auto?)
qed

lemma PDX_PGADDR:
  assumes "d0 < 512" "d1 < 512" "d2 < 512" "t < 512" "off < 4096"
  shows "PD0X (PGADDR d0 d1 d2 t off) = unat d0" "PD1X (PGADDR d0 d1 d2 t off) = unat d1"
    "PD2X (PGADDR d0 d1 d2 t off) = unat d2" "PTX (PGADDR d0 d1 d2 t off) = unat t"
    "PGOFF (PGADDR d0 d1 d2 t off) = off"
proof -
  have lt: "bit d0 i \<Longrightarrow> i < 9" "bit d1 i \<Longrightarrow> i < 9" "bit d2 i \<Longrightarrow> i < 9" "bit t i \<Longrightarrow> i < 9"
    "bit off i \<Longrightarrow> i < 12" for i
    using assms bit_less_exp [of _ i 9] bit_less_exp [of _ i 12] by (auto simp: word_less_nat_alt)
  have "drop_bit 39 (PGADDR d0 d1 d2 t off) AND 0x1FF = d0"
       "drop_bit 30 (PGADDR d0 d1 d2 t off) AND 0x1FF = d1"
       "drop_bit 21 (PGADDR d0 d1 d2 t off) AND 0x1FF = d2"
       "drop_bit 12 (PGADDR d0 d1 d2 t off) AND 0x1FF = t"
       "PGADDR d0 d1 d2 t off AND 0xFFF = off"
    unfolding u64_masks by (rule bit_word_eqI, auto simp: PGADDR_def bit_simps dest: lt)+
  then show "PD0X (PGADDR d0 d1 d2 t off) = unat d0" "PD1X (PGADDR d0 d1 d2 t off) = unat d1"
    "PD2X (PGADDR d0 d1 d2 t off) = unat d2" "PTX (PGADDR d0 d1 d2 t off) = unat t"
    "PGOFF (PGADDR d0 d1 d2 t off) = off"
    by (simp_all only: PD0X_def PD1X_def PD2X_def PTX_def PGOFF_def)
qed

lemma TPGNUM_add:
  "TPGNUM (va + of_nat i * PGSIZE) = (TPGNUM va + i) mod 2 ^ 36"
proof -
  let ?x = "unat va + i * 4096"
  have "unat (va + of_nat i * PGSIZE) mod 2 ^ 48 = ?x mod 2 ^ 48"
  proof -
    have "unat (va + of_nat i * PGSIZE) = ?x mod 2 ^ 64"
      by (simp add: unat_word_ariths unat_of_nat mod_simps)
    then show ?thesis using mod_mod_cancel [of "2 ^ 48" "2 ^ 64 :: nat" ?x] by (simp add: dvd_def)
  qed
  then have "TPGNUM (va + of_nat i * PGSIZE) = ?x mod (2 ^ 12 * 2 ^ 36) div 2 ^ 12"
    by (simp add: TPGNUM_eq)
  also have "\<dots> = ?x div 2 ^ 12 mod 2 ^ 36" by (simp only: mod_mult2_eq) simp
  also have "?x div 2 ^ 12 = unat va div 2 ^ 12 + i" by simp
  also have "(unat va div 2 ^ 12 + i) mod 2 ^ 36 = (unat va div 2 ^ 12 mod 2 ^ 36 + i) mod 2 ^ 36"
    by (simp only: mod_add_left_eq)
  also have "unat va div 2 ^ 12 mod 2 ^ 36 = TPGNUM va"
  proof -
    have "unat va mod (2 ^ 12 * 2 ^ 36) div 2 ^ 12 = unat va div 2 ^ 12 mod 2 ^ 36"
      by (simp only: mod_mult2_eq) simp
    then show ?thesis by (simp add: TPGNUM_eq)
  qed
  finally show ?thesis .
qed

lemma TPGNUM_add_distinct:
  assumes "0 < i" "i < 2 ^ 36"
  shows "TPGNUM (va + of_nat i * PGSIZE) \<noteq> TPGNUM va"
proof -
  have lt: "TPGNUM va < 2 ^ 36" by (simp add: TPGNUM_eq less_mult_imp_div_less)
  show ?thesis
  proof (cases "TPGNUM va + i < 2 ^ 36")
    case True
    then show ?thesis using assms by (simp add: TPGNUM_add)
  next
    case False
    then have "(TPGNUM va + i) mod 2 ^ 36 = TPGNUM va + i - 2 ^ 36"
      using lt assms by (simp add: mod_if)
    then show ?thesis using False assms unfolding TPGNUM_add by linarith
  qed
qed

text \<open>A page and the offset in it.\<close>

lemma TPGNUM_div: "TPGNUM la = unat la div 4096 mod 2 ^ 36"
proof -
  have "unat la mod (2 ^ 12 * 2 ^ 36) div 2 ^ 12 = unat la div 2 ^ 12 mod 2 ^ 36"
    by (simp only: mod_mult2_eq) simp
  then show ?thesis by (simp add: TPGNUM_eq)
qed

lemma unat_PGOFF: "unat (PGOFF va) = unat va mod 4096"
proof -
  have "PGOFF va = take_bit 12 va" by (simp add: PGOFF_def take_bit_eq_mask mask_eq_exp_minus_1)
  then show ?thesis by (simp add: take_bit_eq_mod unat_mod_distrib)
qed

lemma page_offset:
  assumes "D mod PGSIZE = 0" "j < 4096"
  shows "unat (D + of_nat j) = unat D + j" "TPGNUM (D + of_nat j) = TPGNUM D" "unat (PGOFF (D + of_nat j)) = j"
proof -
  have d: "unat D mod 4096 = 0" using arg_cong [OF assms(1), of unat] by (simp add: unat_mod_distrib)
  then obtain q where q: "unat D = 4096 * q" by auto
  moreover have "unat D < 2 ^ 64" using unsigned_less [of D] by simp
  ultimately have "q < 2 ^ 52" by simp
  then have "4096 * q + j < 2 ^ 64" using assms(2) by simp
  then show u: "unat (D + of_nat j) = unat D + j"
    using q assms(2) by (simp add: unat_word_ariths unat_of_nat)
  show "TPGNUM (D + of_nat j) = TPGNUM D" using q assms(2) by (simp add: TPGNUM_div u)
  show "unat (PGOFF (D + of_nat j)) = j" using q assms(2) by (simp add: unat_PGOFF u)
qed

lemma page_split: "va = ROUNDDOWN va PGSIZE + of_nat (unat (PGOFF va))" "ROUNDDOWN va PGSIZE mod PGSIZE = 0"
  "TPGNUM (ROUNDDOWN va PGSIZE) = TPGNUM va" "unat (PGOFF va) < 4096"
proof -
  show o: "unat (PGOFF va) < 4096" by (simp add: unat_PGOFF)
  have u: "unat (ROUNDDOWN va PGSIZE) = unat va - unat va mod 4096" using unat_ROUNDDOWN [of va PGSIZE] by simp
  show m: "ROUNDDOWN va PGSIZE mod PGSIZE = 0"
    using ROUNDDOWN_dvd [of PGSIZE va] by (simp add: word_unat_eq_iff unat_mod_distrib)
  have "unat (ROUNDDOWN va PGSIZE + of_nat (unat (PGOFF va))) = unat va"
    using page_offset(1) [OF m o] u by (simp add: unat_PGOFF)
  then show "va = ROUNDDOWN va PGSIZE + of_nat (unat (PGOFF va))" by (simp add: word_unat_eq_iff)
  show "TPGNUM (ROUNDDOWN va PGSIZE) = TPGNUM va"
    by (simp only: TPGNUM_div u) (simp add: minus_mod_eq_mult_div)
qed

section \<open>Round trips\<close>

text \<open>\<open>ROUNDUP\<close> gives the least multiple of \<open>n\<close> that is not below its argument and
  \<open>ROUNDDOWN\<close> the greatest multiple not above it, as long as the addition does not wrap.\<close>

theorem rounding_correct:
  assumes "n \<noteq> 0" and "unat a + unat n \<le> 2 ^ 64"
  shows "unat n dvd unat (ROUNDUP a n) \<and> unat a \<le> unat (ROUNDUP a n) \<and>
         unat (ROUNDUP a n) < unat a + unat n \<and>
         unat n dvd unat (ROUNDDOWN a n) \<and> unat (ROUNDDOWN a n) \<le> unat a \<and>
         unat a < unat (ROUNDDOWN a n) + unat n"
proof -
  have "0 < unat n" using assms(1) by (simp add: unat_gt_0)
  then have "unat a mod unat n < unat n" by simp
  then have "unat a < unat a - unat a mod unat n + unat n" by linarith
  then show ?thesis
    using ROUNDUP_least [OF assms] ROUNDDOWN_dvd by (simp add: unat_ROUNDDOWN)
qed

theorem rounding_correct_witness:
  "unat (ROUNDUP 0x1234 PGSIZE) = 0x2000 \<and> unat (ROUNDDOWN 0x1234 PGSIZE) = 0x1000"
proof -
  have "unat (PGSIZE :: u64) dvd unat (ROUNDUP 0x1234 PGSIZE) \<and> unat (0x1234 :: u64) \<le> unat (ROUNDUP 0x1234 PGSIZE)"
    using rounding_correct [of PGSIZE "0x1234"] by simp
  then show ?thesis by (simp add: unat_ROUNDDOWN unat_ROUNDUP)
qed

text \<open>The indices and the offset decompose a virtual address: \<open>PGADDR\<close> of them gives the
  address back up to the sixteen sign bits, and the indices of an address built by \<open>PGADDR\<close> from
  values in range are those values.\<close>

theorem pgaddr_round_trip:
  shows "PGADDR (of_nat (PD0X la)) (of_nat (PD1X la)) (of_nat (PD2X la)) (of_nat (PTX la)) (PGOFF la)
       = la AND 0x0000ffffffffffff \<and>
     (d0 < 512 \<and> d1 < 512 \<and> d2 < 512 \<and> t < 512 \<and> off < 4096 \<longrightarrow>
       PD0X (PGADDR d0 d1 d2 t off) = unat d0 \<and> PD1X (PGADDR d0 d1 d2 t off) = unat d1 \<and>
       PD2X (PGADDR d0 d1 d2 t off) = unat d2 \<and> PTX (PGADDR d0 d1 d2 t off) = unat t \<and>
       PGOFF (PGADDR d0 d1 d2 t off) = off)"
proof (rule conjI [OF PGADDR_decompose], rule impI)
  assume "d0 < 512 \<and> d1 < 512 \<and> d2 < 512 \<and> t < 512 \<and> off < 4096"
  then have "d0 < 512" "d1 < 512" "d2 < 512" "t < 512" "off < 4096" by auto
  note r = PDX_PGADDR [OF this]
  show "PD0X (PGADDR d0 d1 d2 t off) = unat d0 \<and> PD1X (PGADDR d0 d1 d2 t off) = unat d1 \<and>
       PD2X (PGADDR d0 d1 d2 t off) = unat d2 \<and> PTX (PGADDR d0 d1 d2 t off) = unat t \<and>
       PGOFF (PGADDR d0 d1 d2 t off) = off"
    by (intro conjI r)
qed

theorem pgaddr_round_trip_witness: "PD2X (PGADDR 1 2 3 4 5) = 3 \<and> PGOFF (PGADDR 1 2 3 4 5) = 5"
  using pgaddr_round_trip [of 0 1 2 3 4 5] by simp

text \<open>A page-table entry built from page number \<open>n\<close> and flag bits is read back as page
  \<open>n\<close>, for every page number below the \<open>2^19\<close> the 31-bit mask of \<open>PGNUM\<close> allows.\<close>

theorem pte_round_trip:
  assumes "n < 2 ^ 19" "drop_bit 10 perm = 0"
  shows "PTE_PHY (PTE_ENTRY (page2pa n) OR perm) = page2pa n \<and>
     PGNUM (PTE_PHY (PTE_ENTRY (page2pa n) OR perm)) = n"
  using assms PTE_PHY_ENTRY [of "page2pa n" perm] page2pa_shape [of n] PGNUM_page2pa [of n] by simp

theorem pte_round_trip_witness: "PGNUM (PTE_PHY (PTE_ENTRY (page2pa 300) OR 0x1F)) = 300"
  using pte_round_trip [of 300 "0x1F"] by (simp add: drop_bit_eq_div word_unat_eq_iff unat_div_distrib)

end
