(* ===== verification/Handles.thy ===== *)
theory Handles
  imports Kernel_Prelude
begin

text \<open>
  The contract of tables of objects that clients name by handles: the environments of the kernel
  (\<open>Env_Id\<close>) and the open files of the file server (\<open>Fs_Serv\<close>). A handle is an index in the table
  together with a generation, which changes whenever the slot is reused. \<open>valid h i\<close> says that slot
  \<open>i\<close> may carry the handle \<open>h\<close>.
\<close>

definition lookup_handle :: "('h \<Rightarrow> nat) \<Rightarrow> (nat \<Rightarrow> 'h) \<Rightarrow> 'h \<Rightarrow> nat option" where
  "lookup_handle index tab h = (if tab (index h) = h then Some (index h) else None)"

locale handle_table =
  fixes index :: "'h \<Rightarrow> nat"
    and valid :: "'h \<Rightarrow> nat \<Rightarrow> bool"
    and fresh :: "'h \<Rightarrow> nat \<Rightarrow> 'h"
  assumes fresh_index: "valid h i \<Longrightarrow> index (fresh h i) = i"
    and fresh_valid: "valid h i \<Longrightarrow> valid (fresh h i) i"
    and fresh_neq: "valid h i \<Longrightarrow> fresh h i \<noteq> h"
begin

text \<open>Reusing a slot: the new handle finds it, the handle it replaces is found nowhere, and the
  handles of other slots are as before.\<close>

lemma reuse:
  assumes v: "valid (tab i) i" and old: "lookup_handle index tab h = Some i"
  shows "lookup_handle index (tab(i := fresh (tab i) i)) (fresh (tab i) i) = Some i"
    "lookup_handle index (tab(i := fresh (tab i) i)) h = None"
    "lookup_handle index tab g = Some j \<Longrightarrow> j \<noteq> i \<Longrightarrow> lookup_handle index (tab(i := fresh (tab i) i)) g = Some j"
  using fresh_index [OF v] fresh_neq [OF v] old by (auto simp: lookup_handle_def split: if_splits)

end

end
