(* ===== verification/Env_Id.thy ===== *)
theory Env_Id
  imports Handles
begin

unbundle bit_operations_syntax

text \<open>
  Environment identifiers (\<^verbatim>\<open>inc/riscv/env.h\<close> and the generation step of \<open>env_alloc\<close> in
  \<^verbatim>\<open>kern/riscv/env.c\<close>): the low ten bits are the index in \<^verbatim>\<open>envs[]\<close>, the rest is a
  generation number. An identifier is a signed 32-bit integer.
\<close>

abbreviation (input) NENV :: nat where "NENV \<equiv> 1024"

definition ENVX :: "u32 \<Rightarrow> nat" where
  "ENVX envid = unat (envid AND (of_nat NENV - 1))"

definition next_env_id :: "u32 \<Rightarrow> nat \<Rightarrow> u32" where
  "next_env_id old e =
     (let generation = (old + push_bit 12 1) AND NOT (of_nat NENV - 1);
          generation' = (if sint generation \<le> 0 then push_bit 12 1 else generation)
      in generation' OR of_nat e)"

section \<open>Arithmetic\<close>

lemma sint32: "sint (w :: u32) = (if unat w < 2 ^ 31 then int (unat w) else int (unat w) - 2 ^ 32)"
proof -
  have b: "0 \<le> uint w" "uint w < 2 ^ 32" using uint_lt2p [of w] by simp_all
  have "sint w = take_bit 32 (uint w) - 2 ^ 32 * of_bool (bit (uint w) 31)"
    by (simp add: sint_uint signed_take_bit_eq_take_bit_minus)
  moreover have "take_bit 32 (uint w) = uint w" using b by (simp add: take_bit_int_eq_self)
  moreover have "bit (uint w) 31 \<longleftrightarrow> 2 ^ 31 \<le> uint w"
  proof -
    have "uint w div 2 ^ 31 = (if 2 ^ 31 \<le> uint w then 1 else 0)"
      using b by auto
    then show ?thesis by (simp add: bit_iff_odd)
  qed
  moreover have "unat w < 2 ^ 31 \<longleftrightarrow> uint w < 2 ^ 31"
    using b(1) by (simp only: unat_eq_nat_uint nat_less_iff of_nat_power of_nat_numeral)
  ultimately show ?thesis by auto
qed

lemma sint_pos: "0 < sint (w :: u32) \<longleftrightarrow> 0 < unat w \<and> unat w < 2 ^ 31"
proof (cases "unat w < 2 ^ 31")
  case False
  have "int (unat w) < 2 ^ 32" using unsigned_less [of w, where 'a = int] by simp
  then have "\<not> 0 < int (unat w) - 2 ^ 32" by linarith
  with False show ?thesis by (simp only: sint32 if_False simp_thms)
qed (simp only: sint32 if_True of_nat_0_less_iff simp_thms)

lemma mask10: "(of_nat NENV - 1 :: u32) = mask 10"
  by (simp add: mask_eq_exp_minus_1)

lemma ENVX_mod: "ENVX w = unat w mod 1024"
proof -
  have "ENVX w = unat (take_bit 10 w)" by (simp only: ENVX_def mask10 take_bit_eq_mask)
  also have "\<dots> = take_bit 10 (unat w)" by (rule unsigned_take_bit_eq)
  finally show ?thesis by (simp add: take_bit_eq_mod)
qed

lemma ENVX_less [simp]: "ENVX w < 1024"
  by (simp add: ENVX_mod)

lemma unat_and_not_mask10: "unat (x AND NOT (of_nat NENV - 1) :: u32) = unat x div 1024 * 1024"
proof -
  have "x AND NOT (mask 10) = push_bit 10 (drop_bit 10 x)"
    by (rule bit_word_eqI) (auto simp: bit_simps)
  moreover have "unat x div 1024 * 1024 \<le> unat x" by simp
  then have "unat x div 1024 * 1024 < 2 ^ 32" using unsigned_less [of x, where 'a = nat] by simp
  ultimately show ?thesis unfolding mask10
    by (simp add: push_bit_eq_mult drop_bit_eq_div unat_word_ariths unat_div_distrib)
qed

text \<open>The generation part: a multiple of 1024 that is positive as a signed number.\<close>

definition gen_of :: "u32 \<Rightarrow> u32" where
  "gen_of old =
     (let g = (old + push_bit 12 1) AND NOT (of_nat NENV - 1) in
      if sint g \<le> 0 then push_bit 12 1 else g)"

lemma gen_of_range: "unat (gen_of old) mod 1024 = 0" "0 < unat (gen_of old)" "unat (gen_of old) < 2 ^ 31"
proof -
  let ?g = "(old + push_bit 12 1) AND NOT (of_nat NENV - 1) :: u32"
  have "unat ?g mod 1024 = 0" by (simp only: unat_and_not_mask10) simp
  moreover have "sint ?g > 0 \<Longrightarrow> 0 < unat ?g \<and> unat ?g < 2 ^ 31" by (simp only: sint_pos)
  ultimately show "unat (gen_of old) mod 1024 = 0" "0 < unat (gen_of old)" "unat (gen_of old) < 2 ^ 31"
    by (simp_all add: gen_of_def Let_def push_bit_eq_mult)
qed

lemma unat_next_env_id:
  assumes "e < 1024"
  shows "unat (next_env_id old e) = unat (gen_of old) + e"
proof -
  have b: "bit (of_nat e :: u32) i \<Longrightarrow> i < 10" for i
  proof -
    assume "bit (of_nat e :: u32) i"
    moreover have "take_bit 10 (of_nat e :: u32) = of_nat e"
      using assms by (simp add: word_unat_eq_iff unsigned_take_bit_eq unat_of_nat take_bit_nat_eq_self)
    ultimately show "i < 10" by (metis bit_take_bit_iff)
  qed
  have "unat (take_bit 10 (gen_of old)) = take_bit 10 (unat (gen_of old))" by (rule unsigned_take_bit_eq)
  also have "\<dots> = 0" using gen_of_range(1) [of old] by (simp add: take_bit_eq_mod)
  finally have "unat (take_bit 10 (gen_of old)) = 0" .
  then have "take_bit 10 (gen_of old) = 0" by (simp add: unat_eq_zero)
  then have "i < 10 \<Longrightarrow> \<not> bit (gen_of old) i" for i by (metis bit_take_bit_iff bit_0_eq bot_apply bot_bool_def)
  with b have "gen_of old + of_nat e = gen_of old OR of_nat e" by (intro disjunctive_add) blast
  then have "next_env_id old e = gen_of old + of_nat e" by (simp add: next_env_id_def gen_of_def Let_def)
  then show ?thesis using assms gen_of_range(3) [of old] by (simp add: unat_word_ariths unat_of_nat)
qed

lemma next_env_id_facts:
  assumes "e < 1024"
  shows "0 < sint (next_env_id old e)" "ENVX (next_env_id old e) = e" "next_env_id old e \<noteq> 0"
proof -
  have g: "unat (gen_of old) mod 1024 = 0" "0 < unat (gen_of old)" "unat (gen_of old) < 2 ^ 31"
    by (rule gen_of_range)+
  then obtain k where k: "unat (gen_of old) = 1024 * k" by auto
  with g have "k < 2 ^ 21" by simp
  then have lt: "unat (gen_of old) + e < 2 ^ 31" using assms k by simp
  show "0 < sint (next_env_id old e)" using lt g(2) by (simp only: sint_pos unat_next_env_id [OF assms]) simp
  then show "next_env_id old e \<noteq> 0" by auto
  show "ENVX (next_env_id old e) = e"
    using g(1) assms by (simp add: ENVX_mod unat_next_env_id [OF assms] mod_add_eq [symmetric])
qed

lemma next_env_id_neq:
  assumes e: "e < 1024"
  shows "next_env_id old e \<noteq> old"
proof
  assume eq: "next_env_id old e = old"
  then have u: "unat old = unat (gen_of old) + e" using unat_next_env_id [OF e, of old] by simp
  obtain k where k: "unat (gen_of old) = 1024 * k" using gen_of_range(1) [of old] by auto
  let ?g = "(old + push_bit 12 1) AND NOT (of_nat NENV - 1) :: u32"
  have "unat (gen_of old) < 2 ^ 31" by (rule gen_of_range)
  then have "unat (old + push_bit 12 1) = 1024 * (k + 4) + e"
    using u k e by (simp add: unat_word_ariths push_bit_eq_mult)
  moreover have "(1024 * (k + 4) + e) div 1024 = k + 4" using e by simp
  ultimately have "unat ?g = (k + 4) * 1024" by (simp only: unat_and_not_mask10)
  note g = this
  show False
  proof (cases "0 < sint ?g")
    case True
    then have "gen_of old = ?g" by (simp only: gen_of_def Let_def not_le if_False linorder_not_less [symmetric] simp_thms)
    with g k show False by simp
  next
    case False
    then have "gen_of old = push_bit 12 1" by (simp only: gen_of_def Let_def not_less if_True)
    then have "k = 4" using k by (simp add: push_bit_eq_mult)
    with False g show False by (simp only: sint_pos) simp
  qed
qed

interpretation eh: handle_table ENVX "\<lambda>_ e. e < NENV" next_env_id
  by unfold_locales (simp_all add: next_env_id_facts next_env_id_neq)

text \<open>Every identifier \<open>env_alloc\<close> generates is positive as a signed integer, carries the
  index of its environment, and differs from the identifier the slot had before, so an identifier of
  an environment that has been replaced is recognised as stale.\<close>

theorem next_env_id_correct:
  assumes e: "e < NENV"
  shows "0 < sint (next_env_id old e) \<and> ENVX (next_env_id old e) = e \<and> next_env_id old e \<noteq> old"
  using next_env_id_facts [OF e] next_env_id_neq [OF e] by simp

theorem next_env_id_correct_witness:
  "0 < sint (next_env_id 0x7FFFF005 5) \<and> ENVX (next_env_id 0x7FFFF005 5) = 5 \<and>
   next_env_id 0x7FFFF005 5 \<noteq> 0x7FFFF005"
  using next_env_id_correct [of 5 "0x7FFFF005"] by simp

end
