(* ===== verification/Fifo.thy ===== *)
theory Fifo
  imports Kernel_Prelude
begin

text \<open>
  The contract of the byte queues of the system: the console's input buffer (\<open>Console\<close>) and the
  buffer of a pipe (\<open>Pipe\<close>). A queue holds at most \<open>cap\<close> elements; \<open>inv n q\<close> says that \<open>q\<close> is
  well-formed and takes \<open>n\<close> more elements before its counters run out.
\<close>

primrec put_all :: "('a \<Rightarrow> 'q \<Rightarrow> 'q option) \<Rightarrow> 'a list \<Rightarrow> 'q \<Rightarrow> 'q option" where
  "put_all put [] q = Some q"
| "put_all put (x # xs) q = do { q1 \<leftarrow> put x q; put_all put xs q1 }"

primrec get_times :: "('q \<Rightarrow> ('a \<times> 'q) option) \<Rightarrow> nat \<Rightarrow> 'q \<Rightarrow> ('a list \<times> 'q) option" where
  "get_times get 0 q = Some ([], q)"
| "get_times get (Suc n) q = do {
     (x, q1) \<leftarrow> get q;
     (xs, q2) \<leftarrow> get_times get n q1;
     Some (x # xs, q2) }"

locale fifo =
  fixes inv :: "nat \<Rightarrow> 'q \<Rightarrow> bool"
    and contents :: "'q \<Rightarrow> 'a list"
    and put :: "'a \<Rightarrow> 'q \<Rightarrow> 'q option"
    and get :: "'q \<Rightarrow> ('a \<times> 'q) option"
    and cap :: nat
  assumes put_law: "inv (Suc n) q \<Longrightarrow> length (contents q) < cap \<Longrightarrow>
      \<exists>q'. put x q = Some q' \<and> inv n q' \<and> contents q' = contents q @ [x]"
    and get_law: "inv n q \<Longrightarrow> contents q = x # xs \<Longrightarrow> \<exists>q'. get q = Some (x, q') \<and> inv n q' \<and> contents q' = xs"
begin

lemma put_all_law:
  "inv (length xs + n) q \<Longrightarrow> length (contents q) + length xs \<le> cap \<Longrightarrow>
   \<exists>q'. put_all put xs q = Some q' \<and> inv n q' \<and> contents q' = contents q @ xs"
proof (induction xs arbitrary: q)
  case (Cons x xs)
  have "inv (Suc (length xs + n)) q" "length (contents q) < cap" using Cons.prems by simp_all
  from put_law [OF this] obtain q1 where q1: "put x q = Some q1" "inv (length xs + n) q1" "contents q1 = contents q @ [x]"
    by blast
  with Cons.IH [OF q1(2)] Cons.prems(2) show ?case by simp
qed simp

lemma get_times_law:
  "inv n q \<Longrightarrow> contents q = xs @ ys \<Longrightarrow> \<exists>q'. get_times get (length xs) q = Some (xs, q') \<and> inv n q' \<and> contents q' = ys"
proof (induction xs arbitrary: q)
  case (Cons x xs)
  from Cons.prems(2) have "contents q = x # (xs @ ys)" by simp
  from get_law [OF Cons.prems(1) this] obtain q1 where q1: "get q = Some (x, q1)" "inv n q1" "contents q1 = xs @ ys" by blast
  from Cons.IH [OF q1(2,3)] q1(1) show ?case by auto
qed simp

text \<open>Elements come out in the order in which they went in.\<close>

lemma put_get:
  assumes "inv (length xs + n) q" "contents q = []" "length xs \<le> cap"
  shows "\<exists>q1 q2. put_all put xs q = Some q1 \<and> get_times get (length xs) q1 = Some (xs, q2) \<and> inv n q2 \<and> contents q2 = []"
proof -
  obtain q1 where q1: "put_all put xs q = Some q1" "inv n q1" "contents q1 = xs @ []"
    using put_all_law [OF assms(1)] assms(2,3) by auto
  from get_times_law [OF q1(2,3)] q1(1) show ?thesis by blast
qed

end

end
