(* ===== verification/Console.thy ===== *)
theory Console
  imports Fifo
begin

text \<open>
  The console of \<^verbatim>\<open>kern/riscv/console.c\<close> and the clock of \<^verbatim>\<open>kern/riscv/time.c\<close>: the
  512-byte circular input buffer filled by the serial interrupt and drained by \<open>cons_getc\<close>.
  The firmware's console is represented by the results its \<^verbatim>\<open>sbi_console_getchar\<close> still has to
  deliver (\<open>uart_in\<close>; when the list is empty the call returns -1) and by the characters given to
  \<^verbatim>\<open>sbi_console_putchar\<close> (\<open>uart_out\<close>, latest first).

  The buffer is shown to refine a queue as long as fewer than 512 characters wait. A buffer
  that reaches 512 characters is indistinguishable from an empty one.
\<close>

section \<open>State and operations\<close>

abbreviation (input) CONSBUFSIZE :: u32 where "CONSBUFSIZE \<equiv> 512"

record console =
  buf :: "nat \<Rightarrow> u8"
  rpos :: u32
  wpos :: u32
  serial_exists :: bool
  uart_in :: "int list"
  uart_out :: "int list"

definition serial_proc_data :: "console \<Rightarrow> int \<times> console" where
  "serial_proc_data c = (case uart_in c of [] \<Rightarrow> (-1, c) | x # xs \<Rightarrow> (x, c\<lparr>uart_in := xs\<rparr>))"

definition cons_store :: "int \<Rightarrow> console \<Rightarrow> console" where
  "cons_store x c =
     (let c1 = c\<lparr>buf := (buf c)(unat (wpos c) := word_of_int x), wpos := wpos c + 1\<rparr>
      in if wpos c1 = CONSBUFSIZE then c1\<lparr>wpos := 0\<rparr> else c1)"

text \<open>The interrupt routine calls the device until it returns -1 and skips null characters.\<close>

function cons_intr :: "console \<Rightarrow> console" where
  "cons_intr c =
     (let (x, c1) = serial_proc_data c in
      if x = -1 then c1
      else if x = 0 then cons_intr c1
      else cons_intr (cons_store x c1))"
  by pat_completeness auto
termination
proof (relation "measure (\<lambda>c. length (uart_in c))")
  fix c x y c1
  assume "x = serial_proc_data c" "(y, c1) = x" "y \<noteq> -1"
  then have "length (uart_in c1) < length (uart_in c)"
    by (auto simp: serial_proc_data_def split: list.splits)
  then show "y = 0 \<Longrightarrow> (c1, c) \<in> measure (\<lambda>c. length (uart_in c))"
    and "y \<noteq> 0 \<Longrightarrow> (cons_store y c1, c) \<in> measure (\<lambda>c. length (uart_in c))"
    by (simp_all add: cons_store_def Let_def)
qed simp

declare cons_intr.simps [simp del]

definition serial_intr :: "console \<Rightarrow> console" where
  "serial_intr c = (if serial_exists c then cons_intr c else c)"

definition cons_take :: "console \<Rightarrow> u8 \<times> console" where
  "cons_take c =
     (let x = buf c (unat (rpos c)); c1 = c\<lparr>rpos := rpos c + 1\<rparr>
      in (x, if rpos c1 = CONSBUFSIZE then c1\<lparr>rpos := 0\<rparr> else c1))"

definition cons_getc :: "console \<Rightarrow> u8 \<times> console" where
  "cons_getc c =
     (let c1 = serial_intr c in if rpos c1 \<noteq> wpos c1 then cons_take c1 else (0, c1))"

definition serial_init :: "console \<Rightarrow> console" where
  "serial_init c = c\<lparr>serial_exists := True\<rparr>"

definition cons_putc :: "int \<Rightarrow> console \<Rightarrow> console" where
  "cons_putc x c = c\<lparr>uart_out := x # uart_out c\<rparr>"

text \<open>\<open>getchar\<close> polls until a character arrives; with a silent line it does not return.\<close>

partial_function (option) getchar :: "console \<Rightarrow> (u8 \<times> console) option" where
  "getchar c = (let (x, c1) = cons_getc c in if x = 0 then getchar c1 else Some (x, c1))"

section \<open>The buffer as a queue\<close>

definition cons_wf :: "console \<Rightarrow> bool" where
  "cons_wf c \<longleftrightarrow> unat (rpos c) < 512 \<and> unat (wpos c) < 512"

definition pending :: "console \<Rightarrow> nat" where
  "pending c = (unat (wpos c) + 512 - unat (rpos c)) mod 512"

definition queue :: "console \<Rightarrow> u8 list" where
  "queue c = map (\<lambda>k. buf c ((unat (rpos c) + k) mod 512)) [0..<pending c]"

text \<open>The characters one run of the interrupt routine stores.\<close>

fun received :: "int list \<Rightarrow> u8 list" where
  "received [] = []"
| "received (x # xs) =
     (if x = -1 then [] else if x = 0 then received xs else word_of_int x # received xs)"

lemma pending_less [simp]: "pending c < 512"
  by (simp add: pending_def)

lemma cons_store_wpos:
  assumes "cons_wf c"
  shows "unat (wpos (cons_store x c)) = (unat (wpos c) + 1) mod 512" "cons_wf (cons_store x c)"
    "rpos (cons_store x c) = rpos c" "uart_in (cons_store x c) = uart_in c"
    "buf (cons_store x c) = (buf c)(unat (wpos c) := word_of_int x)"
    "serial_exists (cons_store x c) = serial_exists c"
proof -
  have u: "unat (wpos c + 1) = unat (wpos c) + 1"
    using assms by (simp add: unat_word_ariths cons_wf_def)
  then have "wpos c + 1 = 512 \<longleftrightarrow> unat (wpos c) + 1 = 512" by (simp add: word_unat_eq_iff)
  with u assms show "unat (wpos (cons_store x c)) = (unat (wpos c) + 1) mod 512" "cons_wf (cons_store x c)"
    "rpos (cons_store x c) = rpos c" "uart_in (cons_store x c) = uart_in c"
    "buf (cons_store x c) = (buf c)(unat (wpos c) := word_of_int x)"
    "serial_exists (cons_store x c) = serial_exists c"
    by (auto simp: cons_store_def cons_wf_def Let_def)
qed

lemma ring_dist: "r < 512 \<Longrightarrow> w < 512 \<Longrightarrow> (w + 512 - r) mod 512 = (if r \<le> w then w - r else w + 512 - r)"
  for r w :: nat
  by (auto simp: mod_if)

lemma ring_next: "w < 512 \<Longrightarrow> (w + 1) mod 512 = (if w = 511 then 0 else w + 1)" for w :: nat
  by auto

lemma ring_index: "r < 512 \<Longrightarrow> k < 512 \<Longrightarrow> (r + k) mod 512 = (if r + k < 512 then r + k else r + k - 512)"
  for r k :: nat
  by (auto simp: mod_if)

lemma pending_eq:
  "cons_wf c \<Longrightarrow> pending c = (if unat (rpos c) \<le> unat (wpos c) then unat (wpos c) - unat (rpos c)
     else unat (wpos c) + 512 - unat (rpos c))"
  using ring_dist [of "unat (rpos c)" "unat (wpos c)"] by (simp add: pending_def cons_wf_def)

lemma queue_store:
  assumes wf: "cons_wf c" and room: "pending c < 511"
  shows "queue (cons_store x c) = queue c @ [word_of_int x]" "pending (cons_store x c) = pending c + 1"
proof -
  let ?r = "unat (rpos c)" and ?w = "unat (wpos c)"
  have rw: "?r < 512" "?w < 512" using wf by (auto simp: cons_wf_def)
  note st = cons_store_wpos [OF wf, of x]
  show p: "pending (cons_store x c) = pending c + 1"
    using room rw unfolding pending_eq [OF wf] pending_eq [OF st(2)] st(1,3) ring_next [OF rw(2)]
    by (auto split: if_splits)
  have "(?r + k) mod 512 \<noteq> ?w" if "k < pending c" for k
    using that rw ring_index [of ?r k] unfolding pending_eq [OF wf] by (auto split: if_splits)
  moreover have "(?r + pending c) mod 512 = ?w"
    using rw ring_index [of ?r "pending c"] unfolding pending_eq [OF wf] by (auto split: if_splits)
  ultimately show "queue (cons_store x c) = queue c @ [word_of_int x]"
    using p st by (simp add: queue_def)
qed

lemma cons_intr_queue:
  assumes "cons_wf c" "pending c + length (received (uart_in c)) < 512"
  shows "cons_wf (cons_intr c) \<and> queue (cons_intr c) = queue c @ received (uart_in c) \<and>
     serial_exists (cons_intr c) = serial_exists c"
  using assms
proof (induction c rule: cons_intr.induct)
  case (1 c)
  show ?case
  proof (cases "uart_in c")
    case Nil
    with 1 show ?thesis by (simp add: cons_intr.simps [of c] serial_proc_data_def)
  next
    case (Cons x xs)
    let ?c1 = "c\<lparr>uart_in := xs\<rparr>"
    have wf1: "cons_wf ?c1" and q1: "queue ?c1 = queue c" "pending ?c1 = pending c"
      using 1(3) by (simp_all add: cons_wf_def queue_def pending_def)
    have sp: "serial_proc_data c = (x, ?c1)" using Cons by (simp add: serial_proc_data_def)
    consider "x = -1" | "x = 0" | "x \<noteq> -1" "x \<noteq> 0" by blast
    then show ?thesis
    proof cases
      case 1
      then show ?thesis using Cons sp wf1 q1 by (simp add: cons_intr.simps [of c])
    next
      case 2
      then show ?thesis using "1.IH"(1) [OF sp [symmetric] refl] "1.prems" Cons sp wf1 q1
        by (simp add: cons_intr.simps [of c])
    next
      case 3
      have "pending ?c1 < 511" using "1.prems" 3 Cons q1 by simp
      note st = queue_store [OF wf1 this, of x] cons_store_wpos [OF wf1, of x]
      from "1.IH"(2) [OF sp [symmetric] refl 3] "1.prems" 3 Cons st q1 show ?thesis
        by (simp add: cons_intr.simps [of c] sp)
    qed
  qed
qed

lemma cons_take_pop:
  assumes wf: "cons_wf c1" and ne: "rpos c1 \<noteq> wpos c1"
  defines "c3 \<equiv> snd (cons_take c1)"
  shows "cons_wf c3" "queue c1 = fst (cons_take c1) # queue c3"
proof -
  let ?r = "unat (rpos c1)" and ?w = "unat (wpos c1)"
  have rw: "?r < 512" "?w < 512" "?r \<noteq> ?w" using wf ne by (auto simp: cons_wf_def word_unat_eq_iff)
  have u: "unat (rpos c1 + 1) = ?r + 1" using rw by (simp add: unat_word_ariths)
  then have "rpos c1 + 1 = 512 \<longleftrightarrow> ?r + 1 = 512" by (simp add: word_unat_eq_iff)
  then have c3: "unat (rpos c3) = (?r + 1) mod 512" "wpos c3 = wpos c1" "buf c3 = buf c1"
    using u rw by (auto simp: c3_def cons_take_def Let_def)
  then show wf3: "cons_wf c3" using rw by (simp add: cons_wf_def)
  have p: "pending c1 = Suc (pending c3)"
    using rw unfolding pending_eq [OF wf] pending_eq [OF wf3] c3(1,2) ring_next [OF rw(1)]
    by (auto split: if_splits)
  have "((?r + 1) mod 512 + k) mod 512 = (?r + Suc k) mod 512" for k by (simp add: mod_simps)
  moreover have "fst (cons_take c1) = buf c1 ?r" by (simp add: cons_take_def Let_def)
  ultimately show "queue c1 = fst (cons_take c1) # queue c3"
    unfolding queue_def p using c3 rw(1) by (simp add: upt_conv_Cons map_Suc_upt [symmetric] del: upt_Suc)
qed

lemma queue_empty: "cons_wf c \<Longrightarrow> queue c = [] \<longleftrightarrow> rpos c = wpos c"
  by (auto simp: queue_def pending_eq cons_wf_def word_unat_eq_iff split: if_splits)

text \<open>The buffer is a queue of 511 characters.\<close>

interpretation cq: fifo "\<lambda>_. cons_wf" queue "\<lambda>x c. Some (cons_store (uint x) c)" "\<lambda>c. Some (cons_take c)" 511
proof unfold_locales
  fix n c x assume wf: "cons_wf c" and "length (queue c) < 511"
  then have "pending c < 511" by (simp add: queue_def)
  then show "\<exists>q'. Some (cons_store (uint x) c) = Some q' \<and> cons_wf q' \<and> queue q' = queue c @ [x]"
    using queue_store [OF wf, of "uint x"] cons_store_wpos [OF wf, of "uint x"] by simp
next
  fix n c x xs assume wf: "cons_wf c" and q: "queue c = x # xs"
  then have "rpos c \<noteq> wpos c" using queue_empty [OF wf] by auto
  from cons_take_pop [OF wf this] q show "\<exists>q'. Some (cons_take c) = Some (x, q') \<and> cons_wf q' \<and> queue q' = xs"
    by (intro exI [of _ "snd (cons_take c)"]) (simp add: prod_eq_iff)
qed

text \<open>C35. The console is a queue: \<open>cons_getc\<close> first takes in what the serial line has delivered and
  then returns the oldest character not read yet and removes it, or returns 0 when there is none,
  as long as the characters waiting number fewer than 512.\<close>

theorem cons_getc_fifo:
  assumes wf: "cons_wf c" and ser: "serial_exists c"
    and room: "pending c + length (received (uart_in c)) < 512"
  shows "cons_wf (snd (cons_getc c)) \<and>
     (case queue c @ received (uart_in c) of
        [] \<Rightarrow> fst (cons_getc c) = 0 \<and> queue (snd (cons_getc c)) = []
      | x # xs \<Rightarrow> fst (cons_getc c) = x \<and> queue (snd (cons_getc c)) = xs)"
proof -
  let ?c1 = "cons_intr c"
  have i: "cons_wf ?c1" "queue ?c1 = queue c @ received (uart_in c)"
    using cons_intr_queue [OF wf room] by auto
  show ?thesis
  proof (cases "queue ?c1")
    case Nil
    then show ?thesis using queue_empty [OF i(1)] i ser by (simp add: cons_getc_def serial_intr_def)
  next
    case (Cons x xs)
    from cq.get_law [OF i(1) Cons] have "fst (cons_take ?c1) = x" "cons_wf (snd (cons_take ?c1))" "queue (snd (cons_take ?c1)) = xs" by auto
    moreover have "rpos ?c1 \<noteq> wpos ?c1" using queue_empty [OF i(1)] Cons by auto
    moreover have "queue c @ received (uart_in c) = x # xs" using i(2) Cons by simp
    ultimately show ?thesis using ser by (simp add: cons_getc_def serial_intr_def)
  qed
qed

theorem cons_getc_fifo_witness:
  "fst (cons_getc \<lparr>buf = \<lambda>_. 0, rpos = 511, wpos = 511, serial_exists = True,
     uart_in = [65, 0, 66], uart_out = []\<rparr>) = 65"
  using cons_getc_fifo [of "\<lparr>buf = \<lambda>_. 0, rpos = 511, wpos = 511, serial_exists = True,
     uart_in = [65, 0, 66], uart_out = []\<rparr>"]
  by (simp add: cons_wf_def pending_def queue_def)

text \<open>The 512th waiting character makes the buffer look empty: all of them are lost.\<close>

lemma cons_store_overflow:
  assumes wf: "cons_wf c" and full: "pending c = 511"
  shows "queue (cons_store x c) = []"
proof -
  have rw: "unat (rpos c) < 512" "unat (wpos c) < 512" using wf by (auto simp: cons_wf_def)
  note st = cons_store_wpos [OF wf, of x]
  have "pending (cons_store x c) = 0"
    using full rw unfolding pending_eq [OF wf] pending_eq [OF st(2)] st(1,3) ring_next [OF rw(2)]
    by (auto split: if_splits)
  then show ?thesis by (simp add: queue_def)
qed

section \<open>The clock\<close>

definition time_init :: "u32 \<Rightarrow> u32" where
  "time_init ticks = 0"

definition time_tick :: "u32 \<Rightarrow> u32 option" where
  "time_tick ticks = (let t = ticks + 1 in if t * 10 < t then None else Some t)"

definition time_msec :: "u32 \<Rightarrow> u32" where
  "time_msec ticks = ticks * 10"

text \<open>Below \<^verbatim>\<open>2^32 / 10\<close> ticks the clock does not panic and counts ten milliseconds a tick.\<close>

lemma time_tick_msec:
  assumes "unat t + 1 < 429496730"
  shows "\<exists>t'. time_tick t = Some t' \<and> unat (time_msec t') = unat (time_msec t) + 10"
proof -
  have "unat (t + 1) = unat t + 1" "unat ((t + 1) * 10) = (unat t + 1) * 10" "unat (t * 10) = unat t * 10"
    using assms by (simp_all add: unat_word_ariths)
  then show ?thesis by (simp add: time_tick_def time_msec_def Let_def word_less_nat_alt)
qed

end
