(* ===== verification/E1000.thy ===== *)
theory E1000
  imports Kernel_Prelude
begin

unbundle bit_operations_syntax

text \<open>
  The network card driver \<^verbatim>\<open>kern/riscv/e1000.c\<close>: initialisation of the transmit and receive
  descriptor rings and the two system-call back ends \<open>transmit_pack\<close> and \<open>receive_pack\<close>.

  The state has the registers the driver writes (\<open>reg\<close>, indexed by the register's word offset),
  the two descriptor rings and the memory the card reaches by DMA, byte by byte. What the card
  does on its own (setting the descriptor-done bits, filling receive buffers) is a change of this
  state between calls. \<open>tx_pa\<close> and \<open>rx_pa\<close> are the physical addresses the linker gives the
  arrays \<^verbatim>\<open>packet_buffer\<close> and \<^verbatim>\<open>receive_buffer\<close>, whose elements have 1024 bytes.
\<close>

section \<open>State\<close>

record tx_desc =
  tx_addr :: u64
  tx_lower :: u32
  tx_upper :: u32

record rx_desc =
  rx_addr :: u64
  rx_length :: u16
  rx_csum :: u16
  rx_status :: u8
  rx_errors :: u8
  rx_special :: u16

record nic =
  reg :: "nat \<Rightarrow> u32"
  tx_desc_buffer :: "nat \<Rightarrow> tx_desc"
  rx_desc_buffer :: "nat \<Rightarrow> rx_desc"
  dma :: "u64 \<Rightarrow> u8"

abbreviation (input) tx_desc_len :: nat where "tx_desc_len \<equiv> 32"
abbreviation (input) rx_desc_len :: nat where "rx_desc_len \<equiv> 128"

abbreviation (input) E1000_TCTL :: nat where "E1000_TCTL \<equiv> 0x400 div 4"
abbreviation (input) E1000_TIPG :: nat where "E1000_TIPG \<equiv> 0x410 div 4"
abbreviation (input) E1000_TDBAL :: nat where "E1000_TDBAL \<equiv> 0x3800 div 4"
abbreviation (input) E1000_TDBAH :: nat where "E1000_TDBAH \<equiv> 0x3804 div 4"
abbreviation (input) E1000_TDLEN :: nat where "E1000_TDLEN \<equiv> 0x3808 div 4"
abbreviation (input) E1000_TDH :: nat where "E1000_TDH \<equiv> 0x3810 div 4"
abbreviation (input) E1000_TDT :: nat where "E1000_TDT \<equiv> 0x3818 div 4"
abbreviation (input) E1000_IMS :: nat where "E1000_IMS \<equiv> 0xD0 div 4"
abbreviation (input) E1000_RCTL :: nat where "E1000_RCTL \<equiv> 0x100 div 4"
abbreviation (input) E1000_RDBAL :: nat where "E1000_RDBAL \<equiv> 0x2800 div 4"
abbreviation (input) E1000_RDBAH :: nat where "E1000_RDBAH \<equiv> 0x2804 div 4"
abbreviation (input) E1000_RDLEN :: nat where "E1000_RDLEN \<equiv> 0x2808 div 4"
abbreviation (input) E1000_RDH :: nat where "E1000_RDH \<equiv> 0x2810 div 4"
abbreviation (input) E1000_RDT :: nat where "E1000_RDT \<equiv> 0x2818 div 4"
abbreviation (input) E1000_MTA :: nat where "E1000_MTA \<equiv> 0x5200 div 4"
abbreviation (input) E1000_RAL0 :: nat where "E1000_RAL0 \<equiv> 0x5400 div 4"
abbreviation (input) E1000_RAH0 :: nat where "E1000_RAH0 \<equiv> 0x5404 div 4"

abbreviation (input) E1000_TXD_STAT_DD :: u32 where "E1000_TXD_STAT_DD \<equiv> 1"
abbreviation (input) E1000_TXD_CMD_EOP :: u32 where "E1000_TXD_CMD_EOP \<equiv> 0x01000000"
abbreviation (input) E1000_TXD_CMD_RS :: u32 where "E1000_TXD_CMD_RS \<equiv> 0x08000000"
abbreviation (input) E1000_RXD_STAT_DD :: u8 where "E1000_RXD_STAT_DD \<equiv> 1"

section \<open>Operations\<close>

definition set_reg :: "nat \<Rightarrow> u32 \<Rightarrow> nic \<Rightarrow> nic" where
  "set_reg i v n = n\<lparr>reg := (reg n)(i := v)\<rparr>"

definition or_reg :: "nat \<Rightarrow> u32 \<Rightarrow> nic \<Rightarrow> nic" where
  "or_reg i v n = set_reg i (reg n i OR v) n"

definition and_reg :: "nat \<Rightarrow> u32 \<Rightarrow> nic \<Rightarrow> nic" where
  "and_reg i v n = set_reg i (reg n i AND v) n"

definition transmit_init :: "u32 \<Rightarrow> (nat \<Rightarrow> u32) \<Rightarrow> nic \<Rightarrow> nic" where
  "transmit_init ring_pa tx_pa n =
     (let n = set_reg E1000_TDBAL ring_pa n;
          n = set_reg E1000_TDBAH 0 n;
          n = set_reg E1000_TDLEN (16 * of_nat tx_desc_len) n;
          n = set_reg E1000_TDH 0 n;
          n = set_reg E1000_TDT 0 n;
          n = or_reg E1000_TCTL 0x2 n;
          n = or_reg E1000_TCTL 0x8 n;
          n = and_reg E1000_TCTL (NOT 0xff0) n;
          n = or_reg E1000_TCTL (push_bit 4 0x10) n;
          n = and_reg E1000_TCTL (NOT 0x3ff000) n;
          n = or_reg E1000_TCTL (push_bit 12 0x40) n;
          n = set_reg E1000_TIPG 10 n
      in n\<lparr>tx_desc_buffer := (\<lambda>i. if i < tx_desc_len
            then \<lparr>tx_addr = ucast (tx_pa i), tx_lower = 0, tx_upper = E1000_TXD_STAT_DD\<rparr>
            else tx_desc_buffer n i)\<rparr>)"

definition dma_write :: "u64 \<Rightarrow> u8 list \<Rightarrow> (u64 \<Rightarrow> u8) \<Rightarrow> u64 \<Rightarrow> u8" where
  "dma_write a xs m = (\<lambda>b. if unat (b - a) < length xs then xs ! unat (b - a) else m b)"

text \<open>The packet is copied to \<^verbatim>\<open>packet_buffer[index]\<close>, at the physical address \<open>tx_pa index\<close>.
  The length field is the low half of the descriptor's second word, the status its third
  word's low byte. The driver does not compare the length with the 1024 bytes of the buffer: a longer packet
  runs into the buffers that follow, and \<open>None\<close> is a packet that runs past the end of \<^verbatim>\<open>packet_buffer\<close> into
  other variables of the kernel.\<close>

definition transmit_pack :: "(nat \<Rightarrow> u32) \<Rightarrow> u8 list \<Rightarrow> nic \<Rightarrow> (int \<times> nic) option" where
  "transmit_pack tx_pa xs n =
     (let index = unat (reg n E1000_TDT);
          c_tx = tx_desc_buffer n index
      in if tx_upper c_tx AND E1000_TXD_STAT_DD = 0 then Some (- E_NO_MEM, n)
         else if 1024 * index + length xs > 1024 * tx_desc_len then None
         else
           (let len = (of_nat (length xs) :: u32);
                lower = tx_lower c_tx OR E1000_TXD_CMD_RS OR E1000_TXD_CMD_EOP;
                c_tx' = c_tx\<lparr>tx_upper := tx_upper c_tx AND NOT 0xFF,
                             tx_lower := (lower AND NOT 0xFFFF) OR (len AND 0xFFFF)\<rparr>;
                n1 = n\<lparr>dma := dma_write (ucast (tx_pa index)) xs (dma n),
                       tx_desc_buffer := (tx_desc_buffer n)(index := c_tx')\<rparr>
            in Some (0, set_reg E1000_TDT (of_nat ((index + 1) mod tx_desc_len)) n1)))"

definition receive_init :: "u32 \<Rightarrow> (nat \<Rightarrow> u32) \<Rightarrow> nic \<Rightarrow> nic" where
  "receive_init ring_pa rx_pa n =
     (let n = set_reg E1000_RAL0 0x12005452 n;
          n = set_reg E1000_RAH0 0x00005634 n;
          n = or_reg E1000_RAH0 0x80000000 n;
          n = set_reg E1000_MTA 0 n;
          n = set_reg E1000_IMS 0 n;
          n = set_reg E1000_RDBAL ring_pa n;
          n = set_reg E1000_RDBAH 0 n;
          n = set_reg E1000_RDLEN (of_nat rx_desc_len * 16) n;
          n = set_reg E1000_RDH 0 n;
          n = set_reg E1000_RDT (of_nat rx_desc_len - 1) n;
          n = and_reg E1000_RCTL (NOT 0x20) n;
          n = or_reg E1000_RCTL 0 n;
          n = or_reg E1000_RCTL 0 n;
          n = or_reg E1000_RCTL 0x10000 n;
          n = or_reg E1000_RCTL 0x4000000 n;
          n = n\<lparr>rx_desc_buffer := (\<lambda>i. if i < rx_desc_len
                then \<lparr>rx_addr = ucast (rx_pa i), rx_length = 0, rx_csum = 0, rx_status = 0,
                      rx_errors = 0, rx_special = 0\<rparr>
                else rx_desc_buffer n i)\<rparr>
      in or_reg E1000_RCTL 0x2 n)"

text \<open>\<open>receive_pack\<close> returns the bytes it copies to the caller's buffer. The descriptor itself
  is not changed.\<close>

definition receive_pack :: "nic \<Rightarrow> (int \<times> u8 list) \<times> nic" where
  "receive_pack n =
     (let index = (unat (reg n E1000_RDT) + 1) mod rx_desc_len;
          rx = rx_desc_buffer n index
      in if rx_status rx AND E1000_RXD_STAT_DD = 0 then ((- E_NO_MEM, []), n)
         else ((0, map (\<lambda>k. dma n (rx_addr rx + of_nat k)) [0..<unat (rx_length rx)]),
               set_reg E1000_RDT (of_nat index) n))"

text \<open>A card whose descriptors are all done, with both tails at \<open>t\<close>.\<close>

definition idle_nic :: "u32 \<Rightarrow> nic" where
  "idle_nic t = \<lparr>reg = \<lambda>_. t, tx_desc_buffer = \<lambda>_. \<lparr>tx_addr = 0, tx_lower = 0, tx_upper = 1\<rparr>,
     rx_desc_buffer = \<lambda>_. \<lparr>rx_addr = 64, rx_length = 2, rx_csum = 0, rx_status = 1, rx_errors = 0,
       rx_special = 0\<rparr>, dma = ucast\<rparr>"

text \<open>Runs of the two operations.\<close>

fun transmit_all :: "(nat \<Rightarrow> u32) \<Rightarrow> u8 list list \<Rightarrow> nic \<Rightarrow> (int list \<times> nic) option" where
  "transmit_all tx_pa [] n = Some ([], n)"
| "transmit_all tx_pa (p # ps) n = do {
     (r, n1) \<leftarrow> transmit_pack tx_pa p n;
     (rs, n2) \<leftarrow> transmit_all tx_pa ps n1;
     Some (r # rs, n2) }"

primrec receive_times :: "nat \<Rightarrow> nic \<Rightarrow> nic" where
  "receive_times 0 n = n"
| "receive_times (Suc k) n = receive_times k (snd (receive_pack n))"

section \<open>Properties\<close>

definition tx_free :: "nic \<Rightarrow> nat \<Rightarrow> bool" where
  "tx_free n i \<longleftrightarrow> tx_upper (tx_desc_buffer n i) AND E1000_TXD_STAT_DD \<noteq> 0"

lemma dma_write_at:
  assumes "k < length xs" "length xs \<le> 2 ^ 32"
  shows "dma_write a xs m (a + of_nat k) = xs ! k"
proof -
  have "unat (of_nat k :: u64) = k" using assms by (simp add: unat_of_nat)
  then show ?thesis using assms by (simp add: dma_write_def)
qed

lemma set_reg_simps [simp]:
  "reg (set_reg i v n) = (reg n)(i := v)" "tx_desc_buffer (set_reg i v n) = tx_desc_buffer n"
  "rx_desc_buffer (set_reg i v n) = rx_desc_buffer n" "dma (set_reg i v n) = dma n"
  by (simp_all add: set_reg_def)

text \<open>C37. \<open>transmit_pack\<close> of a packet that fits its buffer of 1024 bytes, on every branch: when the descriptor
  at the tail is still owned by the card it returns \<open>-E_NO_MEM\<close> and changes nothing; otherwise it
  returns 0, the packet is in the tail's buffer and no byte of memory outside of it has changed, the
  descriptor carries the packet's length, requests a status report at the end of
  a packet and is given to the card (its done bit is clear), every other descriptor is
  untouched, and the tail moves to the next slot of the ring.\<close>

theorem transmit_pack_correct:
  assumes tail: "unat (reg n E1000_TDT) < tx_desc_len" and len: "length xs \<le> 1024"
  defines "i \<equiv> unat (reg n E1000_TDT)"
  shows "(\<not> tx_free n i \<longrightarrow> transmit_pack tx_pa xs n = Some (- E_NO_MEM, n)) \<and>
     (tx_free n i \<longrightarrow> (\<exists>n'. transmit_pack tx_pa xs n = Some (0, n') \<and>
        (\<forall>k < length xs. dma n' (ucast (tx_pa i) + of_nat k) = xs ! k) \<and>
        (\<forall>b. length xs \<le> unat (b - ucast (tx_pa i)) \<longrightarrow> dma n' b = dma n b) \<and>
        unat (tx_lower (tx_desc_buffer n' i) AND 0xFFFF) = length xs \<and>
        tx_lower (tx_desc_buffer n' i) AND (E1000_TXD_CMD_RS OR E1000_TXD_CMD_EOP)
          = E1000_TXD_CMD_RS OR E1000_TXD_CMD_EOP \<and>
        \<not> tx_free n' i \<and> (\<forall>j. j \<noteq> i \<longrightarrow> tx_desc_buffer n' j = tx_desc_buffer n j) \<and>
        rx_desc_buffer n' = rx_desc_buffer n \<and> reg n' = (reg n)(E1000_TDT := of_nat ((i + 1) mod tx_desc_len))))"
proof (cases "tx_free n i")
  case False
  then show ?thesis by (simp add: transmit_pack_def tx_free_def i_def)
next
  case True
  let ?lo = "(tx_lower (tx_desc_buffer n i) OR 0x08000000 OR 0x01000000 AND NOT 0xFFFF)
    OR (of_nat (length xs) AND 0xFFFF)"
  have fits: "\<not> 1024 * i + length xs > 1024 * tx_desc_len" using tail len by (simp add: i_def)
  define n' where "n' = snd (the (transmit_pack tx_pa xs n))"
  define d where "d = tx_desc_buffer n' i"
  have t: "transmit_pack tx_pa xs n = Some (0, n')"
    using True fits by (simp add: n'_def transmit_pack_def tx_free_def i_def Let_def)
  have lo: "tx_lower d = ((tx_lower (tx_desc_buffer n i) OR 0x08000000 OR 0x01000000) AND NOT 0xFFFF)
      OR (of_nat (length xs) AND 0xFFFF)"
    and up: "tx_upper d = tx_upper (tx_desc_buffer n i) AND NOT 0xFF"
    using True fits by (simp_all add: d_def n'_def transmit_pack_def tx_free_def i_def Let_def)
  have m16: "(0xFFFF :: u32) = mask 16" by (simp add: mask_eq_exp_minus_1)
  have "tx_lower d AND 0xFFFF = of_nat (length xs) AND 0xFFFF"
    unfolding lo m16 by (rule bit_word_eqI) (auto simp: bit_simps)
  moreover have "unat (of_nat (length xs) AND 0xFFFF :: u32) = length xs"
    using len by (simp add: m16 unsigned_take_bit_eq unat_of_nat take_bit_nat_eq_self flip: take_bit_eq_mask)
  ultimately have l: "unat (tx_lower d AND 0xFFFF) = length xs" by simp
  have "tx_lower d AND 0x09000000 =
      (tx_lower (tx_desc_buffer n i) OR 0x09000000) AND (NOT 0xFFFF AND 0x09000000)
        OR of_nat (length xs) AND (0xFFFF AND 0x09000000)"
    unfolding lo by (simp only: bit.conj_disj_distrib2 and.assoc or.assoc) simp
  also have "\<dots> = (tx_lower (tx_desc_buffer n i) OR 0x09000000) AND 0x09000000" by simp
  also have "\<dots> = 0x09000000" by (rule bit_word_eqI) (auto simp: bit_and_iff bit_or_iff)
  finally have c: "tx_lower d AND 0x09000000 = 0x09000000" .
  have "NOT 0xFF AND (1 :: u32) = 0" by simp
  then have f: "\<not> tx_free n' i" using up unfolding tx_free_def d_def by (simp only: and.assoc) simp
  have o: "\<forall>j. j \<noteq> i \<longrightarrow> tx_desc_buffer n' j = tx_desc_buffer n j"
    "reg n' = (reg n)(E1000_TDT := of_nat ((i + 1) mod tx_desc_len))"
    "dma n' = dma_write (ucast (tx_pa i)) xs (dma n)" "rx_desc_buffer n' = rx_desc_buffer n"
    using True fits by (simp_all add: n'_def transmit_pack_def tx_free_def i_def Let_def unat_of_nat)
  have "\<forall>k < length xs. dma n' (ucast (tx_pa i) + of_nat k) = xs ! k"
    "\<forall>b. length xs \<le> unat (b - ucast (tx_pa i)) \<longrightarrow> dma n' b = dma n b"
    using dma_write_at len by (simp_all add: o(3) dma_write_def)
  with t l c f o True show ?thesis by (simp add: d_def)
qed

theorem transmit_pack_correct_witness:
  "\<exists>n'. transmit_pack (\<lambda>i. 0x80400000 + 1024 * of_nat i) [1, 2, 3] (idle_nic 31) = Some (0, n') \<and>
     dma n' 0x80407C01 = 2 \<and> reg n' E1000_TDT = 0"
proof -
  have "tx_free (idle_nic 31) (unat (reg (idle_nic 31) E1000_TDT))" "unat (reg (idle_nic 31) E1000_TDT) = 31"
    by (simp_all add: tx_free_def idle_nic_def)
  note t = this
  have "unat (reg (idle_nic 31) E1000_TDT) < tx_desc_len" "length [1, 2, 3 :: u8] \<le> 1024" by (simp_all add: idle_nic_def)
  from transmit_pack_correct [OF this, of "\<lambda>i. 0x80400000 + 1024 * of_nat i", unfolded t(2)] t(1) [unfolded t(2)]
  obtain n' where n': "transmit_pack (\<lambda>i. 0x80400000 + 1024 * of_nat i) [1, 2, 3] (idle_nic 31) = Some (0, n')"
    "\<forall>k < length [1, 2, 3 :: u8]. dma n' (ucast (0x80400000 + 1024 * of_nat 31 :: u32) + of_nat k) = [1, 2, 3] ! k"
    "reg n' = (reg (idle_nic 31))(E1000_TDT := of_nat ((31 + 1) mod tx_desc_len))" by blast
  then show ?thesis using n'(2) [rule_format, of 1] by simp
qed

lemma transmit_step:
  assumes "tx_free n (unat (reg n E1000_TDT))" "unat (reg n E1000_TDT) < 32" "length xs \<le> 1024"
  shows "\<exists>n'. transmit_pack tx_pa xs n = Some (0, n') \<and> \<not> tx_free n' (unat (reg n E1000_TDT)) \<and>
     (\<forall>j. j \<noteq> unat (reg n E1000_TDT) \<longrightarrow> tx_free n' j = tx_free n j) \<and>
     unat (reg n' E1000_TDT) = (unat (reg n E1000_TDT) + 1) mod tx_desc_len"
proof -
  have "NOT 0xFF AND (1 :: u32) = 0" by simp
  then have "(w AND NOT 0xFF) AND 1 = 0" for w :: u32 by (simp only: and.assoc) simp
  then show ?thesis using assms
    by (simp add: transmit_pack_def tx_free_def Let_def unat_of_nat)
qed

lemma ring32_ne: "0 < k \<Longrightarrow> k < 32 \<Longrightarrow> t < 32 \<Longrightarrow> (t + k) mod 32 \<noteq> t" for t k :: nat
  by (auto simp: mod_if)

lemma transmit_run:
  assumes "unat (reg m E1000_TDT) < 32" "length qs \<le> 32" "\<forall>q \<in> set qs. length q \<le> 1024"
    "\<forall>k < length qs. tx_free m ((unat (reg m E1000_TDT) + k) mod 32)"
  shows "\<exists>m'. transmit_all tx_pa qs m = Some (replicate (length qs) 0, m') \<and>
     unat (reg m' E1000_TDT) = (unat (reg m E1000_TDT) + length qs) mod 32 \<and>
     (\<forall>j. tx_free m' j \<longleftrightarrow> tx_free m j \<and> (\<forall>k < length qs. j \<noteq> (unat (reg m E1000_TDT) + k) mod 32))"
  using assms
proof (induction qs arbitrary: m)
  case Nil
  then show ?case by simp
next
  case (Cons q qs)
  let ?t = "unat (reg m E1000_TDT)"
  have "tx_free m ?t" using Cons.prems(4) [rule_format, of 0] Cons.prems(1) by simp
  then obtain m1 where m1: "transmit_pack tx_pa q m = Some (0, m1)" "unat (reg m1 E1000_TDT) = (?t + 1) mod 32"
    and fr: "\<And>j. tx_free m1 j \<longleftrightarrow> tx_free m j \<and> j \<noteq> ?t"
    using transmit_step [of m q tx_pa] Cons.prems(1,3) by (metis list.set_intros(1))
  have sh: "(unat (reg m1 E1000_TDT) + k) mod 32 = (?t + Suc k) mod 32" for k
    unfolding m1(2) by (simp add: mod_simps)
  have "\<forall>k < length qs. tx_free m1 ((unat (reg m1 E1000_TDT) + k) mod 32)"
  proof (intro allI impI)
    fix k assume k: "k < length qs"
    then have "(?t + Suc k) mod 32 \<noteq> ?t" using Cons.prems(1,2) by (intro ring32_ne) auto
    moreover have "tx_free m ((?t + Suc k) mod 32)"
      using Cons.prems(4) [rule_format, of "Suc k"] k by simp
    ultimately show "tx_free m1 ((unat (reg m1 E1000_TDT) + k) mod 32)" unfolding sh fr by blast
  qed
  with Cons.IH [of m1] m1(2) Cons.prems(2,3) obtain m' where
    m': "transmit_all tx_pa qs m1 = Some (replicate (length qs) 0, m')"
      "unat (reg m' E1000_TDT) = (unat (reg m1 E1000_TDT) + length qs) mod 32"
      "\<forall>j. tx_free m' j \<longleftrightarrow> tx_free m1 j \<and> (\<forall>k < length qs. j \<noteq> (unat (reg m1 E1000_TDT) + k) mod 32)"
    by auto
  have "tx_free m' j \<longleftrightarrow> tx_free m j \<and> (\<forall>k < Suc (length qs). j \<noteq> (?t + k) mod 32)" for j
    using m'(3) Cons.prems(1) unfolding sh fr by (auto simp: less_Suc_eq_0_disj)
  with m1(1) m'(1,2) show ?case unfolding sh by simp
qed

text \<open>The transmit ring holds 32 packets: starting with all descriptors done, any 32 packets of at most 1024 bytes
  are accepted one after the other without the card completing any, and the next one is refused
  with \<open>-E_NO_MEM\<close> and changes nothing.\<close>

theorem transmit_ring_capacity:
  assumes tail: "unat (reg n E1000_TDT) < tx_desc_len" and free: "\<forall>i < tx_desc_len. tx_free n i"
    and ps: "length ps = tx_desc_len" "\<forall>p \<in> set ps. length p \<le> 1024"
  shows "\<exists>n'. transmit_all tx_pa ps n = Some (replicate tx_desc_len 0, n') \<and>
     transmit_pack tx_pa xs n' = Some (- E_NO_MEM, n')"
proof -
  let ?t = "unat (reg n E1000_TDT)"
  obtain n' where n': "transmit_all tx_pa ps n = Some (replicate 32 0, n')"
    "unat (reg n' E1000_TDT) = (?t + 32) mod 32"
    "\<forall>j. tx_free n' j \<longleftrightarrow> tx_free n j \<and> (\<forall>k < 32. j \<noteq> (?t + k) mod 32)"
    using transmit_run [OF tail, of ps tx_pa] free ps by auto
  have "unat (reg n' E1000_TDT) = ?t" using n'(2) tail by simp
  moreover have "\<not> tx_free n' ?t" using n'(3) [rule_format, of ?t] tail by (auto intro: exI [of _ 0])
  ultimately have "transmit_pack tx_pa xs n' = Some (- E_NO_MEM, n')"
    by (simp add: transmit_pack_def tx_free_def)
  with n'(1) show ?thesis by blast
qed

theorem transmit_ring_capacity_witness:
  "\<exists>n'. transmit_all (\<lambda>i. 0x80400000 + 1024 * of_nat i) (replicate 32 [7])
      (transmit_init 0x80500000 (\<lambda>i. 0x80400000 + 1024 * of_nat i) (idle_nic 5)) =
      Some (replicate tx_desc_len 0, n')"
proof -
  let ?n = "transmit_init 0x80500000 (\<lambda>i. 0x80400000 + 1024 * of_nat i) (idle_nic 5)"
  have "unat (reg ?n E1000_TDT) < tx_desc_len" "\<forall>i < tx_desc_len. tx_free ?n i"
    by (simp_all add: transmit_init_def Let_def tx_free_def or_reg_def and_reg_def)
  from transmit_ring_capacity [OF this, of "replicate 32 [7]"] show ?thesis by auto
qed

lemma receive_times_state:
  assumes "unat (reg n E1000_RDT) < 128"
    "\<forall>k < m. rx_status (rx_desc_buffer n ((unat (reg n E1000_RDT) + Suc k) mod 128)) AND 1 \<noteq> 0"
  shows "receive_times m n = set_reg E1000_RDT (of_nat ((unat (reg n E1000_RDT) + m) mod 128)) n"
  using assms
proof (induction m arbitrary: n)
  case 0
  have "of_nat (unat (reg n E1000_RDT)) = reg n E1000_RDT" by simp
  then show ?case using 0 by (cases n) (simp add: set_reg_def)
next
  case (Suc m)
  let ?t = "unat (reg n E1000_RDT)" and ?i = "(unat (reg n E1000_RDT) + 1) mod 128"
  let ?n1 = "set_reg E1000_RDT (of_nat ?i) n"
  have r: "snd (receive_pack n) = ?n1"
    using Suc.prems(2) [rule_format, of 0] by (simp add: receive_pack_def Let_def)
  have t1: "unat (reg ?n1 E1000_RDT) = ?i" by (simp add: unat_of_nat)
  have sh: "(?i + k) mod 128 = (?t + Suc k) mod 128" for k by (simp add: mod_simps)
  have "rx_status (rx_desc_buffer n ((?t + Suc (Suc k)) mod 128)) AND 1 \<noteq> 0" if "k < m" for k
    using Suc.prems(2) [rule_format, of "Suc k"] that by simp
  then have "\<forall>k < m. rx_status (rx_desc_buffer ?n1 ((unat (reg ?n1 E1000_RDT) + Suc k) mod 128)) AND 1 \<noteq> 0"
    unfolding t1 sh by simp
  moreover have "unat (reg ?n1 E1000_RDT) < 128" unfolding t1 by simp
  ultimately have "receive_times m ?n1 = set_reg E1000_RDT (of_nat ((?i + m) mod 128)) ?n1"
    using Suc.IH [of ?n1] unfolding t1 by blast
  then show ?case unfolding sh by (simp add: r set_reg_def)
qed

text \<open>C38. \<open>receive_pack\<close> never clears the done bit of a descriptor it has consumed: once all 128
  descriptors are done, 128 calls bring the driver back to the state it started in, so the following
  calls deliver the same packets again although the card has received nothing new.\<close>

theorem receive_pack_replays:
  assumes tail: "unat (reg n E1000_RDT) < rx_desc_len"
    and dd: "\<forall>i < rx_desc_len. rx_status (rx_desc_buffer n i) AND E1000_RXD_STAT_DD \<noteq> 0"
  shows "fst (fst (receive_pack n)) = 0 \<and> receive_pack (receive_times rx_desc_len n) = receive_pack n"
proof -
  have "receive_times 128 n = set_reg E1000_RDT (of_nat ((unat (reg n E1000_RDT) + 128) mod 128)) n"
    using tail dd by (intro receive_times_state) auto
  moreover have "of_nat ((unat (reg n E1000_RDT) + 128) mod 128) = reg n E1000_RDT" using tail by simp
  ultimately have "receive_times 128 n = n" by (cases n) (simp add: set_reg_def)
  moreover have "fst (fst (receive_pack n)) = 0"
    using dd by (simp add: receive_pack_def Let_def)
  ultimately show ?thesis by simp
qed

theorem receive_pack_replays_witness:
  "receive_pack (receive_times rx_desc_len (idle_nic 127)) = receive_pack (idle_nic 127)"
  using receive_pack_replays [of "idle_nic 127"] by (simp add: idle_nic_def)

end
