(* ===== verification/Kstate.thy ===== *)
theory Kstate
  imports Mmu Env_Id Console E1000
begin

unbundle bit_operations_syntax

text \<open>
  The data of the kernel: \<^verbatim>\<open>struct PageInfo\<close> (\<^verbatim>\<open>inc/riscv/memlayout.h\<close>),
  \<^verbatim>\<open>struct Trapframe\<close> and \<^verbatim>\<open>struct UTrapframe\<close> (\<^verbatim>\<open>inc/riscv/trap.h\<close>),
  \<^verbatim>\<open>struct Env\<close> (\<^verbatim>\<open>inc/riscv/env.h\<close>), and one record with the global variables of
  \<^verbatim>\<open>kern/riscv\<close> as the CPU that holds the kernel lock sees them.

  \<^item> The arrays \<^verbatim>\<open>pages[]\<close> and \<^verbatim>\<open>envs[]\<close> are functions from the index; a
    \<^verbatim>\<open>struct PageInfo *\<close> or \<^verbatim>\<open>struct Env *\<close> is the index, NULL is \<open>None\<close>.
  \<^item> Physical memory is \<open>pmem\<close>: the 64-bit word number \<open>i\<close> of the page frame at the
    physical address \<open>pa\<close> is \<open>pmem s pa i\<close>. The kernel reaches a frame through its fixed
    mapping at \<^verbatim>\<open>KERNBASE\<close>, so a kernel pointer to a page table is the frame's physical
    address and a \<^verbatim>\<open>pte_t *\<close> is a pair of a frame and an index.
  \<^item> \<open>tlb_log\<close> records the addresses flushed by \<^verbatim>\<open>local_flush_tlb_page_asid\<close>, latest
    first; \<open>satp\<close> and \<open>asid\<close> are what \<^verbatim>\<open>load_satp_asid\<close> put in the register.
  \<^item> \<open>sie\<close> is the register of enabled interrupts and \<open>mtimecmp\<close> the time of the next timer
    interrupt, as the firmware was last asked to set it.
  \<^item> \<open>envs_base\<close> is the kernel address of the array \<^verbatim>\<open>envs[]\<close>.
\<close>

section \<open>Structures\<close>

record PageInfo =
  pp_link :: "nat option"
  pp_ref :: u16

record Trapframe =
  tf_sepc :: u64
  tf_ra :: u64
  tf_sp :: u64
  tf_gp :: u64
  tf_tp :: u64
  tf_t0 :: u64
  tf_t1 :: u64
  tf_t2 :: u64
  tf_s0 :: u64
  tf_s1 :: u64
  tf_a0 :: u64
  tf_a1 :: u64
  tf_a2 :: u64
  tf_a3 :: u64
  tf_a4 :: u64
  tf_a5 :: u64
  tf_a6 :: u64
  tf_a7 :: u64
  tf_s2 :: u64
  tf_s3 :: u64
  tf_s4 :: u64
  tf_s5 :: u64
  tf_s6 :: u64
  tf_s7 :: u64
  tf_s8 :: u64
  tf_s9 :: u64
  tf_s10 :: u64
  tf_s11 :: u64
  tf_t3 :: u64
  tf_t4 :: u64
  tf_t5 :: u64
  tf_t6 :: u64
  tf_status :: u64
  tf_stval :: u64
  tf_scause :: u64
  tf_orig_a0 :: u64

datatype EnvStatus = ENV_FREE | ENV_DYING | ENV_RUNNABLE | ENV_RUNNING | ENV_NOT_RUNNABLE

datatype EnvType = ENV_TYPE_USER | ENV_TYPE_FS | ENV_TYPE_NS

record Env =
  env_tf :: Trapframe
  env_link :: "nat option"
  env_id :: u32
  env_parent_id :: u32
  env_type :: EnvType
  env_status :: EnvStatus
  env_runs :: u32
  env_cpunum :: nat
  env_pgdir :: "paddr option"
  env_pgfault_upcall :: vaddr
  env_ipc_recving :: bool
  env_ipc_dstva :: vaddr
  env_ipc_value :: u64
  env_ipc_from :: u32
  env_ipc_perm :: u32

datatype CpuStatus = CPU_UNUSED | CPU_STARTED | CPU_HALTED

section \<open>The kernel state\<close>

record kstate =
  npages :: nat
  npages_basemem :: nat
  firmmem :: u64
  pages :: "nat \<Rightarrow> PageInfo"
  page_free_list :: "nat option"
  boot_nextfree :: vaddr
  mmio_nextfree :: vaddr
  kern_pgdir :: paddr
  pmem :: "paddr \<Rightarrow> nat \<Rightarrow> u64"
  envs :: "nat \<Rightarrow> Env"
  env_free_list :: "nat option"
  curenv :: "nat option"
  cpunum :: nat
  user_mem_check_addr :: vaddr
  tlb_log :: "vaddr list"
  satp :: paddr
  asid :: u16
  sstatus :: u64
  envs_base :: vaddr
  cpu_status :: CpuStatus
  ticks :: u32
  cons :: console
  e1000 :: nic
  sie :: u64
  mtimecmp :: u64

text \<open>What the memory operations leave alone besides the environments.\<close>

abbreviation (input) kregs :: "kstate \<Rightarrow> paddr \<times> paddr \<times> nat option" where
  "kregs s \<equiv> (satp s, kern_pgdir s, env_free_list s)"

text \<open>The state a kernel image starts in: all globals are in zero-initialised memory.\<close>

definition zero_tf :: Trapframe where
  "zero_tf = \<lparr>tf_sepc = 0, tf_ra = 0, tf_sp = 0, tf_gp = 0, tf_tp = 0, tf_t0 = 0, tf_t1 = 0, tf_t2 =
     0, tf_s0 = 0, tf_s1 = 0, tf_a0 = 0, tf_a1 = 0, tf_a2 = 0, tf_a3 = 0, tf_a4 = 0, tf_a5 =
     0, tf_a6 = 0, tf_a7 = 0, tf_s2 = 0, tf_s3 = 0, tf_s4 = 0, tf_s5 = 0, tf_s6 = 0, tf_s7 =
     0, tf_s8 = 0, tf_s9 = 0, tf_s10 = 0, tf_s11 = 0, tf_t3 = 0, tf_t4 = 0, tf_t5 = 0, tf_t6
     = 0, tf_status = 0, tf_stval = 0, tf_scause = 0, tf_orig_a0 = 0\<rparr>"

definition zero_env :: Env where
  "zero_env = \<lparr>env_tf = zero_tf, env_link = None, env_id = 0, env_parent_id = 0,
     env_type = ENV_TYPE_USER, env_status = ENV_FREE, env_runs = 0, env_cpunum = 0,
     env_pgdir = None, env_pgfault_upcall = 0, env_ipc_recving = False, env_ipc_dstva = 0,
     env_ipc_value = 0, env_ipc_from = 0, env_ipc_perm = 0\<rparr>"

definition bss_kstate :: kstate where
  "bss_kstate = \<lparr>npages = 0, npages_basemem = 0, firmmem = 0,
     pages = \<lambda>_. \<lparr>pp_link = None, pp_ref = 0\<rparr>, page_free_list = None,
     boot_nextfree = 0, mmio_nextfree = 0, kern_pgdir = 0, pmem = \<lambda>_ _. 0,
     envs = \<lambda>_. zero_env, env_free_list = None, curenv = None, cpunum = 0,
     user_mem_check_addr = 0, tlb_log = [], satp = 0, asid = 0, sstatus = 0, envs_base = 0,
     cpu_status = CPU_UNUSED, ticks = 0,
     cons = \<lparr>buf = \<lambda>_. 0, rpos = 0, wpos = 0, serial_exists = False, uart_in = [], uart_out = []\<rparr>,
     e1000 = \<lparr>reg = \<lambda>_. 0, tx_desc_buffer = \<lambda>_. \<lparr>tx_addr = 0, tx_lower = 0, tx_upper = 0\<rparr>,
       rx_desc_buffer = \<lambda>_. \<lparr>rx_addr = 0, rx_length = 0, rx_csum = 0, rx_status = 0,
         rx_errors = 0, rx_special = 0\<rparr>, dma = \<lambda>_. 0\<rparr>, sie = 0, mtimecmp = 0\<rparr>"

type_synonym pte_ptr = "paddr \<times> nat"

section \<open>Access paths\<close>

definition upd_page :: "nat \<Rightarrow> (PageInfo \<Rightarrow> PageInfo) \<Rightarrow> kstate \<Rightarrow> kstate" where
  "upd_page n f s = s\<lparr>pages := (pages s)(n := f (pages s n))\<rparr>"

definition upd_env :: "nat \<Rightarrow> (Env \<Rightarrow> Env) \<Rightarrow> kstate \<Rightarrow> kstate" where
  "upd_env i f s = s\<lparr>envs := (envs s)(i := f (envs s i))\<rparr>"

definition rd_pte :: "kstate \<Rightarrow> pte_ptr \<Rightarrow> u64" where
  "rd_pte s p = pmem s (fst p) (snd p)"

definition wr_pte :: "pte_ptr \<Rightarrow> u64 \<Rightarrow> kstate \<Rightarrow> kstate" where
  "wr_pte p v s = s\<lparr>pmem := (pmem s)(fst p := (pmem s (fst p))(snd p := v))\<rparr>"

definition zero_frame :: "paddr \<Rightarrow> kstate \<Rightarrow> kstate" where
  "zero_frame pa s = s\<lparr>pmem := (pmem s)(pa := \<lambda>_. 0)\<rparr>"

text \<open>\<open>KADDR\<close> and \<open>pa2page\<close> panic on an address whose page number is not below
  \<open>npages\<close>; a kernel pointer is represented by its physical address.\<close>

definition KADDR :: "kstate \<Rightarrow> paddr \<Rightarrow> paddr option" where
  "KADDR s pa = (if npages s \<le> PGNUM pa then None else Some pa)"

definition pa2page :: "kstate \<Rightarrow> paddr \<Rightarrow> nat option" where
  "pa2page s pa = (if npages s \<le> PGNUM pa then None else Some (PGNUM pa))"

definition page2kva :: "kstate \<Rightarrow> nat \<Rightarrow> paddr option" where
  "page2kva s pp = KADDR s (page2pa pp)"

section \<open>Facts\<close>

lemma upd_page_simps [simp]:
  "npages (upd_page n f s) = npages s"
  "npages_basemem (upd_page n f s) = npages_basemem s"
  "firmmem (upd_page n f s) = firmmem s"
  "pages (upd_page n f s) = (pages s)(n := f (pages s n))"
  "page_free_list (upd_page n f s) = page_free_list s"
  "boot_nextfree (upd_page n f s) = boot_nextfree s"
  "mmio_nextfree (upd_page n f s) = mmio_nextfree s"
  "kern_pgdir (upd_page n f s) = kern_pgdir s"
  "pmem (upd_page n f s) = pmem s"
  "envs (upd_page n f s) = envs s"
  "env_free_list (upd_page n f s) = env_free_list s"
  "curenv (upd_page n f s) = curenv s"
  "cpunum (upd_page n f s) = cpunum s"
  "user_mem_check_addr (upd_page n f s) = user_mem_check_addr s"
  "tlb_log (upd_page n f s) = tlb_log s"
  "satp (upd_page n f s) = satp s"
  "asid (upd_page n f s) = asid s"
  "sstatus (upd_page n f s) = sstatus s"
  "envs_base (upd_page n f s) = envs_base s"
  "cpu_status (upd_page n f s) = cpu_status s"
  "ticks (upd_page n f s) = ticks s"
  "cons (upd_page n f s) = cons s"
  "e1000 (upd_page n f s) = e1000 s"
  "sie (upd_page n f s) = sie s"
  "mtimecmp (upd_page n f s) = mtimecmp s"
  by (simp_all add: upd_page_def)

lemma upd_env_simps [simp]:
  "npages (upd_env n f s) = npages s"
  "npages_basemem (upd_env n f s) = npages_basemem s"
  "firmmem (upd_env n f s) = firmmem s"
  "pages (upd_env n f s) = pages s"
  "page_free_list (upd_env n f s) = page_free_list s"
  "boot_nextfree (upd_env n f s) = boot_nextfree s"
  "mmio_nextfree (upd_env n f s) = mmio_nextfree s"
  "kern_pgdir (upd_env n f s) = kern_pgdir s"
  "pmem (upd_env n f s) = pmem s"
  "envs (upd_env n f s) = (envs s)(n := f (envs s n))"
  "env_free_list (upd_env n f s) = env_free_list s"
  "curenv (upd_env n f s) = curenv s"
  "cpunum (upd_env n f s) = cpunum s"
  "user_mem_check_addr (upd_env n f s) = user_mem_check_addr s"
  "tlb_log (upd_env n f s) = tlb_log s"
  "satp (upd_env n f s) = satp s"
  "asid (upd_env n f s) = asid s"
  "sstatus (upd_env n f s) = sstatus s"
  "envs_base (upd_env n f s) = envs_base s"
  "cpu_status (upd_env n f s) = cpu_status s"
  "ticks (upd_env n f s) = ticks s"
  "cons (upd_env n f s) = cons s"
  "e1000 (upd_env n f s) = e1000 s"
  "sie (upd_env n f s) = sie s"
  "mtimecmp (upd_env n f s) = mtimecmp s"
  by (simp_all add: upd_env_def)

lemma wr_pte_simps [simp]:
  "npages (wr_pte p v s) = npages s"
  "npages_basemem (wr_pte p v s) = npages_basemem s"
  "firmmem (wr_pte p v s) = firmmem s"
  "pages (wr_pte p v s) = pages s"
  "page_free_list (wr_pte p v s) = page_free_list s"
  "boot_nextfree (wr_pte p v s) = boot_nextfree s"
  "mmio_nextfree (wr_pte p v s) = mmio_nextfree s"
  "kern_pgdir (wr_pte p v s) = kern_pgdir s"
  "pmem (wr_pte p v s) = (pmem s)(fst p := (pmem s (fst p))(snd p := v))"
  "envs (wr_pte p v s) = envs s"
  "env_free_list (wr_pte p v s) = env_free_list s"
  "curenv (wr_pte p v s) = curenv s"
  "cpunum (wr_pte p v s) = cpunum s"
  "user_mem_check_addr (wr_pte p v s) = user_mem_check_addr s"
  "tlb_log (wr_pte p v s) = tlb_log s"
  "satp (wr_pte p v s) = satp s"
  "asid (wr_pte p v s) = asid s"
  "sstatus (wr_pte p v s) = sstatus s"
  "envs_base (wr_pte p v s) = envs_base s"
  "cpu_status (wr_pte p v s) = cpu_status s"
  "ticks (wr_pte p v s) = ticks s"
  "cons (wr_pte p v s) = cons s"
  "e1000 (wr_pte p v s) = e1000 s"
  "sie (wr_pte p v s) = sie s"
  "mtimecmp (wr_pte p v s) = mtimecmp s"
  by (simp_all add: wr_pte_def)

lemma zero_frame_simps [simp]:
  "npages (zero_frame pa s) = npages s"
  "npages_basemem (zero_frame pa s) = npages_basemem s"
  "firmmem (zero_frame pa s) = firmmem s"
  "pages (zero_frame pa s) = pages s"
  "page_free_list (zero_frame pa s) = page_free_list s"
  "boot_nextfree (zero_frame pa s) = boot_nextfree s"
  "mmio_nextfree (zero_frame pa s) = mmio_nextfree s"
  "kern_pgdir (zero_frame pa s) = kern_pgdir s"
  "pmem (zero_frame pa s) = (pmem s)(pa := \<lambda>_. 0)"
  "envs (zero_frame pa s) = envs s"
  "env_free_list (zero_frame pa s) = env_free_list s"
  "curenv (zero_frame pa s) = curenv s"
  "cpunum (zero_frame pa s) = cpunum s"
  "user_mem_check_addr (zero_frame pa s) = user_mem_check_addr s"
  "tlb_log (zero_frame pa s) = tlb_log s"
  "satp (zero_frame pa s) = satp s"
  "asid (zero_frame pa s) = asid s"
  "sstatus (zero_frame pa s) = sstatus s"
  "envs_base (zero_frame pa s) = envs_base s"
  "cpu_status (zero_frame pa s) = cpu_status s"
  "ticks (zero_frame pa s) = ticks s"
  "cons (zero_frame pa s) = cons s"
  "e1000 (zero_frame pa s) = e1000 s"
  "sie (zero_frame pa s) = sie s"
  "mtimecmp (zero_frame pa s) = mtimecmp s"
  by (simp_all add: zero_frame_def)

lemma rd_wr_pte: "rd_pte (wr_pte p v s) q = (if q = p then v else rd_pte s q)"
  by (cases p; cases q) (auto simp: rd_pte_def)

lemma pa2page_page2pa: "pa2page s (page2pa n) = Some n" if "n < npages s" "npages s \<le> 2 ^ 19"
  using that by (simp add: pa2page_def PGNUM_page2pa)

lemma KADDR_page2pa: "KADDR s (page2pa n) = Some (page2pa n)" if "n < npages s" "npages s \<le> 2 ^ 19"
  using that by (simp add: KADDR_def PGNUM_page2pa)

end
