(* ===== verification/Page_Alloc.thy ===== *)
theory Page_Alloc
  imports Kstate
begin

unbundle bit_operations_syntax

text \<open>
  The physical page allocator of \<^verbatim>\<open>kern/riscv/pmap.c\<close>: memory detection, the boot-time bump
  allocator, the construction of the free list by \<open>page_init\<close>, and \<open>page_alloc\<close>,
  \<open>page_free\<close>, \<open>page_decref\<close>.

  \<open>alloc_inv s xs\<close> is the invariant of the allocator: the free list threaded through
  \<^verbatim>\<open>pages[]\<close> is the list \<open>xs\<close>, its members are existing pages without references, and
  the link of every other page is NULL. The locale \<open>page_allocator\<close> states the contract of a
  stack of pages; \<open>page_alloc\<close> and \<open>page_free\<close> are shown to implement it.
\<close>

section \<open>Boot-time allocation\<close>

text \<open>The firmware calls \<^verbatim>\<open>sbi_firmware_getend\<close>, \<^verbatim>\<open>sbi_firmware_getstart\<close> and
  \<^verbatim>\<open>sbi_mem_getsize\<close> are parameters; the message printed is not modelled.\<close>

definition riscv_detect_memory :: "u64 \<Rightarrow> u64 \<Rightarrow> u64 \<Rightarrow> kstate \<Rightarrow> kstate" where
  "riscv_detect_memory fw_end fw_start totalmem s =
     s\<lparr>firmmem := ROUNDUP (fw_end - fw_start) PGSIZE,
       npages := unat (totalmem div PGSIZE),
       npages_basemem := unat ((0x200000 :: u64) div PGSIZE)\<rparr>"

text \<open>\<open>kend\<close> is the address of the linker symbol \<^verbatim>\<open>end\<close>. The product is an \<^verbatim>\<open>int\<close>, which is
  sign-extended when it is added to the pointer.\<close>

definition boot_alloc :: "vaddr \<Rightarrow> u32 \<Rightarrow> kstate \<Rightarrow> vaddr \<times> kstate" where
  "boot_alloc kend n s =
     (let nf = (if boot_nextfree s = 0 then ROUNDUP kend PGSIZE else boot_nextfree s) in
      if n > 0 then
        (let n_page = n div 4096 + 1;
             nf' = ROUNDUP (nf + scast (4096 * n_page)) PGSIZE
         in (nf, s\<lparr>boot_nextfree := nf'\<rparr>))
      else (nf, s\<lparr>boot_nextfree := nf\<rparr>))"

section \<open>The free list\<close>

definition mark_used :: "nat \<Rightarrow> kstate \<Rightarrow> kstate" where
  "mark_used i s = upd_page i (\<lambda>_. \<lparr>pp_link = None, pp_ref = 0\<rparr>) s"

definition mark_free :: "nat \<Rightarrow> kstate \<Rightarrow> kstate" where
  "mark_free i s =
     (upd_page i (\<lambda>_. \<lparr>pp_link = page_free_list s, pp_ref = 0\<rparr>) s)\<lparr>page_free_list := Some i\<rparr>"

definition init_base_page :: "nat \<Rightarrow> kstate \<Rightarrow> kstate" where
  "init_base_page i s =
     (if unat ((MPENTRY_PADDR - 0x80000000) div PGSIZE) = i then mark_used i s else mark_free i s)"

definition page_init :: "vaddr \<Rightarrow> kstate \<Rightarrow> kstate option" where
  "page_init kend s = do {
     let fw = unat (firmmem s div PGSIZE);
     let s1 = fold mark_used [0..<fw] s;
     let s2 = fold init_base_page [fw..<npages_basemem s1] s1;
     let (kva, s3) = boot_alloc kend 0 s2;
     pa \<leftarrow> PADDR kva;
     let first = unat (EXTPHYSMEM div PGSIZE);
     let bound = unat ((pa - PHYMEMOFF) div PGSIZE);
     let s4 = fold mark_used [first..<bound] s3;
     let s5 = fold mark_free [max first bound..<npages s4] s4;
     Some s5 }"

definition page_alloc :: "u32 \<Rightarrow> kstate \<Rightarrow> (nat option \<times> kstate) option" where
  "page_alloc alloc_flags s =
     (case page_free_list s of
        None \<Rightarrow> Some (None, s)
      | Some pg_info \<Rightarrow>
          if alloc_flags AND 1 \<noteq> 0 then do {
            let s1 = s\<lparr>page_free_list := pp_link (pages s pg_info)\<rparr>;
            pg_addr \<leftarrow> page2kva s1 pg_info;
            let s2 = upd_page pg_info (\<lambda>p. p\<lparr>pp_link := None\<rparr>) s1;
            Some (Some pg_info, zero_frame pg_addr s2) }
          else
            (let s1 = s\<lparr>page_free_list := pp_link (pages s pg_info)\<rparr>;
                 s2 = upd_page pg_info (\<lambda>p. p\<lparr>pp_link := None\<rparr>) s1
             in Some (Some pg_info, s2)))"

definition page_free :: "nat \<Rightarrow> kstate \<Rightarrow> kstate option" where
  "page_free pp s = do {
     assert_that (pp_ref (pages s pp) = 0);
     assert_that (pp_link (pages s pp) = None);
     Some ((upd_page pp (\<lambda>p. p\<lparr>pp_link := page_free_list s\<rparr>) s)\<lparr>page_free_list := Some pp\<rparr>) }"

definition page_decref :: "nat \<Rightarrow> kstate \<Rightarrow> kstate option" where
  "page_decref pp s =
     (let s1 = upd_page pp (\<lambda>p. p\<lparr>pp_ref := pp_ref p - 1\<rparr>) s in
      if pp_ref (pages s1 pp) = 0 then page_free pp s1 else Some s1)"

section \<open>Invariant and contract\<close>

definition alloc_inv :: "kstate \<Rightarrow> nat list \<Rightarrow> bool" where
  "alloc_inv s xs \<longleftrightarrow>
     npages s \<le> 2 ^ 19 \<and>
     chain (\<lambda>n. pp_link (pages s n)) (page_free_list s) xs \<and>
     (\<forall>n \<in> set xs. n < npages s \<and> pp_ref (pages s n) = 0) \<and>
     (\<forall>n. n \<notin> set xs \<longrightarrow> pp_link (pages s n) = None)"

definition unreferenced :: "kstate \<Rightarrow> nat \<Rightarrow> bool" where
  "unreferenced s n \<longleftrightarrow> n < npages s \<and> pp_ref (pages s n) = 0"

text \<open>A sequence of \<open>n\<close> allocations, stopping at the first failure.\<close>

primrec alloc_n :: "('s \<Rightarrow> (nat option \<times> 's) option) \<Rightarrow> nat \<Rightarrow> 's \<Rightarrow> (nat list \<times> 's) option" where
  "alloc_n al 0 s = Some ([], s)"
| "alloc_n al (Suc n) s =
     (case al s of
        None \<Rightarrow> None
      | Some (None, s') \<Rightarrow> Some ([], s')
      | Some (Some x, s') \<Rightarrow> map_option (\<lambda>(ys, t). (x # ys, t)) (alloc_n al n s'))"

text \<open>The contract of a page allocator over a stack of free pages.\<close>

locale page_allocator =
  fixes inv :: "'s \<Rightarrow> nat list \<Rightarrow> bool"
    and al :: "'s \<Rightarrow> (nat option \<times> 's) option"
    and fr :: "nat \<Rightarrow> 's \<Rightarrow> 's option"
    and unref :: "'s \<Rightarrow> nat \<Rightarrow> bool"
  assumes al_empty: "inv s [] \<Longrightarrow> al s = Some (None, s)"
    and al_cons: "inv s (x # xs) \<Longrightarrow> \<exists>s'. al s = Some (Some x, s') \<and> inv s' xs \<and> unref s' x"
    and fr_push: "inv s xs \<Longrightarrow> unref s x \<Longrightarrow> x \<notin> set xs \<Longrightarrow>
                  \<exists>s'. fr x s = Some s' \<and> inv s' (x # xs)"
    and inv_distinct: "inv s xs \<Longrightarrow> distinct xs"
begin

lemma alloc_n_ok:
  "inv s (ys @ xs) \<Longrightarrow> \<exists>s'. alloc_n al (length ys) s = Some (ys, s') \<and> inv s' xs"
proof (induction ys arbitrary: s)
  case Nil
  then show ?case by simp
next
  case (Cons y ys)
  from Cons.prems obtain s1 where s1: "al s = Some (Some y, s1)" "inv s1 (ys @ xs)"
    using al_cons [of s y "ys @ xs"] by auto
  from Cons.IH [OF s1(2)] s1(1) show ?case by auto
qed

lemma alloc_n_exhausts:
  assumes "inv s xs" "length xs < n"
  shows "\<exists>s'. alloc_n al n s = Some (xs, s') \<and> inv s' []"
  using assms
proof (induction xs arbitrary: s n)
  case Nil
  then obtain m where "n = Suc m" by (cases n) auto
  with Nil show ?case by (simp add: al_empty)
next
  case (Cons x xs)
  then obtain m where m: "n = Suc m" "length xs < m" by (cases n) auto
  obtain s1 where s1: "al s = Some (Some x, s1)" "inv s1 xs"
    using al_cons [OF Cons.prems(1)] by auto
  from Cons.IH [OF s1(2) m(2)] s1(1) m(1) show ?case by auto
qed

lemma alloc_then_free:
  assumes "inv s (x # xs)"
  shows "\<exists>s1 s2. al s = Some (Some x, s1) \<and> fr x s1 = Some s2 \<and> inv s2 (x # xs)"
proof -
  have x: "x \<notin> set xs" using inv_distinct [OF assms] by simp
  obtain s1 where s1: "al s = Some (Some x, s1)" "inv s1 xs" "unref s1 x"
    using al_cons [OF assms] by auto
  with fr_push [OF s1(2,3) x] show ?thesis by auto
qed

end

section \<open>The allocator keeps its invariant\<close>

lemma alloc_invD:
  assumes "alloc_inv s xs"
  shows "npages s \<le> 2 ^ 19" "chain (\<lambda>n. pp_link (pages s n)) (page_free_list s) xs"
    "n \<in> set xs \<Longrightarrow> n < npages s" "n \<in> set xs \<Longrightarrow> pp_ref (pages s n) = 0"
    "n \<notin> set xs \<Longrightarrow> pp_link (pages s n) = None" "distinct xs"
  using assms chain_distinct by (auto simp: alloc_inv_def)

lemma alloc_inv_cong:
  assumes "npages t = npages s" "page_free_list t = page_free_list s"
    "\<And>n. pp_link (pages t n) = pp_link (pages s n)"
    "\<And>n. n \<in> set xs \<Longrightarrow> pp_ref (pages t n) = pp_ref (pages s n)"
  shows "alloc_inv t xs = alloc_inv s xs"
  using assms by (simp add: alloc_inv_def)

lemma alloc_inv_upd_ref [simp]:
  "n \<notin> set xs \<Longrightarrow> alloc_inv (upd_page n (\<lambda>p. p\<lparr>pp_ref := f p\<rparr>) s) xs = alloc_inv s xs"
  by (rule alloc_inv_cong) auto

lemma alloc_inv_wr_pte [simp]: "alloc_inv (wr_pte p e s) xs = alloc_inv s xs"
  by (rule alloc_inv_cong) auto

lemma alloc_inv_pop:
  assumes "alloc_inv s (x # xs)"
  shows "alloc_inv (upd_page x (\<lambda>p. p\<lparr>pp_link := None\<rparr>)
           (s\<lparr>page_free_list := pp_link (pages s x)\<rparr>)) xs"
proof -
  have x: "x \<notin> set xs" using alloc_invD(6) [OF assms] by simp
  have "chain (\<lambda>n. pp_link (((pages s)(x := (pages s x)\<lparr>pp_link := None\<rparr>)) n)) (pp_link (pages s x)) xs"
    using assms x by (auto simp: alloc_inv_def intro: chain_cong [of "\<lambda>n. pp_link (pages s n)"])
  with assms x show ?thesis by (auto simp: alloc_inv_def)
qed

lemma page_alloc_empty: "alloc_inv s [] \<Longrightarrow> page_alloc f s = Some (None, s)"
  by (simp add: alloc_inv_def page_alloc_def)

lemma page_alloc_cons:
  assumes "alloc_inv s (x # xs)"
  defines "s1 \<equiv> upd_page x (\<lambda>p. p\<lparr>pp_link := None\<rparr>) (s\<lparr>page_free_list := pp_link (pages s x)\<rparr>)"
  shows "page_alloc f s =
      Some (Some x, if f AND 1 \<noteq> 0 then zero_frame (page2pa x) s1 else s1)"
    and "alloc_inv (if f AND 1 \<noteq> 0 then zero_frame (page2pa x) s1 else s1) xs"
proof -
  have h: "page_free_list s = Some x" "x < npages s" "npages s \<le> 2 ^ 19"
    using assms(1) by (auto simp: alloc_inv_def)
  show "page_alloc f s = Some (Some x, if f AND 1 \<noteq> 0 then zero_frame (page2pa x) s1 else s1)"
    using h by (simp add: page_alloc_def page2kva_def KADDR_page2pa s1_def)
  have "alloc_inv s1 xs" unfolding s1_def by (rule alloc_inv_pop [OF assms(1)])
  moreover have "alloc_inv (zero_frame (page2pa x) s1) xs = alloc_inv s1 xs"
    by (rule alloc_inv_cong) simp_all
  ultimately show "alloc_inv (if f AND 1 \<noteq> 0 then zero_frame (page2pa x) s1 else s1) xs" by simp
qed

lemma page_free_push:
  assumes inv: "alloc_inv s xs" and x: "unreferenced s x" "x \<notin> set xs"
  shows "\<exists>s'. page_free x s = Some s' \<and> alloc_inv s' (x # xs) \<and> pmem s' = pmem s \<and>
              (\<forall>n. pp_ref (pages s' n) = pp_ref (pages s n))"
proof -
  have "chain (\<lambda>n. pp_link (((pages s)(x := (pages s x)\<lparr>pp_link := page_free_list s\<rparr>)) n))
     (page_free_list s) xs"
    using inv x by (auto simp: alloc_inv_def intro: chain_cong [of "\<lambda>n. pp_link (pages s n)"])
  with inv x show ?thesis
    by (auto simp: page_free_def alloc_inv_def unreferenced_def)
qed

interpretation pga: page_allocator alloc_inv "page_alloc f" page_free unreferenced for f
proof unfold_locales
  show "alloc_inv s [] \<Longrightarrow> page_alloc f s = Some (None, s)" for s
    by (rule page_alloc_empty)
  show "alloc_inv s (x # xs) \<Longrightarrow>
      \<exists>s'. page_alloc f s = Some (Some x, s') \<and> alloc_inv s' xs \<and> unreferenced s' x" for s x xs
    using page_alloc_cons [of s x xs f]
    by (auto simp: unreferenced_def alloc_inv_def)
  show "alloc_inv s xs \<Longrightarrow> unreferenced s x \<Longrightarrow> x \<notin> set xs \<Longrightarrow>
      \<exists>s'. page_free x s = Some s' \<and> alloc_inv s' (x # xs)" for s xs x
    using page_free_push [of s xs x] by auto
  show "alloc_inv s xs \<Longrightarrow> distinct xs" for s xs by (rule alloc_invD(6))
qed

section \<open>The free list built at boot\<close>

text \<open>The part of the invariant that does not depend on the memory size.\<close>

definition list_inv :: "kstate \<Rightarrow> nat list \<Rightarrow> bool" where
  "list_inv s xs \<longleftrightarrow>
     chain (\<lambda>n. pp_link (pages s n)) (page_free_list s) xs \<and>
     (\<forall>n \<in> set xs. pp_ref (pages s n) = 0) \<and>
     (\<forall>n. n \<notin> set xs \<longrightarrow> pp_link (pages s n) = None)"

lemma list_inv_mark_free:
  assumes "list_inv s xs" "i \<notin> set xs"
  shows "list_inv (mark_free i s) (i # xs)"
proof -
  have "chain (\<lambda>n. pp_link (((pages s)(i := \<lparr>pp_link = page_free_list s, pp_ref = 0\<rparr>)) n))
     (page_free_list s) xs"
    using assms by (auto simp: list_inv_def intro: chain_cong [of "\<lambda>n. pp_link (pages s n)"])
  with assms show ?thesis by (auto simp: list_inv_def mark_free_def)
qed

lemma list_inv_mark_used:
  assumes "list_inv s xs" "i \<notin> set xs"
  shows "list_inv (mark_used i s) xs"
proof -
  have "chain (\<lambda>n. pp_link (((pages s)(i := \<lparr>pp_link = None, pp_ref = 0\<rparr>)) n)) (page_free_list s) xs"
    using assms by (auto simp: list_inv_def intro: chain_cong [of "\<lambda>n. pp_link (pages s n)"])
  with assms show ?thesis by (auto simp: list_inv_def mark_used_def)
qed

lemma list_inv_fold_used:
  "list_inv s xs \<Longrightarrow> set is \<inter> set xs = {} \<Longrightarrow> list_inv (fold mark_used is s) xs"
  by (induction "is" arbitrary: s) (auto intro: list_inv_mark_used)

lemma list_inv_fold_free:
  "list_inv s xs \<Longrightarrow> distinct is \<Longrightarrow> set is \<inter> set xs = {} \<Longrightarrow>
   list_inv (fold mark_free is s) (rev is @ xs)"
proof (induction "is" arbitrary: s xs)
  case (Cons i js)
  have "list_inv (mark_free i s) (i # xs)" using Cons.prems by (intro list_inv_mark_free) auto
  with Cons.IH [of "mark_free i s" "i # xs"] Cons.prems show ?case by auto
qed simp

lemma list_inv_fold_base:
  "list_inv s xs \<Longrightarrow> distinct is \<Longrightarrow> set is \<inter> set xs = {} \<Longrightarrow>
   list_inv (fold init_base_page is s) (rev (filter (\<lambda>i. i \<noteq> 256) is) @ xs)"
proof (induction "is" arbitrary: s xs)
  case (Cons i js)
  show ?case
  proof (cases "i = 256")
    case True
    then have "list_inv (init_base_page i s) xs"
      using Cons.prems by (simp add: init_base_page_def list_inv_mark_used)
    with Cons.IH [of "init_base_page i s" xs] Cons.prems True show ?thesis by auto
  next
    case False
    then have "list_inv (init_base_page i s) (i # xs)"
      using Cons.prems by (simp add: init_base_page_def list_inv_mark_free)
    with Cons.IH [of "init_base_page i s" "i # xs"] Cons.prems False show ?thesis by auto
  qed
qed simp

lemma fold_mark_frame [simp]:
  "npages (fold mark_used is s) = npages s" "npages (fold mark_free is s) = npages s"
  "npages (fold init_base_page is s) = npages s"
  "npages_basemem (fold mark_used is s) = npages_basemem s"
  "boot_nextfree (fold mark_used is s) = boot_nextfree s"
  "boot_nextfree (fold init_base_page is s) = boot_nextfree s"
  "pmem (fold mark_used is s) = pmem s" "pmem (fold mark_free is s) = pmem s"
  "pmem (fold init_base_page is s) = pmem s"
  "kern_pgdir (fold mark_used is s) = kern_pgdir s" "kern_pgdir (fold mark_free is s) = kern_pgdir s"
  "kern_pgdir (fold init_base_page is s) = kern_pgdir s"
  "envs_base (fold mark_used is s) = envs_base s" "envs_base (fold mark_free is s) = envs_base s"
  "envs_base (fold init_base_page is s) = envs_base s"
  by (induction "is" arbitrary: s)
     (simp_all add: mark_used_def mark_free_def init_base_page_def upd_page_def)

lemma boot_alloc_0:
  "boot_nextfree s \<noteq> 0 \<Longrightarrow> boot_alloc kend 0 s = (boot_nextfree s, s)"
  by (simp add: boot_alloc_def)

lemma page_init_law:
  assumes zero: "\<forall>n. pages s n = \<lparr>pp_link = None, pp_ref = 0\<rparr>" and empty: "page_free_list s = None"
    and mem: "npages_basemem s = 512" "512 \<le> bound" "bound < npages s" "npages s \<le> 2 ^ 19"
    and brk: "boot_nextfree s = KERNBASE + PHYMEMOFF + of_nat bound * PGSIZE"
  shows "\<exists>s'. page_init kend s = Some s' \<and>
     alloc_inv s' (rev [bound..<npages s] @
       rev (filter (\<lambda>i. i \<noteq> 256) [unat (firmmem s div PGSIZE)..<512])) \<and>
     npages s' = npages s \<and> pmem s' = pmem s \<and> kern_pgdir s' = kern_pgdir s \<and> envs_base s' = envs_base s"
proof -
  let ?fw = "unat (firmmem s div PGSIZE)"
  let ?base = "rev (filter (\<lambda>i. i \<noteq> 256) [?fw..<512])"
  have ub: "unat (of_nat bound :: u64) = bound" using mem by (simp add: unat_of_nat)
  have un: "unat (of_nat bound * PGSIZE) = bound * 4096"
    using mem ub by (simp add: unat_word_ariths)
  have "18446744071562067968 + bound * 4096 < 18446744073709551616" using mem by simp
  then have nf: "unat (boot_nextfree s) = 18446744071562067968 + bound * 4096"
    unfolding brk using un by (simp add: unat_word_ariths)
  then have lt: "\<not> boot_nextfree s < KERNBASE" and nz: "boot_nextfree s \<noteq> 0"
    by (auto simp: word_less_nat_alt)
  have bd: "unat ((boot_nextfree s - KERNBASE - PHYMEMOFF) div PGSIZE) = bound"
    unfolding brk using un by (simp add: unat_div_distrib)
  have l0: "list_inv s []" using zero empty by (simp add: list_inv_def)
  have l1: "list_inv (fold mark_used [0..<?fw] s) []" by (rule list_inv_fold_used [OF l0]) simp
  have l2: "list_inv (fold init_base_page [?fw..<512] (fold mark_used [0..<?fw] s)) (?base @ [])"
    by (rule list_inv_fold_base [OF l1]) simp_all
  let ?s2 = "fold init_base_page [?fw..<512] (fold mark_used [0..<?fw] s)"
  have l3: "list_inv (fold mark_used [512..<bound] ?s2) ?base"
    by (rule list_inv_fold_used [OF l2 [unfolded append_Nil2]]) auto
  have l4: "list_inv (fold mark_free [bound..<npages s] (fold mark_used [512..<bound] ?s2))
      (rev [bound..<npages s] @ ?base)"
    using mem by (intro list_inv_fold_free [OF l3]) auto
  have "page_init kend s = Some (fold mark_free [bound..<npages s] (fold mark_used [512..<bound] ?s2))"
    using nz lt bd mem by (simp add: page_init_def boot_alloc_0 PADDR_def Let_def max_def)
  with l4 mem show ?thesis by (auto simp: alloc_inv_def list_inv_def)
qed

text \<open>After \<open>page_init\<close> the free list is exactly the pages above the kernel image and the
  boot-time allocations, in descending order, followed by the pages of base memory above the
  firmware except the one reserved for the entry code of the other CPUs; the allocator's
  invariant holds for it. The hypotheses are the state \<open>mem_init\<close> calls it in: a zeroed
  \<^verbatim>\<open>pages[]\<close>, an empty list, and boot allocations that end inside extended memory.\<close>

theorem page_init_free_list:
  assumes zero: "\<forall>n. pages s n = \<lparr>pp_link = None, pp_ref = 0\<rparr>" and empty: "page_free_list s = None"
    and mem: "npages_basemem s = 512" "512 \<le> bound" "bound < npages s" "npages s \<le> 2 ^ 19"
    and brk: "boot_nextfree s = KERNBASE + PHYMEMOFF + of_nat bound * PGSIZE"
  shows "\<exists>s'. page_init kend s = Some s' \<and>
     alloc_inv s' (rev [bound..<npages s] @
       rev (filter (\<lambda>i. i \<noteq> 256) [unat (firmmem s div PGSIZE)..<512]))"
  using page_init_law [OF assms] by blast

theorem page_init_free_list_witness:
  "\<exists>s'. page_init 0 (bss_kstate\<lparr>npages := 514, npages_basemem := 512, firmmem := 0x1FE000,
         boot_nextfree := KERNBASE + PHYMEMOFF + 512 * PGSIZE\<rparr>) = Some s' \<and>
     alloc_inv s' ([513, 512] @ [511, 510])"
  using page_init_free_list [of "bss_kstate\<lparr>npages := 514, npages_basemem := 512,
      firmmem := 0x1FE000, boot_nextfree := KERNBASE + PHYMEMOFF + 512 * PGSIZE\<rparr>" 512 0]
  by (simp add: bss_kstate_def)

section \<open>The allocator as a stack\<close>

text \<open>C27. The allocator is a stack of pages: \<open>k\<close> successive calls of \<open>page_alloc\<close> return
  the first \<open>k\<close> pages of the free list, which are distinct, and leave the rest; one more call than
  there are pages returns NULL.\<close>

theorem page_alloc_sequence:
  assumes "alloc_inv s (ys @ xs)"
  shows "distinct ys \<and>
     (\<exists>s'. alloc_n (page_alloc f) (length ys) s = Some (ys, s') \<and> alloc_inv s' xs) \<and>
     (\<exists>s'. alloc_n (page_alloc f) (Suc (length (ys @ xs))) s = Some (ys @ xs, s') \<and> alloc_inv s' [])"
proof (intro conjI)
  show "distinct ys" using alloc_invD(6) [OF assms] by simp
  show "\<exists>s'. alloc_n (page_alloc f) (length ys) s = Some (ys, s') \<and> alloc_inv s' xs"
    by (rule pga.alloc_n_ok [OF assms])
  show "\<exists>s'. alloc_n (page_alloc f) (Suc (length (ys @ xs))) s = Some (ys @ xs, s') \<and> alloc_inv s' []"
    by (rule pga.alloc_n_exhausts [OF assms]) simp
qed

theorem page_alloc_sequence_witness:
  "\<exists>s'. alloc_n (page_alloc 0) 2 (bss_kstate\<lparr>npages := 4, page_free_list := Some 1,
      pages := (\<lambda>n. \<lparr>pp_link = (if n = 1 then Some 2 else if n = 2 then Some 3 else None), pp_ref = 0\<rparr>)\<rparr>)
     = Some ([1, 2], s')"
proof -
  have "alloc_inv (bss_kstate\<lparr>npages := 4, page_free_list := Some 1,
      pages := (\<lambda>n. \<lparr>pp_link = (if n = 1 then Some 2 else if n = 2 then Some 3 else None), pp_ref = 0\<rparr>)\<rparr>)
      ([1, 2] @ [3])"
    by (auto simp: alloc_inv_def bss_kstate_def)
  from page_alloc_sequence [OF this, of 0] show ?thesis by (auto simp: numeral_2_eq_2)
qed

text \<open>C28. \<open>page_free\<close> undoes \<open>page_alloc\<close>: freeing the page just allocated restores the free
  list; freeing a page that has references panics, and so does freeing a page that is on the free
  list, unless it is the list's last page.\<close>

theorem page_free_correct:
  assumes inv: "alloc_inv s (x # xs)"
  shows "(\<exists>s1 s2. page_alloc f s = Some (Some x, s1) \<and> page_free x s1 = Some s2 \<and> alloc_inv s2 (x # xs)) \<and>
     (\<forall>n. pp_ref (pages s n) \<noteq> 0 \<longrightarrow> page_free n s = None) \<and>
     (\<forall>n \<in> set (x # xs). n \<noteq> last (x # xs) \<longrightarrow> page_free n s = None)"
proof -
  have "page_free n s = None" if "pp_link (pages s n) \<noteq> None" for n
    using that by (auto simp: page_free_def assert_that_def)
  then have "\<forall>n \<in> set (x # xs). n \<noteq> last (x # xs) \<longrightarrow> page_free n s = None"
    using chain_link_Some [OF alloc_invD(2) [OF inv]] by blast
  moreover have "\<forall>n. pp_ref (pages s n) \<noteq> 0 \<longrightarrow> page_free n s = None" by (simp add: page_free_def)
  ultimately show ?thesis using pga.alloc_then_free [OF inv] by blast
qed

theorem page_free_correct_witness:
  "page_free 1 (bss_kstate\<lparr>npages := 4, page_free_list := Some 1,
      pages := (\<lambda>n. \<lparr>pp_link = (if n = 1 then Some 2 else if n = 2 then Some 3 else None), pp_ref = 0\<rparr>)\<rparr>) = None"
proof -
  have "alloc_inv (bss_kstate\<lparr>npages := 4, page_free_list := Some 1,
      pages := (\<lambda>n. \<lparr>pp_link = (if n = 1 then Some 2 else if n = 2 then Some 3 else None), pp_ref = 0\<rparr>)\<rparr>)
      [1, 2, 3]"
    by (auto simp: alloc_inv_def bss_kstate_def)
  from page_free_correct [OF this, of 0] show ?thesis by simp
qed

text \<open>The last page of the free list has a null link like an allocated page, so freeing it twice is
  not detected and makes the list circular.\<close>

lemma page_free_twice_last:
  assumes "alloc_inv s [x]"
  shows "\<exists>s'. page_free x s = Some s' \<and> page_free_list s' = Some x \<and> pp_link (pages s' x) = Some x"
  using assms by (auto simp: alloc_inv_def page_free_def)

end
