(* ===== verification/Page_Table.thy ===== *)
theory Page_Table
  imports Page_Alloc
begin

unbundle bit_operations_syntax

text \<open>
  The page-table operations of \<^verbatim>\<open>kern/riscv/pmap.c\<close>: the four-level walk with and without
  creation of intermediate tables, \<open>page_insert\<close>, \<open>page_lookup\<close>, \<open>page_remove\<close>,
  \<open>tlb_invalidate\<close>, the boot-time region mapping, \<open>mmio_map_region\<close> and
  \<open>user_mem_check\<close>. A result \<open>None\<close> is a panic (of \<open>KADDR\<close>, \<open>pa2page\<close>, \<open>page_free\<close>
  or an assertion). Debugging output is not modelled.
\<close>

section \<open>The walk\<close>

definition pte_valid :: "u64 \<Rightarrow> bool" where
  "pte_valid e \<longleftrightarrow> e AND PTE_V \<noteq> 0"

definition pgdir_walk_through :: "paddr \<Rightarrow> vaddr \<Rightarrow> kstate \<Rightarrow> pte_ptr option option" where
  "pgdir_walk_through pgdir va s =
     (if \<not> pte_valid (pmem s pgdir (PD0X va)) then Some None
      else do {
        pgdir1 \<leftarrow> KADDR s (PDE_PHY (pmem s pgdir (PD0X va)));
        if \<not> pte_valid (pmem s pgdir1 (PD1X va)) then Some None
        else do {
          pgdir2 \<leftarrow> KADDR s (PDE_PHY (pmem s pgdir1 (PD1X va)));
          if \<not> pte_valid (pmem s pgdir2 (PD2X va)) then Some None
          else do {
            pt \<leftarrow> KADDR s (PDE_PHY (pmem s pgdir2 (PD2X va)));
            Some (Some (pt, PTX va)) } } })"

text \<open>\<open>alloc_table\<close> is the sequence \<^verbatim>\<open>page_alloc(ALLOC_ZERO)\<close>, NULL check,
  \<^verbatim>\<open>pp_ref++\<close>, \<^verbatim>\<open>page2pa\<close> which the code repeats before each level; \<open>link_level\<close> is the
  block that links the table allocated last when a level is missing and allocates the next.\<close>

definition alloc_table :: "kstate \<Rightarrow> (paddr option \<times> kstate) option" where
  "alloc_table s = do {
     (pg_info, s1) \<leftarrow> page_alloc 1 s;
     (case pg_info of
        None \<Rightarrow> Some (None, s1)
      | Some n \<Rightarrow> Some (Some (page2pa n), upd_page n (\<lambda>p. p\<lparr>pp_ref := pp_ref p + 1\<rparr>) s1)) }"

definition link_level :: "paddr \<Rightarrow> nat \<Rightarrow> paddr \<Rightarrow> kstate \<Rightarrow> (paddr option \<times> kstate) option" where
  "link_level pgdir i pa s =
     (if \<not> pte_valid (pmem s pgdir i)
      then alloc_table (wr_pte (pgdir, i) (PDE_ENTRY pa OR PTE_V) s)
      else Some (Some pa, s))"

definition pgdir_create_page_level ::
    "paddr \<Rightarrow> vaddr \<Rightarrow> kstate \<Rightarrow> (pte_ptr option \<times> kstate) option" where
  "pgdir_create_page_level pgdir va s = do {
     (q0, s0) \<leftarrow> alloc_table s;
     (case q0 of None \<Rightarrow> Some (None, s0) | Some pa0 \<Rightarrow> do {
        (q1, s1) \<leftarrow> link_level pgdir (PD0X va) pa0 s0;
        (case q1 of None \<Rightarrow> Some (None, s1) | Some pa1 \<Rightarrow> do {
           pgdir1 \<leftarrow> KADDR s1 (PDE_PHY (pmem s1 pgdir (PD0X va)));
           (q2, s2) \<leftarrow> link_level pgdir1 (PD1X va) pa1 s1;
           (case q2 of None \<Rightarrow> Some (None, s2) | Some pa2 \<Rightarrow> do {
              pgdir2 \<leftarrow> KADDR s2 (PDE_PHY (pmem s2 pgdir1 (PD1X va)));
              let s3 = (if \<not> pte_valid (pmem s2 pgdir2 (PD2X va))
                        then wr_pte (pgdir2, PD2X va) (PDE_ENTRY pa2 OR PTE_V) s2 else s2);
              pt \<leftarrow> KADDR s3 (PDE_PHY (pmem s3 pgdir2 (PD2X va)));
              Some (Some (pt, PTX va), s3) }) }) }) }"

definition pgdir_walk :: "paddr \<Rightarrow> vaddr \<Rightarrow> bool \<Rightarrow> kstate \<Rightarrow> (pte_ptr option \<times> kstate) option" where
  "pgdir_walk pgdir va create s = do {
     ret \<leftarrow> pgdir_walk_through pgdir va s;
     (case ret of
        Some p \<Rightarrow> Some (Some p, s)
      | None \<Rightarrow> if \<not> create then Some (None, s) else pgdir_create_page_level pgdir va s) }"

section \<open>Mapping and unmapping pages\<close>

definition tlb_invalidate :: "paddr \<Rightarrow> vaddr \<Rightarrow> kstate \<Rightarrow> kstate" where
  "tlb_invalidate pgdir va s =
     (case curenv s of
        None \<Rightarrow> s\<lparr>tlb_log := ROUNDDOWN va PGSIZE # tlb_log s\<rparr>
      | Some e \<Rightarrow> if env_pgdir (envs s e) = Some pgdir
                  then s\<lparr>tlb_log := ROUNDDOWN va PGSIZE # tlb_log s\<rparr> else s)"

text \<open>\<open>page_lookup\<close> returns the page and the address of its entry; the caller stores the
  latter when it passed a non-null \<^verbatim>\<open>pte_store\<close>.\<close>

definition page_lookup :: "paddr \<Rightarrow> vaddr \<Rightarrow> kstate \<Rightarrow> (nat \<times> pte_ptr) option option" where
  "page_lookup pgdir va s = do {
     (p_pte, _) \<leftarrow> pgdir_walk pgdir va False s;
     (case p_pte of
        None \<Rightarrow> Some None
      | Some p \<Rightarrow>
          if rd_pte s p = 0 then Some None
          else do { pg_info \<leftarrow> pa2page s (PTE_PHY (rd_pte s p)); Some (Some (pg_info, p)) }) }"

definition page_remove :: "paddr \<Rightarrow> vaddr \<Rightarrow> kstate \<Rightarrow> kstate option" where
  "page_remove pgdir va s = do {
     r \<leftarrow> page_lookup pgdir va s;
     (case r of
        None \<Rightarrow> Some s
      | Some (pg_info, p) \<Rightarrow> do {
          assert_that (pp_ref (pages s pg_info) \<noteq> 0);
          s1 \<leftarrow> page_decref pg_info s;
          Some (tlb_invalidate pgdir va (wr_pte p 0 s1)) }) }"

text \<open>The permission argument is an \<^verbatim>\<open>int\<close>; \<open>scast\<close> is its sign extension to the entry's
  64 bits.\<close>

definition page_insert :: "paddr \<Rightarrow> nat \<Rightarrow> vaddr \<Rightarrow> u32 \<Rightarrow> kstate \<Rightarrow> (int \<times> kstate) option" where
  "page_insert pgdir pp va perm s = do {
     (p_pte, s1) \<leftarrow> pgdir_walk pgdir va True s;
     (case p_pte of
        None \<Rightarrow> Some (- E_NO_MEM, s1)
      | Some p \<Rightarrow> do {
          let e = PTE_ENTRY (page2pa pp) OR scast perm OR PTE_V;
          s2 \<leftarrow> (if rd_pte s1 p \<noteq> 0 then
                   if rd_pte s1 p AND NOT 0xffc00000000003ff \<noteq> PTE_ENTRY (page2pa pp) then do {
                     t \<leftarrow> page_remove pgdir va s1;
                     Some (wr_pte p e (upd_page pp (\<lambda>q. q\<lparr>pp_ref := pp_ref q + 1\<rparr>) t)) }
                   else Some (wr_pte p e s1)
                 else Some (wr_pte p e (upd_page pp (\<lambda>q. q\<lparr>pp_ref := pp_ref q + 1\<rparr>) s1)));
          let s3 = (if page_free_list s2 = Some pp
                    then s2\<lparr>page_free_list := pp_link (pages s2 pp)\<rparr> else s2);
          Some (0, s3) }) }"

section \<open>Regions\<close>

primrec boot_map_loop :: "paddr \<Rightarrow> u64 \<Rightarrow> nat \<Rightarrow> vaddr \<Rightarrow> paddr \<Rightarrow> kstate \<Rightarrow> kstate option" where
  "boot_map_loop pgdir perm 0 va pa s = Some s"
| "boot_map_loop pgdir perm (Suc n) va pa s = do {
     (p_pte, s1) \<leftarrow> pgdir_walk pgdir va True s;
     (case p_pte of
        None \<Rightarrow> None
      | Some p \<Rightarrow> boot_map_loop pgdir perm n (va + PGSIZE) (pa + PGSIZE)
                    (wr_pte p (PTE_ENTRY pa OR perm OR PTE_V) s1)) }"

definition boot_map_region ::
    "paddr \<Rightarrow> vaddr \<Rightarrow> u64 \<Rightarrow> paddr \<Rightarrow> u64 \<Rightarrow> kstate \<Rightarrow> kstate option" where
  "boot_map_region pgdir va sz pa perm s =
     boot_map_loop pgdir perm (unat (sz div PGSIZE)) va pa s"

definition mmio_map_region :: "paddr \<Rightarrow> u64 \<Rightarrow> kstate \<Rightarrow> (vaddr \<times> kstate) option" where
  "mmio_map_region pa sz s = do {
     let base = MMIOBASE;
     let result = (if mmio_nextfree s = 0 then base else mmio_nextfree s);
     assert_that (\<not> ROUNDUP (base + sz) PGSIZE > MMIOLIM);
     s1 \<leftarrow> boot_map_region (kern_pgdir s) result (ROUNDUP sz PGSIZE) pa
             (PTE_W OR PTE_R OR PTE_V) s;
     Some (result, s1\<lparr>mmio_nextfree := result + ROUNDUP sz PGSIZE\<rparr>) }"

definition flash_map_init :: "kstate \<Rightarrow> kstate option" where
  "flash_map_init s =
     boot_map_region (kern_pgdir s) FLASH_MAP_ADDR 0x2000000 0x20000000
       (PTE_W OR PTE_R OR PTE_U OR PTE_V) s"

definition pcie_ecam_map_init :: "kstate \<Rightarrow> kstate option" where
  "pcie_ecam_map_init s =
     boot_map_region (kern_pgdir s) PCIE_MAP_ECAM_ADDR PCIE_MAP_ECAM_SIZE 0x30000000
       (PTE_W OR PTE_R OR PTE_V) s"

section \<open>Checking user memory\<close>

text \<open>The loop of \<open>user_mem_check\<close>: \<open>n\<close> iterations are left, \<open>store\<close> is the variable
  \<^verbatim>\<open>pte_store\<close>, which \<open>page_lookup\<close> only changes when it finds a page.\<close>

primrec user_mem_loop ::
    "paddr \<Rightarrow> u32 \<Rightarrow> nat \<Rightarrow> vaddr \<Rightarrow> pte_ptr option \<Rightarrow> kstate \<Rightarrow> (int \<times> kstate) option" where
  "user_mem_loop pgdir perm 0 addr store s = Some (0, s)"
| "user_mem_loop pgdir perm (Suc n) addr store s = do {
     r \<leftarrow> page_lookup pgdir addr s;
     let store' = (case r of None \<Rightarrow> store | Some (_, p) \<Rightarrow> Some p);
     (case store' of
        None \<Rightarrow> Some (- E_FAULT, s\<lparr>user_mem_check_addr := addr\<rparr>)
      | Some p \<Rightarrow>
          if rd_pte s p AND (scast perm OR PTE_V) = 0
          then Some (- E_FAULT, s\<lparr>user_mem_check_addr := addr\<rparr>)
          else user_mem_loop pgdir perm n (ROUNDUP addr PGSIZE + PGSIZE) store' s) }"

definition user_mem_check :: "vaddr \<Rightarrow> u64 \<Rightarrow> u32 \<Rightarrow> kstate \<Rightarrow> (int \<times> kstate) option" where
  "user_mem_check va len perm s =
     (if ROUNDUP (va + len) PGSIZE > ULIM
      then Some (- E_FAULT, s\<lparr>user_mem_check_addr := va\<rparr>)
      else do {
        cur \<leftarrow> curenv s;
        pgdir \<leftarrow> env_pgdir (envs s cur);
        user_mem_loop pgdir perm (Suc (unat (len div PGSIZE))) va None s })"

end
