(* ===== verification/Address_Space.thy ===== *)
theory Address_Space
  imports Page_Table
begin

unbundle bit_operations_syntax

text \<open>
  The address spaces the page tables describe, and the proof that the operations of
  \<^verbatim>\<open>kern/riscv/pmap.c\<close> change them as their contracts say.

  \<open>tbl s r p\<close> is the table reached from the root \<open>r\<close> along the indices \<open>p\<close>; \<open>leaf s r q\<close>
  is the entry at the four indices \<open>q\<close> (0 when a table is missing), so \<open>va_pte s r va\<close> is the
  address space as a function. \<open>R\<close> is a set of roots and \<open>S\<close> a set of indices of the
  top-level table: the invariant speaks about the part of the address spaces under these
  indices, since the other top-level entries are shared between environments.

  \<open>vm_inv s R S U xs\<close>: the allocator's invariant holds with the free list \<open>xs\<close>; every table is an
  allocated page that is mapped nowhere; no table is reached twice; a non-zero entry points to an existing page; and the
  reference count of a page is at least the number of its mappings.
\<close>

section \<open>The abstraction\<close>

fun tbl :: "kstate \<Rightarrow> paddr \<Rightarrow> nat list \<Rightarrow> paddr option" where
  "tbl s t [] = Some t"
| "tbl s t (i # is) = (if pte_valid (pmem s t i) then tbl s (PDE_PHY (pmem s t i)) is else None)"

definition leaf :: "kstate \<Rightarrow> paddr \<Rightarrow> nat list \<Rightarrow> u64" where
  "leaf s r q = (case tbl s r (butlast q) of None \<Rightarrow> 0 | Some t \<Rightarrow> pmem s t (last q))"

definition ixs :: "vaddr \<Rightarrow> nat list" where
  "ixs va = [PD0X va, PD1X va, PD2X va, PTX va]"

definition va_pte :: "kstate \<Rightarrow> paddr \<Rightarrow> vaddr \<Rightarrow> u64" where
  "va_pte s r va = leaf s r (ixs va)"

definition pte_frame :: "u64 \<Rightarrow> nat" where
  "pte_frame e = PGNUM (PTE_PHY e)"

text \<open>An entry that points exactly to an existing page.\<close>

definition pte_wf :: "kstate \<Rightarrow> u64 \<Rightarrow> bool" where
  "pte_wf s e \<longleftrightarrow> pte_frame e < npages s \<and> PTE_PHY e = page2pa (pte_frame e)"

definition tpaths :: "nat set \<Rightarrow> nat list set" where
  "tpaths S = {p. length p \<le> 3 \<and> set p \<subseteq> {..<512} \<and> (p = [] \<or> hd p \<in> S)}"

definition lpaths :: "nat set \<Rightarrow> nat list set" where
  "lpaths S = {q. length q = 4 \<and> set q \<subseteq> {..<512} \<and> hd q \<in> S}"

definition tab_at :: "kstate \<Rightarrow> paddr set \<Rightarrow> nat set \<Rightarrow> paddr \<Rightarrow> nat list \<Rightarrow> paddr \<Rightarrow> bool" where
  "tab_at s R S r p t \<longleftrightarrow> r \<in> R \<and> p \<in> tpaths S \<and> tbl s r p = Some t"

definition mappings :: "kstate \<Rightarrow> paddr set \<Rightarrow> nat set \<Rightarrow> nat \<Rightarrow> (paddr \<times> nat list) set" where
  "mappings s R U n =
     {(r, q). r \<in> R \<and> q \<in> lpaths U \<and> leaf s r q \<noteq> 0 \<and> pte_frame (leaf s r q) = n}"

definition tabs_inj :: "kstate \<Rightarrow> paddr set \<Rightarrow> nat set \<Rightarrow> bool" where
  "tabs_inj s R S \<longleftrightarrow>
     (\<forall>r p r' p' t. tab_at s R S r p t \<longrightarrow> tab_at s R S r' p' t \<longrightarrow> r = r' \<and> p = p')"

definition tabs_ok :: "kstate \<Rightarrow> paddr set \<Rightarrow> nat set \<Rightarrow> nat set \<Rightarrow> nat list \<Rightarrow> bool" where
  "tabs_ok s R S U xs \<longleftrightarrow>
     (\<forall>r p t. tab_at s R S r p t \<longrightarrow>
        (\<exists>n < npages s. t = page2pa n \<and> n \<notin> set xs \<and> mappings s R U n = {}))"

definition maps_ok :: "kstate \<Rightarrow> paddr set \<Rightarrow> nat set \<Rightarrow> bool" where
  "maps_ok s R U \<longleftrightarrow>
     (\<forall>r \<in> R. \<forall>q \<in> lpaths U. leaf s r q \<noteq> 0 \<longrightarrow> pte_wf s (leaf s r q)) \<and>
     (\<forall>n. card (mappings s R U n) \<le> unat (pp_ref (pages s n)))"

definition vm_inv :: "kstate \<Rightarrow> paddr set \<Rightarrow> nat set \<Rightarrow> nat set \<Rightarrow> nat list \<Rightarrow> bool" where
  "vm_inv s R S U xs \<longleftrightarrow>
     alloc_inv s xs \<and> finite R \<and> U \<subseteq> S \<and> tabs_inj s R S \<and> tabs_ok s R S U xs \<and> maps_ok s R U"

text \<open>A page that has just been allocated for a table and is not linked yet.\<close>

definition fresh_table :: "kstate \<Rightarrow> paddr set \<Rightarrow> nat set \<Rightarrow> nat set \<Rightarrow> nat list \<Rightarrow> nat \<Rightarrow> bool" where
  "fresh_table s R S U xs n \<longleftrightarrow>
     n < npages s \<and> n \<notin> set xs \<and> pmem s (page2pa n) = (\<lambda>_. 0) \<and>
     mappings s R U n = {} \<and> (\<forall>r p. \<not> tab_at s R S r p (page2pa n))"

text \<open>What creating tables may do: take pages from the front of the free list and turn pages
  of \<open>N\<close> into tables. No entry of an address space, no other page and no environment changes; a
  page taken from the list ends with one reference.\<close>

definition grows ::
    "paddr set \<Rightarrow> nat set \<Rightarrow> nat set \<Rightarrow> kstate \<Rightarrow> nat list \<Rightarrow> kstate \<Rightarrow> nat list \<Rightarrow> bool" where
  "grows R S N s xs s' xs' \<longleftrightarrow>
     (\<exists>us. xs = us @ xs' \<and> (\<forall>n. n \<notin> set us \<longrightarrow> pp_ref (pages s' n) = pp_ref (pages s n))) \<and>
     (\<forall>r \<in> R. \<forall>q \<in> lpaths S. leaf s' r q = leaf s r q) \<and>
     (\<forall>r \<in> R. \<forall>p \<in> tpaths S. \<forall>t. tbl s r p = Some t \<longrightarrow> tbl s' r p = Some t) \<and>
     (\<forall>r p t. tab_at s' R S r p t \<longrightarrow> tab_at s R S r p t \<or> t \<in> page2pa ` N) \<and>
     (\<forall>n. pp_ref (pages s' n) = pp_ref (pages s n) \<or> pp_ref (pages s' n) = 1) \<and>
     (\<forall>t. t \<notin> page2pa ` (set xs \<union> N) \<longrightarrow> (\<forall>r p. \<not> tab_at s R S r p t) \<longrightarrow> pmem s' t = pmem s t) \<and>
     npages s' = npages s \<and> envs s' = envs s \<and> curenv s' = curenv s \<and> kregs s' = kregs s"

section \<open>Paths\<close>

lemma tbl_snoc:
  "tbl s t (p @ [i]) = (case tbl s t p of None \<Rightarrow> None
     | Some t' \<Rightarrow> if pte_valid (pmem s t' i) then Some (PDE_PHY (pmem s t' i)) else None)"
  by (induction p arbitrary: t) auto

lemma tbl_append:
  "tbl s t (p @ q) = (case tbl s t p of None \<Rightarrow> None | Some t' \<Rightarrow> tbl s t' q)"
  by (induction p arbitrary: t) auto

lemma tpaths_Nil [simp]: "[] \<in> tpaths S"
  by (simp add: tpaths_def)

lemma tpaths_snocD: "p @ [i] \<in> tpaths S \<Longrightarrow> p \<in> tpaths S"
  by (cases p) (auto simp: tpaths_def)

lemma tpaths_appendD: "p @ q \<in> tpaths S \<Longrightarrow> p \<in> tpaths S"
  by (cases p) (auto simp: tpaths_def)

lemma lpaths_butlast: "q \<in> lpaths S \<Longrightarrow> butlast q \<in> tpaths S \<and> length (butlast q) = 3"
  by (cases q) (auto simp: lpaths_def tpaths_def dest: in_set_butlastD)

lemma ixs_paths:
  "PD0X va \<in> S \<Longrightarrow> ixs va \<in> lpaths S"
  "PD0X va \<in> S \<Longrightarrow> [PD0X va] \<in> tpaths S"
  "PD0X va \<in> S \<Longrightarrow> [PD0X va, PD1X va] \<in> tpaths S"
  "PD0X va \<in> S \<Longrightarrow> [PD0X va, PD1X va, PD2X va] \<in> tpaths S"
  by (simp_all add: ixs_def lpaths_def tpaths_def)

lemma ixs_eq_iff: "ixs va = ixs va' \<longleftrightarrow> TPGNUM va = TPGNUM va'"
  by (simp add: ixs_def TPGNUM_eq_iff)

lemma finite_mappings: "finite R \<Longrightarrow> finite (mappings s R U n)"
proof (rule finite_subset)
  show "mappings s R U n \<subseteq> R \<times> {q. set q \<subseteq> {..<512} \<and> length q = 4}"
    by (auto simp: mappings_def lpaths_def)
  show "finite R \<Longrightarrow> finite (R \<times> {q. set q \<subseteq> {..<512::nat} \<and> length q = 4})"
    by (intro finite_cartesian_product finite_lists_length_eq) simp_all
qed

lemma tabs_injD: "tabs_inj s R S \<Longrightarrow> tab_at s R S r p t \<Longrightarrow> tab_at s R S r' p' t \<Longrightarrow> r = r' \<and> p = p'"
  unfolding tabs_inj_def by blast

section \<open>How writes to memory change the tables\<close>

text \<open>Memory outside the tables does not matter.\<close>

lemma tbl_frame:
  assumes "\<And>r p t. tab_at s R S r p t \<Longrightarrow> pmem s' t = pmem s t" and "r \<in> R"
  shows "p \<in> tpaths S \<Longrightarrow> tbl s' r p = tbl s r p"
proof (induction p rule: rev_induct)
  case (snoc i p)
  from snoc.prems have p: "p \<in> tpaths S" by (rule tpaths_snocD)
  with snoc.IH have eq: "tbl s' r p = tbl s r p" by simp
  show ?case
  proof (cases "tbl s r p")
    case (Some t)
    with p assms have "pmem s' t = pmem s t" by (auto simp: tab_at_def)
    with eq Some show ?thesis by (simp add: tbl_snoc)
  qed (simp add: tbl_snoc eq)
qed simp

lemma leaf_frame:
  assumes "\<And>r p t. tab_at s R S r p t \<Longrightarrow> pmem s' t = pmem s t" and "r \<in> R" "q \<in> lpaths S"
  shows "leaf s' r q = leaf s r q"
proof -
  have q: "butlast q \<in> tpaths S" using lpaths_butlast assms(3) by blast
  have "tbl s' r (butlast q) = tbl s r (butlast q)" using tbl_frame [OF assms(1,2) q] by simp
  moreover have "pmem s' t = pmem s t" if "tbl s r (butlast q) = Some t" for t
    using assms(1) [of r "butlast q" t] q assms(2) that by (simp add: tab_at_def)
  ultimately show ?thesis by (auto simp: leaf_def split: option.splits)
qed

lemma tbl_write:
  assumes inj: "tabs_inj s R S" and t0: "tab_at s R S r0 p0 t0" and r: "r \<in> R"
    and e: "pmem s' = (pmem s)(t0 := (pmem s t0)(i0 := e))"
  shows "p \<in> tpaths S \<Longrightarrow> \<not> (r = r0 \<and> (\<exists>u. p = p0 @ i0 # u)) \<Longrightarrow> tbl s' r p = tbl s r p"
proof (induction p rule: rev_induct)
  case (snoc i p)
  from snoc.prems(1) have p: "p \<in> tpaths S" by (rule tpaths_snocD)
  with snoc have eq: "tbl s' r p = tbl s r p" by fastforce
  show ?case
  proof (cases "tbl s r p")
    case (Some t)
    have "t = t0 \<Longrightarrow> r = r0 \<and> p = p0"
      using tabs_injD [OF inj _ t0, of r p] Some p r by (simp add: tab_at_def)
    then have "t = t0 \<Longrightarrow> i \<noteq> i0" using snoc.prems(2) by auto
    then have "pmem s' t i = pmem s t i" by (auto simp: e)
    with eq Some show ?thesis by (simp add: tbl_snoc)
  qed (simp add: tbl_snoc eq)
qed simp

text \<open>Writing an entry of a last-level table changes that entry of the address space only.\<close>

lemma leaf_write:
  assumes inj: "tabs_inj s R S" and t0: "tab_at s R S r0 p0 t0" and len: "length p0 = 3"
    and e: "pmem s' = (pmem s)(t0 := (pmem s t0)(i0 := e))"
  shows "r \<in> R \<Longrightarrow> p \<in> tpaths S \<Longrightarrow> tbl s' r p = tbl s r p"
    and "r \<in> R \<Longrightarrow> q \<in> lpaths S \<Longrightarrow>
      leaf s' r q = (if r = r0 \<and> q = p0 @ [i0] then e else leaf s r q)"
proof -
  show tb: "tbl s' r p = tbl s r p" if "r \<in> R" "p \<in> tpaths S" for r p
  proof (rule tbl_write [OF inj t0 that(1) e that(2)])
    have "length p \<le> 3" using that by (simp add: tpaths_def)
    then show "\<not> (r = r0 \<and> (\<exists>u. p = p0 @ i0 # u))" using len by auto
  qed
  assume r: "r \<in> R" and q: "q \<in> lpaths S"
  have bq: "butlast q \<in> tpaths S" and q0: "q \<noteq> []"
    using lpaths_butlast [OF q] q by (auto simp: lpaths_def)
  show "leaf s' r q = (if r = r0 \<and> q = p0 @ [i0] then e else leaf s r q)"
  proof (cases "tbl s r (butlast q)")
    case None
    then have "\<not> (r = r0 \<and> q = p0 @ [i0])" using t0 by (auto simp: tab_at_def)
    with None show ?thesis using tb [OF r bq] by (auto simp: leaf_def)
  next
    case (Some t)
    have "t = t0 \<longleftrightarrow> r = r0 \<and> butlast q = p0"
      using tabs_injD [OF inj _ t0, of r "butlast q"] Some r bq t0 by (auto simp: tab_at_def)
    moreover have "q = p0 @ [i0] \<longleftrightarrow> butlast q = p0 \<and> last q = i0"
      using append_butlast_last_id [OF q0] by (metis butlast_snoc last_snoc)
    ultimately show ?thesis using tb [OF r bq] Some by (auto simp: leaf_def e)
  qed
qed

text \<open>Linking an all-zero page in an unused slot adds one table and no entry.\<close>

lemma tbl_link:
  assumes inj: "tabs_inj s R S" and t0: "tab_at s R S r0 p0 t0"
    and free: "\<not> pte_valid (pmem s t0 i0)" and e: "pte_valid e"
    and z: "pmem s (PDE_PHY e) = (\<lambda>_. 0)" and ne: "PDE_PHY e \<noteq> t0"
    and s': "pmem s' = (pmem s)(t0 := (pmem s t0)(i0 := e))"
    and r: "r \<in> R" and p: "p \<in> tpaths S"
  shows "tbl s' r p = (if r = r0 \<and> p = p0 @ [i0] then Some (PDE_PHY e) else tbl s r p)"
proof (cases "r = r0 \<and> (\<exists>u. p = p0 @ i0 # u)")
  case False
  then have "tbl s' r p = tbl s r p" by (rule tbl_write [OF inj t0 r s' p])
  with False show ?thesis by auto
next
  case True
  then obtain u where u: "r = r0" "p = p0 @ i0 # u" by blast
  have p0: "p0 \<in> tpaths S" "tbl s r0 p0 = Some t0" using t0 by (auto simp: tab_at_def)
  have "tbl s' r0 p0 = tbl s r0 p0" using tbl_write [OF inj t0 _ s' p0(1), of r0] r u by simp
  then have "tbl s' r0 p0 = Some t0" using p0 by simp
  then have "tbl s' r p = tbl s' (PDE_PHY e) u" using u e by (simp add: tbl_append s')
  moreover have "tbl s r p = None" using u p0 free by (simp add: tbl_append)
  moreover have "pmem s' (PDE_PHY e) = (\<lambda>_. 0)" using ne z by (simp add: s')
  then have "u \<noteq> [] \<Longrightarrow> tbl s' (PDE_PHY e) u = None" by (cases u) (simp_all add: pte_valid_def)
  ultimately show ?thesis using u by (cases u) auto
qed

lemma leaf_link:
  assumes inj: "tabs_inj s R S" and t0: "tab_at s R S r0 p0 t0" and len: "length p0 < 3"
    and free: "\<not> pte_valid (pmem s t0 i0)" and e: "pte_valid e"
    and z: "pmem s (PDE_PHY e) = (\<lambda>_. 0)" and ne: "PDE_PHY e \<noteq> t0"
    and s': "pmem s' = (pmem s)(t0 := (pmem s t0)(i0 := e))"
    and r: "r \<in> R" and q: "q \<in> lpaths S"
  shows "leaf s' r q = leaf s r q"
proof -
  have bq: "butlast q \<in> tpaths S" "length (butlast q) = 3" using lpaths_butlast [OF q] by auto
  note tb = tbl_link [OF inj t0 free e z ne s' r bq(1)]
  show ?thesis
  proof (cases "r = r0 \<and> butlast q = p0 @ [i0]")
    case True
    have "tbl s r (butlast q) = None" using True t0 free by (simp add: tbl_snoc tab_at_def)
    moreover have "tbl s' r (butlast q) = Some (PDE_PHY e)" using tb True by simp
    ultimately show ?thesis using z ne by (simp add: leaf_def s')
  next
    case False
    have "t \<noteq> t0" if "tbl s r (butlast q) = Some t" for t
      using tabs_injD [OF inj _ t0, of r "butlast q"] that r bq len by (auto simp: tab_at_def)
    with False tb show ?thesis by (auto simp: leaf_def s' split: option.splits)
  qed
qed

section \<open>The invariant\<close>

lemma vm_invD:
  assumes "vm_inv s R S U xs"
  shows "alloc_inv s xs" "finite R" "tabs_inj s R S" "tabs_ok s R S U xs" "maps_ok s R U"
    "npages s \<le> 2 ^ 19" "U \<subseteq> S"
  using assms by (auto simp: vm_inv_def alloc_inv_def)

lemma tab_page:
  assumes "vm_inv s R S U xs" "tab_at s R S r p t"
  obtains n where "n < npages s" "n < 2 ^ 19" "t = page2pa n" "n \<notin> set xs" "mappings s R U n = {}"
proof -
  obtain n where "n < npages s" "t = page2pa n" "n \<notin> set xs" "mappings s R U n = {}"
    using vm_invD(4) [OF assms(1)] assms(2) unfolding tabs_ok_def by blast
  moreover from this vm_invD(6) [OF assms(1)] have "n < 2 ^ 19" by linarith
  ultimately show thesis using that by blast
qed

lemma lpaths_mono: "U \<subseteq> S \<Longrightarrow> q \<in> lpaths U \<Longrightarrow> q \<in> lpaths S"
  by (auto simp: lpaths_def)

lemma mappings_cong:
  assumes "\<forall>r \<in> R. \<forall>q \<in> lpaths S. leaf s' r q = leaf s r q" "U \<subseteq> S"
  shows "mappings s' R U = mappings s R U"
  using assms lpaths_mono [OF assms(2)] by (auto simp: mappings_def fun_eq_iff)

lemma mappings_unref:
  assumes "vm_inv s R S U xs" "pp_ref (pages s n) = 0"
  shows "mappings s R U n = {}"
proof -
  have "card (mappings s R U n) \<le> unat (pp_ref (pages s n))"
    using vm_invD(5) [OF assms(1)] by (simp add: maps_ok_def)
  with assms(2) finite_mappings [OF vm_invD(2) [OF assms(1)]] show ?thesis by simp
qed

lemma not_tab_page:
  assumes "vm_inv s R S U xs" "n < npages s" "n \<in> set xs \<or> mappings s R U n \<noteq> {}"
  shows "\<not> tab_at s R S r p (page2pa n)"
proof
  assume "tab_at s R S r p (page2pa n)"
  then obtain m where m: "m < 2 ^ 19" "page2pa n = page2pa m" "m \<notin> set xs" "mappings s R U m = {}"
    using tab_page [OF assms(1)] by metis
  have "n < 2 ^ 19" using assms(2) vm_invD(6) [OF assms(1)] by linarith
  with m have "n = m" by (metis page2pa_inj)
  with m assms(3) show False by blast
qed

text \<open>Writes outside the tables, and changes of the page array that keep the allocator's
  invariant and do not lower a reference count, keep the invariant.\<close>

lemma vm_inv_frame:
  assumes inv: "vm_inv s R S U ys" and al: "alloc_inv s' xs" and sub: "set xs \<subseteq> set ys"
    and m: "\<And>r p t. tab_at s R S r p t \<Longrightarrow> pmem s' t = pmem s t" and np: "npages s' = npages s"
    and ref: "\<And>n. card (mappings s R U n) \<le> unat (pp_ref (pages s' n))"
  shows "vm_inv s' R S U xs" "\<forall>r \<in> R. \<forall>q \<in> lpaths S. leaf s' r q = leaf s r q"
    "\<forall>r \<in> R. \<forall>p \<in> tpaths S. tbl s' r p = tbl s r p"
proof -
  show lf: "\<forall>r \<in> R. \<forall>q \<in> lpaths S. leaf s' r q = leaf s r q" by (intro ballI leaf_frame) (auto intro: m)
  show tb: "\<forall>r \<in> R. \<forall>p \<in> tpaths S. tbl s' r p = tbl s r p" by (intro ballI tbl_frame) (auto intro: m)
  have ta: "tab_at s' R S = tab_at s R S" using tb by (auto simp: tab_at_def fun_eq_iff)
  note mp = mappings_cong [OF lf vm_invD(7) [OF inv]]
  have "tabs_inj s' R S" using vm_invD(3) [OF inv] by (simp add: tabs_inj_def ta)
  moreover have "tabs_ok s' R S U xs"
    using vm_invD(4) [OF inv] sub by (fastforce simp: tabs_ok_def ta mp np)
  moreover have "maps_ok s' R U" using vm_invD(5) [OF inv] ref lf lpaths_mono [OF vm_invD(7) [OF inv]]
    by (simp add: maps_ok_def mp pte_wf_def np)
  ultimately show "vm_inv s' R S U xs" using al vm_invD(2,7) [OF inv] by (simp add: vm_inv_def)
qed

text \<open>The address spaces depend on the memory, the pages and the free list only.\<close>

lemma tbl_cong: "pmem s' = pmem s \<Longrightarrow> tbl s' r p = tbl s r p"
  by (induction p arbitrary: r) simp_all

lemma leaf_cong:
  assumes "pmem s' = pmem s"
  shows "leaf s' r q = leaf s r q"
  by (simp only: leaf_def tbl_cong [OF assms] assms)

lemma va_pte_cong: "pmem s' = pmem s \<Longrightarrow> va_pte s' r va = va_pte s r va"
  unfolding va_pte_def by (rule leaf_cong)

lemma vm_inv_cong:
  assumes "pmem s' = pmem s" "pages s' = pages s" "npages s' = npages s" "page_free_list s' = page_free_list s"
  shows "vm_inv s' R S U xs = vm_inv s R S U xs"
proof -
  note c = tbl_cong [OF assms(1)] leaf_cong [OF assms(1)]
  have "tab_at s' = tab_at s" "mappings s' = mappings s" "pte_wf s' = pte_wf s"
    by (simp_all only: fun_eq_iff tab_at_def mappings_def pte_wf_def c assms(3) simp_thms)
  then show ?thesis
    using alloc_inv_cong [of s' s] assms(2-4)
    by (simp add: vm_inv_def tabs_inj_def tabs_ok_def maps_ok_def c)
qed

lemma grows_refl: "grows R S N s xs s xs"
  by (simp add: grows_def)

lemma grows_mono: "grows R S N s xs s' xs' \<Longrightarrow> N \<subseteq> M \<Longrightarrow> grows R S M s xs s' xs'"
  unfolding grows_def by blast

lemma grows_trans:
  assumes "grows R S N s xs s' xs'" "grows R S N s' xs' s'' xs''"
  shows "grows R S N s xs s'' xs''"
proof -
  obtain us vs where "xs = us @ xs'" "\<forall>n. n \<notin> set us \<longrightarrow> pp_ref (pages s' n) = pp_ref (pages s n)"
    "xs' = vs @ xs''" "\<forall>n. n \<notin> set vs \<longrightarrow> pp_ref (pages s'' n) = pp_ref (pages s' n)"
    using assms unfolding grows_def by blast
  then have "xs = (us @ vs) @ xs'' \<and>
      (\<forall>n. n \<notin> set (us @ vs) \<longrightarrow> pp_ref (pages s'' n) = pp_ref (pages s n))" by auto
  then have "\<exists>us. xs = us @ xs'' \<and> (\<forall>n. n \<notin> set us \<longrightarrow> pp_ref (pages s'' n) = pp_ref (pages s n))" by blast
  moreover have "tab_at s R S r p t \<or> t \<in> page2pa ` N" if "tab_at s'' R S r p t" for r p t
    using assms that unfolding grows_def by blast
  moreover have "\<forall>r \<in> R. \<forall>p \<in> tpaths S. \<forall>t. tbl s r p = Some t \<longrightarrow> tbl s'' r p = Some t"
    using assms unfolding grows_def by blast
  moreover have "pmem s'' t = pmem s t"
    if t: "t \<notin> page2pa ` (set xs \<union> N)" "\<forall>r p. \<not> tab_at s R S r p t" for t
  proof -
    have "set xs' \<subseteq> set xs" using assms(1) by (auto simp: grows_def)
    then have "t \<notin> page2pa ` (set xs' \<union> N)" using t(1) by blast
    moreover have "\<forall>r p. \<not> tab_at s' R S r p t" using assms(1) t unfolding grows_def by blast
    ultimately show ?thesis using assms t by (simp add: grows_def)
  qed
  moreover have "pp_ref (pages s'' n) = pp_ref (pages s n) \<or> pp_ref (pages s'' n) = 1" for n
    using assms unfolding grows_def by metis
  ultimately show ?thesis using assms by (simp add: grows_def)
qed

lemma grows_tbl: "grows R S N s xs s' xs' \<Longrightarrow> r \<in> R \<Longrightarrow> p \<in> tpaths S \<Longrightarrow> tbl s r p = Some t \<Longrightarrow> tbl s' r p = Some t"
  by (simp add: grows_def)

text \<open>A page table entry that points to a page reads back as that page.\<close>

lemma PTE_PHY_page:
  assumes "n < 2 ^ 19" "drop_bit 10 perm = 0"
  shows "PTE_PHY (PTE_ENTRY (page2pa n) OR perm) = page2pa n"
  using assms page2pa_shape by (intro PTE_PHY_ENTRY) auto

lemma PDE_link:
  assumes "n < 2 ^ 19"
  shows "PDE_PHY (PDE_ENTRY (page2pa n) OR PTE_V) = page2pa n" "pte_valid (PDE_ENTRY (page2pa n) OR PTE_V)"
proof -
  have "PTE_PHY (PTE_ENTRY (page2pa n) OR 1) = page2pa n"
    by (rule PTE_PHY_page [OF assms]) (simp add: drop_bit_eq_div word_unat_eq_iff unat_div_distrib)
  then show "PDE_PHY (PDE_ENTRY (page2pa n) OR PTE_V) = page2pa n"
    by (simp add: PDE_PHY_def PTE_PHY_def PDE_ENTRY_def PTE_ENTRY_def)
  have "bit (PDE_ENTRY (page2pa n) OR 1) 0" by (simp only: bit_or_iff bit_1_iff) simp
  then show "pte_valid (PDE_ENTRY (page2pa n) OR PTE_V)" by (simp add: pte_valid_def bit_AND_one)
qed

section \<open>Creating tables\<close>

lemma alloc_table_empty: "vm_inv s R S U [] \<Longrightarrow> alloc_table s = Some (None, s)"
  using page_alloc_empty [of s 1] by (simp add: alloc_table_def vm_inv_def)

lemma alloc_table_cons:
  assumes inv: "vm_inv s R S U (n # xs)"
  obtains s' where "alloc_table s = Some (Some (page2pa n), s')" "vm_inv s' R S U xs"
    "fresh_table s' R S U xs n" "grows R S {} s (n # xs) s' xs"
proof -
  define s1 where "s1 = zero_frame (page2pa n)
    (upd_page n (\<lambda>p. p\<lparr>pp_link := None\<rparr>) (s\<lparr>page_free_list := pp_link (pages s n)\<rparr>))"
  define s' where "s' = upd_page n (\<lambda>p. p\<lparr>pp_ref := pp_ref p + 1\<rparr>) s1"
  have al: "page_alloc 1 s = Some (Some n, s1)" "alloc_inv s1 xs"
    using page_alloc_cons [OF vm_invD(1) [OF inv], of 1] by (simp_all add: s1_def)
  have n: "n < npages s" "pp_ref (pages s n) = 0" "n \<notin> set xs"
    using alloc_invD(3,4,6) [OF vm_invD(1) [OF inv]] by auto
  have al': "alloc_inv s' xs"
    using al(2) n(3) by (simp add: s'_def)
  have nt: "\<not> tab_at s R S r p (page2pa n)" for r p
    using not_tab_page [OF inv n(1)] by simp
  have m: "pmem s' t = pmem s t" if "tab_at s R S r p t" for r p t
    using nt that by (auto simp: s'_def s1_def)
  have np: "npages s' = npages s" and ec: "envs s' = envs s" "curenv s' = curenv s"
    by (simp_all add: s'_def s1_def)
  have mn: "mappings s R U n = {}" by (rule mappings_unref [OF inv n(2)])
  have ref: "card (mappings s R U k) \<le> unat (pp_ref (pages s' k))" for k
  proof (cases "k = n")
    case False
    then have "pp_ref (pages s' k) = pp_ref (pages s k)" by (simp add: s'_def s1_def)
    with vm_invD(5) [OF inv] show ?thesis by (simp add: maps_ok_def)
  qed (simp add: mn)
  note fr = vm_inv_frame [OF inv al' _ m np ref]
  have inv': "vm_inv s' R S U xs" by (rule fr(1)) auto
  have lf: "\<forall>r \<in> R. \<forall>q \<in> lpaths S. leaf s' r q = leaf s r q" by (rule fr(2)) auto
  have tb: "\<forall>r \<in> R. \<forall>p \<in> tpaths S. tbl s' r p = tbl s r p" by (rule fr(3)) auto
  have "fresh_table s' R S U xs n"
    using n nt mn mappings_cong [OF lf vm_invD(7) [OF inv]] tb np by (auto simp: fresh_table_def s'_def s1_def tab_at_def)
  moreover have "pp_ref (pages s' k) = pp_ref (pages s k)" if "k \<noteq> n" for k
    using that by (simp add: s'_def s1_def)
  then have "grows R S {} s (n # xs) s' xs"
    unfolding grows_def using lf tb np ec n(2)
    by (auto simp: tab_at_def s'_def s1_def intro: exI [of _ "[n]"])
  moreover have "alloc_table s = Some (Some (page2pa n), s')"
    by (simp add: alloc_table_def al s'_def)
  ultimately show thesis using that inv' by blast
qed

lemma link_table:
  assumes inv: "vm_inv s R S U xs" and fr: "fresh_table s R S U xs n" and t0: "tab_at s R S r0 p0 t0"
    and len: "length p0 < 3" and p: "p0 @ [i0] \<in> tpaths S" and free: "\<not> pte_valid (pmem s t0 i0)"
  defines "s' \<equiv> wr_pte (t0, i0) (PDE_ENTRY (page2pa n) OR PTE_V) s"
  shows "vm_inv s' R S U xs" "grows R S {n} s xs s' xs" "tab_at s' R S r0 (p0 @ [i0]) (page2pa n)"
proof -
  have r0: "r0 \<in> R" and p0: "p0 \<in> tpaths S" using t0 by (auto simp: tab_at_def)
  have n: "n < npages s" "n \<notin> set xs" "pmem s (page2pa n) = (\<lambda>_. 0)" "mappings s R U n = {}"
    and nt: "\<And>r p. \<not> tab_at s R S r p (page2pa n)" using fr by (auto simp: fresh_table_def)
  have "n < 2 ^ 19" using n(1) vm_invD(6) [OF inv] by linarith
  note e = PDE_link [OF this]
  have ne: "page2pa n \<noteq> t0" using t0 nt by auto
  have s': "pmem s' = (pmem s)(t0 := (pmem s t0)(i0 := PDE_ENTRY (page2pa n) OR PTE_V))"
    by (simp add: s'_def)
  note inj = vm_invD(3) [OF inv]
  have tb: "tbl s' r p = (if r = r0 \<and> p = p0 @ [i0] then Some (page2pa n) else tbl s r p)"
    if "r \<in> R" "p \<in> tpaths S" for r p
    using tbl_link [OF inj t0 free e(2) _ _ s' that] n(3) ne e(1) by simp
  have lf: "\<forall>r \<in> R. \<forall>q \<in> lpaths S. leaf s' r q = leaf s r q"
    using leaf_link [OF inj t0 len free e(2) _ _ s'] n(3) ne e(1) by simp
  note mp = mappings_cong [OF lf vm_invD(7) [OF inv]]
  have ta: "tab_at s' R S r p t \<longleftrightarrow> tab_at s R S r p t \<or> r = r0 \<and> p = p0 @ [i0] \<and> t = page2pa n"
    for r p t
    using tb [of r p] r0 p t0 free by (auto simp: tab_at_def tbl_snoc)
  have "tabs_inj s' R S"
    using inj nt unfolding tabs_inj_def ta by blast
  moreover have "tabs_ok s' R S U xs"
    using vm_invD(4) [OF inv] n unfolding tabs_ok_def ta mp by (auto simp: s'_def)
  moreover have "maps_ok s' R U" using vm_invD(5) [OF inv] lf lpaths_mono [OF vm_invD(7) [OF inv]]
    unfolding maps_ok_def mp by (simp add: pte_wf_def s'_def)
  moreover have "alloc_inv s' xs" using vm_invD(1) [OF inv] by (simp add: s'_def)
  ultimately show "vm_inv s' R S U xs" using vm_invD(2,7) [OF inv] by (simp add: vm_inv_def)
  have "tbl s' r p = Some t" if "r \<in> R" "p \<in> tpaths S" "tbl s r p = Some t" for r p t
    using that ta [of r p t] by (simp add: tab_at_def)
  then show "grows R S {n} s xs s' xs" using lf ta t0 by (auto simp: grows_def s'_def)
  show "tab_at s' R S r0 (p0 @ [i0]) (page2pa n)" by (simp add: ta)
qed

text \<open>One level of \<open>pgdir_create_page_level\<close>: afterwards either the free pages are used up or
  the level exists and a fresh table is at hand for the next one.\<close>

lemma link_level_spec:
  assumes inv: "vm_inv s R S U xs" and fr: "fresh_table s R S U xs n" and t0: "tab_at s R S r p t0"
    and len: "length p < 3" and p: "p @ [i] \<in> tpaths S"
  obtains s' where "link_level t0 i (page2pa n) s = Some (None, s')" "vm_inv s' R S U []"
      "grows R S {n} s xs s' []" "xs = []"
  | s' n' xs' where "link_level t0 i (page2pa n) s = Some (Some (page2pa n'), s')" "vm_inv s' R S U xs'"
      "fresh_table s' R S U xs' n'" "grows R S {n} s xs s' xs'" "tbl s' r (p @ [i]) = Some (PDE_PHY (pmem s' t0 i))"
      "length xs \<le> Suc (length xs')" "n' \<in> insert n (set xs)" "set xs' \<subseteq> set xs"
proof (cases "pte_valid (pmem s t0 i)")
  case True
  then have "tbl s r (p @ [i]) = Some (PDE_PHY (pmem s t0 i))"
    using t0 by (simp add: tbl_snoc tab_at_def)
  with True show thesis
    using that(2) [of n s xs] inv fr grows_refl by (simp add: link_level_def)
next
  case False
  let ?s1 = "wr_pte (t0, i) (PDE_ENTRY (page2pa n) OR PTE_V) s"
  note l = link_table [OF inv fr t0 len p False]
  have n: "n < 2 ^ 19" using fr vm_invD(6) [OF inv] by (simp add: fresh_table_def)
  have r: "r \<in> R" using t0 by (simp add: tab_at_def)
  show thesis
  proof (cases xs)
    case Nil
    then have "link_level t0 i (page2pa n) s = Some (None, ?s1)"
      using False alloc_table_empty l(1) by (simp add: link_level_def)
    with that(1) [of ?s1] l Nil show thesis by simp
  next
    case (Cons n' xs')
    then have "vm_inv ?s1 R S U (n' # xs')" using l(1) by simp
    from alloc_table_cons [OF this] obtain s' where
      s': "alloc_table ?s1 = Some (Some (page2pa n'), s')" "vm_inv s' R S U xs'"
        "fresh_table s' R S U xs' n'" "grows R S {} ?s1 (n' # xs') s' xs'" by blast
    have g: "grows R S {n} s xs s' xs'"
      using grows_trans [OF l(2)] grows_mono [OF s'(4), of "{n}"] Cons by simp
    have tb: "tbl s' r (p @ [i]) = Some (page2pa n)"
      using grows_tbl [OF s'(4) r p] l(3) by (simp add: tab_at_def)
    moreover have "tbl s' r p = Some t0"
      using grows_tbl [OF g r] t0 by (simp add: tab_at_def)
    ultimately have "tbl s' r (p @ [i]) = Some (PDE_PHY (pmem s' t0 i))"
      by (auto simp: tbl_snoc split: if_splits)
    with that(2) [of n' s' xs'] s' g False Cons show thesis by (auto simp: link_level_def)
  qed
qed

lemma KADDR_tab: "vm_inv s R S U xs \<Longrightarrow> tab_at s R S r p t \<Longrightarrow> KADDR s t = Some t"
  by (metis tab_page KADDR_page2pa vm_invD(6))

lemma KADDR_tbl:
  "vm_inv s R S U xs \<Longrightarrow> r \<in> R \<Longrightarrow> p \<in> tpaths S \<Longrightarrow> tbl s r p = Some t \<Longrightarrow> KADDR s t = Some t"
  by (rule KADDR_tab) (simp_all add: tab_at_def)

text \<open>The walk without creation returns the slot of the address when its table exists.\<close>

definition slot :: "kstate \<Rightarrow> paddr \<Rightarrow> vaddr \<Rightarrow> pte_ptr option" where
  "slot s r va = map_option (\<lambda>t. (t, PTX va)) (tbl s r [PD0X va, PD1X va, PD2X va])"

lemma va_pte_slot: "va_pte s r va = (case slot s r va of None \<Rightarrow> 0 | Some p \<Rightarrow> rd_pte s p)"
  by (auto simp: va_pte_def leaf_def ixs_def slot_def rd_pte_def split: option.splits)

lemma walk_through_spec:
  assumes inv: "vm_inv s R S U xs" and r: "r \<in> R" and va: "PD0X va \<in> S"
  shows "pgdir_walk_through r va s = Some (slot s r va)"
proof -
  note k = KADDR_tbl [OF inv r ixs_paths(2) [OF va]] KADDR_tbl [OF inv r ixs_paths(3) [OF va]]
    KADDR_tbl [OF inv r ixs_paths(4) [OF va]]
  show ?thesis using k by (auto simp: pgdir_walk_through_def slot_def)
qed

lemma create_spec:
  assumes inv: "vm_inv s R S U xs" and r: "r \<in> R" and va: "PD0X va \<in> S"
  shows "\<exists>q s' xs'. pgdir_create_page_level r va s = Some (q, s') \<and> vm_inv s' R S U xs' \<and>
     grows R S (set xs) s xs s' xs' \<and> length xs \<le> length xs' + 3 \<and>
     (case q of None \<Rightarrow> length xs < 3 | Some p \<Rightarrow> slot s' r va = Some p)"
proof (cases xs)
  case Nil
  then have "pgdir_create_page_level r va s = Some (None, s)"
    using alloc_table_empty inv by (simp add: pgdir_create_page_level_def)
  with Nil inv show ?thesis
    by (intro exI [of _ None] exI [of _ s] exI [of _ "[]"]) (simp add: grows_refl)
next
  case (Cons n0 xs0)
  obtain s0 where s0: "alloc_table s = Some (Some (page2pa n0), s0)" "vm_inv s0 R S U xs0"
    "fresh_table s0 R S U xs0 n0" "grows R S {} s xs s0 xs0"
    using alloc_table_cons inv Cons by metis
  have g0: "grows R S (set xs) s xs s0 xs0" by (rule grows_mono [OF s0(4)]) simp
  have t0: "tab_at s0 R S r [] r" using r by (simp add: tab_at_def)
  have l: "length ([] :: nat list) < 3" "length [PD0X va] < 3" by simp_all
  have p: "[] @ [PD0X va] \<in> tpaths S" "[PD0X va] @ [PD1X va] \<in> tpaths S"
    using ixs_paths [OF va] by simp_all
  show ?thesis
  proof (cases rule: link_level_spec [OF s0(2,3) t0 l(1) p(1)])
    case (1 s1)
    have "grows R S (set xs) s xs s1 []"
      using grows_trans [OF g0 grows_mono [OF 1(3)]] Cons by simp
    moreover have "pgdir_create_page_level r va s = Some (None, s1)"
      using s0(1) 1(1) by (simp add: pgdir_create_page_level_def)
    ultimately show ?thesis using 1(2,4) Cons by (intro exI [of _ None] exI [of _ s1] exI [of _ "[]"]) simp
  next
    case (2 s1 n1 xs1)
    let ?t1 = "PDE_PHY (pmem s1 r (PD0X va))"
    have n1: "n1 \<in> set xs" "set xs1 \<subseteq> set xs" using 2(7,8) Cons by auto
    have g1: "grows R S (set xs) s xs s1 xs1"
      using grows_trans [OF g0 grows_mono [OF 2(4)]] Cons by simp
    have t1: "tab_at s1 R S r [PD0X va] ?t1" using 2(5) r ixs_paths(2) [OF va] by (simp add: tab_at_def)
    note k1 = KADDR_tab [OF 2(2) t1]
    show ?thesis
    proof (cases rule: link_level_spec [OF 2(2,3) t1 l(2) p(2)])
      case (1 s2)
      have "grows R S (set xs) s xs s2 []"
        using grows_trans [OF g1 grows_mono [OF 1(3)]] n1 by simp
      moreover have "pgdir_create_page_level r va s = Some (None, s2)"
        using s0(1) 1(1) 2(1) k1 by (simp add: pgdir_create_page_level_def)
      ultimately show ?thesis
        using 1(2,4) 2(6) Cons by (intro exI [of _ None] exI [of _ s2] exI [of _ "[]"]) simp
    next
      case (2 s2 n2 xs2)
      let ?t2 = "PDE_PHY (pmem s2 ?t1 (PD1X va))"
      have n2: "n2 \<in> set xs" using 2(7) n1 by auto
      have g2: "grows R S (set xs) s xs s2 xs2"
        using grows_trans [OF g1 grows_mono [OF 2(4)]] n1 by simp
      have t2: "tab_at s2 R S r [PD0X va, PD1X va] ?t2"
        using 2(5) r ixs_paths(3) [OF va] by (simp add: tab_at_def)
      note k2 = KADDR_tab [OF 2(2) t2]
      define s3 where "s3 = (if \<not> pte_valid (pmem s2 ?t2 (PD2X va))
         then wr_pte (?t2, PD2X va) (PDE_ENTRY (page2pa n2) OR PTE_V) s2 else s2)"
      have p3: "[PD0X va, PD1X va] @ [PD2X va] \<in> tpaths S" using ixs_paths(4) [OF va] by simp
      note l = link_table [OF 2(2,3) t2 _ p3]
      have i3: "vm_inv s3 R S U xs2" and g3: "grows R S (set xs) s2 xs2 s3 xs2"
        using l(1) grows_mono [OF l(2)] 2(2) grows_refl n2 by (auto simp: s3_def)
      have "tbl s3 r [PD0X va, PD1X va] = Some ?t2"
        using grows_tbl [OF g3 r ixs_paths(3) [OF va]] t2 by (simp add: tab_at_def)
      then have t3: "tbl s3 r [PD0X va, PD1X va, PD2X va] = Some (PDE_PHY (pmem s3 ?t2 (PD2X va)))"
        using tbl_snoc [of s3 r "[PD0X va, PD1X va]" "PD2X va"] l(3)
        by (auto simp: s3_def tab_at_def split: if_splits)
      have k3: "KADDR s3 (PDE_PHY (pmem s3 ?t2 (PD2X va))) = Some (PDE_PHY (pmem s3 ?t2 (PD2X va)))"
        using KADDR_tbl [OF i3 r ixs_paths(4) [OF va] t3] .
      have "pgdir_create_page_level r va s =
          Some (Some (PDE_PHY (pmem s3 ?t2 (PD2X va)), PTX va), s3)"
        using s0(1) \<open>link_level r (PD0X va) (page2pa n0) s0 = Some (Some (page2pa n1), s1)\<close> 2(1) k1 k2 k3
        by (simp add: pgdir_create_page_level_def s3_def Let_def)
      moreover have "slot s3 r va = Some (PDE_PHY (pmem s3 ?t2 (PD2X va)), PTX va)"
        unfolding slot_def t3 by simp
      moreover have "length xs \<le> length xs2 + 3"
        using Cons 2(6) \<open>length xs0 \<le> Suc (length xs1)\<close> by simp
      ultimately show ?thesis
        using i3 grows_trans [OF g2 g3]
        by (intro exI [of _ "Some (PDE_PHY (pmem s3 ?t2 (PD2X va)), PTX va)"] exI [of _ s3] exI [of _ xs2])
           (simp only: option.case simp_thms)
    qed
  qed
qed

lemma walk_create_spec:
  assumes inv: "vm_inv s R S U xs" and r: "r \<in> R" and va: "PD0X va \<in> S"
  shows "\<exists>q s' xs'. pgdir_walk r va True s = Some (q, s') \<and> vm_inv s' R S U xs' \<and>
     grows R S (set xs) s xs s' xs' \<and> length xs \<le> length xs' + 3 \<and>
     (case q of None \<Rightarrow> length xs < 3 | Some p \<Rightarrow> slot s' r va = Some p)"
proof (cases "slot s r va")
  case None
  then have "pgdir_walk r va True s = pgdir_create_page_level r va s"
    by (simp add: pgdir_walk_def walk_through_spec [OF assms])
  with create_spec [OF assms] show ?thesis by simp
next
  case (Some p)
  then have "pgdir_walk r va True s = Some (Some p, s)"
    by (simp add: pgdir_walk_def walk_through_spec [OF assms])
  with inv Some show ?thesis
    by (intro exI [of _ "Some p"] exI [of _ s] exI [of _ xs]) (simp add: grows_refl)
qed

end
