(* ===== verification/Page_Ops.thy ===== *)
theory Page_Ops
  imports Address_Space
begin

unbundle bit_operations_syntax

text \<open>
  The contracts of \<open>pgdir_walk\<close>, \<open>page_lookup\<close>, \<open>page_remove\<close> and \<open>page_insert\<close> over
  the address spaces of the theory \<open>Address_Space\<close>: what they return on every branch, the
  one entry they change, the entries and reference counts they leave alone, and that they keep
  the invariant \<open>vm_inv\<close>.
\<close>

section \<open>One entry changes\<close>

definition pte_insert :: "nat \<Rightarrow> u32 \<Rightarrow> u64" where
  "pte_insert pp perm = PTE_ENTRY (page2pa pp) OR scast perm OR PTE_V"

definition remap :: "(paddr \<times> nat list) set \<Rightarrow> paddr \<times> nat list \<Rightarrow> u64 \<Rightarrow> nat \<Rightarrow> (paddr \<times> nat list) set" where
  "remap M x e n = (if e \<noteq> 0 \<and> pte_frame e = n then insert x M else M - {x})"

text \<open>\<open>sets_pte\<close>: the address spaces of \<open>s'\<close> are those of \<open>s\<close> except for one entry.\<close>

definition sets_pte ::
    "paddr set \<Rightarrow> nat set \<Rightarrow> kstate \<Rightarrow> paddr \<Rightarrow> vaddr \<Rightarrow> u64 \<Rightarrow> kstate \<Rightarrow> bool" where
  "sets_pte R S s r va e s' \<longleftrightarrow>
     (\<forall>r' \<in> R. \<forall>q \<in> lpaths S.
        leaf s' r' q = (if r' = r \<and> q = ixs va then e else leaf s r' q)) \<and>
     npages s' = npages s \<and> envs s' = envs s \<and> curenv s' = curenv s \<and> kregs s' = kregs s"

text \<open>\<open>keeps_data\<close>: the contents of the pages that are neither free nor tables stay as they are.
  \<open>refs_le\<close>: a bound on the reference counts.\<close>

definition keeps_data :: "paddr set \<Rightarrow> nat set \<Rightarrow> nat list \<Rightarrow> kstate \<Rightarrow> kstate \<Rightarrow> bool" where
  "keeps_data R S xs s s' \<longleftrightarrow>
     (\<forall>t. t \<notin> page2pa ` set xs \<longrightarrow> (\<forall>r p. \<not> tab_at s R S r p t) \<longrightarrow> pmem s' t = pmem s t)"

definition refs_le :: "kstate \<Rightarrow> nat \<Rightarrow> bool" where
  "refs_le s B \<longleftrightarrow> (\<forall>n. unat (pp_ref (pages s n)) \<le> B)"

text \<open>Mapping a page: one entry changes, data is kept, and no reference count grows by more than
  one.\<close>

definition maps_page ::
    "paddr set \<Rightarrow> nat set \<Rightarrow> nat list \<Rightarrow> kstate \<Rightarrow> paddr \<Rightarrow> vaddr \<Rightarrow> u64 \<Rightarrow> kstate \<Rightarrow> bool" where
  "maps_page R S xs s r va e s' \<longleftrightarrow> sets_pte R S s r va e s' \<and>
     keeps_data R S xs s s' \<and> (\<forall>B. 1 \<le> B \<longrightarrow> refs_le s B \<longrightarrow> refs_le s' (Suc B))"

lemma sets_pte_va:
  assumes "sets_pte R S s r va e s'" "r' \<in> R" "PD0X va' \<in> S"
  shows "va_pte s' r' va' = (if r' = r \<and> TPGNUM va' = TPGNUM va then e else va_pte s r' va')"
  using assms ixs_paths(1) [OF assms(3)] by (simp add: sets_pte_def va_pte_def ixs_eq_iff)

lemma sets_pte_grows:
  assumes "grows R S N s xs s1 ys" "sets_pte R S s1 r va e s'"
  shows "sets_pte R S s r va e s'"
  using assms by (simp add: sets_pte_def grows_def)

lemma vm_inv_setpte:
  assumes inv: "vm_inv s R S U xs" and r: "r \<in> R" and va: "PD0X va \<in> S" and p: "slot s r va = Some p"
    and e: "PD0X va \<in> U \<Longrightarrow> e \<noteq> 0 \<Longrightarrow> pte_wf s e"
      "PD0X va \<in> U \<Longrightarrow> e \<noteq> 0 \<Longrightarrow> \<forall>r p. \<not> tab_at s R S r p (page2pa (pte_frame e))"
    and al: "alloc_inv s' xs'"
    and xs': "\<And>n. n \<in> set xs' \<Longrightarrow> n \<in> set xs \<or> (n < npages s \<and> (\<forall>r p. \<not> tab_at s R S r p (page2pa n)))"
    and pm: "pmem s' = (pmem s)(fst p := (pmem s (fst p))(snd p := e))" and np: "npages s' = npages s"
    and ref: "\<And>n. card (if PD0X va \<in> U then remap (mappings s R U n) (r, ixs va) e n
        else mappings s R U n) \<le> unat (pp_ref (pages s' n))"
    and ec: "envs s' = envs s" "curenv s' = curenv s" "kregs s' = kregs s"
  shows "vm_inv s' R S U xs'" "sets_pte R S s r va e s'"
    "\<forall>r \<in> R. \<forall>p \<in> tpaths S. tbl s' r p = tbl s r p"
proof -
  let ?p3 = "[PD0X va, PD1X va, PD2X va]"
  have p': "tbl s r ?p3 = Some (fst p)" "snd p = PTX va" using p by (auto simp: slot_def simp del: tbl.simps)
  have t0: "tab_at s R S r ?p3 (fst p)" using p' r ixs_paths(4) [OF va] by (simp add: tab_at_def)
  have ix: "ixs va = ?p3 @ [snd p]" using p' by (simp add: ixs_def)
  have l3: "length ?p3 = 3" by simp
  note lw = leaf_write [OF vm_invD(3) [OF inv] t0 l3 pm]
  have tb: "\<forall>r \<in> R. \<forall>p \<in> tpaths S. tbl s' r p = tbl s r p" using lw(1) by blast
  show "\<forall>r \<in> R. \<forall>p \<in> tpaths S. tbl s' r p = tbl s r p" by (rule tb)
  have lf: "leaf s' r' q = (if r' = r \<and> q = ixs va then e else leaf s r' q)"
    if "r' \<in> R" "q \<in> lpaths S" for r' q using lw(2) [OF that] ix by simp
  show "sets_pte R S s r va e s'" using lf np ec by (simp add: sets_pte_def)
  have ta: "tab_at s' R S = tab_at s R S" using tb by (auto simp: tab_at_def fun_eq_iff)
  have US: "q \<in> lpaths U \<Longrightarrow> q \<in> lpaths S" for q by (rule lpaths_mono [OF vm_invD(7) [OF inv]])
  have vU: "ixs va \<in> lpaths U \<longleftrightarrow> PD0X va \<in> U" by (auto simp: ixs_def lpaths_def)
  have mp: "mappings s' R U n =
      (if PD0X va \<in> U then remap (mappings s R U n) (r, ixs va) e n else mappings s R U n)" for n
    using lf r US vU by (auto simp: mappings_def remap_def split: if_splits)
  have "tabs_ok s' R S U xs'"
    unfolding tabs_ok_def ta
  proof (intro allI impI)
    fix r' p' t assume t: "tab_at s R S r' p' t"
    then obtain n where n: "n < npages s" "t = page2pa n" "n \<notin> set xs" "mappings s R U n = {}"
      by (rule tab_page [OF inv])
    have "n \<notin> set xs'" using xs' [of n] n t by blast
    moreover have "mappings s' R U n = {}" using n t e(2) by (auto simp: mp remap_def)
    ultimately show "\<exists>n<npages s'. t = page2pa n \<and> n \<notin> set xs' \<and> mappings s' R U n = {}"
      using n np by auto
  qed
  moreover have "maps_ok s' R U"
    using vm_invD(5) [OF inv] lf e(1) ref US vU by (auto simp: maps_ok_def mp pte_wf_def np)
  moreover have "tabs_inj s' R S" using vm_invD(3) [OF inv] by (simp add: tabs_inj_def ta)
  ultimately show "vm_inv s' R S U xs'" using al vm_invD(2,7) [OF inv] by (simp add: vm_inv_def)
qed

lemma vm_inv_US: "vm_inv s R S U xs \<Longrightarrow> PD0X va \<in> U \<Longrightarrow> PD0X va \<in> S"
  using vm_invD(7) by blast

lemma vm_inv_setpte_user:
  assumes inv: "vm_inv s R S U xs" and r: "r \<in> R" and va: "PD0X va \<in> U" and p: "slot s r va = Some p"
    and e: "e \<noteq> 0 \<Longrightarrow> pte_wf s e" "e \<noteq> 0 \<Longrightarrow> \<forall>r p. \<not> tab_at s R S r p (page2pa (pte_frame e))"
    and al: "alloc_inv s' xs'"
    and xs': "\<And>n. n \<in> set xs' \<Longrightarrow> n \<in> set xs \<or> (n < npages s \<and> (\<forall>r p. \<not> tab_at s R S r p (page2pa n)))"
    and pm: "pmem s' = (pmem s)(fst p := (pmem s (fst p))(snd p := e))" and np: "npages s' = npages s"
    and ref: "\<And>n. card (remap (mappings s R U n) (r, ixs va) e n) \<le> unat (pp_ref (pages s' n))"
    and ec: "envs s' = envs s" "curenv s' = curenv s" "kregs s' = kregs s"
  shows "vm_inv s' R S U xs'" "sets_pte R S s r va e s'"
    "\<forall>r \<in> R. \<forall>p \<in> tpaths S. tbl s' r p = tbl s r p"
  by (rule vm_inv_setpte [OF inv r vm_inv_US [OF inv va] p e al xs' pm np _ ec]; use ref va in simp)+

section \<open>Lookup and removal\<close>

lemma mapped_page:
  assumes inv: "vm_inv s R S U xs" and r: "r \<in> R" and va: "PD0X va \<in> U" and nz: "va_pte s r va \<noteq> 0"
  defines "n \<equiv> pte_frame (va_pte s r va)"
  shows "pte_wf s (va_pte s r va)" "n < npages s" "(r, ixs va) \<in> mappings s R U n"
    "pp_ref (pages s n) \<noteq> 0" "n \<notin> set xs" "\<not> tab_at s R S r' p' (page2pa n)"
proof -
  show wf: "pte_wf s (va_pte s r va)"
    using vm_invD(5) [OF inv] r ixs_paths(1) [OF va] nz by (simp add: maps_ok_def va_pte_def)
  then show n: "n < npages s" by (simp add: pte_wf_def n_def)
  show x: "(r, ixs va) \<in> mappings s R U n"
    using r ixs_paths(1) [OF va] nz by (simp add: mappings_def n_def va_pte_def)
  then have "mappings s R U n \<noteq> {}" by blast
  then show "pp_ref (pages s n) \<noteq> 0" using mappings_unref [OF inv] by blast
  then show "n \<notin> set xs" using alloc_invD(4) [OF vm_invD(1) [OF inv]] by blast
  show "\<not> tab_at s R S r' p' (page2pa n)" using not_tab_page [OF inv n] x by blast
qed

lemma page_lookup_spec:
  assumes inv: "vm_inv s R S U xs" and r: "r \<in> R" and va: "PD0X va \<in> U"
  shows "page_lookup r va s = Some (if va_pte s r va = 0 then None
           else Some (pte_frame (va_pte s r va), the (slot s r va)))"
proof (cases "slot s r va")
  case None
  then show ?thesis
    by (simp add: page_lookup_def pgdir_walk_def walk_through_spec [OF inv r vm_inv_US [OF inv va]] va_pte_slot)
next
  case (Some p)
  then have v: "va_pte s r va = rd_pte s p" by (simp add: va_pte_slot)
  have "rd_pte s p \<noteq> 0 \<Longrightarrow> pa2page s (PTE_PHY (rd_pte s p)) = Some (pte_frame (rd_pte s p))"
    using mapped_page(2) [OF assms] v by (simp add: pa2page_def pte_frame_def)
  with Some v show ?thesis
    by (simp add: page_lookup_def pgdir_walk_def walk_through_spec [OF inv r vm_inv_US [OF inv va]])
qed

lemma tlb_invalidate_frame [simp]:
  "npages (tlb_invalidate r va s) = npages s" "pages (tlb_invalidate r va s) = pages s"
  "page_free_list (tlb_invalidate r va s) = page_free_list s" "pmem (tlb_invalidate r va s) = pmem s"
  "envs (tlb_invalidate r va s) = envs s" "curenv (tlb_invalidate r va s) = curenv s"
  "satp (tlb_invalidate r va s) = satp s" "kern_pgdir (tlb_invalidate r va s) = kern_pgdir s"
  "env_free_list (tlb_invalidate r va s) = env_free_list s"
  by (auto simp: tlb_invalidate_def split: option.splits)

lemma alloc_inv_tlb [simp]: "alloc_inv (tlb_invalidate r va s) xs = alloc_inv s xs"
  by (rule alloc_inv_cong) auto

lemma page_decref_spec:
  assumes inv: "alloc_inv s xs" and n: "n < npages s" "n \<notin> set xs"
  defines "xs' \<equiv> (if pp_ref (pages s n) = 1 then n # xs else xs)"
  shows "\<exists>s'. page_decref n s = Some s' \<and> alloc_inv s' xs' \<and> pmem s' = pmem s \<and>
     (\<forall>k. pp_ref (pages s' k) = (if k = n then pp_ref (pages s n) - 1 else pp_ref (pages s k))) \<and>
     npages s' = npages s \<and> envs s' = envs s \<and> curenv s' = curenv s \<and> kregs s' = kregs s"
proof -
  let ?s1 = "upd_page n (\<lambda>p. p\<lparr>pp_ref := pp_ref p - 1\<rparr>) s"
  have a1: "alloc_inv ?s1 xs" using inv n by simp
  show ?thesis
  proof (cases "pp_ref (pages s n) = 1")
    case True
    then have "unreferenced ?s1 n" using n by (simp add: unreferenced_def)
    from page_free_push [OF a1 this n(2)] obtain s' where
      "page_free n ?s1 = Some s'" "alloc_inv s' (n # xs)" "pmem s' = pmem ?s1"
      "\<forall>k. pp_ref (pages s' k) = pp_ref (pages ?s1 k)" by blast
    moreover from this have "npages s' = npages s" "envs s' = envs s" "curenv s' = curenv s" "kregs s' = kregs s"
      by (auto simp: page_free_def)
    ultimately show ?thesis using True by (simp add: page_decref_def Let_def xs'_def)
  next
    case False
    then have "pp_ref (pages s n) - 1 \<noteq> 0" by simp
    with False a1 show ?thesis by (simp add: page_decref_def Let_def xs'_def)
  qed
qed

lemma page_remove_spec:
  assumes inv: "vm_inv s R S U xs" and r: "r \<in> R" and va: "PD0X va \<in> U"
  shows "\<exists>s' xs'. page_remove r va s = Some s' \<and> vm_inv s' R S U xs' \<and> sets_pte R S s r va 0 s' \<and>
     (\<forall>r \<in> R. \<forall>p \<in> tpaths S. tbl s' r p = tbl s r p) \<and>
     pmem s' = (case slot s r va of None \<Rightarrow> pmem s | Some p \<Rightarrow> (pmem s)(fst p := (pmem s (fst p))(snd p := 0))) \<and>
     xs' = (if va_pte s r va \<noteq> 0 \<and> pp_ref (pages s (pte_frame (va_pte s r va))) = 1
            then pte_frame (va_pte s r va) # xs else xs) \<and>
     (\<forall>k. pp_ref (pages s' k) =
        (if va_pte s r va \<noteq> 0 \<and> k = pte_frame (va_pte s r va) then pp_ref (pages s k) - 1
         else pp_ref (pages s k)))"
proof (cases "va_pte s r va = 0")
  case True
  then have "sets_pte R S s r va 0 s" by (simp add: sets_pte_def va_pte_def)
  moreover have "pmem s = (case slot s r va of None \<Rightarrow> pmem s
      | Some p \<Rightarrow> (pmem s)(fst p := (pmem s (fst p))(snd p := 0)))"
    using True by (auto simp: va_pte_slot rd_pte_def fun_eq_iff split: option.splits)
  ultimately show ?thesis using True inv by (simp add: page_remove_def page_lookup_spec [OF assms])
next
  case False
  let ?n = "pte_frame (va_pte s r va)"
  note mp = mapped_page [OF assms False]
  obtain p where p: "slot s r va = Some p" using False by (auto simp: va_pte_slot split: option.splits)
  obtain s1 where s1: "page_decref ?n s = Some s1"
    "alloc_inv s1 (if pp_ref (pages s ?n) = 1 then ?n # xs else xs)" "pmem s1 = pmem s"
    "\<And>k. pp_ref (pages s1 k) = (if k = ?n then pp_ref (pages s ?n) - 1 else pp_ref (pages s k))"
    "npages s1 = npages s" "envs s1 = envs s" "curenv s1 = curenv s" "kregs s1 = kregs s"
    using page_decref_spec [OF vm_invD(1) [OF inv] mp(2,5)] by blast
  define xs' where "xs' = (if pp_ref (pages s ?n) = 1 then ?n # xs else xs)"
  define s' where "s' = tlb_invalidate r va (wr_pte p 0 s1)"
  have ref: "card (remap (mappings s R U k) (r, ixs va) 0 k) \<le> unat (pp_ref (pages s' k))" for k
  proof -
    have c: "card (mappings s R U k) \<le> unat (pp_ref (pages s k))"
      using vm_invD(5) [OF inv] by (simp add: maps_ok_def)
    have "unat (pp_ref (pages s ?n) - 1) = unat (pp_ref (pages s ?n)) - 1"
      using mp(4) by (simp add: unat_minus_one)
    moreover have "card (mappings s R U ?n - {(r, ixs va)}) = card (mappings s R U ?n) - 1"
      using mp(3) by simp
    moreover have "k \<noteq> ?n \<Longrightarrow> (r, ixs va) \<notin> mappings s R U k"
      by (auto simp: mappings_def va_pte_def)
    ultimately show ?thesis using c s1(4) [of k] by (cases "k = ?n") (auto simp: remap_def s'_def)
  qed
  have al: "alloc_inv s' xs'" using s1(2) by (simp add: s'_def xs'_def)
  note sp = vm_inv_setpte_user [OF inv r va p _ _ al _ _ _ ref]
  have "vm_inv s' R S U xs'"
    by (rule sp(1)) (use s1 mp in \<open>auto simp: s'_def xs'_def split: if_splits\<close>)
  moreover have "sets_pte R S s r va 0 s'"
    by (rule sp(2)) (use s1 mp in \<open>auto simp: s'_def xs'_def split: if_splits\<close>)
  moreover have "\<forall>r \<in> R. \<forall>p \<in> tpaths S. tbl s' r p = tbl s r p"
    by (rule sp(3)) (use s1 mp in \<open>auto simp: s'_def xs'_def split: if_splits\<close>)
  moreover have "pmem s' = (pmem s)(fst p := (pmem s (fst p))(snd p := 0))" using s1(3) by (simp add: s'_def)
  moreover have "page_remove r va s = Some s'"
    using False mp(4) s1(1) p by (simp add: page_remove_def page_lookup_spec [OF assms] s'_def)
  moreover have "\<forall>k. pp_ref (pages s' k) =
      (if va_pte s r va \<noteq> 0 \<and> k = ?n then pp_ref (pages s k) - 1 else pp_ref (pages s k))"
    using False s1(4) by (simp add: s'_def)
  ultimately show ?thesis using False p by (intro exI [of _ s'] exI [of _ xs']) (simp add: xs'_def)
qed

section \<open>Insertion\<close>

lemma pte_insert_facts:
  assumes pp: "pp < npages s" "npages s \<le> 2 ^ 19" and perm: "drop_bit 10 (scast perm :: u64) = 0"
  shows "pte_frame (pte_insert pp perm) = pp" "pte_insert pp perm \<noteq> 0" "pte_wf s (pte_insert pp perm)"
proof -
  have n: "pp < 2 ^ 19" using pp by linarith
  have "drop_bit 10 (scast perm OR 1 :: u64) = 0"
    unfolding drop_bit_or perm by (simp add: drop_bit_eq_div word_unat_eq_iff unat_div_distrib)
  then have phy: "PTE_PHY (pte_insert pp perm) = page2pa pp"
    unfolding pte_insert_def or.assoc by (rule PTE_PHY_page [OF n])
  then show fr: "pte_frame (pte_insert pp perm) = pp"
    using n by (simp add: pte_frame_def PGNUM_page2pa)
  have "bit (pte_insert pp perm) 0" unfolding pte_insert_def by (simp only: bit_or_iff bit_1_iff) simp
  then show "pte_insert pp perm \<noteq> 0" by auto
  show "pte_wf s (pte_insert pp perm)" using phy fr pp by (simp add: pte_wf_def)
qed

text \<open>The test of \<open>page_insert\<close> on the entry decides whether it maps the page already.\<close>

lemma same_page_test:
  assumes "PTE_PHY e = page2pa n" "n < 2 ^ 19" "pp < 2 ^ 19"
  shows "e AND NOT 0xffc00000000003ff = PTE_ENTRY (page2pa pp) \<longleftrightarrow> n = pp"
proof -
  have m: "NOT (0xffc00000000003ff :: u64) = push_bit 10 (mask 44)"
    by (simp add: mask_eq_exp_minus_1 push_bit_eq_mult not_eq_complement)
  have hi: "bit (page2pa n) i \<Longrightarrow> i < 56" for i
    using page2pa_shape(2) [OF assms(2)] bit_drop_bit_eq [of 56 "page2pa n", THEN fun_cong, of "i - 56"]
    by (cases "i < 56") auto
  have b: "bit (page2pa n) i \<longleftrightarrow> 12 \<le> i \<and> i < 64 \<and> bit e (i - 2)" for i
    unfolding assms(1) [symmetric] PTE_PHY_def by (auto simp: bit_simps)
  have "e AND NOT 0xffc00000000003ff = PTE_ENTRY (page2pa n)"
    unfolding m
  proof (rule bit_word_eqI)
    fix i assume "i < LENGTH(64)"
    then show "bit (e AND push_bit 10 (mask 44)) i = bit (PTE_ENTRY (page2pa n)) i"
      using hi [of "i + 2"] b [of "i + 2"] by (auto simp: PTE_ENTRY_def bit_simps)
  qed
  moreover have "PTE_ENTRY (page2pa n) = PTE_ENTRY (page2pa pp) \<longleftrightarrow> n = pp"
  proof
    assume eq: "PTE_ENTRY (page2pa n) = PTE_ENTRY (page2pa pp)"
    have z: "drop_bit 10 (0 :: u64) = 0" by simp
    have "page2pa n = page2pa pp"
      using PTE_PHY_page [OF assms(2) z] PTE_PHY_page [OF assms(3) z] eq by simp
    then show "n = pp" using assms page2pa_inj by blast
  qed simp
  ultimately show ?thesis by simp
qed

text \<open>What a caller of \<open>page_insert\<close> promises: the page is allocated, is not itself a table,
  its 16-bit reference count does not overflow, and the permission has only flag bits.\<close>

definition insertable ::
    "kstate \<Rightarrow> paddr set \<Rightarrow> nat set \<Rightarrow> nat list \<Rightarrow> nat \<Rightarrow> u32 \<Rightarrow> bool" where
  "insertable s R S xs pp perm \<longleftrightarrow>
     pp < npages s \<and> pp \<notin> set xs \<and> (\<forall>r p. \<not> tab_at s R S r p (page2pa pp)) \<and>
     pp_ref (pages s pp) \<noteq> 0xFFFF \<and> drop_bit 10 (scast perm :: u64) = 0"

lemma insertable_grows:
  assumes ins: "insertable s R S xs pp perm" and inv: "vm_inv s R S U xs"
    and g: "grows R S (set xs) s xs s' xs'"
  shows "insertable s' R S xs' pp perm" "pp_ref (pages s' pp) = pp_ref (pages s pp)"
proof -
  have pp: "pp < npages s" "pp \<notin> set xs" using ins by (auto simp: insertable_def)
  have le: "npages s \<le> 2 ^ 19" by (rule vm_invD(6) [OF inv])
  obtain us where us: "xs = us @ xs'" "\<forall>n. n \<notin> set us \<longrightarrow> pp_ref (pages s' n) = pp_ref (pages s n)"
    using g by (auto simp: grows_def)
  then show "pp_ref (pages s' pp) = pp_ref (pages s pp)" using pp by auto
  moreover have "page2pa pp \<notin> page2pa ` set xs"
  proof
    assume "page2pa pp \<in> page2pa ` set xs"
    then obtain n where n: "n \<in> set xs" "page2pa pp = page2pa n" by auto
    then have "n < npages s" using alloc_invD(3) [OF vm_invD(1) [OF inv]] by blast
    with n pp le show False using page2pa_inj [of pp n] by auto
  qed
  then have "\<not> tab_at s' R S r p (page2pa pp)" for r p
    using ins g unfolding insertable_def grows_def by blast
  ultimately show "insertable s' R S xs' pp perm"
    using ins g us by (simp add: insertable_def grows_def)
qed

text \<open>Writing the new entry and raising the reference count, in a state where the slot does not
  map the page.\<close>

lemma insert_new_spec:
  assumes inv: "vm_inv s R S U xs" and r: "r \<in> R" and va: "PD0X va \<in> U" and p: "slot s r va = Some p"
    and ins: "insertable s R S xs pp perm" and z: "va_pte s r va = 0"
  defines "s' \<equiv> wr_pte p (pte_insert pp perm) (upd_page pp (\<lambda>q. q\<lparr>pp_ref := pp_ref q + 1\<rparr>) s)"
  shows "vm_inv s' R S U xs" "sets_pte R S s r va (pte_insert pp perm) s'"
proof -
  let ?e = "pte_insert pp perm"
  have pp: "pp < npages s" "pp \<notin> set xs" "\<forall>r p. \<not> tab_at s R S r p (page2pa pp)"
    "pp_ref (pages s pp) \<noteq> 0xFFFF" "drop_bit 10 (scast perm :: u64) = 0"
    using ins by (auto simp: insertable_def)
  note e = pte_insert_facts [OF pp(1) vm_invD(6) [OF inv] pp(5)]
  have al: "alloc_inv s' xs" using vm_invD(1) [OF inv] pp(2) by (simp add: s'_def)
  have ref: "card (remap (mappings s R U k) (r, ixs va) ?e k) \<le> unat (pp_ref (pages s' k))" for k
  proof -
    have c: "card (mappings s R U k) \<le> unat (pp_ref (pages s k))"
      using vm_invD(5) [OF inv] by (simp add: maps_ok_def)
    have x: "(r, ixs va) \<notin> mappings s R U k" using z by (simp add: mappings_def va_pte_def)
    have "(- 1 :: u16) = 0xFFFF" by simp
    with pp(4) have "pp_ref (pages s pp) \<noteq> - 1" by metis
    then have "unat (pp_ref (pages s pp) + 1) = unat (pp_ref (pages s pp)) + 1"
      using unat_Suc_word [of "pp_ref (pages s pp)"] by simp
    with c x finite_mappings [OF vm_invD(2) [OF inv], of s U k] e(1,2) show ?thesis
      by (auto simp: remap_def s'_def)
  qed
  note sp = vm_inv_setpte_user [OF inv r va p _ _ al _ _ _ ref]
  show "vm_inv s' R S U xs" by (rule sp(1)) (use e pp in \<open>auto simp: s'_def\<close>)
  show "sets_pte R S s r va ?e s'" by (rule sp(2)) (use e pp in \<open>auto simp: s'_def\<close>)
qed

text \<open>Changing only the permission bits of a page that is mapped at the address.\<close>

lemma insert_same_spec:
  assumes inv: "vm_inv s R S U xs" and r: "r \<in> R" and va: "PD0X va \<in> U" and p: "slot s r va = Some p"
    and ins: "insertable s R S xs pp perm" and m: "va_pte s r va \<noteq> 0" "pte_frame (va_pte s r va) = pp"
  defines "s' \<equiv> wr_pte p (pte_insert pp perm) s"
  shows "vm_inv s' R S U xs" "sets_pte R S s r va (pte_insert pp perm) s'"
proof -
  let ?e = "pte_insert pp perm"
  have pp: "pp < npages s" "\<forall>r p. \<not> tab_at s R S r p (page2pa pp)" "drop_bit 10 (scast perm :: u64) = 0"
    using ins by (auto simp: insertable_def)
  note e = pte_insert_facts [OF pp(1) vm_invD(6) [OF inv] pp(3)]
  have al: "alloc_inv s' xs" using vm_invD(1) [OF inv] by (simp add: s'_def)
  have ref: "card (remap (mappings s R U k) (r, ixs va) ?e k) \<le> unat (pp_ref (pages s' k))" for k
  proof -
    have "(r, ixs va) \<in> mappings s R U k \<longleftrightarrow> k = pp"
      using m r ixs_paths(1) [OF va] by (auto simp: mappings_def va_pte_def)
    then have "remap (mappings s R U k) (r, ixs va) ?e k = mappings s R U k"
      using e by (auto simp: remap_def)
    then show ?thesis using vm_invD(5) [OF inv] by (simp add: maps_ok_def s'_def)
  qed
  note sp = vm_inv_setpte_user [OF inv r va p _ _ al _ _ _ ref]
  show "vm_inv s' R S U xs" by (rule sp(1)) (use e pp in \<open>auto simp: s'_def\<close>)
  show "sets_pte R S s r va ?e s'" by (rule sp(2)) (use e pp in \<open>auto simp: s'_def\<close>)
qed

lemma slot_cong:
  "\<forall>r \<in> R. \<forall>p \<in> tpaths S. tbl s' r p = tbl s r p \<Longrightarrow> r \<in> R \<Longrightarrow> PD0X va \<in> S \<Longrightarrow> slot s' r va = slot s r va"
  using ixs_paths(4) [of va S] by (simp add: slot_def del: tbl.simps)

lemma page_insert_walk:
  assumes "pgdir_walk r va True s = Some (Some p, s1)"
  shows "page_insert r pp va perm s = do {
     s2 \<leftarrow> (if rd_pte s1 p \<noteq> 0 then
              if rd_pte s1 p AND NOT 0xffc00000000003ff \<noteq> PTE_ENTRY (page2pa pp) then do {
                t \<leftarrow> page_remove r va s1;
                Some (wr_pte p (pte_insert pp perm) (upd_page pp (\<lambda>q. q\<lparr>pp_ref := pp_ref q + 1\<rparr>) t)) }
              else Some (wr_pte p (pte_insert pp perm) s1)
            else Some (wr_pte p (pte_insert pp perm) (upd_page pp (\<lambda>q. q\<lparr>pp_ref := pp_ref q + 1\<rparr>) s1)));
     Some (0, if page_free_list s2 = Some pp then s2\<lparr>page_free_list := pp_link (pages s2 pp)\<rparr> else s2) }"
  using assms by (simp add: page_insert_def pte_insert_def Let_def cong: if_cong)

lemma not_free_head: "vm_inv s R S U xs \<Longrightarrow> pp \<notin> set xs \<Longrightarrow> page_free_list s \<noteq> Some pp"
  by (cases xs) (auto simp: vm_inv_def alloc_inv_def)

text \<open>The page the slot maps before the insertion, if any, is released.\<close>

lemma insert_other_spec:
  assumes inv: "vm_inv s R S U xs" and r: "r \<in> R" and va: "PD0X va \<in> U" and p: "slot s r va = Some p"
    and ins: "insertable s R S xs pp perm" and m: "va_pte s r va \<noteq> 0" "pte_frame (va_pte s r va) \<noteq> pp"
  shows "\<exists>t xs'. page_remove r va s = Some t \<and> slot t r va = Some p \<and> vm_inv t R S U xs' \<and>
     insertable t R S xs' pp perm \<and> va_pte t r va = 0 \<and> sets_pte R S s r va 0 t \<and>
     pp_ref (pages t pp) = pp_ref (pages s pp) \<and> length xs \<le> length xs' \<and>
     pmem t = (pmem s)(fst p := (pmem s (fst p))(snd p := 0)) \<and>
     (\<forall>n. unat (pp_ref (pages t n)) \<le> unat (pp_ref (pages s n)))"
proof -
  obtain t xs' where t: "page_remove r va s = Some t" "vm_inv t R S U xs'" "sets_pte R S s r va 0 t"
    "\<forall>r \<in> R. \<forall>p \<in> tpaths S. tbl t r p = tbl s r p"
    and xs': "xs' = (if va_pte s r va \<noteq> 0 \<and> pp_ref (pages s (pte_frame (va_pte s r va))) = 1
            then pte_frame (va_pte s r va) # xs else xs)"
    and ref: "\<forall>k. pp_ref (pages t k) = (if va_pte s r va \<noteq> 0 \<and> k = pte_frame (va_pte s r va)
        then pp_ref (pages s k) - 1 else pp_ref (pages s k))"
    and pm: "pmem t = (case slot s r va of None \<Rightarrow> pmem s
      | Some p \<Rightarrow> (pmem s)(fst p := (pmem s (fst p))(snd p := 0)))"
    using page_remove_spec [OF inv r va] by blast
  have "pp_ref (pages s (pte_frame (va_pte s r va))) \<noteq> 0" using mapped_page(4) [OF inv r va m(1)] .
  then have le: "\<forall>n. unat (pp_ref (pages t n)) \<le> unat (pp_ref (pages s n))"
    using ref by (simp add: unat_minus_one)
  have np: "npages t = npages s" using t(3) by (simp add: sets_pte_def)
  have "pp \<notin> set xs'" using ins m xs' by (simp add: insertable_def)
  moreover have rp: "pp_ref (pages t pp) = pp_ref (pages s pp)" using ref m(2) by auto
  moreover have "tab_at t R S = tab_at s R S" using t(4) by (auto simp: tab_at_def fun_eq_iff)
  ultimately have "insertable t R S xs' pp perm" using ins np by (simp add: insertable_def)
  moreover have "va_pte t r va = 0" using sets_pte_va [OF t(3) r vm_inv_US [OF inv va]] by simp
  moreover have "slot t r va = Some p" using slot_cong [OF t(4) r vm_inv_US [OF inv va]] p by simp
  moreover have "length xs \<le> length xs'" by (simp add: xs')
  moreover have "pmem t = (pmem s)(fst p := (pmem s (fst p))(snd p := 0))" using pm p by simp
  ultimately show ?thesis using t(1-3) rp le by blast
qed

lemma maps_page_grows:
  assumes g: "grows R S (set xs) s xs s1 xs1"
    and r: "r \<in> R" and va: "PD0X va \<in> S" and p: "slot s1 r va = Some p" and st: "sets_pte R S s1 r va e s'"
    and pm: "pmem s' = (pmem s1)(fst p := (pmem s1 (fst p))(snd p := e'))"
    and ref: "\<forall>n. unat (pp_ref (pages s' n)) \<le> Suc (unat (pp_ref (pages s1 n)))"
  shows "maps_page R S xs s r va e s'"
proof -
  have tp: "tab_at s1 R S r [PD0X va, PD1X va, PD2X va] (fst p)"
    using p r ixs_paths(4) [OF va] by (auto simp: slot_def tab_at_def simp del: tbl.simps)
  have "pmem s' t = pmem s t" if t: "t \<notin> page2pa ` set xs" "\<forall>r p. \<not> tab_at s R S r p t" for t
  proof -
    have "\<forall>r p. \<not> tab_at s1 R S r p t" using g t unfolding grows_def by blast
    then have "t \<noteq> fst p" using tp by blast
    then show ?thesis using g t pm by (simp add: grows_def)
  qed
  moreover have "refs_le s' (Suc B)" if B: "1 \<le> B" "refs_le s B" for B
  proof -
    have "unat (pp_ref (pages s1 n)) \<le> B" for n
    proof -
      have "pp_ref (pages s1 n) = pp_ref (pages s n) \<or> pp_ref (pages s1 n) = 1" using g by (simp add: grows_def)
      with B show ?thesis by (auto simp: refs_le_def)
    qed
    then show ?thesis using ref unfolding refs_le_def by (meson Suc_le_mono le_trans)
  qed
  ultimately show ?thesis
    using sets_pte_grows [OF g st] by (simp add: maps_page_def keeps_data_def)
qed

lemma unat_ref_inc: "unat (w + 1 :: u16) \<le> Suc (unat w)"
  by (simp add: unat_word_ariths)

text \<open>Writing the slot, in the three cases of the code.\<close>

lemma insert_at_slot:
  assumes inv: "vm_inv s R S U xs" and r: "r \<in> R" and va: "PD0X va \<in> U" and p: "slot s r va = Some p"
    and ins: "insertable s R S xs pp perm"
    and x: "x = do {
     s2 \<leftarrow> (if rd_pte s p \<noteq> 0 then
              if rd_pte s p AND NOT 0xffc00000000003ff \<noteq> PTE_ENTRY (page2pa pp) then do {
                t \<leftarrow> page_remove r va s;
                Some (wr_pte p (pte_insert pp perm) (upd_page pp (\<lambda>q. q\<lparr>pp_ref := pp_ref q + 1\<rparr>) t)) }
              else Some (wr_pte p (pte_insert pp perm) s)
            else Some (wr_pte p (pte_insert pp perm) (upd_page pp (\<lambda>q. q\<lparr>pp_ref := pp_ref q + 1\<rparr>) s)));
     Some (0 :: int, if page_free_list s2 = Some pp then s2\<lparr>page_free_list := pp_link (pages s2 pp)\<rparr> else s2) }"
  obtains s2 ys where
    "x = Some (0, if page_free_list s2 = Some pp then s2\<lparr>page_free_list := pp_link (pages s2 pp)\<rparr> else s2)"
    "vm_inv s2 R S U ys" "sets_pte R S s r va (pte_insert pp perm) s2" "pp \<notin> set ys" "length xs \<le> length ys"
    "pmem s2 = (pmem s)(fst p := (pmem s (fst p))(snd p := pte_insert pp perm))"
    "\<forall>n. unat (pp_ref (pages s2 n)) \<le> Suc (unat (pp_ref (pages s n)))"
proof -
  have v: "va_pte s r va = rd_pte s p" using p by (simp add: va_pte_slot)
  have pp: "pp < 2 ^ 19" "pp \<notin> set xs"
    using ins vm_invD(6) [OF inv] by (auto simp: insertable_def)
  have same: "(rd_pte s p AND NOT 0xffc00000000003ff \<noteq> PTE_ENTRY (page2pa pp)) \<longleftrightarrow>
      pte_frame (rd_pte s p) \<noteq> pp" if "rd_pte s p \<noteq> 0"
    using mapped_page(1,2) [OF inv r va] that v same_page_test [of "rd_pte s p" _ pp] pp(1)
      vm_invD(6) [OF inv] by (auto simp: pte_wf_def)
  consider "rd_pte s p = 0" | "rd_pte s p \<noteq> 0" "pte_frame (rd_pte s p) = pp"
    | "rd_pte s p \<noteq> 0" "pte_frame (rd_pte s p) \<noteq> pp" by blast
  then show thesis
  proof cases
    case 1
    note n = insert_new_spec [OF inv r va p ins] v 1
    show thesis by (rule that [OF _ n(1,2)]) (use x n pp unat_ref_inc in \<open>simp_all\<close>)
  next
    case 2
    note n = insert_same_spec [OF inv r va p ins] v 2
    show thesis by (rule that [OF _ n(1,2)]) (use x n pp same in \<open>simp_all\<close>)
  next
    case 3
    obtain t xs' where t: "page_remove r va s = Some t" "slot t r va = Some p" "vm_inv t R S U xs'"
      "insertable t R S xs' pp perm" "va_pte t r va = 0" "sets_pte R S s r va 0 t" "length xs \<le> length xs'"
      "pmem t = (pmem s)(fst p := (pmem s (fst p))(snd p := 0))"
      "\<forall>n. unat (pp_ref (pages t n)) \<le> unat (pp_ref (pages s n))"
      using insert_other_spec [OF inv r va p ins] v 3 by auto
    note n = insert_new_spec [OF t(3) r va t(2) t(4) t(5)]
    have "pp \<notin> set xs'" using t(4) by (simp add: insertable_def)
    moreover have "sets_pte R S s r va (pte_insert pp perm)
        (wr_pte p (pte_insert pp perm) (upd_page pp (\<lambda>q. q\<lparr>pp_ref := pp_ref q + 1\<rparr>) t))"
      using n(2) t(6) by (simp add: sets_pte_def)
    moreover have "unat (pp_ref (pages t pp) + 1) \<le> Suc (unat (pp_ref (pages s pp)))"
      using unat_ref_inc t(9) by (meson Suc_le_mono le_trans)
    ultimately show thesis
      by (intro that [OF _ n(1)]) (use x t(1,7,8,9) 3 same in \<open>simp_all add: le_SucI\<close>)
  qed
qed

lemma page_insert_spec:
  assumes inv: "vm_inv s R S U xs" and r: "r \<in> R" and va: "PD0X va \<in> U"
    and ins: "insertable s R S xs pp perm"
  shows "\<exists>ret s' xs'. page_insert r pp va perm s = Some (ret, s') \<and> vm_inv s' R S U xs' \<and>
     (ret = 0 \<and> length xs \<le> length xs' + 3 \<and> maps_page R S xs s r va (pte_insert pp perm) s' \<or>
      ret = - E_NO_MEM \<and> length xs < 3 \<and> grows R S (set xs) s xs s' xs')"
proof -
  obtain q s1 xs1 where w: "pgdir_walk r va True s = Some (q, s1)" and inv1: "vm_inv s1 R S U xs1"
    and g: "grows R S (set xs) s xs s1 xs1" and l: "length xs \<le> length xs1 + 3"
    and q: "case q of None \<Rightarrow> length xs < 3 | Some p \<Rightarrow> slot s1 r va = Some p"
    using walk_create_spec [OF inv r vm_inv_US [OF inv va]] by blast
  show ?thesis
  proof (cases q)
    case None
    then have "page_insert r pp va perm s = Some (- E_NO_MEM, s1)"
      using w by (simp add: page_insert_def)
    with inv1 g q None show ?thesis
      by (intro exI [of _ "- E_NO_MEM"] exI [of _ s1] exI [of _ xs1]) simp
  next
    case (Some p)
    with q have p: "slot s1 r va = Some p" by simp
    then have v: "va_pte s1 r va = rd_pte s1 p" by (simp add: va_pte_slot)
    note ins1 = insertable_grows(1) [OF ins inv g]
    note pw = page_insert_walk [OF w [unfolded Some], of pp perm]
    note mg = maps_page_grows [OF g r vm_inv_US [OF inv va] p]
    obtain s2 ys where s2: "page_insert r pp va perm s = Some (0,
          if page_free_list s2 = Some pp then s2\<lparr>page_free_list := pp_link (pages s2 pp)\<rparr> else s2)"
        "vm_inv s2 R S U ys" "sets_pte R S s1 r va (pte_insert pp perm) s2" "pp \<notin> set ys" "length xs1 \<le> length ys"
        "pmem s2 = (pmem s1)(fst p := (pmem s1 (fst p))(snd p := pte_insert pp perm))"
        "\<forall>n. unat (pp_ref (pages s2 n)) \<le> Suc (unat (pp_ref (pages s1 n)))"
      by (rule insert_at_slot [OF inv1 r va p ins1 pw])
    have "page_insert r pp va perm s = Some (0, s2)" using s2(1) not_free_head [OF s2(2,4)] by simp
    with s2(2,5) l mg [OF s2(3,6,7)] show ?thesis
      by (intro exI [of _ 0] exI [of _ s2] exI [of _ ys]) simp
  qed
qed

section \<open>Regions mapped at boot\<close>

lemma boot_map_step:
  assumes inv: "vm_inv s R S {} xs" and r: "r \<in> R" and va: "PD0X va \<in> S" and len: "3 \<le> length xs"
  shows "\<exists>p s1 xs'. pgdir_walk r va True s = Some (Some p, s1) \<and>
     vm_inv (wr_pte p e s1) R S {} xs' \<and> length xs \<le> length xs' + 3 \<and> sets_pte R S s r va e (wr_pte p e s1)"
proof -
  obtain q s1 xs1 where w: "pgdir_walk r va True s = Some (q, s1)" and inv1: "vm_inv s1 R S {} xs1"
    and g: "grows R S (set xs) s xs s1 xs1" and l: "length xs \<le> length xs1 + 3"
    and q: "case q of None \<Rightarrow> length xs < 3 | Some p \<Rightarrow> slot s1 r va = Some p"
    using walk_create_spec [OF inv r va] by blast
  from q len obtain p where p: "q = Some p" "slot s1 r va = Some p" by (cases q) auto
  have al: "alloc_inv (wr_pte p e s1) xs1" using vm_invD(1) [OF inv1] by simp
  have ref: "card (mappings s1 R {} n) \<le> unat (pp_ref (pages s1 n))" for n
    using vm_invD(5) [OF inv1] by (simp add: maps_ok_def)
  note sp = vm_inv_setpte [OF inv1 r va p(2) _ _ al, of e]
  have "vm_inv (wr_pte p e s1) R S {} xs1" by (rule sp(1)) (use ref in simp_all)
  moreover have "sets_pte R S s1 r va e (wr_pte p e s1)" by (rule sp(2)) (use ref in simp_all)
  ultimately show ?thesis using w p(1) l sets_pte_grows [OF g] by blast
qed

lemma boot_map_loop_spec:
  assumes "vm_inv s R S {} xs" "r \<in> R" "\<forall>i < n. PD0X (va + of_nat i * PGSIZE) \<in> S"
    "3 * n \<le> length xs" "n \<le> 2 ^ 36"
  shows "\<exists>s' xs'. boot_map_loop r perm n va pa s = Some s' \<and> vm_inv s' R S {} xs' \<and>
     (\<forall>i < n. va_pte s' r (va + of_nat i * PGSIZE) = PTE_ENTRY (pa + of_nat i * PGSIZE) OR perm OR PTE_V) \<and>
     (\<forall>r' \<in> R. \<forall>va'. PD0X va' \<in> S \<longrightarrow>
        r' \<noteq> r \<or> (\<forall>i < n. TPGNUM va' \<noteq> TPGNUM (va + of_nat i * PGSIZE)) \<longrightarrow> va_pte s' r' va' = va_pte s r' va')"
  using assms
proof (induction n arbitrary: va pa s xs)
  case 0
  then show ?case by auto
next
  case (Suc n)
  let ?e = "PTE_ENTRY pa OR perm OR PTE_V"
  have va: "PD0X va \<in> S" using Suc.prems(3) [rule_format, of 0] by simp
  obtain p s1 xs1 where w: "pgdir_walk r va True s = Some (Some p, s1)"
    and inv1: "vm_inv (wr_pte p ?e s1) R S {} xs1" and l: "length xs \<le> length xs1 + 3"
    and st: "sets_pte R S s r va ?e (wr_pte p ?e s1)"
    using boot_map_step [OF Suc.prems(1,2) va, of ?e] Suc.prems(4) by auto
  have sh: "va + PGSIZE + of_nat i * PGSIZE = va + of_nat (Suc i) * PGSIZE"
    "pa + PGSIZE + of_nat i * PGSIZE = pa + of_nat (Suc i) * PGSIZE" for i by (simp_all add: algebra_simps)
  have S': "\<forall>i < n. PD0X (va + PGSIZE + of_nat i * PGSIZE) \<in> S"
    unfolding sh using Suc.prems(3) Suc_less_eq by blast
  have len': "3 * n \<le> length xs1" "n \<le> 2 ^ 36" using Suc.prems(4,5) l by auto
  obtain s' xs' where IH: "boot_map_loop r perm n (va + PGSIZE) (pa + PGSIZE) (wr_pte p ?e s1) = Some s'"
    "vm_inv s' R S {} xs'"
    "\<And>i. i < n \<Longrightarrow> va_pte s' r (va + of_nat (Suc i) * PGSIZE) = PTE_ENTRY (pa + of_nat (Suc i) * PGSIZE) OR perm OR PTE_V"
    and fr: "\<And>r' va'. r' \<in> R \<Longrightarrow> PD0X va' \<in> S \<Longrightarrow>
        r' \<noteq> r \<or> (\<forall>i < n. TPGNUM va' \<noteq> TPGNUM (va + of_nat (Suc i) * PGSIZE)) \<Longrightarrow>
        va_pte s' r' va' = va_pte (wr_pte p ?e s1) r' va'"
    using Suc.IH [OF inv1 Suc.prems(2) S' len', of "pa + PGSIZE"] unfolding sh by blast
  have "\<forall>i < n. TPGNUM va \<noteq> TPGNUM (va + of_nat (Suc i) * PGSIZE)"
  proof (intro allI impI)
    fix i assume "i < n"
    then have "Suc i < 2 ^ 36" using Suc.prems(5) by linarith
    then show "TPGNUM va \<noteq> TPGNUM (va + of_nat (Suc i) * PGSIZE)"
      using TPGNUM_add_distinct [of "Suc i" va] by (metis zero_less_Suc)
  qed
  then have "va_pte s' r va = ?e"
    using fr [OF Suc.prems(2) va] sets_pte_va [OF st Suc.prems(2) va] by simp
  then have "\<forall>i < Suc n. va_pte s' r (va + of_nat i * PGSIZE) = PTE_ENTRY (pa + of_nat i * PGSIZE) OR perm OR PTE_V"
    using IH(3) by (auto simp: less_Suc_eq_0_disj simp del: of_nat_Suc)
  moreover have "va_pte s' r' va' = va_pte s r' va'"
    if "r' \<in> R" "PD0X va' \<in> S" "r' \<noteq> r \<or> (\<forall>i < Suc n. TPGNUM va' \<noteq> TPGNUM (va + of_nat i * PGSIZE))" for r' va'
    using fr [OF that(1,2)] sets_pte_va [OF st that(1,2)] that(3)
    by (auto simp: less_Suc_eq_0_disj simp del: of_nat_Suc)
  ultimately show ?case using w IH(1,2) by auto
qed

end
