(* ===== verification/Vm_Contracts.thy ===== *)
theory Vm_Contracts
  imports Page_Ops
begin

unbundle bit_operations_syntax

text \<open>
  The contracts of the virtual-memory operations, stated over the address space
  \<open>va_pte\<close>, with the start of the invariant \<open>vm_inv\<close>: it holds as soon as the allocator's
  invariant does and the page directories are cleared. \<open>demo_vm\<close> is a small memory of eight
  pages on which the statements are evaluated.
\<close>

section \<open>The invariant holds for cleared page directories\<close>

definition demo_vm :: kstate where
  "demo_vm = bss_kstate\<lparr>npages := 8, page_free_list := Some 2,
     pages := (\<lambda>n. \<lparr>pp_link = (if 2 \<le> n \<and> n < 6 then Some (n + 1) else None),
                    pp_ref = (if n = 0 then 1 else 0)\<rparr>)\<rparr>"

lemma tbl_zero_mem: "pmem s = (\<lambda>_ _. 0) \<Longrightarrow> tbl s r p = (if p = [] then Some r else None)"
  by (cases p) (simp_all add: pte_valid_def)

lemma vm_inv_zero_mem:
  assumes al: "alloc_inv s xs" and z: "pmem s = (\<lambda>_ _. 0)" and N: "finite N"
    "\<forall>n \<in> N. n < npages s \<and> n \<notin> set xs" and U: "U \<subseteq> S"
  shows "vm_inv s (page2pa ` N) S U xs"
proof -
  have lf: "leaf s r q = 0" for r q
    using z by (auto simp: leaf_def split: option.splits)
  then have mp: "mappings s (page2pa ` N) U n = {}" for n by (simp add: mappings_def)
  have ta: "tab_at s (page2pa ` N) S r p t \<longleftrightarrow> p = [] \<and> t = r \<and> r \<in> page2pa ` N" for r p t
    by (auto simp: tab_at_def tbl_zero_mem [OF z])
  show ?thesis
    using al N U by (auto simp: vm_inv_def tabs_inj_def tabs_ok_def maps_ok_def ta mp lf)
qed

lemma alloc_inv_demo: "alloc_inv demo_vm [2, 3, 4, 5, 6]"
  by (auto simp: alloc_inv_def demo_vm_def bss_kstate_def)

lemma vm_inv_demo: "vm_inv demo_vm {page2pa 0} {0} {0} [2, 3, 4, 5, 6]"
  using vm_inv_zero_mem [OF alloc_inv_demo, of "{0}" "{0}" "{0}"]
  by (simp add: demo_vm_def bss_kstate_def)

lemma insertable_demo: "insertable demo_vm {page2pa 0} {0} [2, 3, 4, 5, 6] 7 6"
proof -
  have ne: "page2pa 7 \<noteq> page2pa 0" using page2pa_inj [of 7 0] by auto
  have z: "pmem demo_vm = (\<lambda>_ _. 0)" by (simp add: demo_vm_def bss_kstate_def)
  have "drop_bit 10 (scast (6 :: u32) :: u64) = 0" by (simp add: drop_bit_eq_div word_unat_eq_iff unat_div_distrib)
  with ne show ?thesis
    by (auto simp: insertable_def tab_at_def tbl_zero_mem [OF z]) (simp_all add: demo_vm_def bss_kstate_def)
qed

lemma PD0X_demo: "PD0X 0x1000 = 0" "PD0X 0x2000 = 0"
  by (simp_all add: PDX_eq)

lemmas demo_facts = vm_inv_demo insertable_demo PD0X_demo

section \<open>Contracts\<close>

lemma insert_lookup:
  assumes inv: "vm_inv s R S U xs" and r: "r \<in> R" and va: "PD0X va \<in> U"
    and ins: "insertable s R S xs pp perm" and mem: "3 \<le> length xs"
  obtains s' xs' p where "page_insert r pp va perm s = Some (0, s')" "vm_inv s' R S U xs'"
    "sets_pte R S s r va (pte_insert pp perm) s'" "slot s' r va = Some p"
    "page_lookup r va s' = Some (Some (pp, p))" "rd_pte s' p = pte_insert pp perm"
    "length xs \<le> length xs' + 3" "maps_page R S xs s r va (pte_insert pp perm) s'"
proof -
  obtain s' xs' where s': "page_insert r pp va perm s = Some (0, s')" "vm_inv s' R S U xs'"
    "sets_pte R S s r va (pte_insert pp perm) s'" "length xs \<le> length xs' + 3"
    "maps_page R S xs s r va (pte_insert pp perm) s'"
    using page_insert_spec [OF inv r va ins] mem by (auto simp: maps_page_def)
  have v: "va_pte s' r va = pte_insert pp perm"
    using sets_pte_va [OF s'(3) r vm_inv_US [OF inv va]] by simp
  have e: "pte_frame (pte_insert pp perm) = pp" "pte_insert pp perm \<noteq> 0"
    using pte_insert_facts [of pp s perm] ins vm_invD(6) [OF inv] by (auto simp: insertable_def)
  obtain p where p: "slot s' r va = Some p" using v e(2) by (auto simp: va_pte_slot split: option.splits)
  have "page_lookup r va s' = Some (Some (pp, p))"
    using page_lookup_spec [OF s'(2) r va] v e p by simp
  moreover have "rd_pte s' p = pte_insert pp perm" using v p by (simp add: va_pte_slot)
  ultimately show thesis using that s' p by blast
qed

lemma demo_mapped:
  obtains s xs p where "page_insert (page2pa 0) 7 0x1000 6 demo_vm = Some (0, s)"
    "vm_inv s {page2pa 0} {0} {0} xs" "page_lookup (page2pa 0) 0x1000 s = Some (Some (7, p))"
proof -
  have "3 \<le> length [2, 3, 4, 5, 6 :: nat]" "page2pa 0 \<in> {page2pa 0}" "PD0X 0x1000 \<in> {0}"
    using PD0X_demo by simp_all
  from insert_lookup [OF vm_inv_demo this(2,3) insertable_demo this(1)] that show thesis by metis
qed

text \<open>C5. \<open>page_insert\<close> maps the page: with at least three free pages it succeeds, a following
  \<open>page_lookup\<close> at the address returns the page with exactly the requested permission bits and
  the valid bit, every other address of every address space keeps its entry, and the invariant is
  kept.\<close>

theorem page_insert_maps:
  assumes inv: "vm_inv s R S U xs" and r: "r \<in> R" and va: "PD0X va \<in> U"
    and ins: "insertable s R S xs pp perm" and mem: "3 \<le> length xs"
  shows "\<exists>s' xs' p. page_insert r pp va perm s = Some (0, s') \<and> vm_inv s' R S U xs' \<and>
     page_lookup r va s' = Some (Some (pp, p)) \<and> rd_pte s' p = PTE_ENTRY (page2pa pp) OR scast perm OR PTE_V \<and>
     (\<forall>r' \<in> R. \<forall>va'. PD0X va' \<in> S \<longrightarrow> r' \<noteq> r \<or> TPGNUM va' \<noteq> TPGNUM va \<longrightarrow>
        va_pte s' r' va' = va_pte s r' va')"
proof -
  obtain s' xs' p where s': "page_insert r pp va perm s = Some (0, s')" "vm_inv s' R S U xs'"
    "sets_pte R S s r va (pte_insert pp perm) s'"
    "page_lookup r va s' = Some (Some (pp, p))" "rd_pte s' p = pte_insert pp perm"
    by (rule insert_lookup [OF assms])
  then show ?thesis using sets_pte_va [OF s'(3)]
    by (intro exI [of _ s'] exI [of _ xs'] exI [of _ p]) (auto simp: pte_insert_def)
qed

theorem page_insert_maps_witness:
  "\<exists>s' xs' p. page_insert (page2pa 0) 7 0x1000 6 demo_vm = Some (0, s') \<and>
     vm_inv s' {page2pa 0} {0} {0} xs' \<and> page_lookup (page2pa 0) 0x1000 s' = Some (Some (7, p))"
proof -
  have "3 \<le> length [2, 3, 4, 5, 6 :: nat]" by simp
  from page_insert_maps [OF vm_inv_demo _ _ insertable_demo this, of "page2pa 0" "0x1000"]
  show ?thesis using PD0X_demo by blast
qed

text \<open>C6. \<open>page_remove\<close> unmaps: a following \<open>page_lookup\<close> finds no page, no other entry of any
  address space changes, the page's reference count goes down by one, and the page returns to the
  free list exactly when this was its last reference. The invariant is kept, so the assertion in the
  code cannot fail.\<close>

theorem page_remove_unmaps:
  assumes inv: "vm_inv s R S U xs" and r: "r \<in> R" and va: "PD0X va \<in> U"
    and m: "page_lookup r va s = Some (Some (pp, p))"
  shows "\<exists>s' xs'. page_remove r va s = Some s' \<and> vm_inv s' R S U xs' \<and>
     page_lookup r va s' = Some None \<and>
     (\<forall>r' \<in> R. \<forall>va'. PD0X va' \<in> S \<longrightarrow> r' \<noteq> r \<or> TPGNUM va' \<noteq> TPGNUM va \<longrightarrow>
        va_pte s' r' va' = va_pte s r' va') \<and>
     pp_ref (pages s' pp) = pp_ref (pages s pp) - 1 \<and>
     xs' = (if pp_ref (pages s pp) = 1 then pp # xs else xs)"
proof -
  have v: "va_pte s r va \<noteq> 0" "pte_frame (va_pte s r va) = pp"
    using m page_lookup_spec [OF inv r va] by (auto split: if_splits)
  obtain s' xs' where s': "page_remove r va s = Some s'" "vm_inv s' R S U xs'" "sets_pte R S s r va 0 s'"
    and x: "xs' = (if va_pte s r va \<noteq> 0 \<and> pp_ref (pages s (pte_frame (va_pte s r va))) = 1
            then pte_frame (va_pte s r va) # xs else xs)"
    and ref: "\<forall>k. pp_ref (pages s' k) = (if va_pte s r va \<noteq> 0 \<and> k = pte_frame (va_pte s r va)
        then pp_ref (pages s k) - 1 else pp_ref (pages s k))"
    using page_remove_spec [OF inv r va] by blast
  have "page_lookup r va s' = Some None"
    using page_lookup_spec [OF s'(2) r va] sets_pte_va [OF s'(3) r vm_inv_US [OF inv va]] by simp
  with s' x ref v sets_pte_va [OF s'(3)] show ?thesis by auto
qed

theorem page_remove_unmaps_witness:
  "\<exists>s s'. page_insert (page2pa 0) 7 0x1000 6 demo_vm = Some (0, s) \<and>
     page_remove (page2pa 0) 0x1000 s = Some s' \<and> page_lookup (page2pa 0) 0x1000 s' = Some None"
proof -
  obtain s xs p where s: "page_insert (page2pa 0) 7 0x1000 6 demo_vm = Some (0, s)"
    "vm_inv s {page2pa 0} {0} {0} xs" "page_lookup (page2pa 0) 0x1000 s = Some (Some (7, p))"
    by (rule demo_mapped)
  from page_remove_unmaps [OF s(2) _ _ s(3)] s(1) PD0X_demo show ?thesis by blast
qed

text \<open>Out of memory: \<open>page_insert\<close> returns 0 or \<open>-E_NO_MEM\<close>; the error needs fewer than
  three free pages, keeps the invariant and leaves every entry of every address space as it was.\<close>

theorem page_insert_no_mem:
  assumes inv: "vm_inv s R S U xs" and r: "r \<in> R" and va: "PD0X va \<in> U"
    and ins: "insertable s R S xs pp perm"
  shows "\<exists>ret s' xs'. page_insert r pp va perm s = Some (ret, s') \<and> vm_inv s' R S U xs' \<and>
     (ret = 0 \<or> ret = - E_NO_MEM \<and> length xs < 3 \<and>
        (\<forall>r' \<in> R. \<forall>va'. PD0X va' \<in> S \<longrightarrow> va_pte s' r' va' = va_pte s r' va'))"
proof -
  obtain ret s' xs' where s': "page_insert r pp va perm s = Some (ret, s')" "vm_inv s' R S U xs'"
    "ret = 0 \<or> ret = - E_NO_MEM \<and> length xs < 3 \<and> grows R S (set xs) s xs s' xs'"
    using page_insert_spec [OF inv r va ins] by blast
  have "va_pte s' r' va' = va_pte s r' va'"
    if "grows R S (set xs) s xs s' xs'" "r' \<in> R" "PD0X va' \<in> S" for r' va'
    using that ixs_paths(1) [OF that(3)] by (simp add: grows_def va_pte_def)
  with s' show ?thesis by (intro exI [of _ ret] exI [of _ s'] exI [of _ xs']) blast
qed

theorem page_insert_no_mem_witness:
  "\<exists>ret s' xs'. page_insert (page2pa 0) 7 0x2000 6 demo_vm = Some (ret, s') \<and>
     vm_inv s' {page2pa 0} {0} {0} xs' \<and> (ret = 0 \<or> ret = - E_NO_MEM)"
proof -
  from page_insert_no_mem [OF vm_inv_demo _ _ insertable_demo, of "page2pa 0" "0x2000"]
  show ?thesis using PD0X_demo by blast
qed

text \<open>Inserting a page again at the address where it is mapped only rewrites the entry: the
  result is 0, and no page's reference count and no free list changes.\<close>

theorem page_insert_again:
  assumes inv: "vm_inv s R S U xs" and r: "r \<in> R" and va: "PD0X va \<in> U"
    and m: "page_lookup r va s = Some (Some (pp, p))"
  shows "page_insert r pp va perm s = Some (0, wr_pte p (PTE_ENTRY (page2pa pp) OR scast perm OR PTE_V) s)"
proof -
  have v: "va_pte s r va \<noteq> 0" "pte_frame (va_pte s r va) = pp" "the (slot s r va) = p"
    using m page_lookup_spec [OF inv r va] by (auto split: if_splits)
  then have p: "slot s r va = Some p" by (auto simp: va_pte_slot split: option.splits)
  have w: "pgdir_walk r va True s = Some (Some p, s)"
    using p by (simp add: pgdir_walk_def walk_through_spec [OF inv r vm_inv_US [OF inv va]])
  have rd: "rd_pte s p = va_pte s r va" using p by (simp add: va_pte_slot)
  have pp: "pp < 2 ^ 19" "pp \<notin> set xs"
    using mapped_page(2,5) [OF inv r va v(1)] v(2) vm_invD(6) [OF inv] by auto
  have "PTE_PHY (rd_pte s p) = page2pa pp"
    using mapped_page(1) [OF inv r va v(1)] v(2) rd by (simp add: pte_wf_def)
  then have "rd_pte s p AND NOT 0xffc00000000003ff = PTE_ENTRY (page2pa pp)"
    using same_page_test pp(1) by blast
  with v rd not_free_head [OF inv pp(2)] show ?thesis
    unfolding page_insert_walk [OF w] by (simp add: pte_insert_def)
qed

theorem page_insert_again_witness:
  "\<exists>s p. page_insert (page2pa 0) 7 0x1000 6 demo_vm = Some (0, s) \<and>
     page_insert (page2pa 0) 7 0x1000 2 s = Some (0, wr_pte p (PTE_ENTRY (page2pa 7) OR scast (2 :: u32) OR PTE_V) s)"
proof -
  obtain s xs p where s: "page_insert (page2pa 0) 7 0x1000 6 demo_vm = Some (0, s)"
    "vm_inv s {page2pa 0} {0} {0} xs" "page_lookup (page2pa 0) 0x1000 s = Some (Some (7, p))"
    by (rule demo_mapped)
  from page_insert_again [OF s(2) _ _ s(3), of 2] s(1) PD0X_demo show ?thesis by blast
qed

text \<open>\<open>pgdir_walk\<close> with creation: with three free pages it returns the slot of the address,
  keeps the invariant, uses at most three pages of the free list, and changes no entry of any
  address space; without creation it returns the slot exactly when the tables exist and changes
  nothing.\<close>

theorem pgdir_walk_correct:
  assumes inv: "vm_inv s R S U xs" and r: "r \<in> R" and va: "PD0X va \<in> S" and mem: "3 \<le> length xs"
  shows "pgdir_walk r va False s = Some (slot s r va, s) \<and>
     (\<exists>p s' xs'. pgdir_walk r va True s = Some (Some p, s') \<and> slot s' r va = Some p \<and>
        vm_inv s' R S U xs' \<and> length xs \<le> length xs' + 3 \<and>
        (\<forall>r' \<in> R. \<forall>va'. PD0X va' \<in> S \<longrightarrow> va_pte s' r' va' = va_pte s r' va'))"
proof -
  obtain q s' xs' where w: "pgdir_walk r va True s = Some (q, s')" "vm_inv s' R S U xs'"
    "grows R S (set xs) s xs s' xs'" "length xs \<le> length xs' + 3"
    "case q of None \<Rightarrow> length xs < 3 | Some p \<Rightarrow> slot s' r va = Some p"
    using walk_create_spec [OF inv r va] by blast
  from w(5) mem obtain p where p: "q = Some p" "slot s' r va = Some p" by (cases q) auto
  have "\<forall>r' \<in> R. \<forall>va'. PD0X va' \<in> S \<longrightarrow> va_pte s' r' va' = va_pte s r' va'"
    using w(3) ixs_paths(1) by (simp add: grows_def va_pte_def)
  moreover have "pgdir_walk r va False s = Some (slot s r va, s)"
    by (simp add: pgdir_walk_def walk_through_spec [OF inv r va] split: option.splits)
  ultimately show ?thesis using w(1,2,4) p by blast
qed

theorem pgdir_walk_correct_witness:
  "pgdir_walk (page2pa 0) 0x1000 False demo_vm = Some (slot demo_vm (page2pa 0) 0x1000, demo_vm) \<and>
     (\<exists>p s'. pgdir_walk (page2pa 0) 0x1000 True demo_vm = Some (Some p, s') \<and>
        slot s' (page2pa 0) 0x1000 = Some p)"
proof -
  have "3 \<le> length [2, 3, 4, 5, 6 :: nat]" by simp
  from pgdir_walk_correct [OF vm_inv_demo _ _ this] show ?thesis using PD0X_demo by blast
qed

text \<open>\<open>boot_map_region\<close> maps the region page by page to the physical range with the given
  permissions and changes no entry outside it, given enough free pages for the tables.\<close>

theorem boot_map_region_maps:
  assumes inv: "vm_inv s R S {} xs" and r: "r \<in> R"
    and va: "\<forall>i < unat (sz div PGSIZE). PD0X (va + of_nat i * PGSIZE) \<in> S"
    and mem: "3 * unat (sz div PGSIZE) \<le> length xs" "unat (sz div PGSIZE) \<le> 2 ^ 36"
  shows "\<exists>s' xs'. boot_map_region r va sz pa perm s = Some s' \<and> vm_inv s' R S {} xs' \<and>
     (\<forall>i < unat (sz div PGSIZE).
        va_pte s' r (va + of_nat i * PGSIZE) = PTE_ENTRY (pa + of_nat i * PGSIZE) OR perm OR PTE_V) \<and>
     (\<forall>r' \<in> R. \<forall>va'. PD0X va' \<in> S \<longrightarrow>
        r' \<noteq> r \<or> (\<forall>i < unat (sz div PGSIZE). TPGNUM va' \<noteq> TPGNUM (va + of_nat i * PGSIZE)) \<longrightarrow>
        va_pte s' r' va' = va_pte s r' va')"
  unfolding boot_map_region_def by (rule boot_map_loop_spec [OF assms])

theorem boot_map_region_maps_witness:
  "\<exists>s'. boot_map_region (page2pa 0) 0x1000 PGSIZE 0x20000000 6 demo_vm = Some s' \<and>
     va_pte s' (page2pa 0) 0x1000 = PTE_ENTRY 0x20000000 OR 6 OR PTE_V"
proof -
  have inv: "vm_inv demo_vm {page2pa 0} {0} {} [2, 3, 4, 5, 6]"
    using vm_inv_zero_mem [OF alloc_inv_demo, of "{0}" "{}" "{0}"] by (simp add: demo_vm_def bss_kstate_def)
  have d: "unat (4096 div 4096 :: u64) = 1" by simp
  from boot_map_region_maps [OF inv, of "page2pa 0" 4096 4096 "0x20000000" 6] show ?thesis
    unfolding d using PD0X_demo by auto
qed

end
