(* ===== verification/Boot.thy ===== *)
theory Boot
  imports Vm_Contracts
begin

unbundle bit_operations_syntax

text \<open>
  Memory at boot: \<^verbatim>\<open>mem_init\<close> and \<^verbatim>\<open>mem_init_mp\<close> of \<^verbatim>\<open>kern/riscv/pmap.c\<close>. The self-tests
  \<^verbatim>\<open>check_page_free_list\<close>, \<^verbatim>\<open>check_page_alloc\<close> and \<^verbatim>\<open>check_page\<close>, which \<^verbatim>\<open>mem_init\<close> runs after the free list has been
  made and before the regions are mapped, and those it runs at its end, are not modelled. They change the state (the order of the free list, page tables, the
  next address for devices) and stop the kernel if an assertion fails, so \<^verbatim>\<open>mem_init\<close> as a whole is not a definition here.
  Its two parts are: \<open>mem_init_alloc\<close> up to \<open>page_init\<close>, and \<open>mem_init_map\<close>, from the first mapped region to the last,
  about which the lemmas start from any state the self-tests may leave that satisfies the invariant of the memory operations.
\<close>

section \<open>Building the kernel's address space\<close>

text \<open>The part of \<^verbatim>\<open>mem_init\<close> up to \<open>page_init\<close>. It returns the kernel address of \<^verbatim>\<open>pages[]\<close>; the sizes
  are those of \<^verbatim>\<open>struct PageInfo\<close> (16 bytes) and \<^verbatim>\<open>struct Env\<close> (368 bytes). The argument of
  \<open>boot_alloc\<close> is 32 bits wide. \<open>kend\<close> is the address of the linker symbol \<^verbatim>\<open>end\<close>.\<close>

definition mem_init_alloc :: "u64 \<Rightarrow> u64 \<Rightarrow> u64 \<Rightarrow> vaddr \<Rightarrow> kstate \<Rightarrow> (vaddr \<times> kstate) option" where
  "mem_init_alloc fw_end fw_start totalmem kend s = do {
     let s1 = riscv_detect_memory fw_end fw_start totalmem s;
     let (kva, s2) = boot_alloc kend 4096 s1;
     pgdir \<leftarrow> PADDR kva;
     let s3 = zero_frame pgdir (s2\<lparr>kern_pgdir := pgdir\<rparr>);
     let (pagesp, s4) = boot_alloc kend (of_nat (16 * npages s3)) s3;
     let s5 = s4\<lparr>pages := (\<lambda>n. if n < npages s4 then \<lparr>pp_link = None, pp_ref = 0\<rparr> else pages s4 n)\<rparr>;
     let (envsp, s6) = boot_alloc kend (368 * 1024) s5;
     let s7 = s6\<lparr>envs := (\<lambda>e. if e < 1024 then zero_env else envs s6 e), envs_base := envsp\<rparr>;
     s8 \<leftarrow> page_init kend s7;
     Some (pagesp, s8) }"

text \<open>The loop of \<^verbatim>\<open>mem_init_mp\<close>: \<open>n\<close> iterations are left, \<open>kst\<close> is the address of the array
  \<^verbatim>\<open>percpu_kstacks\<close>.\<close>

primrec mem_init_mp_loop :: "vaddr \<Rightarrow> nat \<Rightarrow> nat \<Rightarrow> vaddr \<Rightarrow> kstate \<Rightarrow> kstate option" where
  "mem_init_mp_loop kst 0 i kstacktop_i s = Some s"
| "mem_init_mp_loop kst (Suc n) i kstacktop_i s = do {
     pa \<leftarrow> PADDR (kst + of_nat i * KSTKSIZE);
     s1 \<leftarrow> boot_map_region (kern_pgdir s) (kstacktop_i - KSTKSIZE) KSTKSIZE pa (PTE_W OR PTE_R) s;
     mem_init_mp_loop kst n (i + 1) (KSTACKTOP - of_nat (i + 1) * (KSTKSIZE + KSTKGAP)) s1 }"

definition mem_init_mp :: "vaddr \<Rightarrow> kstate \<Rightarrow> kstate option" where
  "mem_init_mp kst s = mem_init_mp_loop kst 8 0 KSTACKTOP s"

text \<open>The part of \<^verbatim>\<open>mem_init\<close> that maps the regions. \<open>bootstack\<close> is the address of the stack the boot code uses.\<close>

definition mem_init_map :: "vaddr \<Rightarrow> vaddr \<Rightarrow> vaddr \<Rightarrow> kstate \<Rightarrow> kstate option" where
  "mem_init_map pagesp bootstack kst s = do {
     pa1 \<leftarrow> PADDR pagesp;
     s1 \<leftarrow> boot_map_region (kern_pgdir s) UPAGES (ROUNDUP (16 * of_nat (npages s)) PGSIZE) pa1
             (PTE_U OR PTE_R OR PTE_G) s;
     pa2 \<leftarrow> PADDR (envs_base s);
     s2 \<leftarrow> boot_map_region (kern_pgdir s1) UENVS (ROUNDUP (368 * 1024) PGSIZE) pa2
             (PTE_U OR PTE_R OR PTE_G) s1;
     pa3 \<leftarrow> PADDR bootstack;
     s3 \<leftarrow> boot_map_region (kern_pgdir s2) (KSTACKTOP - KSTKSIZE) KSTKSIZE pa3
             (PTE_W OR PTE_R OR PTE_G) s2;
     s4 \<leftarrow> mem_init_mp kst s3;
     s5 \<leftarrow> flash_map_init s4;
     s6 \<leftarrow> pcie_ecam_map_init s5;
     boot_map_region (kern_pgdir s6) (KERNBASE + 0x80000000) (2 * PGSIZE * of_nat (npages s6))
       0x80000000 (PTE_X OR PTE_W OR PTE_R OR PTE_G) s6 }"

text \<open>The address space this is to build: each page of the upper half of the address space is
  in at most one of these regions; a page in none of them keeps its entry \<open>old\<close>.\<close>

definition in_region :: "vaddr \<Rightarrow> nat \<Rightarrow> vaddr \<Rightarrow> bool" where
  "in_region base n va \<longleftrightarrow> unat base \<le> unat va \<and> unat va < unat base + n * 4096"

definition region_ent :: "vaddr \<Rightarrow> paddr \<Rightarrow> u64 \<Rightarrow> vaddr \<Rightarrow> u64" where
  "region_ent base pa perm va =
     PTE_ENTRY (pa + of_nat ((unat va - unat base) div 4096) * PGSIZE) OR perm OR PTE_V"

definition kstack :: "nat \<Rightarrow> vaddr" where
  "kstack i = KSTACKTOP - of_nat i * (KSTKSIZE + KSTKGAP) - KSTKSIZE"

definition kern_map :: "nat \<Rightarrow> paddr \<Rightarrow> paddr \<Rightarrow> paddr \<Rightarrow> vaddr \<Rightarrow> u64 \<Rightarrow> u64" where
  "kern_map np pages_pa envs_pa kst_pa va old =
     (if in_region UPAGES ((16 * np + 4095) div 4096) va then
        region_ent UPAGES pages_pa (PTE_U OR PTE_R OR PTE_G) va
      else if in_region UENVS 92 va then
        region_ent UENVS envs_pa (PTE_U OR PTE_R OR PTE_G) va
      else if in_region FLASH_MAP_ADDR 8192 va then
        region_ent FLASH_MAP_ADDR 0x20000000 (PTE_W OR PTE_R OR PTE_U OR PTE_V) va
      else if in_region PCIE_MAP_ECAM_ADDR 65536 va then
        region_ent PCIE_MAP_ECAM_ADDR 0x30000000 (PTE_W OR PTE_R OR PTE_V) va
      else if in_region (KERNBASE + 0x80000000) (2 * np) va then
        region_ent (KERNBASE + 0x80000000) 0x80000000 (PTE_X OR PTE_W OR PTE_R OR PTE_G) va
      else
        (case find (\<lambda>i. in_region (kstack i) 8 va) [0..<8] of
           Some i \<Rightarrow> region_ent (kstack i) (kst_pa + of_nat i * KSTKSIZE) (PTE_W OR PTE_R) va
         | None \<Rightarrow> old))"

section \<open>The tables a region needs\<close>

text \<open>How many pages after the first start a new last-level table.\<close>

primrec new_tables :: "vaddr \<Rightarrow> nat \<Rightarrow> nat" where
  "new_tables va 0 = 0"
| "new_tables va (Suc n) = (if 0 < n \<and> PTX (va + PGSIZE) = 0 then 1 else 0) + new_tables (va + PGSIZE) n"

lemma unat_next: "unat (va + PGSIZE :: vaddr) = (unat va + 4096) mod 2 ^ 64"
  by (simp add: unat_word_ariths)

lemma PTX_next: "PTX (va + PGSIZE) = (PTX va + 1) mod 512"
proof -
  have "x mod 2 ^ 64 div 2 ^ 12 mod 512 = x div 2 ^ 12 mod 512" for x :: nat
  proof -
    have "x mod (2 ^ 12 * 2 ^ 52) div 2 ^ 12 = x div 2 ^ 12 mod 2 ^ 52" by (simp only: mod_mult2_eq) simp
    then show ?thesis by (simp add: mod_mod_cancel)
  qed
  then have "PTX (va + PGSIZE) = (unat va + 4096) div 2 ^ 12 mod 512" by (simp only: PDX_eq unat_next)
  also have "(unat va + 4096) div 2 ^ 12 = unat va div 2 ^ 12 + 1" by simp
  finally show ?thesis by (simp only: PDX_eq mod_Suc_eq Suc_eq_plus1 [symmetric])
qed

lemma PDX_next:
  assumes "PTX (va + PGSIZE) \<noteq> 0"
  shows "PD0X (va + PGSIZE) = PD0X va" "PD1X (va + PGSIZE) = PD1X va" "PD2X (va + PGSIZE) = PD2X va"
proof -
  let ?x = "unat va"
  have "?x < 2 ^ 64" using unsigned_less [of va] by simp
  have nw: "?x + 4096 < 2 ^ 64"
  proof (rule ccontr)
    assume "\<not> ?x + 4096 < 2 ^ 64"
    then have "(?x + 4096) mod 2 ^ 64 = ?x + 4096 - 2 ^ 64" using \<open>?x < 2 ^ 64\<close> by (simp add: mod_if)
    then have "unat (va + PGSIZE) < 4096" using \<open>?x < 2 ^ 64\<close> unat_next [of va] by simp
    then show False using assms by (simp add: PDX_eq)
  qed
  have d: "(?x + 4096) div 2 ^ 21 = ?x div 2 ^ 21"
  proof -
    have "(?x div 2 ^ 12 + 1) mod 512 \<noteq> 0" using assms PTX_next [of va] by (simp only: PDX_eq mod_Suc_eq Suc_eq_plus1 [symmetric]) simp
    then have "Suc (?x div 2 ^ 12) div 512 = ?x div 2 ^ 12 div 512" by (simp add: div_Suc)
    moreover have "(?x + 4096) div 2 ^ 12 = Suc (?x div 2 ^ 12)" by simp
    ultimately have "(?x + 4096) div 2 ^ 12 div 512 = ?x div 2 ^ 12 div 512" by simp
    then show ?thesis by (simp add: div_mult2_eq [symmetric])
  qed
  have u: "unat (va + PGSIZE) = ?x + 4096" using nw unat_next [of va] by simp
  have k: "(?x + 4096) div 2 ^ (21 + k) = ?x div 2 ^ (21 + k)" for k
    using arg_cong [OF d, of "\<lambda>y. y div 2 ^ k"] by (simp only: div_mult2_eq [symmetric] power_add)
  show "PD0X (va + PGSIZE) = PD0X va" "PD1X (va + PGSIZE) = PD1X va" "PD2X (va + PGSIZE) = PD2X va"
    using k [of 18] k [of 9] d by (simp_all only: PDX_eq u) simp_all
qed

lemma new_tables_le: "new_tables va n \<le> (PTX va + n) div 512"
proof (induction n arbitrary: va)
  case (Suc n)
  have lt: "PTX va < 512" by simp
  show ?case
  proof (cases "PTX va = 511")
    case True
    then have "PTX (va + PGSIZE) = 0" by (simp add: PTX_next)
    moreover have "(512 + n) div 512 = Suc (n div 512)" using div_add_self1 [of 512 n] by simp
    ultimately show ?thesis using Suc [of "va + PGSIZE"] True by simp
  next
    case False
    then have "PTX va + 1 < 512" using lt by linarith
    then have "PTX (va + PGSIZE) = PTX va + 1" unfolding PTX_next by (rule mod_less)
    then show ?thesis using Suc [of "va + PGSIZE"] by simp
  qed
qed simp

lemma slot_next:
  assumes "PTX (va + PGSIZE) \<noteq> 0" "slot s r va \<noteq> None"
  shows "slot s r (va + PGSIZE) \<noteq> None"
  using assms PDX_next [OF assms(1)] by (auto simp: slot_def simp del: tbl.simps)

lemma boot_map_page:
  assumes inv: "vm_inv s R S {} xs" and r: "r \<in> R" and va: "PD0X va \<in> S" and len: "slot s r va = None \<Longrightarrow> 3 \<le> length xs"
  shows "\<exists>p s1 xs'. pgdir_walk r va True s = Some (Some p, s1) \<and> vm_inv (wr_pte p e s1) R S {} xs' \<and>
     length xs \<le> length xs' + (if slot s r va = None then 3 else 0) \<and> sets_pte R S s r va e (wr_pte p e s1) \<and>
     slot (wr_pte p e s1) r va \<noteq> None"
proof -
  have "\<exists>p s1 xs1. pgdir_walk r va True s = Some (Some p, s1) \<and> vm_inv s1 R S {} xs1 \<and> grows R S (set xs) s xs s1 xs1 \<and>
      length xs \<le> length xs1 + (if slot s r va = None then 3 else 0) \<and> slot s1 r va = Some p"
  proof (cases "slot s r va")
    case None
    then show ?thesis using walk_create_spec [OF inv r va] len by (fastforce split: option.splits)
  next
    case (Some p)
    then have "pgdir_walk r va True s = Some (Some p, s)" by (simp add: pgdir_walk_def walk_through_spec [OF inv r va])
    then show ?thesis using inv Some grows_refl by fastforce
  qed
  then obtain p s1 xs1 where w: "pgdir_walk r va True s = Some (Some p, s1)" and inv1: "vm_inv s1 R S {} xs1"
    and g: "grows R S (set xs) s xs s1 xs1" and l: "length xs \<le> length xs1 + (if slot s r va = None then 3 else 0)" and p: "slot s1 r va = Some p" by blast
  have al: "alloc_inv (wr_pte p e s1) xs1" using vm_invD(1) [OF inv1] by simp
  have ref: "card (mappings s1 R {} n) \<le> unat (pp_ref (pages s1 n))" for n using vm_invD(5) [OF inv1] by (simp add: maps_ok_def)
  note sp = vm_inv_setpte [OF inv1 r va p _ _ al, of e]
  have "vm_inv (wr_pte p e s1) R S {} xs1" by (rule sp(1)) (use ref in simp_all)
  moreover have "sets_pte R S s1 r va e (wr_pte p e s1)" by (rule sp(2)) (use ref in simp_all)
  moreover have "\<forall>r \<in> R. \<forall>q \<in> tpaths S. tbl (wr_pte p e s1) r q = tbl s1 r q" by (rule sp(3)) (use ref in simp_all)
  then have "slot (wr_pte p e s1) r va \<noteq> None" using p r ixs_paths(4) [OF va] by (auto simp: slot_def simp del: tbl.simps)
  ultimately show ?thesis using w l sets_pte_grows [OF g] by blast
qed

text \<open>The pages of a region, and the entry that page gets.\<close>

definition region_index :: "vaddr \<Rightarrow> vaddr \<Rightarrow> nat" where
  "region_index va va' = (TPGNUM va' + 2 ^ 36 - TPGNUM va) mod 2 ^ 36"

definition region_pte :: "vaddr \<Rightarrow> nat \<Rightarrow> paddr \<Rightarrow> u64 \<Rightarrow> vaddr \<Rightarrow> u64 \<Rightarrow> u64" where
  "region_pte va n pa perm va' old =
     (if region_index va va' < n then PTE_ENTRY (pa + of_nat (region_index va va') * PGSIZE) OR perm OR PTE_V else old)"

lemma TPGNUM_lt: "TPGNUM va < 2 ^ 36"
  by (simp add: TPGNUM_div)

lemma region_index_0: "region_index va va' = 0 \<longleftrightarrow> TPGNUM va' = TPGNUM va"
proof -
  have lt: "TPGNUM va < 2 ^ 36" "TPGNUM va' < 2 ^ 36" by (rule TPGNUM_lt)+
  show ?thesis
  proof (cases "TPGNUM va \<le> TPGNUM va'")
    case True
    then have "TPGNUM va' + 2 ^ 36 - TPGNUM va = (TPGNUM va' - TPGNUM va) + 2 ^ 36" by simp
    then have "region_index va va' = TPGNUM va' - TPGNUM va" using lt unfolding region_index_def by (simp only: mod_add_self2) simp
    then show ?thesis using True by auto
  next
    case False
    then have "region_index va va' = TPGNUM va' + 2 ^ 36 - TPGNUM va" using lt unfolding region_index_def by (intro mod_less) linarith
    then show ?thesis using False lt by simp
  qed
qed

lemma region_index_next:
  assumes "region_index va va' \<noteq> 0"
  shows "region_index (va + PGSIZE) va' = region_index va va' - 1"
proof -
  have lt: "TPGNUM va < 2 ^ 36" "TPGNUM va' < 2 ^ 36" by (rule TPGNUM_lt)+
  have nx: "TPGNUM (va + PGSIZE) = (TPGNUM va + 1) mod 2 ^ 36" using TPGNUM_add [of va 1] by simp
  define a b where "a = TPGNUM va" and "b = TPGNUM va'"
  have ne: "a \<noteq> b" using assms region_index_0 by (auto simp: a_def b_def)
  have ab: "a < 2 ^ 36" "b < 2 ^ 36" using lt by (simp_all add: a_def b_def)
  have "(b + 2 ^ 36 - (a + 1) mod 2 ^ 36) mod 2 ^ 36 = (b + 2 ^ 36 - a) mod 2 ^ 36 - 1"
  proof (cases "a < b")
    case True
    then have "(a + 1) mod 2 ^ 36 = a + 1" "b + 2 ^ 36 - (a + 1) = (b - (a + 1)) + 2 ^ 36" "b + 2 ^ 36 - a = (b - a) + 2 ^ 36" using ab by simp_all
    then show ?thesis using ab True by (simp only: mod_add_self2) simp
  next
    case False
    then have c: "b < a" using ne by simp
    then have 1: "(b + 2 ^ 36 - a) mod 2 ^ 36 = b + 2 ^ 36 - a" using ab by (intro mod_less) linarith
    show ?thesis
    proof (cases "a + 1 = 2 ^ 36")
      case True
      then show ?thesis using 1 ab by simp
    next
      case False
      then have 2: "(a + 1) mod 2 ^ 36 = a + 1" using ab by simp
      have "(b + 2 ^ 36 - (a + 1)) mod 2 ^ 36 = b + 2 ^ 36 - (a + 1)" using c ab by (intro mod_less) linarith
      then show ?thesis using 1 2 by simp
    qed
  qed
  then show ?thesis by (simp only: region_index_def nx a_def b_def)
qed

lemma region_index_last:
  assumes "TPGNUM va' = TPGNUM va"
  shows "region_index (va + PGSIZE) va' = 2 ^ 36 - 1"
proof -
  have lt: "TPGNUM va < 2 ^ 36" by (rule TPGNUM_lt)
  have nx: "TPGNUM (va + PGSIZE) = (TPGNUM va + 1) mod 2 ^ 36" using TPGNUM_add [of va 1] by simp
  show ?thesis
  proof (cases "TPGNUM va + 1 = 2 ^ 36")
    case True
    then show ?thesis using assms nx by (simp add: region_index_def)
  next
    case False
    then have "TPGNUM (va + PGSIZE) = TPGNUM va + 1" using nx lt by simp
    then show ?thesis using assms by (simp add: region_index_def)
  qed
qed

lemma region_pte_Suc:
  "region_pte va (Suc n) pa perm va' old =
     (if TPGNUM va' = TPGNUM va then PTE_ENTRY pa OR perm OR PTE_V else region_pte (va + PGSIZE) n (pa + PGSIZE) perm va' old)"
proof (cases "TPGNUM va' = TPGNUM va")
  case True
  then show ?thesis using region_index_0 [of va va'] by (simp add: region_pte_def)
next
  case False
  then have ne: "region_index va va' \<noteq> 0" using region_index_0 by simp
  then obtain i where i: "region_index va va' = Suc i" by (cases "region_index va va'") auto
  have "pa + of_nat (Suc i) * PGSIZE = pa + PGSIZE + of_nat i * PGSIZE" by (simp add: algebra_simps)
  then show ?thesis using False region_index_next [OF ne] i by (simp only: region_pte_def Suc_less_eq if_False diff_Suc_1)
qed

lemma boot_map_loop_region:
  assumes "vm_inv s R S {} xs" "r \<in> R" "\<forall>i < n. PD0X (va + of_nat i * PGSIZE) \<in> S"
    "3 * new_tables va n + (if n = 0 \<or> slot s r va \<noteq> None then 0 else 3) \<le> length xs" "n \<le> 2 ^ 36"
  shows "\<exists>s' xs'. boot_map_loop r perm n va pa s = Some s' \<and> vm_inv s' R S {} xs' \<and>
     length xs \<le> length xs' + 3 * new_tables va n + (if n = 0 \<or> slot s r va \<noteq> None then 0 else 3) \<and>
     kregs s' = kregs s \<and> npages s' = npages s \<and>
     (\<forall>r' \<in> R. \<forall>va'. PD0X va' \<in> S \<longrightarrow> va_pte s' r' va' = (if r' = r then region_pte va n pa perm va' (va_pte s r va') else va_pte s r' va'))"
  using assms
proof (induction n arbitrary: va pa s xs)
  case 0
  then show ?case by (auto simp: region_pte_def)
next
  case (Suc n)
  let ?e = "PTE_ENTRY pa OR perm OR PTE_V"
  have va: "PD0X va \<in> S" using Suc.prems(3) [rule_format, of 0] by simp
  obtain p s1 xs1 where w: "pgdir_walk r va True s = Some (Some p, s1)"
    and inv1: "vm_inv (wr_pte p ?e s1) R S {} xs1" and l: "length xs \<le> length xs1 + (if slot s r va = None then 3 else 0)"
    and st: "sets_pte R S s r va ?e (wr_pte p ?e s1)" and sl: "slot (wr_pte p ?e s1) r va \<noteq> None"
    using boot_map_page [OF Suc.prems(1,2) va, of ?e] Suc.prems(4) by (auto split: if_splits)
  let ?s = "wr_pte p ?e s1"
  have sh: "va + PGSIZE + of_nat i * PGSIZE = va + of_nat (Suc i) * PGSIZE" for i by (simp add: algebra_simps)
  have S': "\<forall>i < n. PD0X (va + PGSIZE + of_nat i * PGSIZE) \<in> S" unfolding sh using Suc.prems(3) Suc_less_eq by blast
  let ?c = "3 * new_tables (va + PGSIZE) n + (if n = 0 \<or> slot ?s r (va + PGSIZE) \<noteq> None then 0 else 3)"
  have cost: "?c \<le> 3 * new_tables va (Suc n)" using slot_next [of va ?s r] sl by auto
  then have len': "?c \<le> length xs1" using Suc.prems(4) l by (auto split: if_splits)
  have n': "n \<le> 2 ^ 36" using Suc.prems(5) by simp
  obtain s' xs' where IH: "boot_map_loop r perm n (va + PGSIZE) (pa + PGSIZE) ?s = Some s'" "vm_inv s' R S {} xs'" 
    "length xs1 \<le> length xs' + 3 * new_tables (va + PGSIZE) n + (if n = 0 \<or> slot ?s r (va + PGSIZE) \<noteq> None then 0 else 3)"
    "kregs s' = kregs ?s" "npages s' = npages ?s"
    and fr: "\<And>r' va'. r' \<in> R \<Longrightarrow> PD0X va' \<in> S \<Longrightarrow>
      va_pte s' r' va' = (if r' = r then region_pte (va + PGSIZE) n (pa + PGSIZE) perm va' (va_pte ?s r va') else va_pte ?s r' va')"
    using Suc.IH [OF inv1 Suc.prems(2) S' len' n', of "pa + PGSIZE"] by blast
  have self: "region_pte (va + PGSIZE) n (pa + PGSIZE) perm va' old = old" if "TPGNUM va' = TPGNUM va" for va' old
    using region_index_last [OF that] Suc.prems(5) by (simp add: region_pte_def)
  have "va_pte s' r' va' = (if r' = r then region_pte va (Suc n) pa perm va' (va_pte s r va') else va_pte s r' va')"
    if "r' \<in> R" "PD0X va' \<in> S" for r' va'
    using fr [OF that] sets_pte_va [OF st that] self by (auto simp: region_pte_Suc)
  moreover have "length xs \<le> length xs' + 3 * new_tables va (Suc n) + (if slot s r va \<noteq> None then 0 else 3)" using l IH(3) cost by (auto split: if_splits)
  moreover have "kregs s' = kregs s" "npages s' = npages s" using IH(4,5) st by (simp_all add: sets_pte_def)
  ultimately show ?case using w IH(1,2) by auto
qed

section \<open>Regions as ranges of addresses\<close>

text \<open>The translation ignores the upper 16 bits of an address; the addresses the hardware accepts
  repeat bit 47 there.\<close>

definition canonical :: "vaddr \<Rightarrow> bool" where
  "canonical va \<longleftrightarrow> unat va < 2 ^ 47 \<or> 2 ^ 64 - 2 ^ 47 \<le> unat va"

lemma TPGNUM_high:
  assumes "2 ^ 64 - 2 ^ 47 \<le> unat va"
  shows "TPGNUM va + 2 ^ 52 - 2 ^ 36 = unat va div 2 ^ 12"
proof -
  have "unat va < 2 ^ 64" using unsigned_less [of va] by simp
  then have "unat va div 2 ^ 48 = 2 ^ 16 - 1" using assms by simp
  then have "unat va = unat va mod 2 ^ 48 + (2 ^ 16 - 1) * 2 ^ 48"
    using div_mult_mod_eq [of "unat va" "2 ^ 48"] by simp
  then show ?thesis unfolding TPGNUM_eq by simp
qed

lemma region_pte_range:
  assumes b: "2 ^ 64 - 2 ^ 47 \<le> unat base" "unat base mod 4096 = 0" "unat base + n * 4096 \<le> 2 ^ 64"
    and va: "canonical va"
  shows "region_pte base n pa perm va old = (if in_region base n va then region_ent base pa perm va else old)"
proof -
  have lt: "TPGNUM va < 2 ^ 36" "TPGNUM base < 2 ^ 36" by (rule TPGNUM_lt)+
  have tb: "TPGNUM base + 2 ^ 52 - 2 ^ 36 = unat base div 2 ^ 12" by (rule TPGNUM_high [OF b(1)])
  show ?thesis
  proof (cases "unat base \<le> unat va")
    case True
    then have tv: "TPGNUM va + 2 ^ 52 - 2 ^ 36 = unat va div 2 ^ 12" using b(1) by (intro TPGNUM_high) simp
    have d: "unat va div 4096 = unat base div 4096 + (unat va - unat base) div 4096"
    proof -
      obtain x where x: "unat va = unat base + x" using le_Suc_ex [OF True] by blast
      have "(unat base + x) div 4096 = unat base div 4096 + x div 4096"
        using b(2) by (intro div_plus_div_distrib_dvd_left mod_0_imp_dvd)
      then show ?thesis using x by simp
    qed
    define x where "x = (unat va - unat base) div 4096"
    have tx: "TPGNUM va = TPGNUM base + x" using tv tb d unfolding x_def [symmetric] by simp
    then have "TPGNUM va + 2 ^ 36 - TPGNUM base = (unat va - unat base) div 4096 + 2 ^ 36"
      by (simp add: x_def)
    moreover have "(unat va - unat base) div 4096 < 2 ^ 36" using tx lt by (simp add: x_def)
    ultimately have i: "region_index base va = (unat va - unat base) div 4096" unfolding region_index_def by simp
    have "(unat va - unat base) div 4096 < n \<longleftrightarrow> unat va < unat base + n * 4096" using True by (simp add: div_less_iff_less_mult less_diff_conv2 add.commute)
    then show ?thesis using i True by (simp add: region_pte_def region_ent_def in_region_def)
  next
    case False
    obtain k where k: "unat base = 4096 * k" using b(2) by auto
    then have bk: "TPGNUM base + 2 ^ 52 - 2 ^ 36 = k" and kn: "k + n \<le> 2 ^ 52" using tb b(3) by simp_all
    have "TPGNUM va < TPGNUM base"
    proof (cases "unat va < 2 ^ 47")
      case low: True
      then have "TPGNUM va < 2 ^ 35" unfolding TPGNUM_eq by (simp add: less_mult_imp_div_less)
      then show ?thesis using bk b(1) k by simp
    next
      case high: False
      then have "TPGNUM va + 2 ^ 52 - 2 ^ 36 = unat va div 2 ^ 12" using va TPGNUM_high by (simp add: canonical_def)
      moreover have "unat va div 2 ^ 12 < k" using False k by (simp add: less_mult_imp_div_less)
      ultimately show ?thesis using bk by simp
    qed
    then have "region_index base va = TPGNUM va + 2 ^ 36 - TPGNUM base"
      unfolding region_index_def using lt by (intro mod_less) linarith
    then have "\<not> region_index base va < n" using bk kn lt by simp
    then show ?thesis using False by (simp add: region_pte_def in_region_def)
  qed
qed

section \<open>The kernel's address space\<close>

text \<open>During \<open>mem_init_map\<close>: the address space of the kernel is \<open>f\<close>, and at least \<open>N\<close> pages
  are free.\<close>

definition booting :: "paddr \<Rightarrow> nat \<Rightarrow> nat \<Rightarrow> (vaddr \<Rightarrow> u64) \<Rightarrow> kstate \<Rightarrow> bool" where
  "booting r np N f s \<longleftrightarrow> kern_pgdir s = r \<and> npages s = np \<and>
     (\<exists>xs. vm_inv s {r} {..<512} {} xs \<and> N \<le> length xs) \<and> (\<forall>va. va_pte s r va = f va)"

lemma booting_region:
  assumes b: "booting r np M f s" and n: "unat (sz div PGSIZE) = n" "n \<le> 2 ^ 36" and c: "3 * ((n + 511) div 512 + 1) + N \<le> M"
  shows "\<exists>s'. boot_map_region r va sz pa perm s = Some s' \<and>
     booting r np N (\<lambda>va'. region_pte va n pa perm va' (f va')) s'"
proof -
  obtain xs where xs: "vm_inv s {r} {..<512} {} xs" "M \<le> length xs" using b by (auto simp: booting_def)
  let ?c = "3 * new_tables va n + (if n = 0 \<or> slot s r va \<noteq> None then 0 else 3)"
  have "PTX va + n \<le> n + 511" using PDX_less(4) [of va] by linarith
  then have "new_tables va n \<le> (n + 511) div 512" using new_tables_le [of va n] div_le_mono le_trans by blast
  then have cl: "?c \<le> 3 * ((n + 511) div 512 + 1)" by simp
  then have l: "?c \<le> length xs" using xs(2) c by linarith
  obtain s' xs' where s': "boot_map_loop r perm n va pa s = Some s'" "vm_inv s' {r} {..<512} {} xs'"
    "length xs \<le> length xs' + 3 * new_tables va n + (if n = 0 \<or> slot s r va \<noteq> None then 0 else 3)"
    "kregs s' = kregs s" "npages s' = npages s"
    and fr: "\<forall>r' \<in> {r}. \<forall>va'. PD0X va' \<in> {..<512} \<longrightarrow>
      va_pte s' r' va' = (if r' = r then region_pte va n pa perm va' (va_pte s r va') else va_pte s r' va')"
    using boot_map_loop_region [OF xs(1) _ _ l n(2), of perm pa] by auto
  have "N \<le> length xs'" using s'(3) cl xs(2) c by linarith
  then have "booting r np N (\<lambda>va'. region_pte va n pa perm va' (f va')) s'"
    using b s'(2,4,5) fr by (auto simp: booting_def)
  then show ?thesis using s'(1) n(1) by (auto simp: boot_map_region_def)
qed

lemma kstack_Suc: "KSTACKTOP - of_nat (i + 1) * (KSTKSIZE + KSTKGAP) - KSTKSIZE = kstack (Suc i)"
  by (simp add: kstack_def algebra_simps)

text \<open>What \<^verbatim>\<open>mem_init_mp\<close> does to the address space.\<close>

primrec stacks :: "paddr \<Rightarrow> nat \<Rightarrow> nat \<Rightarrow> vaddr \<Rightarrow> u64 \<Rightarrow> u64" where
  "stacks kst_pa 0 i va old = old"
| "stacks kst_pa (Suc n) i va old =
     stacks kst_pa n (Suc i) va (region_pte (kstack i) 8 (kst_pa + of_nat i * KSTKSIZE) (PTE_W OR PTE_R) va old)"

lemma booting_stacks:
  assumes "booting r np M f s" "tp - KSTKSIZE = kstack i" "6 * n + N \<le> M"
    "\<forall>j < i + n. PADDR (kst + of_nat j * KSTKSIZE) = Some (kst_pa + of_nat j * KSTKSIZE)"
  shows "\<exists>s'. mem_init_mp_loop kst n i tp s = Some s' \<and> booting r np N (\<lambda>va. stacks kst_pa n i va (f va)) s'"
  using assms
proof (induction n arbitrary: i tp s f M)
  case 0
  then show ?case by (auto simp: booting_def intro: le_trans)
next
  case (Suc n)
  have r: "kern_pgdir s = r" using Suc.prems(1) by (simp add: booting_def)
  have "3 * ((8 + 511) div 512 + 1) + (6 * n + N) \<le> M" using Suc.prems(3) by simp
  then obtain s1 where s1: "boot_map_region r (kstack i) KSTKSIZE (kst_pa + of_nat i * KSTKSIZE) (PTE_W OR PTE_R) s = Some s1"
    "booting r np (6 * n + N) (\<lambda>va'. region_pte (kstack i) 8 (kst_pa + of_nat i * KSTKSIZE) (PTE_W OR PTE_R) va' (f va')) s1"
    using booting_region [OF Suc.prems(1), of KSTKSIZE 8 "6 * n + N" "kstack i" "kst_pa + of_nat i * KSTKSIZE" "PTE_W OR PTE_R"] by auto
  have "\<forall>j < i + 1 + n. PADDR (kst + of_nat j * KSTKSIZE) = Some (kst_pa + of_nat j * KSTKSIZE)"
    using Suc.prems(4) by simp
  from Suc.IH [OF s1(2) kstack_Suc [of i] order_refl this [folded Suc_eq_plus1]] show ?case
    using s1(1) r Suc.prems(2) Suc.prems(4) by simp
qed

text \<open>The regions in the order they are mapped.\<close>

definition mapped_regions :: "nat \<Rightarrow> paddr \<Rightarrow> paddr \<Rightarrow> paddr \<Rightarrow> paddr \<Rightarrow> vaddr \<Rightarrow> u64 \<Rightarrow> u64" where
  "mapped_regions np pages_pa envs_pa boot_pa kst_pa va old =
     region_pte (KERNBASE + 0x80000000) (2 * np) 0x80000000 (PTE_X OR PTE_W OR PTE_R OR PTE_G) va
       (region_pte PCIE_MAP_ECAM_ADDR 65536 0x30000000 (PTE_W OR PTE_R OR PTE_V) va
         (region_pte FLASH_MAP_ADDR 8192 0x20000000 (PTE_W OR PTE_R OR PTE_U OR PTE_V) va
           (stacks kst_pa 8 0 va
             (region_pte (kstack 0) 8 boot_pa (PTE_W OR PTE_R OR PTE_G) va
               (region_pte UENVS 92 envs_pa (PTE_U OR PTE_R OR PTE_G) va
                 (region_pte UPAGES ((16 * np + 4095) div 4096) pages_pa (PTE_U OR PTE_R OR PTE_G) va old))))))"

lemma mem_init_sizes:
  assumes "np \<le> 2 ^ 18"
  shows "unat (ROUNDUP (16 * of_nat np :: u64) PGSIZE div PGSIZE) = (16 * np + 4095) div 4096"
    "unat (2 * PGSIZE * of_nat np div PGSIZE :: u64) = 2 * np"
proof -
  have u: "unat (of_nat np :: u64) = np" using assms by (simp add: unat_of_nat)
  have a: "unat (16 * of_nat np :: u64) = 16 * np" using assms u by (simp add: unat_word_ariths)
  have "unat (ROUNDUP (16 * of_nat np :: u64) PGSIZE) = 4096 * ((16 * np + 4095) div 4096)"
    using unat_ROUNDUP [of PGSIZE "16 * of_nat np"] a assms by simp
  then show "unat (ROUNDUP (16 * of_nat np :: u64) PGSIZE div PGSIZE) = (16 * np + 4095) div 4096"
    by (simp add: unat_div_distrib)
  have "unat (2 * PGSIZE * of_nat np :: u64) = 8192 * np" using assms u by (simp add: unat_word_ariths)
  then show "unat (2 * PGSIZE * of_nat np div PGSIZE :: u64) = 2 * np" by (simp add: unat_div_distrib)
qed

lemma booting_npages: "booting r np N f s \<Longrightarrow> npages s = np" "booting r np N f s \<Longrightarrow> kern_pgdir s = r"
  by (simp_all add: booting_def)

lemma mem_init_map_regions:
  assumes b: "booting r np M f s" and np: "np \<le> 2 ^ 18" and M: "520 + 3 * (np div 256) \<le> M"
    and pa: "PADDR pagesp = Some pages_pa" "PADDR (envs_base s) = Some envs_pa" "PADDR bootstack = Some boot_pa"
    and kst: "\<forall>j < 8. PADDR (kst + of_nat j * KSTKSIZE) = Some (kst_pa + of_nat j * KSTKSIZE)"
  shows "\<exists>s'. mem_init_map pagesp bootstack kst s = Some s' \<and>
     booting r np 0 (\<lambda>va. mapped_regions np pages_pa envs_pa boot_pa kst_pa va (f va)) s'"
proof -
  have nu: "(16 * np + 4095) div 4096 \<le> 1024" using np by simp
  let ?m = "3 * ((2 * np + 511) div 512 + 1)"
  have "(2 * np + 511) div 512 \<le> (2 * (np + 256)) div 512" by (intro div_le_mono) simp
  also have "\<dots> = (2 * (np + 256)) div (2 * 256)" by simp
  also have "\<dots> = np div 256 + 1" by (subst div_mult_mult1) simp_all
  finally have m: "507 + ?m \<le> M" using M by simp
  have c1: "3 * (((16 * np + 4095) div 4096 + 511) div 512 + 1) + (498 + ?m) \<le> M"
  proof -
    have "((16 * np + 4095) div 4096 + 511) div 512 \<le> (1024 + 511) div 512" using nu by (intro div_le_mono) simp
    then show ?thesis using m by simp
  qed
  have nu': "(16 * np + 4095) div 4096 \<le> 2 ^ 36" "2 * np \<le> 2 ^ 36" using nu np by simp_all
  have sz: "unat (ROUNDUP (368 * 1024) PGSIZE div PGSIZE) = 92" "unat (KSTKSIZE div PGSIZE) = 8"
    "unat (0x2000000 div PGSIZE) = 8192" "unat (PCIE_MAP_ECAM_SIZE div PGSIZE) = 65536"
    by (simp_all add: ROUNDUP_def ROUNDDOWN_def)
  obtain f1 s1 where s1: "boot_map_region r UPAGES (ROUNDUP (16 * of_nat np) PGSIZE) pages_pa (PTE_U OR PTE_R OR PTE_G) s = Some s1"
    and b1: "booting r np (498 + ?m) f1 s1"
    and f1: "f1 = (\<lambda>va. region_pte UPAGES ((16 * np + 4095) div 4096) pages_pa (PTE_U OR PTE_R OR PTE_G) va (f va))"
    using booting_region [OF b mem_init_sizes(1) [OF np] nu'(1) c1, of UPAGES pages_pa "PTE_U OR PTE_R OR PTE_G"] by blast
  obtain f2 s2 where s2: "boot_map_region r UENVS (ROUNDUP (368 * 1024) PGSIZE) envs_pa (PTE_U OR PTE_R OR PTE_G) s1 = Some s2"
    and b2: "booting r np (492 + ?m) f2 s2" and f2: "f2 = (\<lambda>va. region_pte UENVS 92 envs_pa (PTE_U OR PTE_R OR PTE_G) va (f1 va))"
    using booting_region [OF b1 sz(1), of "492 + ?m" UENVS envs_pa "PTE_U OR PTE_R OR PTE_G"] by auto
  obtain f3 s3 where s3: "boot_map_region r (KSTACKTOP - KSTKSIZE) KSTKSIZE boot_pa (PTE_W OR PTE_R OR PTE_G) s2 = Some s3"
    and b3: "booting r np (486 + ?m) f3 s3" and f3: "f3 = (\<lambda>va. region_pte (kstack 0) 8 boot_pa (PTE_W OR PTE_R OR PTE_G) va (f2 va))"
    using booting_region [OF b2 sz(2), of "486 + ?m" "kstack 0" boot_pa "PTE_W OR PTE_R OR PTE_G"] by (auto simp: kstack_def)
  obtain f4 s4 where s4: "mem_init_mp kst s3 = Some s4" and b4: "booting r np (438 + ?m) f4 s4"
    and f4: "f4 = (\<lambda>va. stacks kst_pa 8 0 va (f3 va))"
    using booting_stacks [OF b3, of KSTACKTOP 0 8 "438 + ?m" kst kst_pa] kst by (auto simp: mem_init_mp_def kstack_def)
  obtain f5 s5 where s5: "flash_map_init s4 = Some s5" and b5: "booting r np (387 + ?m) f5 s5"
    and f5: "f5 = (\<lambda>va. region_pte FLASH_MAP_ADDR 8192 0x20000000 (PTE_W OR PTE_R OR PTE_U OR PTE_V) va (f4 va))"
    using booting_region [OF b4 sz(3), of "387 + ?m" FLASH_MAP_ADDR "0x20000000" "PTE_W OR PTE_R OR PTE_U OR PTE_V"] booting_npages(2) [OF b4] by (auto simp: flash_map_init_def)
  obtain f6 s6 where s6: "pcie_ecam_map_init s5 = Some s6" and b6: "booting r np ?m f6 s6"
    and f6: "f6 = (\<lambda>va. region_pte PCIE_MAP_ECAM_ADDR 65536 0x30000000 (PTE_W OR PTE_R OR PTE_V) va (f5 va))"
    using booting_region [OF b5 sz(4), of "?m" PCIE_MAP_ECAM_ADDR "0x30000000" "PTE_W OR PTE_R OR PTE_V"] booting_npages(2) [OF b5] by (auto simp: pcie_ecam_map_init_def)
  obtain f7 s7 where s7: "boot_map_region r (KERNBASE + 0x80000000) (2 * PGSIZE * of_nat np) 0x80000000 (PTE_X OR PTE_W OR PTE_R OR PTE_G) s6 = Some s7"
    and b7: "booting r np 0 f7 s7"
    and f7: "f7 = (\<lambda>va. region_pte (KERNBASE + 0x80000000) (2 * np) 0x80000000 (PTE_X OR PTE_W OR PTE_R OR PTE_G) va (f6 va))"
    using booting_region [OF b6 mem_init_sizes(2) [OF np] nu'(2), of 0 "KERNBASE + 0x80000000" "0x80000000" "PTE_X OR PTE_W OR PTE_R OR PTE_G"] by auto
  have "f7 = (\<lambda>va. mapped_regions np pages_pa envs_pa boot_pa kst_pa va (f va))"
    by (simp only: f1 f2 f3 f4 f5 f6 f7 mapped_regions_def)
  moreover have "mem_init_map pagesp bootstack kst s = Some s7"
    unfolding mem_init_map_def
    using s1 s2 s3 s4 s5 s6 s7 pa by (simp add: booting_npages [OF b] booting_npages [OF b1] booting_npages [OF b2] booting_npages [OF b6])
  ultimately show ?thesis using b7 by auto
qed

lemma unat_kstack: "i < 8 \<Longrightarrow> unat (kstack i) = 0xFFFFFFFEFFFF8000 - i * 0x10000"
proof -
  assume i: "i < 8"
  have e: "kstack i = 0xFFFFFFFEFFFF8000 - of_nat i * 0x10000" by (simp add: kstack_def algebra_simps)
  have u: "unat (of_nat i * 0x10000 :: vaddr) = i * 0x10000" using i by (simp add: unat_word_ariths unat_of_nat)
  show ?thesis unfolding e using i u by (subst unat_sub) (simp_all add: word_le_nat_alt)
qed

lemma kstack_apart: "i < 8 \<Longrightarrow> j < 8 \<Longrightarrow> in_region (kstack i) 8 va \<Longrightarrow> in_region (kstack j) 8 va \<Longrightarrow> i = j"
  by (auto simp: in_region_def unat_kstack)

lemma stacks_find:
  assumes "canonical va" "i + n \<le> 8"
  shows "stacks kst_pa n i va old =
     (case find (\<lambda>i. in_region (kstack i) 8 va) [i..<i + n] of
        Some i \<Rightarrow> region_ent (kstack i) (kst_pa + of_nat i * KSTKSIZE) (PTE_W OR PTE_R) va | None \<Rightarrow> old)"
  using assms(2)
proof (induction n arbitrary: i old)
  case (Suc n)
  have "unat (kstack i) = 0xFFFFFFFEFFFF8000 - i * 0x10000" using Suc.prems by (intro unat_kstack) simp
  moreover have "(0xFFFFFFFEFFFF8000 - i * 0x10000) mod 4096 = 0"
  proof -
    have "0xFFFFFFFEFFFF8000 - i * 0x10000 = 4096 * (0xFFFFFFFEFFFF8 - i * 16)" by (simp add: diff_mult_distrib2)
    then show ?thesis by (simp only: mod_mult_self1_is_0)
  qed
  ultimately have r: "region_pte (kstack i) 8 pa perm va o' = (if in_region (kstack i) 8 va then region_ent (kstack i) pa perm va else o')"
    for pa perm o' using Suc.prems by (intro region_pte_range assms(1)) simp_all
  have up: "[i..<i + Suc n] = i # [Suc i..<Suc i + n]" by (simp add: upt_rec)
  have "find (\<lambda>i. in_region (kstack i) 8 va) [Suc i..<Suc i + n] = None" if "in_region (kstack i) 8 va"
  proof -
    have "\<not> in_region (kstack j) 8 va" if "j \<in> set [Suc i..<Suc i + n]" for j
      using kstack_apart [of i j va] that \<open>in_region (kstack i) 8 va\<close> Suc.prems by auto
    then show ?thesis unfolding find_None_iff by blast
  qed
  then show ?case unfolding stacks.simps r up using Suc.IH [of "Suc i"] Suc.prems by (simp split: option.splits)
qed simp

lemma mapped_regions_kern_map:
  assumes va: "canonical va" and np: "np \<le> 2 ^ 18"
  shows "mapped_regions np pages_pa envs_pa boot_pa kst_pa va old = kern_map np pages_pa envs_pa kst_pa va old"
proof -
  let ?K = "in_region (KERNBASE + 0x80000000) (2 * np) va" and ?E = "in_region PCIE_MAP_ECAM_ADDR 65536 va"
  let ?F = "in_region FLASH_MAP_ADDR 8192 va" and ?U = "in_region UENVS 92 va"
  let ?P = "in_region UPAGES ((16 * np + 4095) div 4096) va"
  have nu: "(16 * np + 4095) div 4096 \<le> 1024" using np by simp
  have st: "find (\<lambda>i. in_region (kstack i) 8 va) [0..<8] = None" if "unat va < 0xFFFFFFFEFFF88000 \<or> 0xFFFFFFFF00000000 \<le> unat va"
    using that unfolding find_None_iff by (auto simp: in_region_def unat_kstack)
  have K: "?K \<Longrightarrow> 0xFFFFFFFF80000000 \<le> unat va" by (simp add: in_region_def)
  have E: "?E \<Longrightarrow> 0xfffff00030000000 \<le> unat va \<and> unat va < 0xfffff00040000000" by (simp add: in_region_def)
  have F: "?F \<Longrightarrow> 0xfffff00000000000 \<le> unat va \<and> unat va < 0xfffff00002000000" by (simp add: in_region_def)
  have U: "?U \<Longrightarrow> 0xfffffd7ff0000000 \<le> unat va \<and> unat va < 0xfffffd7ff005C000" by (simp add: in_region_def)
  have P: "?P \<Longrightarrow> 0xfffffdfff0000000 \<le> unat va \<and> unat va < 0xfffffdfff0400000" using nu by (simp add: in_region_def)
  have k0: "region_pte (kstack 0) 8 pa perm va o' = (if in_region (kstack 0) 8 va then region_ent (kstack 0) pa perm va else o')"
    for pa perm o' using va by (intro region_pte_range) (simp_all add: unat_kstack)
  have k0s: "find (\<lambda>i. in_region (kstack i) 8 va) [0..<8] \<noteq> None" if "in_region (kstack 0) 8 va"
    using that unfolding find_None_iff by (auto intro: exI [of _ 0])
  have rg: "region_pte (KERNBASE + 0x80000000) (2 * np) pa perm va o' = (if ?K then region_ent (KERNBASE + 0x80000000) pa perm va else o')"
    "region_pte PCIE_MAP_ECAM_ADDR 65536 pa perm va o' = (if ?E then region_ent PCIE_MAP_ECAM_ADDR pa perm va else o')"
    "region_pte FLASH_MAP_ADDR 8192 pa perm va o' = (if ?F then region_ent FLASH_MAP_ADDR pa perm va else o')"
    "region_pte UENVS 92 pa perm va o' = (if ?U then region_ent UENVS pa perm va else o')"
    "region_pte UPAGES ((16 * np + 4095) div 4096) pa perm va o' = (if ?P then region_ent UPAGES pa perm va else o')"
    for pa perm o' using nu np by (intro region_pte_range va; simp)+
  have x: "?K \<Longrightarrow> \<not> ?E \<and> \<not> ?F \<and> \<not> ?U \<and> \<not> ?P" "?E \<Longrightarrow> \<not> ?F \<and> \<not> ?U \<and> \<not> ?P" "?F \<Longrightarrow> \<not> ?U \<and> \<not> ?P" "?U \<Longrightarrow> \<not> ?P"
    using K E F U P by linarith+
  have y: "?K \<or> ?E \<or> ?F \<or> ?U \<or> ?P \<Longrightarrow> find (\<lambda>i. in_region (kstack i) 8 va) [0..<8] = None"
    using K E F U P st by linarith
  show ?thesis
  proof (cases "?K \<or> ?E \<or> ?F \<or> ?U \<or> ?P")
    case True
    then have "\<not> in_region (kstack 0) 8 va" using y k0s by blast
    then show ?thesis
      unfolding mapped_regions_def kern_map_def rg k0 stacks_find [OF va, of 0 8, simplified]
      using x y [OF True] by auto
  next
    case False
    then show ?thesis
      unfolding mapped_regions_def kern_map_def rg k0 stacks_find [OF va, of 0 8, simplified]
      using k0s by (auto split: option.splits)
  qed
qed

section \<open>From the kernel image to the free list\<close>

abbreviation (input) kpage :: "nat \<Rightarrow> vaddr" where
  "kpage b \<equiv> KERNBASE + PHYMEMOFF + of_nat b * PGSIZE"

lemma unat_kpage:
  assumes "b < 2 ^ 19"
  shows "unat (kpage b) = 0xFFFFFFFF80000000 + b * 4096"
proof -
  have "unat (of_nat b * PGSIZE :: u64) = b * 4096" using assms by (simp add: unat_word_ariths unat_of_nat)
  then show ?thesis using assms by (simp add: unat_word_ariths)
qed

lemma ROUNDUP_kpage: "b < 2 ^ 18 \<Longrightarrow> ROUNDUP (kpage b) PGSIZE = kpage b"
  using unat_ROUNDUP [of PGSIZE "kpage b"] unat_kpage [of b] by (simp add: word_unat_eq_iff)

lemma boot_alloc_kpage:
  assumes nf: "boot_nextfree s = kpage b \<or> boot_nextfree s = 0 \<and> ROUNDUP kend PGSIZE = kpage b"
    and n: "0 < n" "unat n < 2 ^ 30" and b: "b + unat n div 4096 + 1 < 2 ^ 18"
  shows "boot_alloc kend n s = (kpage b, s\<lparr>boot_nextfree := kpage (b + unat n div 4096 + 1)\<rparr>)"
proof -
  have "unat (kpage b) \<noteq> 0" using unat_kpage [of b] b by simp
  then have nz: "kpage b \<noteq> 0" by (metis unat_0)
  have u: "unat (4096 * (n div 4096 + 1)) = 4096 * (unat n div 4096 + 1)"
    using n(2) by (simp add: unat_word_ariths unat_div_distrib)
  then have "unat (scast (4096 * (n div 4096 + 1)) :: u64) = 4096 * (unat n div 4096 + 1)"
    using n(2) by (subst scast_pos) simp_all
  then have "(scast (4096 * (n div 4096 + 1)) :: u64) = of_nat (unat n div 4096 + 1) * PGSIZE"
    using n(2) by (simp add: word_unat_eq_iff unat_word_ariths unat_of_nat)
  then have "kpage b + scast (4096 * (n div 4096 + 1)) = kpage (b + unat n div 4096 + 1)"
    by (simp add: algebra_simps)
  then show ?thesis using nf nz n(1) ROUNDUP_kpage [OF b] by (auto simp: boot_alloc_def Let_def)
qed

lemma PADDR_kpage: "b < 2 ^ 19 \<Longrightarrow> PADDR (kpage b) = Some (page2pa b)"
  using unat_kpage [of b] by (simp add: PADDR_def word_less_nat_alt page2pa_def push_bit_eq_mult)

lemma vm_inv_clear_root:
  assumes al: "alloc_inv s xs" and z: "pmem s (page2pa n) = (\<lambda>_. 0)" and n: "n < npages s" "n \<notin> set xs" and U: "U \<subseteq> S"
  shows "vm_inv s {page2pa n} S U xs" "va_pte s (page2pa n) va = 0"
proof -
  have tb: "tbl s (page2pa n) p = (if p = [] then Some (page2pa n) else None)" for p
    using z by (cases p) (simp_all add: pte_valid_def)
  then have lf: "leaf s (page2pa n) q = 0" for q using z by (auto simp: leaf_def split: option.splits)
  then show "va_pte s (page2pa n) va = 0" by (simp add: va_pte_def)
  have mp: "mappings s {page2pa n} U k = {}" for k using lf by (simp add: mappings_def)
  have ta: "tab_at s {page2pa n} S r p t \<longleftrightarrow> p = [] \<and> t = r \<and> r = page2pa n" for r p t
    by (auto simp: tab_at_def tb tpaths_def split: if_splits)
  show "vm_inv s {page2pa n} S U xs"
    unfolding vm_inv_def
  proof (intro conjI al U)
    show "tabs_inj s {page2pa n} S" unfolding tabs_inj_def ta by blast
    show "tabs_ok s {page2pa n} S U xs" using n unfolding tabs_ok_def ta mp by blast
    show "maps_ok s {page2pa n} U" by (simp add: maps_ok_def mp lf)
  qed simp
qed

lemma mem_init_alloc_booting:
  assumes bss: "\<forall>n. pages s n = \<lparr>pp_link = None, pp_ref = 0\<rparr>" "page_free_list s = None" "boot_nextfree s = 0"
    and kend: "ROUNDUP kend PGSIZE = kpage b" "512 \<le> b"
    and mem: "np = unat (totalmem div PGSIZE)" "np \<le> 2 ^ 18" "b + np div 256 + 96 < np"
  shows "\<exists>s'. mem_init_alloc fw_end fw_start totalmem kend s = Some (kpage (b + 2), s') \<and>
     booting (page2pa b) np (np - (b + np div 256 + 96)) (\<lambda>_. 0) s' \<and> envs_base s' = kpage (b + np div 256 + 3)"
proof -
  define s1 where "s1 = riscv_detect_memory fw_end fw_start totalmem s"
  have s1: "npages s1 = np" "npages_basemem s1 = 512" "pages s1 = pages s" "page_free_list s1 = None" "boot_nextfree s1 = 0"
    using bss(2,3) mem(1) by (simp_all add: s1_def riscv_detect_memory_def)
  have a1: "boot_alloc kend 4096 s1 = (kpage b, s1\<lparr>boot_nextfree := kpage (b + 2)\<rparr>)"
    using boot_alloc_kpage [of s1 b kend 4096] s1(5) kend(1) mem by simp
  define s3 where "s3 = zero_frame (page2pa b) (s1\<lparr>boot_nextfree := kpage (b + 2), kern_pgdir := page2pa b\<rparr>)"
  have s3: "boot_nextfree s3 = kpage (b + 2)" "npages s3 = np" "pages s3 = pages s" by (simp_all add: s3_def s1)
  have n16: "unat (of_nat (16 * np) :: u32) = 16 * np" using mem(2) by (simp add: unat_of_nat del: of_nat_mult)
  then have nz: "(0 :: u32) < of_nat (16 * np)" using mem(3) by (simp add: word_less_nat_alt del: of_nat_mult)
  have d: "16 * np div 4096 = np div 256" by (simp add: div_mult2_eq [of _ 16 256, symmetric])
  have a2: "boot_alloc kend (of_nat (16 * np)) s3 = (kpage (b + 2), s3\<lparr>boot_nextfree := kpage (b + np div 256 + 3)\<rparr>)"
    using boot_alloc_kpage [of s3 "b + 2" kend "of_nat (16 * np)"] s3(1) nz mem unfolding n16 d by (simp add: algebra_simps)
  define s4 where "s4 = s3\<lparr>boot_nextfree := kpage (b + np div 256 + 3)\<rparr>"
  define s5 where "s5 = s4\<lparr>pages := (\<lambda>n. if n < npages s4 then \<lparr>pp_link = None, pp_ref = 0\<rparr> else pages s4 n)\<rparr>"
  have a3: "boot_alloc kend (368 * 1024) s5 = (kpage (b + np div 256 + 3), s5\<lparr>boot_nextfree := kpage (b + np div 256 + 96)\<rparr>)"
  proof -
    have u: "unat (368 * 1024 :: u32) = 376832" by simp
    have e: "b + np div 256 + 3 + 376832 div 4096 + 1 = b + np div 256 + 96" by simp
    show ?thesis
      by (rule boot_alloc_kpage [of s5 "b + np div 256 + 3" kend "368 * 1024", unfolded u e]) (use mem(2,3) in \<open>simp_all add: s5_def s4_def\<close>)
  qed
  define s6 where "s6 = s5\<lparr>boot_nextfree := kpage (b + np div 256 + 96)\<rparr>"
  define s7 where "s7 = s6\<lparr>envs := (\<lambda>e. if e < 1024 then zero_env else envs s6 e), envs_base := kpage (b + np div 256 + 3)\<rparr>"
  have s7: "npages s7 = np" "npages_basemem s7 = 512" "kern_pgdir s7 = page2pa b" "pmem s7 (page2pa b) = (\<lambda>_. 0)"
    "page_free_list s7 = None" "\<forall>n. pages s7 n = \<lparr>pp_link = None, pp_ref = 0\<rparr>" "boot_nextfree s7 = kpage (b + np div 256 + 96)"
    "envs_base s7 = kpage (b + np div 256 + 3)"
    using bss(1) s1 by (simp_all add: s7_def s6_def s5_def s4_def s3_def zero_frame_def)
  obtain s8 where s8: "page_init kend s7 = Some s8" "alloc_inv s8 (rev [b + np div 256 + 96..<np] @
       rev (filter (\<lambda>i. i \<noteq> 256) [unat (firmmem s7 div PGSIZE)..<512]))"
    "npages s8 = np" "pmem s8 = pmem s7" "kern_pgdir s8 = kern_pgdir s7" "envs_base s8 = envs_base s7"
    using page_init_law [OF s7(6,5,2) _ _ _ s7(7), of kend] mem kend(2) s7(1) by auto
  have pb: "PADDR (kpage b) = Some (page2pa b)" using mem(2,3) by (intro PADDR_kpage) simp
  have "mem_init_alloc fw_end fw_start totalmem kend s = Some (kpage (b + 2), s8)"
    unfolding mem_init_alloc_def Let_def s1_def [symmetric] a1 prod.case pb Option.bind.bind_lunit s3_def [symmetric] s3(2)
      a2 s4_def [symmetric] s5_def [symmetric] a3 s6_def [symmetric] s7_def [symmetric] s8(1) ..
  moreover have "booting (page2pa b) np (np - (b + np div 256 + 96)) (\<lambda>_. 0) s8"
  proof -
    let ?xs = "rev [b + np div 256 + 96..<np] @ rev (filter (\<lambda>i. i \<noteq> 256) [unat (firmmem s7 div PGSIZE)..<512])"
    have nb: "b \<notin> set ?xs" using kend(2) by auto
    have lt: "b < npages s8" using s8(3) mem(3) by simp
    have z: "pmem s8 (page2pa b) = (\<lambda>_. 0)" using s8(4) s7(4) by simp
    have "vm_inv s8 {page2pa b} {..<512} {} ?xs" by (rule vm_inv_clear_root(1) [OF s8(2) z lt nb empty_subsetI])
    moreover have "va_pte s8 (page2pa b) va = 0" for va by (rule vm_inv_clear_root(2) [OF s8(2) z lt nb empty_subsetI])
    moreover have "np - (b + np div 256 + 96) \<le> length ?xs" by simp
    ultimately show ?thesis unfolding booting_def using s8(3,5) s7(3) by metis
  qed
  ultimately show ?thesis using s8(6) s7(8) by auto
qed

section \<open>The boot of memory management\<close>

lemma PADDR_kstacks:
  assumes "KERNBASE \<le> kst" "unat kst + 8 * 0x8000 \<le> 2 ^ 64"
  shows "\<forall>j < 8. PADDR (kst + of_nat j * KSTKSIZE) = Some (kst - KERNBASE + of_nat j * KSTKSIZE)"
proof (intro allI impI)
  fix j :: nat
  assume j: "j < 8"
  have u: "unat (of_nat j * KSTKSIZE) = j * 0x8000" using j by (simp add: unat_word_ariths unat_of_nat)
  have "unat (kst + of_nat j * KSTKSIZE) = unat kst + j * 0x8000"
    using assms(2) j u by (subst unat_plus_simple [THEN iffD1]) (simp_all add: word_le_nat_alt unat_word_ariths)
  then have "\<not> kst + of_nat j * KSTKSIZE < KERNBASE" using assms(1) by (simp add: word_less_nat_alt word_le_nat_alt)
  then show "PADDR (kst + of_nat j * KSTKSIZE) = Some (kst - KERNBASE + of_nat j * KSTKSIZE)" by (simp add: PADDR_def algebra_simps)
qed

text \<open>C4. Memory at boot. From the zero-initialised globals of the kernel image, the first part of \<^verbatim>\<open>mem_init\<close> makes the free list and an
  empty page table of the kernel, the invariant of the memory operations holds, and the pages left are enough for the second part. In every
  state that has this page table, satisfies the invariant and has enough free pages, whatever the self-tests did to the
  free list and to the table, the part that maps the regions succeeds, keeps the invariant, and makes the table the documented memory
  layout: \<^verbatim>\<open>pages[]\<close> and \<^verbatim>\<open>envs[]\<close> read-only for the user, the flash memory and the PCI configuration space,
  physical memory at \<^verbatim>\<open>KERNBASE\<close>, one kernel stack for each CPU (the boot stack's mapping is
  replaced by that of CPU 0); every other page, in particular the gap below each stack, has the entry it had. The hypotheses: the image
  ends at page \<open>b\<close> of extended memory, the kernel's stacks are above
  \<^verbatim>\<open>KERNBASE\<close>, and the machine has at most 1 GB of memory and enough of it for the tables.\<close>

theorem mem_init_map_layout:
  assumes bss: "\<forall>n. pages s n = \<lparr>pp_link = None, pp_ref = 0\<rparr>" "page_free_list s = None" "boot_nextfree s = 0"
    and kend: "ROUNDUP kend PGSIZE = KERNBASE + PHYMEMOFF + of_nat b * PGSIZE" "512 \<le> b"
    and mem: "np = unat (totalmem div PGSIZE)" "np \<le> 2 ^ 18" "b + 4 * (np div 256) + 616 \<le> np"
    and stk: "KERNBASE \<le> bootstack" "KERNBASE \<le> kst" "unat kst + 8 * 0x8000 \<le> 2 ^ 64"
  shows "\<exists>pagesp s1 ys. mem_init_alloc fw_end fw_start totalmem kend s = Some (pagesp, s1) \<and>
     kern_pgdir s1 = page2pa b \<and> npages s1 = np \<and> vm_inv s1 {kern_pgdir s1} {..<512} {} ys \<and> 520 + 3 * (np div 256) \<le> length ys \<and>
     (\<forall>va. va_pte s1 (kern_pgdir s1) va = 0) \<and>
     (\<forall>s2 zs. kern_pgdir s2 = kern_pgdir s1 \<and> npages s2 = np \<and> envs_base s2 = envs_base s1 \<and>
        vm_inv s2 {kern_pgdir s2} {..<512} {} zs \<and> 520 + 3 * (np div 256) \<le> length zs \<longrightarrow>
        (\<exists>s' xs. mem_init_map pagesp bootstack kst s2 = Some s' \<and> kern_pgdir s' = kern_pgdir s2 \<and> npages s' = np \<and>
           vm_inv s' {kern_pgdir s'} {..<512} {} xs \<and>
           (\<forall>va. canonical va \<longrightarrow> va_pte s' (kern_pgdir s') va =
              kern_map np (page2pa (b + 2)) (page2pa (b + np div 256 + 3)) (kst - KERNBASE) va (va_pte s2 (kern_pgdir s2) va))))"
proof -
  have "b + np div 256 + 96 < np" using mem(3) by simp
  from mem_init_alloc_booting [OF bss kend mem(1,2) this, of fw_end fw_start]
  obtain s1 where s1: "mem_init_alloc fw_end fw_start totalmem kend s = Some (kpage (b + 2), s1)"
    "booting (page2pa b) np (np - (b + np div 256 + 96)) (\<lambda>_. 0) s1" "envs_base s1 = kpage (b + np div 256 + 3)" by blast
  then obtain ys where ys: "vm_inv s1 {page2pa b} {..<512} {} ys" "np - (b + np div 256 + 96) \<le> length ys" by (auto simp: booting_def)
  have M: "520 + 3 * (np div 256) \<le> np - (b + np div 256 + 96)" using mem(3) by simp
  have k: "kern_pgdir s1 = page2pa b" "npages s1 = np" "\<forall>va. va_pte s1 (page2pa b) va = 0" using s1(2) by (simp_all add: booting_def)
  have pa: "PADDR (kpage (b + 2)) = Some (page2pa (b + 2))" "PADDR (envs_base s1) = Some (page2pa (b + np div 256 + 3))"
    unfolding s1(3) by (rule PADDR_kpage; use mem(2,3) in simp)+
  have pb: "PADDR bootstack = Some (bootstack - KERNBASE)" using stk(1) by (simp add: PADDR_def)
  have main: "\<exists>s' xs. mem_init_map (kpage (b + 2)) bootstack kst s2 = Some s' \<and> kern_pgdir s' = kern_pgdir s2 \<and> npages s' = np \<and>
      vm_inv s' {kern_pgdir s'} {..<512} {} xs \<and>
      (\<forall>va. canonical va \<longrightarrow> va_pte s' (kern_pgdir s') va =
         kern_map np (page2pa (b + 2)) (page2pa (b + np div 256 + 3)) (kst - KERNBASE) va (va_pte s2 (kern_pgdir s2) va))"
    if s2: "kern_pgdir s2 = kern_pgdir s1" "npages s2 = np" "envs_base s2 = envs_base s1"
      "vm_inv s2 {kern_pgdir s2} {..<512} {} zs" "520 + 3 * (np div 256) \<le> length zs" for s2 zs
  proof -
    let ?f = "va_pte s2 (page2pa b)"
    have "booting (page2pa b) np (length zs) ?f s2" using s2 k(1) by (auto simp: booting_def)
    from mem_init_map_regions [OF this mem(2) s2(5) pa(1) pa(2) [folded s2(3)] pb PADDR_kstacks [OF stk(2,3)]]
    obtain s' where "mem_init_map (kpage (b + 2)) bootstack kst s2 = Some s'"
      "booting (page2pa b) np 0 (\<lambda>va. mapped_regions np (page2pa (b + 2)) (page2pa (b + np div 256 + 3)) (bootstack - KERNBASE) (kst - KERNBASE) va (?f va)) s'"
      by blast
    then show ?thesis using s2(1) k(1) mapped_regions_kern_map [OF _ mem(2)] unfolding booting_def by auto
  qed
  show ?thesis
  proof (intro exI conjI)
    show "mem_init_alloc fw_end fw_start totalmem kend s = Some (kpage (b + 2), s1)" by (rule s1(1))
    show "520 + 3 * (np div 256) \<le> length ys" by (rule order_trans [OF M ys(2)])
    show "vm_inv s1 {kern_pgdir s1} {..<512} {} ys" "\<forall>va. va_pte s1 (kern_pgdir s1) va = 0" unfolding k(1) by (rule ys(1) k(3))+
  qed (rule k(1), rule k(2), intro allI impI, elim conjE, rule main)
qed

theorem mem_init_map_layout_witness:
  "\<exists>pagesp s1 s' xs. mem_init_alloc 0x80023000 0x80000000 0x8000000 0xFFFFFFFF80210000 bss_kstate = Some (pagesp, s1) \<and>
     mem_init_map pagesp 0xFFFFFFFF80206000 0xFFFFFFFF80208000 s1 = Some s' \<and>
     vm_inv s' {kern_pgdir s'} {..<512} {} xs \<and>
     va_pte s' (kern_pgdir s') 0xFFFFFFFEFFFF8000 = PTE_ENTRY 0x80208000 OR PTE_W OR PTE_R OR PTE_V \<and>
     va_pte s' (kern_pgdir s') 0xFFFFFFFEFFFF7000 = 0"
proof -
  have up: "[0..<8] = [0, 1, 2, 3, 4, 5, 6, 7 :: nat]" by (simp add: upt_rec)
  have k: "kern_map 32768 p e 0x80208000 0xFFFFFFFEFFFF8000 z = PTE_ENTRY 0x80208000 OR PTE_W OR PTE_R OR PTE_V"
    "kern_map 32768 p e 0x80208000 0xFFFFFFFEFFFF7000 z = z" for p e z
    by (simp_all add: kern_map_def in_region_def region_ent_def kstack_def up)
  have c: "canonical 0xFFFFFFFEFFFF8000" "canonical 0xFFFFFFFEFFFF7000" by (simp_all add: canonical_def)
  obtain pagesp s1 ys where s1: "mem_init_alloc 0x80023000 0x80000000 0x8000000 0xFFFFFFFF80210000 bss_kstate = Some (pagesp, s1)"
      "npages s1 = 32768" "vm_inv s1 {kern_pgdir s1} {..<512} {} ys" "904 \<le> length ys" "\<forall>va. va_pte s1 (kern_pgdir s1) va = 0"
    and m: "\<forall>s2 zs. kern_pgdir s2 = kern_pgdir s1 \<and> npages s2 = 32768 \<and> envs_base s2 = envs_base s1 \<and>
        vm_inv s2 {kern_pgdir s2} {..<512} {} zs \<and> 904 \<le> length zs \<longrightarrow>
        (\<exists>s' xs. mem_init_map pagesp 0xFFFFFFFF80206000 0xFFFFFFFF80208000 s2 = Some s' \<and> kern_pgdir s' = kern_pgdir s2 \<and> npages s' = 32768 \<and>
           vm_inv s' {kern_pgdir s'} {..<512} {} xs \<and>
           (\<forall>va. canonical va \<longrightarrow> va_pte s' (kern_pgdir s') va =
              kern_map 32768 (page2pa 530) (page2pa 659) 0x80208000 va (va_pte s2 (kern_pgdir s2) va)))"
    using mem_init_map_layout [of bss_kstate "0xFFFFFFFF80210000" 528 32768 "0x8000000" "0xFFFFFFFF80206000" "0xFFFFFFFF80208000" "0x80023000" "0x80000000"]
    by (auto simp: bss_kstate_def ROUNDUP_def ROUNDDOWN_def)
  from m s1(2-4) obtain s' xs where "mem_init_map pagesp 0xFFFFFFFF80206000 0xFFFFFFFF80208000 s1 = Some s'"
    "vm_inv s' {kern_pgdir s'} {..<512} {} xs"
    "\<forall>va. canonical va \<longrightarrow> va_pte s' (kern_pgdir s') va =
       kern_map 32768 (page2pa 530) (page2pa 659) 0x80208000 va (va_pte s1 (kern_pgdir s1) va)" by blast
  then show ?thesis using s1(1,5) k c by metis
qed

end
