(* ===== verification/Environments.thy ===== *)
theory Environments
  imports Vm_Contracts
begin

unbundle bit_operations_syntax

text \<open>
  Environments, \<^verbatim>\<open>kern/riscv/env.c\<close>: lookup of an environment by its identifier, the
  list of free environments, creation of an address space and of an environment, loading of a
  program, and the release of an environment with its page tables. Switching to an environment
  and destroying one involve the scheduler and are in the theory \<open>Sched\<close>.

  Messages are not modelled. User memory is reached through the page table in force (\<open>satp\<close>),
  as the hardware does; a byte read or written at an address that is not mapped, or not mapped for
  that access, is a kernel fault, \<open>None\<close>.
\<close>

section \<open>User memory\<close>

definition translate :: "u64 \<Rightarrow> vaddr \<Rightarrow> kstate \<Rightarrow> (paddr \<times> nat) option" where
  "translate access va s =
     (let e = va_pte s (satp s) va in
      if pte_valid e \<and> e AND access \<noteq> 0 then Some (PTE_PHY e, unat (PGOFF va)) else None)"

definition get_byte :: "u64 \<Rightarrow> nat \<Rightarrow> u8" where
  "get_byte w k = ucast (drop_bit (8 * k) w)"

definition set_byte :: "u64 \<Rightarrow> nat \<Rightarrow> u8 \<Rightarrow> u64" where
  "set_byte w k b = (w AND NOT (push_bit (8 * k) 0xFF)) OR push_bit (8 * k) (ucast b)"

definition load_byte :: "vaddr \<Rightarrow> kstate \<Rightarrow> u8 option" where
  "load_byte va s = do {
     (pa, off) \<leftarrow> translate PTE_R va s;
     Some (get_byte (pmem s pa (off div 8)) (off mod 8)) }"

definition store_byte :: "vaddr \<Rightarrow> u8 \<Rightarrow> kstate \<Rightarrow> kstate option" where
  "store_byte va b s = do {
     (pa, off) \<leftarrow> translate PTE_W va s;
     Some (wr_pte (pa, off div 8) (set_byte (pmem s pa (off div 8)) (off mod 8) b) s) }"

primrec store_bytes :: "vaddr \<Rightarrow> u8 list \<Rightarrow> kstate \<Rightarrow> kstate option" where
  "store_bytes va [] s = Some s"
| "store_bytes va (b # bs) s = store_byte va b s \<bind> store_bytes (va + 1) bs"

primrec load_bytes :: "vaddr \<Rightarrow> nat \<Rightarrow> kstate \<Rightarrow> u8 list option" where
  "load_bytes va 0 s = Some []"
| "load_bytes va (Suc n) s = do { b \<leftarrow> load_byte va s; bs \<leftarrow> load_bytes (va + 1) n s; Some (b # bs) }"

section \<open>Identifiers and the free list\<close>

definition envid2env :: "u32 \<Rightarrow> bool \<Rightarrow> kstate \<Rightarrow> (int \<times> nat option) option" where
  "envid2env envid checkperm s =
     (if envid = 0 then Some (0, curenv s)
      else
        (let e = ENVX envid in
         if env_status (envs s e) = ENV_FREE \<or> env_id (envs s e) \<noteq> envid
         then Some (- E_BAD_ENV, None)
         else if checkperm \<and> Some e \<noteq> curenv s then do {
           cur \<leftarrow> curenv s;
           if env_parent_id (envs s e) \<noteq> env_id (envs s cur) then Some (- E_BAD_ENV, None)
           else Some (0, Some e) }
         else Some (0, Some e)))"

text \<open>The loop of \<open>env_init\<close>; the first component is the variable \<^verbatim>\<open>tail\<close>.\<close>

definition env_init_step :: "nat \<Rightarrow> nat \<times> kstate \<Rightarrow> nat \<times> kstate" where
  "env_init_step i = (\<lambda>(tail, s).
     let s1 = upd_env i (\<lambda>e. e\<lparr>env_id := 0\<rparr>) s in
     if i \<noteq> 0 then (i, upd_env tail (\<lambda>e. e\<lparr>env_link := Some i\<rparr>) s1)
     else (i, (upd_env i (\<lambda>e. e\<lparr>env_link := env_free_list s1\<rparr>) s1)\<lparr>env_free_list := Some i\<rparr>))"

definition env_init_percpu :: "kstate \<Rightarrow> kstate" where
  "env_init_percpu s = s\<lparr>sstatus := sstatus s OR push_bit 18 1\<rparr>"

definition env_init :: "kstate \<Rightarrow> kstate" where
  "env_init s = env_init_percpu (snd (fold env_init_step [0..<NENV] (0, s)))"

section \<open>Creation\<close>

definition copy_kern_slot :: "paddr \<Rightarrow> nat \<Rightarrow> kstate \<Rightarrow> kstate" where
  "copy_kern_slot pgdir i s = wr_pte (pgdir, i) (pmem s (kern_pgdir s) i) s"

definition env_setup_vm :: "nat \<Rightarrow> kstate \<Rightarrow> (int \<times> kstate) option" where
  "env_setup_vm e s = do {
     (p, s1) \<leftarrow> page_alloc 1 s;
     (case p of
        None \<Rightarrow> Some (- E_NO_MEM, s1)
      | Some n \<Rightarrow> do {
          pgdir \<leftarrow> page2kva s1 n;
          let s2 = upd_env e (\<lambda>v. v\<lparr>env_pgdir := Some pgdir\<rparr>) s1;
          let s3 = upd_page n (\<lambda>q. q\<lparr>pp_ref := pp_ref q + 1\<rparr>) s2;
          let s4 = copy_kern_slot pgdir (PD0X UPAGES) s3;
          let s5 = copy_kern_slot pgdir (PD0X UENVS) s4;
          let s6 = copy_kern_slot pgdir (PD0X MMIOBASE) s5;
          let s7 = fold (copy_kern_slot pgdir) [PD0X KERNBASE..<512] s6;
          Some (0, wr_pte (pgdir, PD0X UVPT) (pgdir OR PTE_V) s7) }) }"

definition env_addr :: "kstate \<Rightarrow> nat \<Rightarrow> vaddr" where
  "env_addr s e = envs_base s + 368 * of_nat e"

definition env_alloc :: "u32 \<Rightarrow> kstate \<Rightarrow> ((int \<times> nat option) \<times> kstate) option" where
  "env_alloc parent_id s =
     (case env_free_list s of
        None \<Rightarrow> Some ((- E_NO_FREE_ENV, None), s)
      | Some e \<Rightarrow> do {
          (r, s1) \<leftarrow> env_setup_vm e s;
          if r < 0 then Some ((r, None), s1)
          else
            (let tf = zero_tf\<lparr>tf_sp := USTACKTOP, tf_status := sstatus s1 OR 0x20,
                              tf_tp := env_addr s1 e\<rparr>;
                 s2 = upd_env e (\<lambda>v. v\<lparr>env_id := next_env_id (env_id v) e,
                        env_parent_id := parent_id, env_type := ENV_TYPE_USER,
                        env_status := ENV_RUNNABLE, env_runs := 0, env_tf := tf,
                        env_pgfault_upcall := 0, env_ipc_recving := False\<rparr>) s1
             in Some ((0, Some e), s2\<lparr>env_free_list := env_link (envs s2 e)\<rparr>)) })"

section \<open>Loading a program\<close>

record Proghdr =
  p_type :: u32
  p_offset :: u64
  p_va :: vaddr
  p_filesz :: u64
  p_memsz :: u64

text \<open>A binary: the fields of its header that are read, its program headers, its bytes.\<close>

record Elf =
  e_magic :: u32
  e_entry :: u64
  e_phdrs :: "Proghdr list"
  e_bytes :: "nat \<Rightarrow> u8"

text \<open>One iteration of \<open>region_alloc\<close>. The addresses are multiples of the page size, so the loop
  runs for exactly the pages from the rounded start to the rounded end.\<close>

definition region_page :: "nat \<Rightarrow> vaddr \<Rightarrow> kstate \<Rightarrow> kstate option" where
  "region_page e va s = do {
     let s1 = s\<lparr>tlb_log := va # tlb_log s\<rparr>;
     (pg_info, s2) \<leftarrow> page_alloc 0 s1;
     n \<leftarrow> pg_info;
     pgdir \<leftarrow> env_pgdir (envs s2 e);
     (ret, s3) \<leftarrow> page_insert pgdir n va 0x1E s2;
     assert_that (\<not> ret < 0);
     Some (wr_pte (kern_pgdir s3, PD0X va) (pmem s3 pgdir (PD0X va)) s3) }"

definition region_alloc :: "nat \<Rightarrow> vaddr \<Rightarrow> u64 \<Rightarrow> kstate \<Rightarrow> kstate option" where
  "region_alloc e va len s =
     (let start = ROUNDDOWN va PGSIZE; fin = ROUNDUP (start + len) PGSIZE;
          n = (if start < fin then unat ((fin - start) div PGSIZE) else 0)
      in ofold (\<lambda>i. region_page e (start + of_nat i * PGSIZE)) [0..<n] s)"

definition load_segment :: "nat \<Rightarrow> Elf \<Rightarrow> Proghdr \<Rightarrow> kstate \<Rightarrow> kstate option" where
  "load_segment e binary ph s =
     (if p_type ph \<noteq> 1 then Some s
      else do {
        assert_that (\<not> p_filesz ph > p_memsz ph);
        s1 \<leftarrow> region_alloc e (p_va ph) (p_memsz ph) s;
        s2 \<leftarrow> store_bytes (p_va ph)
               (map (\<lambda>k. e_bytes binary (unat (p_offset ph) + k)) [0..<unat (p_filesz ph)]) s1;
        if p_filesz ph \<noteq> p_memsz ph
        then store_bytes (p_va ph + p_filesz ph) (replicate (unat (p_memsz ph - p_filesz ph)) 0) s2
        else Some s2 })"

definition load_icode :: "nat \<Rightarrow> Elf \<Rightarrow> kstate \<Rightarrow> kstate option" where
  "load_icode e binary s = do {
     assert_that (e_magic binary = 0x464C457F);
     s1 \<leftarrow> ofold (load_segment e binary) (e_phdrs binary) s;
     let s2 = upd_env e (\<lambda>v. v\<lparr>env_tf := (env_tf v)\<lparr>tf_sepc := e_entry binary\<rparr>\<rparr>) s1;
     (pg_info, s3) \<leftarrow> page_alloc 0 s2;
     n \<leftarrow> pg_info;
     pgdir \<leftarrow> env_pgdir (envs s3 e);
     (_, s4) \<leftarrow> page_insert pgdir n (USTACKTOP - PGSIZE) 0x16 s3;
     Some s4 }"

definition env_create :: "Elf \<Rightarrow> EnvType \<Rightarrow> kstate \<Rightarrow> kstate option" where
  "env_create binary type s = do {
     ((ret, env), s1) \<leftarrow> env_alloc 0 s;
     assert_that (\<not> ret < 0);
     e \<leftarrow> env;
     let s2 = s1\<lparr>sstatus := sstatus s1 OR push_bit 18 1\<rparr>;
     s3 \<leftarrow> load_icode e binary s2;
     let s4 = upd_env e (\<lambda>v. v\<lparr>env_type := type\<rparr>) s3;
     if type = ENV_TYPE_FS then do {
       pgdir \<leftarrow> env_pgdir (envs s4 e);
       Some (copy_kern_slot pgdir (PD0X FLASH_MAP_ADDR) s4) }
     else Some s4 }"

section \<open>Release\<close>

definition free_pte :: "paddr \<Rightarrow> nat \<Rightarrow> nat \<Rightarrow> paddr \<Rightarrow> nat \<Rightarrow> kstate \<Rightarrow> kstate option" where
  "free_pte pgdir pde1no pde2no pt pteno s =
     (if pte_valid (pmem s pt pteno)
      then page_remove pgdir (PGADDR 0 (of_nat pde1no) (of_nat pde2no) (of_nat pteno) 0) s
      else Some s)"

definition free_pd2 :: "paddr \<Rightarrow> nat \<Rightarrow> paddr \<Rightarrow> nat \<Rightarrow> kstate \<Rightarrow> kstate option" where
  "free_pd2 pgdir pde1no pd2 pde2no s =
     (if \<not> pte_valid (pmem s pd2 pde2no) then Some s
      else do {
        let pa2 = PTE_ADDR (pmem s pd2 pde2no);
        pt \<leftarrow> KADDR s pa2;
        s1 \<leftarrow> ofold (free_pte pgdir pde1no pde2no pt) [0..<512] s;
        let s2 = wr_pte (pd2, pde2no) 0 s1;
        n \<leftarrow> pa2page s2 pa2;
        page_decref n s2 })"

definition free_pd1 :: "paddr \<Rightarrow> paddr \<Rightarrow> nat \<Rightarrow> kstate \<Rightarrow> kstate option" where
  "free_pd1 pgdir pd1 pde1no s =
     (if \<not> pte_valid (pmem s pd1 pde1no) then Some s
      else do {
        let pa1 = PTE_ADDR (pmem s pd1 pde1no);
        pd2 \<leftarrow> KADDR s pa1;
        s1 \<leftarrow> ofold (free_pd2 pgdir pde1no pd2) [0..<512] s;
        let s2 = wr_pte (pd1, pde1no) 0 s1;
        n \<leftarrow> pa2page s2 pa1;
        page_decref n s2 })"

definition env_free :: "nat \<Rightarrow> kstate \<Rightarrow> kstate option" where
  "env_free e s = do {
     let s1 = (if curenv s = Some e then s\<lparr>satp := kern_pgdir s, asid := 0\<rparr> else s);
     pgdir \<leftarrow> env_pgdir (envs s1 e);
     s2 \<leftarrow> (if pte_valid (pmem s1 pgdir 0) then do {
               let pa = PTE_ADDR (pmem s1 pgdir 0);
               pd1 \<leftarrow> KADDR s1 pa;
               t1 \<leftarrow> ofold (free_pd1 pgdir pd1) [0..<512] s1;
               let t2 = wr_pte (pgdir, 0) 0 t1;
               n \<leftarrow> pa2page t2 pa;
               page_decref n t2 }
             else Some s1);
     let s3 = upd_env e (\<lambda>v. v\<lparr>env_pgdir := None\<rparr>) s2;
     n \<leftarrow> pa2page s3 pgdir;
     s4 \<leftarrow> page_decref n s3;
     Some ((upd_env e (\<lambda>v. v\<lparr>env_status := ENV_FREE, env_link := env_free_list s4\<rparr>) s4)
             \<lparr>env_free_list := Some e\<rparr>) }"

end
