(* ===== verification/Env_Props.thy ===== *)
theory Env_Props
  imports Environments
begin

unbundle bit_operations_syntax

text \<open>
  Properties of environments: \<open>envid2env\<close> accepts exactly the live identifiers the caller may use;
  \<open>env_init\<close> builds the free list in table order; a new environment starts with cleared
  registers and an address space whose user part is empty, and creating it keeps the invariant of
  the virtual memory with one more root.
\<close>

section \<open>Lookup\<close>

text \<open>\<open>envid2env\<close>, when an environment is running, returns 0 and an environment exactly for
  the identifier 0, which means the caller, and for the identifier of a live environment that, when
  permissions are checked, is the caller or one of its children; in every other case it returns
  \<open>-E_BAD_ENV\<close> and no environment.\<close>

theorem envid2env_correct:
  assumes cur: "curenv s = Some c"
  shows "envid2env envid checkperm s =
     (if envid = 0 then Some (0, Some c)
      else if env_status (envs s (ENVX envid)) \<noteq> ENV_FREE \<and> env_id (envs s (ENVX envid)) = envid \<and>
        (checkperm \<longrightarrow> ENVX envid = c \<or> env_parent_id (envs s (ENVX envid)) = env_id (envs s c))
      then Some (0, Some (ENVX envid)) else Some (- E_BAD_ENV, None))"
  using cur by (auto simp: envid2env_def Let_def)

theorem envid2env_correct_witness:
  "envid2env 0x1003 True (bss_kstate\<lparr>curenv := Some 1\<rparr>) = Some (- E_BAD_ENV, None)"
  using envid2env_correct [of "bss_kstate\<lparr>curenv := Some 1\<rparr>" 1 "0x1003" True]
  by (simp add: bss_kstate_def zero_env_def)

section \<open>The free list of environments\<close>

definition env_list :: "kstate \<Rightarrow> nat list \<Rightarrow> bool" where
  "env_list s es \<longleftrightarrow> chain (\<lambda>i. env_link (envs s i)) (env_free_list s) es"

lemma env_init_prefix:
  assumes "\<forall>i. env_link (envs s i) = None" "env_free_list s = None"
  shows "0 < n \<Longrightarrow> (case fold env_init_step [0..<n] (0, s) of (tail, t) \<Rightarrow>
     tail = n - 1 \<and> env_free_list t = Some 0 \<and>
     (\<forall>i. env_link (envs t i) = (if Suc i < n then Some (Suc i) else None)) \<and>
     (\<forall>i < n. env_id (envs t i) = 0) \<and> (\<forall>i. env_status (envs t i) = env_status (envs s i)))"
proof (induction n)
  case (Suc n)
  show ?case
  proof (cases "n = 0")
    case True
    then show ?thesis using assms by (auto simp: env_init_step_def Let_def)
  next
    case False
    with Suc.IH obtain t where t: "fold env_init_step [0..<n] (0, s) = (n - 1, t)" "env_free_list t = Some 0"
      "\<forall>i. env_link (envs t i) = (if Suc i < n then Some (Suc i) else None)"
      "\<forall>i < n. env_id (envs t i) = 0" "\<forall>i. env_status (envs t i) = env_status (envs s i)"
      by (auto split: prod.splits)
    have "fold env_init_step [0..<Suc n] (0, s) = env_init_step n (n - 1, t)" using t(1) by simp
    also have "\<dots> = (n, upd_env (n - 1) (\<lambda>e. e\<lparr>env_link := Some n\<rparr>) (upd_env n (\<lambda>e. e\<lparr>env_id := 0\<rparr>) t))"
      using False by (simp add: env_init_step_def Let_def)
    finally show ?thesis using t(2-5) False by (auto simp: less_Suc_eq)
  qed
qed simp

lemma chain_upto:
  "\<forall>i. lnk i = (if Suc i < n then Some (Suc i) else None) \<Longrightarrow> m < n \<Longrightarrow> chain lnk (Some m) [m..<n]"
proof (induction "n - m" arbitrary: m)
  case (Suc k)
  show ?case
  proof (cases "Suc m < n")
    case True
    then have "chain lnk (Some (Suc m)) [Suc m..<n]" using Suc by auto
    with True Suc.prems show ?thesis by (simp add: upt_conv_Cons)
  next
    case False
    then have "n = Suc m" using Suc.prems by simp
    then show ?thesis using Suc.prems(1) by simp
  qed
qed simp

text \<open>After \<open>env_init\<close> on a zeroed table the free list is \<^verbatim>\<open>envs[0]\<close>, \<^verbatim>\<open>envs[1]\<close>, ...
  in the order of the table, so that the first allocation returns \<^verbatim>\<open>envs[0]\<close>, and no
  environment has an identifier.\<close>

theorem env_init_order:
  assumes "\<forall>i. env_link (envs s i) = None" "env_free_list s = None"
  shows "env_list (env_init s) [0..<NENV] \<and> (\<forall>i < NENV. env_id (envs (env_init s) i) = 0)"
proof -
  obtain t where t: "snd (fold env_init_step [0..<NENV] (0, s)) = t" "env_free_list t = Some 0"
    "\<forall>i. env_link (envs t i) = (if Suc i < NENV then Some (Suc i) else None)"
    "\<forall>i < NENV. env_id (envs t i) = 0"
    using env_init_prefix [OF assms, of NENV] by (auto split: prod.splits)
  then have "chain (\<lambda>i. env_link (envs t i)) (Some 0) [0..<NENV]" by (intro chain_upto) auto
  with t show ?thesis unfolding env_init_def env_init_percpu_def env_list_def t(1) by simp
qed

theorem env_init_order_witness: "env_list (env_init bss_kstate) [0..<NENV]"
proof -
  have "\<forall>i. env_link (envs bss_kstate i) = None" "env_free_list bss_kstate = None"
    by (simp_all add: bss_kstate_def zero_env_def)
  from env_init_order [OF this] show ?thesis by blast
qed

section \<open>A new address space\<close>

lemma PD0X_layout:
  "PD0X UPAGES = 0x1FB" "PD0X UENVS = 0x1FA" "PD0X MMIOBASE = 0x1FD" "PD0X KERNBASE = 0x1FF"
  "PD0X UVPT = 0x100"
  by (simp_all add: PDX_eq)

text \<open>The top-level table of a new environment: the kernel's entries in the kernel's slots, its own
  entry in the slot of \<^verbatim>\<open>UVPT\<close>, nothing in the user's slots.\<close>

definition env_pgdir_init :: "kstate \<Rightarrow> paddr \<Rightarrow> nat \<Rightarrow> u64" where
  "env_pgdir_init s pa = (\<lambda>i. if i = 0x100 then pa OR PTE_V
     else if i \<in> {0x1FA, 0x1FB, 0x1FD, 0x1FF} then pmem s (kern_pgdir s) i else 0)"

definition kernel_slots :: "nat set" where
  "kernel_slots = {0x100, 0x1FA, 0x1FB, 0x1FD, 0x1FF}"

lemma env_setup_vm_ok:
  assumes al: "alloc_inv s (n # xs)" and k: "kern_pgdir s \<noteq> page2pa n"
  obtains s' where "env_setup_vm e s = Some (0, s')" "alloc_inv s' xs"
    "pmem s' = (pmem s)(page2pa n := env_pgdir_init s (page2pa n))"
    "envs s' = (envs s)(e := (envs s e)\<lparr>env_pgdir := Some (page2pa n)\<rparr>)"
    "pp_ref (pages s' n) = 1" "\<forall>m. m \<noteq> n \<longrightarrow> pages s' m = pages s m"
    "npages s' = npages s" "curenv s' = curenv s" "env_free_list s' = env_free_list s"
    "sstatus s' = sstatus s" "envs_base s' = envs_base s" "kern_pgdir s' = kern_pgdir s" "satp s' = satp s"
proof -
  define s1 where "s1 = zero_frame (page2pa n)
    (upd_page n (\<lambda>p. p\<lparr>pp_link := None\<rparr>) (s\<lparr>page_free_list := pp_link (pages s n)\<rparr>))"
  have a: "page_alloc 1 s = Some (Some n, s1)" "alloc_inv s1 xs"
    using page_alloc_cons [OF al, of 1] by (simp_all add: s1_def)
  have n: "n < npages s" "npages s \<le> 2 ^ 19" "pp_ref (pages s n) = 0" "n \<notin> set xs"
    using alloc_invD [OF al] by auto
  have kva: "page2kva s1 n = Some (page2pa n)"
    using n KADDR_page2pa [of n s1] by (simp add: page2kva_def s1_def)
  define s' where "s' = snd (the (env_setup_vm e s))"
  have up: "[0x1FF..<512] = [0x1FF :: nat]" by simp
  have e: "env_setup_vm e s = Some (0, s')"
    by (simp add: s'_def env_setup_vm_def a kva)
  have f: "s' = wr_pte (page2pa n, 0x100) (page2pa n OR PTE_V)
     (copy_kern_slot (page2pa n) 0x1FF (copy_kern_slot (page2pa n) 0x1FD
      (copy_kern_slot (page2pa n) 0x1FA (copy_kern_slot (page2pa n) 0x1FB
       (upd_page n (\<lambda>q. q\<lparr>pp_ref := pp_ref q + 1\<rparr>)
        (upd_env e (\<lambda>v. v\<lparr>env_pgdir := Some (page2pa n)\<rparr>) s1))))))"
    unfolding s'_def env_setup_vm_def a(1) by (simp add: kva PD0X_layout up Let_def)
  have "alloc_inv s' xs = alloc_inv s1 xs"
    unfolding f using n(4) by (intro alloc_inv_cong) (auto simp: copy_kern_slot_def)
  then have al': "alloc_inv s' xs" using a(2) by simp
  have pm: "pmem s' = (pmem s)(page2pa n := env_pgdir_init s (page2pa n))"
    unfolding f using k
    by (simp add: copy_kern_slot_def s1_def env_pgdir_init_def fun_eq_iff)
  show thesis
    by (rule that [OF e al' pm]) (simp_all add: f copy_kern_slot_def s1_def n(3))
qed

text \<open>Adding the new root keeps the invariant; its user part maps nothing.\<close>

lemma tbl_user_empty:
  assumes "pmem s' r = env_pgdir_init s r" "S \<inter> kernel_slots = {}" "p \<in> tpaths S"
  shows "tbl s' r p = (if p = [] then Some r else None)"
proof (cases p)
  case (Cons i q)
  then have "i \<notin> kernel_slots" using assms(2,3) by (auto simp: tpaths_def)
  then have "pmem s' r i = 0" by (auto simp: assms(1) env_pgdir_init_def kernel_slots_def)
  then show ?thesis using Cons by (simp add: pte_valid_def)
qed simp

lemma vm_inv_new_root:
  assumes inv: "vm_inv s R S U (n # xs)" and al: "alloc_inv s' xs" and S: "S \<inter> kernel_slots = {}"
    and pm: "pmem s' = (pmem s)(page2pa n := env_pgdir_init s (page2pa n))"
    and ref: "\<forall>m. m \<noteq> n \<longrightarrow> pages s' m = pages s m" and np: "npages s' = npages s"
  shows "vm_inv s' (insert (page2pa n) R) S U xs"
    "\<forall>r \<in> R. \<forall>va. PD0X va \<in> S \<longrightarrow> va_pte s' r va = va_pte s r va"
    "\<forall>va. PD0X va \<in> S \<longrightarrow> va_pte s' (page2pa n) va = 0"
proof -
  let ?r = "page2pa n" and ?R = "insert (page2pa n) R"
  note a = alloc_invD [OF vm_invD(1) [OF inv]]
  have n: "n < npages s" "n \<notin> set xs" "pp_ref (pages s n) = 0" using a(3,4,6) by auto
  have nt: "\<not> tab_at s R S r p ?r" for r p using not_tab_page [OF inv n(1)] by simp
  have rR: "?r \<notin> R" using nt [of ?r "[]"] by (auto simp: tab_at_def)
  have m: "pmem s' t = pmem s t" if "tab_at s R S r p t" for r p t using nt that pm by auto
  have tb: "tbl s' r p = tbl s r p" if "r \<in> R" "p \<in> tpaths S" for r p
    by (rule tbl_frame [OF _ that]) (rule m)
  have lf: "leaf s' r q = leaf s r q" if "r \<in> R" "q \<in> lpaths S" for r q
    by (rule leaf_frame [OF _ that]) (rule m)
  have pr: "pmem s' ?r = env_pgdir_init s ?r" using pm by simp
  have tr: "tbl s' ?r p = (if p = [] then Some ?r else None)" if "p \<in> tpaths S" for p
    by (rule tbl_user_empty [OF pr S that])
  have lr: "leaf s' ?r q = 0" if "q \<in> lpaths S" for q
  proof -
    have "butlast q \<in> tpaths S" "length (butlast q) = 3" using lpaths_butlast [OF that] by auto
    then have "tbl s' ?r (butlast q) = None" using tr by (metis length_0_conv zero_neq_numeral)
    then show ?thesis by (simp add: leaf_def)
  qed
  show "\<forall>r \<in> R. \<forall>va. PD0X va \<in> S \<longrightarrow> va_pte s' r va = va_pte s r va"
    using lf ixs_paths(1) by (simp add: va_pte_def)
  show "\<forall>va. PD0X va \<in> S \<longrightarrow> va_pte s' (page2pa n) va = 0"
    using lr ixs_paths(1) by (simp add: va_pte_def)
  have US: "q \<in> lpaths U \<Longrightarrow> q \<in> lpaths S" for q by (rule lpaths_mono [OF vm_invD(7) [OF inv]])
  have mp: "mappings s' ?R U k = mappings s R U k" for k
    using lf lr US rR by (auto simp: mappings_def)
  have ta: "tab_at s' ?R S r p t \<longleftrightarrow> tab_at s R S r p t \<or> r = ?r \<and> p = [] \<and> t = ?r" for r p t
    using tb tr rR by (auto simp: tab_at_def split: if_splits)
  have "tabs_inj s' ?R S" using vm_invD(3) [OF inv] nt unfolding tabs_inj_def ta by blast
  moreover have "tabs_ok s' ?R S U xs"
    unfolding tabs_ok_def ta mp
  proof (intro allI impI)
    fix r p t assume "tab_at s R S r p t \<or> r = ?r \<and> p = [] \<and> t = ?r"
    then show "\<exists>k<npages s'. t = page2pa k \<and> k \<notin> set xs \<and> mappings s R U k = {}"
    proof
      assume "tab_at s R S r p t"
      then show ?thesis using tab_page [OF inv] np by (metis list.set_intros(2))
    next
      assume "r = ?r \<and> p = [] \<and> t = ?r"
      then show ?thesis using n np mappings_unref [OF inv n(3)] by auto
    qed
  qed
  moreover have "maps_ok s' ?R U"
  proof -
    have "card (mappings s R U k) \<le> unat (pp_ref (pages s' k))" for k
      using vm_invD(5) [OF inv] ref mappings_unref [OF inv n(3)] by (cases "k = n") (simp_all add: maps_ok_def)
    moreover have "leaf s' r q \<noteq> 0 \<longrightarrow> pte_wf s' (leaf s' r q)" if "r \<in> ?R" "q \<in> lpaths U" for r q
      using vm_invD(5) [OF inv] lf lr US that np by (auto simp: maps_ok_def pte_wf_def)
    ultimately show ?thesis by (simp add: maps_ok_def mp)
  qed
  ultimately show "vm_inv s' ?R S U xs" using al vm_invD(2,7) [OF inv] by (simp add: vm_inv_def)
qed

section \<open>Allocation of an environment\<close>

lemma env_alloc_ok:
  assumes fl: "env_free_list s = Some e" and al: "alloc_inv s (n # xs)" and k: "kern_pgdir s \<noteq> page2pa n"
  obtains s' where "env_alloc parent s = Some ((0, Some e), s')" "alloc_inv s' xs"
    "pmem s' = (pmem s)(page2pa n := env_pgdir_init s (page2pa n))"
    "envs s' = (envs s)(e := (envs s e)\<lparr>env_pgdir := Some (page2pa n), env_id := next_env_id (env_id (envs s e)) e,
       env_parent_id := parent, env_type := ENV_TYPE_USER, env_status := ENV_RUNNABLE, env_runs := 0,
       env_tf := zero_tf\<lparr>tf_sp := USTACKTOP, tf_status := sstatus s OR 0x20, tf_tp := env_addr s e\<rparr>,
       env_pgfault_upcall := 0, env_ipc_recving := False\<rparr>)"
    "\<forall>m. m \<noteq> n \<longrightarrow> pages s' m = pages s m" "npages s' = npages s" "curenv s' = curenv s"
    "env_free_list s' = env_link (envs s e)" "kern_pgdir s' = kern_pgdir s" "satp s' = satp s" "pp_ref (pages s' n) = 1"
proof -
  obtain s1 where s1: "env_setup_vm e s = Some (0, s1)" "alloc_inv s1 xs"
    "pmem s1 = (pmem s)(page2pa n := env_pgdir_init s (page2pa n))"
    "envs s1 = (envs s)(e := (envs s e)\<lparr>env_pgdir := Some (page2pa n)\<rparr>)"
    "pp_ref (pages s1 n) = 1" "\<forall>m. m \<noteq> n \<longrightarrow> pages s1 m = pages s m"
    "npages s1 = npages s" "curenv s1 = curenv s" "env_free_list s1 = env_free_list s"
    "sstatus s1 = sstatus s" "envs_base s1 = envs_base s" "kern_pgdir s1 = kern_pgdir s" "satp s1 = satp s"
    by (rule env_setup_vm_ok [OF al k])
  define s' where "s' = snd (the (env_alloc parent s))"
  have e: "env_alloc parent s = Some ((0, Some e), s')"
    by (simp add: s'_def env_alloc_def fl s1(1) Let_def)
  define s2 where "s2 = upd_env e (\<lambda>v. v\<lparr>env_id := next_env_id (env_id v) e,
        env_parent_id := parent, env_type := ENV_TYPE_USER, env_status := ENV_RUNNABLE, env_runs := 0,
        env_tf := zero_tf\<lparr>tf_sp := USTACKTOP, tf_status := sstatus s1 OR 0x20, tf_tp := env_addr s1 e\<rparr>,
        env_pgfault_upcall := 0, env_ipc_recving := False\<rparr>) s1"
  have f: "s' = s2\<lparr>env_free_list := env_link (envs s2 e)\<rparr>"
    by (simp add: s'_def s2_def env_alloc_def fl s1(1) Let_def)
  have "alloc_inv s' xs = alloc_inv s1 xs" unfolding f s2_def by (rule alloc_inv_cong) simp_all
  then have "alloc_inv s' xs" using s1(2) by simp
  then show thesis
    by (rule that [OF e]) (simp_all add: f s2_def s1 env_addr_def)
qed

text \<open>C19. \<open>env_alloc\<close> takes the first free environment. The new environment is runnable, has a
  positive identifier with its index that differs from the slot's previous one, the given parent, and
  a trap frame in which everything but the stack pointer, the status and the thread pointer is zero;
  no other environment changes. The invariant of the virtual memory holds with the new page directory
  as one more root, the new address space maps no user address, and every existing address space is
  unchanged.\<close>

theorem env_alloc_correct:
  assumes inv: "vm_inv s R S U (n # xs)" and S: "S \<inter> kernel_slots = {}"
    and fl: "env_free_list s = Some e" and e: "e < NENV" and k: "kern_pgdir s \<noteq> page2pa n"
  shows "\<exists>s'. env_alloc parent s = Some ((0, Some e), s') \<and>
     vm_inv s' (insert (page2pa n) R) S U xs \<and>
     (\<forall>va. PD0X va \<in> S \<longrightarrow> va_pte s' (page2pa n) va = 0) \<and>
     (\<forall>r \<in> R. \<forall>va. PD0X va \<in> S \<longrightarrow> va_pte s' r va = va_pte s r va) \<and>
     (\<forall>i. i \<noteq> e \<longrightarrow> envs s' i = envs s i) \<and> env_free_list s' = env_link (envs s e) \<and>
     (let v = envs s' e in
        env_status v = ENV_RUNNABLE \<and> env_parent_id v = parent \<and> env_pgdir v = Some (page2pa n) \<and>
        0 < sint (env_id v) \<and> ENVX (env_id v) = e \<and> env_id v \<noteq> env_id (envs s e) \<and>
        env_tf v = zero_tf\<lparr>tf_sp := USTACKTOP, tf_status := sstatus s OR 0x20, tf_tp := env_addr s e\<rparr>)"
proof -
  obtain s' where s': "env_alloc parent s = Some ((0, Some e), s')" "alloc_inv s' xs"
    "pmem s' = (pmem s)(page2pa n := env_pgdir_init s (page2pa n))"
    "envs s' = (envs s)(e := (envs s e)\<lparr>env_pgdir := Some (page2pa n), env_id := next_env_id (env_id (envs s e)) e,
       env_parent_id := parent, env_type := ENV_TYPE_USER, env_status := ENV_RUNNABLE, env_runs := 0,
       env_tf := zero_tf\<lparr>tf_sp := USTACKTOP, tf_status := sstatus s OR 0x20, tf_tp := env_addr s e\<rparr>,
       env_pgfault_upcall := 0, env_ipc_recving := False\<rparr>)"
    "\<forall>m. m \<noteq> n \<longrightarrow> pages s' m = pages s m" "npages s' = npages s" "curenv s' = curenv s"
    "env_free_list s' = env_link (envs s e)" "kern_pgdir s' = kern_pgdir s"
    by (rule env_alloc_ok [OF fl vm_invD(1) [OF inv] k])
  note nr = vm_inv_new_root [OF inv s'(2) S s'(3,5,6)]
  have "next_env_id (env_id (envs s e)) e \<noteq> env_id (envs s e)" by (rule next_env_id_neq [OF e])
  with s'(1) nr next_env_id_facts [OF e] s'(4,8) show ?thesis
    by (intro exI [of _ s']) (simp add: Let_def)
qed

lemma demo_kern: "kern_pgdir demo_vm \<noteq> page2pa 2"
proof
  assume "kern_pgdir demo_vm = page2pa 2"
  then have "unat (page2pa 2) = 0" by (simp add: demo_vm_def bss_kstate_def)
  then show False by (simp add: unat_page2pa)
qed

theorem env_alloc_correct_witness:
  "\<exists>s'. env_alloc 0x1000 (demo_vm\<lparr>env_free_list := Some 3\<rparr>) = Some ((0, Some 3), s') \<and>
     vm_inv s' {page2pa 2, page2pa 0} {0} {0} [3, 4, 5, 6]"
proof -
  have "pmem demo_vm = (\<lambda>_ _. 0)" by (simp add: demo_vm_def bss_kstate_def)
  then have inv: "vm_inv (demo_vm\<lparr>env_free_list := Some 3\<rparr>) {page2pa 0} {0} {0} [2, 3, 4, 5, 6]"
    using vm_inv_zero_mem [of "demo_vm\<lparr>env_free_list := Some 3\<rparr>" "[2, 3, 4, 5, 6]" "{0}" "{0}" "{0}"]
      alloc_inv_demo alloc_inv_cong [of "demo_vm\<lparr>env_free_list := Some 3\<rparr>" demo_vm]
    by (simp add: demo_vm_def)
  have "{0} \<inter> kernel_slots = {}" by (simp add: kernel_slots_def)
  from env_alloc_correct [OF inv this, of 3 "0x1000"] demo_kern show ?thesis by auto
qed

text \<open>The failures of \<open>env_alloc\<close>: without a free environment it returns
  \<open>-E_NO_FREE_ENV\<close>, without a free page \<open>-E_NO_MEM\<close>; both times no environment is returned and
  the state is unchanged.\<close>

theorem env_alloc_errors:
  shows "(env_free_list s = None \<longrightarrow> env_alloc parent s = Some ((- E_NO_FREE_ENV, None), s)) \<and>
     (env_free_list s = Some e \<and> alloc_inv s [] \<longrightarrow> env_alloc parent s = Some ((- E_NO_MEM, None), s))"
  by (simp add: env_alloc_def env_setup_vm_def page_alloc_empty)

theorem env_alloc_errors_witness:
  "env_alloc 0 bss_kstate = Some ((- E_NO_FREE_ENV, None), bss_kstate) \<and>
   env_alloc 0 (bss_kstate\<lparr>env_free_list := Some 1\<rparr>) =
     Some ((- E_NO_MEM, None), bss_kstate\<lparr>env_free_list := Some 1\<rparr>)"
  using env_alloc_errors [of bss_kstate 0 0] env_alloc_errors [of "bss_kstate\<lparr>env_free_list := Some 1\<rparr>" 0 1]
  by (simp add: alloc_inv_def bss_kstate_def)

end
