(* ===== verification/Sched.thy ===== *)
theory Sched
  imports Env_Props
begin

unbundle bit_operations_syntax

text \<open>
  Switching between environments: \<open>env_run\<close>, \<open>env_pop_tf\<close> and \<open>env_destroy\<close> of
  \<^verbatim>\<open>kern/riscv/env.c\<close>, the scheduler \<^verbatim>\<open>kern/riscv/sched.c\<close>, and \<open>user_mem_assert\<close>
  of \<^verbatim>\<open>kern/riscv/pmap.c\<close>. These functions need not return to their caller. Their result says
  how the kernel is left: \<open>Ret x s\<close> returns to the caller, \<open>Run e s\<close> enters user mode in
  environment \<open>e\<close> with the kernel lock released, \<open>Halt s\<close> waits for an interrupt, and
  \<open>Monitor s\<close> stays in the kernel monitor for ever.

  The scheduler is shown to be round robin and fair.
\<close>

section \<open>Operations\<close>

datatype 'a kres = Ret 'a kstate | Run nat kstate | Halt kstate | Monitor kstate

definition env_pop_tf :: "kstate \<Rightarrow> 'a kres option" where
  "env_pop_tf s = do {
     cur \<leftarrow> curenv s;
     Some (Run cur (upd_env cur (\<lambda>v. v\<lparr>env_cpunum := cpunum s\<rparr>) s)) }"

definition env_run :: "nat \<Rightarrow> kstate \<Rightarrow> 'a kres option" where
  "env_run e s = do {
     let s1 = (case curenv s of
                 None \<Rightarrow> s
               | Some c \<Rightarrow> if env_status (envs s c) = ENV_RUNNING
                           then upd_env c (\<lambda>v. v\<lparr>env_status := ENV_RUNNABLE\<rparr>) s else s);
     let s2 = upd_env e (\<lambda>v. v\<lparr>env_status := ENV_RUNNING, env_runs := env_runs v + 1\<rparr>)
                (s1\<lparr>curenv := Some e\<rparr>);
     pgdir \<leftarrow> env_pgdir (envs s2 e);
     env_pop_tf (s2\<lparr>satp := pgdir, asid := ucast (env_id (envs s2 e) AND 0x3ff)\<rparr>) }"

definition sched_halt :: "kstate \<Rightarrow> 'a kres" where
  "sched_halt s =
     (if List.find (\<lambda>i. env_status (envs s i) = ENV_RUNNABLE \<or> env_status (envs s i) = ENV_RUNNING \<or>
                        env_status (envs s i) = ENV_DYING) [0..<NENV] = None
      then Monitor s
      else Halt (s\<lparr>curenv := None, satp := kern_pgdir s, asid := 0, cpu_status := CPU_HALTED, sstatus := sstatus s OR 0x2, sie := 0x20\<rparr>))"

definition find_runnable :: "kstate \<Rightarrow> nat \<Rightarrow> nat \<Rightarrow> nat option" where
  "find_runnable s a b = List.find (\<lambda>i. env_status (envs s i) = ENV_RUNNABLE) [a..<b]"

definition sched_yield :: "kstate \<Rightarrow> 'a kres option" where
  "sched_yield s =
     (case curenv s of
        None \<Rightarrow> (case find_runnable s 0 NENV of
                   None \<Rightarrow> Some (sched_halt s)
                 | Some i \<Rightarrow> env_run i s)
      | Some curid \<Rightarrow>
          (case find_runnable s curid NENV of
             Some i \<Rightarrow> env_run i s
           | None \<Rightarrow>
               (case find_runnable s 0 curid of
                  Some i \<Rightarrow> env_run i s
                | None \<Rightarrow> if env_status (envs s curid) = ENV_RUNNING then env_run curid s
                          else Some (sched_halt s))))"

definition env_destroy :: "nat \<Rightarrow> kstate \<Rightarrow> unit kres option" where
  "env_destroy e s =
     (if env_status (envs s e) = ENV_RUNNING \<and> curenv s \<noteq> Some e
      then Some (Ret () (upd_env e (\<lambda>v. v\<lparr>env_status := ENV_DYING\<rparr>) s))
      else do {
        s1 \<leftarrow> env_free e s;
        if curenv s1 = Some e then sched_yield (s1\<lparr>curenv := None\<rparr>) else Some (Ret () s1) })"

definition user_mem_assert :: "nat \<Rightarrow> vaddr \<Rightarrow> u64 \<Rightarrow> u32 \<Rightarrow> kstate \<Rightarrow> unit kres option" where
  "user_mem_assert env va len perm s = do {
     (r, s1) \<leftarrow> user_mem_check va len (perm OR 0x10) s;
     if r < 0 then env_destroy env s1 else Some (Ret () s1) }"

section \<open>Selection\<close>

lemma upd_env_curenv [simp]: "(upd_env i f s)\<lparr>curenv := c\<rparr> = upd_env i f (s\<lparr>curenv := c\<rparr>)"
  by (simp add: upd_env_def)

definition alive :: "kstate \<Rightarrow> nat \<Rightarrow> bool" where
  "alive s i \<longleftrightarrow> i < NENV \<and> (env_status (envs s i) = ENV_RUNNABLE \<or> env_status (envs s i) = ENV_RUNNING)"

text \<open>The CPU runs the environment \<open>c\<close>, no other one is running, and every environment that
  can run has an address space.\<close>

definition sched_ok :: "kstate \<Rightarrow> nat \<Rightarrow> bool" where
  "sched_ok s c \<longleftrightarrow>
     curenv s = Some c \<and> c < NENV \<and> env_status (envs s c) = ENV_RUNNING \<and>
     (\<forall>i < NENV. i \<noteq> c \<longrightarrow> env_status (envs s i) \<noteq> ENV_RUNNING) \<and>
     (\<forall>i. alive s i \<longrightarrow> env_pgdir (envs s i) \<noteq> None)"

text \<open>What a switch from \<open>c\<close> to \<open>e\<close> does to the state.\<close>

definition switched :: "kstate \<Rightarrow> nat \<Rightarrow> nat \<Rightarrow> kstate \<Rightarrow> bool" where
  "switched s c e s' \<longleftrightarrow>
     curenv s' = Some e \<and> satp s' = the (env_pgdir (envs s e)) \<and>
     env_status (envs s' e) = ENV_RUNNING \<and> env_runs (envs s' e) = env_runs (envs s e) + 1 \<and>
     env_tf (envs s' e) = env_tf (envs s e) \<and>
     (e \<noteq> c \<longrightarrow> envs s' c = (envs s c)\<lparr>env_status := ENV_RUNNABLE\<rparr>) \<and>
     (\<forall>i. i \<noteq> c \<and> i \<noteq> e \<longrightarrow> envs s' i = envs s i) \<and>
     (\<forall>i. env_pgdir (envs s' i) = env_pgdir (envs s i)) \<and> pmem s' = pmem s \<and> pages s' = pages s"

lemma env_run_switch:
  assumes "sched_ok s c" "alive s e"
  shows "\<exists>s'. env_run e s = Some (Run e s') \<and> switched s c e s' \<and> sched_ok s' e \<and>
     (\<forall>i. alive s' i = alive s i)"
proof -
  have c: "curenv s = Some c" "env_status (envs s c) = ENV_RUNNING" "c < NENV"
    "\<forall>i < NENV. i \<noteq> c \<longrightarrow> env_status (envs s i) \<noteq> ENV_RUNNING"
    "\<forall>i. alive s i \<longrightarrow> env_pgdir (envs s i) \<noteq> None" using assms(1) by (auto simp: sched_ok_def)
  obtain pd where pd: "env_pgdir (envs s e) = Some pd" using c(5) assms(2) by blast
  define s' where "s' = (case env_run e s of Some (Run _ t) \<Rightarrow> t | _ \<Rightarrow> s)"
  have r: "env_run e s = Some (Run e s')"
    using c pd by (cases "e = c") (simp_all add: s'_def env_run_def env_pop_tf_def Let_def)
  have envs': "envs s' = (\<lambda>i. if i = e then (envs s e)\<lparr>env_status := ENV_RUNNING, env_runs := env_runs (envs s e) + 1,
        env_cpunum := cpunum s\<rparr> else if i = c then (envs s c)\<lparr>env_status := ENV_RUNNABLE\<rparr> else envs s i)"
    and o: "curenv s' = Some e" "satp s' = pd" "pmem s' = pmem s" "pages s' = pages s"
    using c pd by (cases "e = c"; simp add: s'_def env_run_def env_pop_tf_def Let_def fun_eq_iff)+
  have sw: "switched s c e s'" using pd by (auto simp: switched_def envs' o)
  have al: "alive s' i = alive s i" for i
    using assms(2) c by (auto simp: alive_def envs')
  moreover have "sched_ok s' e"
    using c assms(2) al by (auto simp: sched_ok_def envs' o alive_def)
  ultimately show ?thesis using r sw by blast
qed

lemma order_nth: "c < 1024 \<Longrightarrow> k < 1024 \<Longrightarrow> ([c..<1024] @ [0..<c]) ! k = (c + k) mod 1024"
  by (auto simp: nth_append mod_if)

lemma find_append: "List.find P (xs @ ys) = (case List.find P xs of None \<Rightarrow> List.find P ys | Some x \<Rightarrow> Some x)"
  by (induction xs) auto

text \<open>The choice of the scheduler in a running system: the first runnable environment in
  circular order from the current one, or the current one again.\<close>

lemma sched_yield_choice:
  assumes ok: "sched_ok s c"
  shows "sched_yield s =
     (case List.find (\<lambda>i. env_status (envs s i) = ENV_RUNNABLE) ([c..<NENV] @ [0..<c]) of
        Some i \<Rightarrow> env_run i s | None \<Rightarrow> env_run c s)"
  using ok unfolding find_append
  by (simp add: sched_yield_def sched_ok_def find_runnable_def split: option.splits)

section \<open>Round robin\<close>

text \<open>Distance from \<open>c\<close> to \<open>j\<close> going up through the table circularly.\<close>

definition dist :: "nat \<Rightarrow> nat \<Rightarrow> nat" where
  "dist c j = (j + NENV - c) mod NENV"

lemma dist_eq: "c < 1024 \<Longrightarrow> j < 1024 \<Longrightarrow> dist c j = (if c \<le> j then j - c else j + 1024 - c)"
  by (auto simp: dist_def mod_if)

lemma ring_add: "c < 1024 \<Longrightarrow> k < 1024 \<Longrightarrow> (c + k) mod 1024 = (if c + k < 1024 then c + k else c + k - 1024)"
  for c k :: nat
  by (auto simp: mod_if)

lemma dist_facts:
  assumes "c < 1024" "j < 1024"
  shows "dist c j < 1024" "(c + dist c j) mod 1024 = j" "dist c j = 0 \<longleftrightarrow> j = c"
    "k < 1024 \<Longrightarrow> (c + k) mod 1024 = j \<longleftrightarrow> k = dist c j"
proof -
  show lt: "dist c j < 1024" by (simp add: dist_def)
  show "(c + dist c j) mod 1024 = j" "dist c j = 0 \<longleftrightarrow> j = c"
    using assms lt by (auto simp: ring_add dist_eq)
  show "k < 1024 \<Longrightarrow> (c + k) mod 1024 = j \<longleftrightarrow> k = dist c j"
    using assms by (auto simp: ring_add dist_eq)
qed

lemma dist_step:
  assumes "c < 1024" "j < 1024" "k \<le> dist c j"
  shows "dist ((c + k) mod 1024) j = dist c j - k"
proof -
  have k: "k < 1024" using assms dist_facts(1) [of c j] by simp
  have d: "k \<le> (if c \<le> j then j - c else j + 1024 - c)" using assms(3) dist_eq [OF assms(1,2)] by simp
  obtain m where m: "m = (c + k) mod 1024" "m < 1024" by simp
  then have "m = (if c + k < 1024 then c + k else c + k - 1024)" using ring_add [OF assms(1) k] by simp
  then show ?thesis
    using assms(1,2) k d dist_eq [OF m(2) assms(2)] dist_eq [OF assms(1,2)] m
    by (auto split: if_splits)
qed

text \<open>One call of the scheduler: it switches to the closest other environment that can run.\<close>

lemma sched_yield_step:
  assumes ok: "sched_ok s c" and j: "alive s j" "j \<noteq> c"
  shows "\<exists>e s'. (sched_yield s :: 'a kres option) = Some (Run e s') \<and> switched s c e s' \<and> sched_ok s' e \<and>
     (\<forall>i. alive s' i = alive s i) \<and> alive s e \<and> 0 < dist c e \<and> dist c e \<le> dist c j \<and>
     (\<forall>i. alive s i \<and> i \<noteq> c \<longrightarrow> dist c e \<le> dist c i)"
proof -
  let ?P = "\<lambda>i. env_status (envs s i) = ENV_RUNNABLE" and ?l = "[c..<1024] @ [0..<c]"
  have c: "c < 1024" "env_status (envs s c) = ENV_RUNNING"
    "\<forall>i < 1024. i \<noteq> c \<longrightarrow> env_status (envs s i) \<noteq> ENV_RUNNING" using ok by (auto simp: sched_ok_def)
  have al: "alive s i \<and> i \<noteq> c \<longleftrightarrow> i < 1024 \<and> ?P i" for i using c by (auto simp: alive_def)
  have len: "length ?l = 1024" using c by simp
  have "List.find ?P ?l \<noteq> None"
    using j al [of j] by (auto simp: find_None_iff)
  then obtain e where e: "List.find ?P ?l = Some e" by blast
  then obtain k where k: "k < 1024" "?P (?l ! k)" "e = ?l ! k" "\<forall>i < k. \<not> ?P (?l ! i)"
    unfolding find_Some_iff len by blast
  have ek: "e = (c + k) mod 1024" using k(1,3) order_nth [OF c(1)] by simp
  have e1: "e < 1024" "?P e" using ek k by auto
  then have ae: "alive s e" "e \<noteq> c" using al [of e] by auto
  have de: "dist c e = k" using dist_facts(4) [OF c(1) e1(1) k(1)] ek by simp
  have min: "dist c e \<le> dist c i" if "alive s i" "i \<noteq> c" for i
  proof (rule ccontr)
    assume "\<not> dist c e \<le> dist c i"
    then have "dist c i < k" using de by simp
    moreover have i: "i < 1024" "?P i" using that al [of i] by auto
    ultimately show False
      using k(4) order_nth [OF c(1) dist_facts(1) [OF c(1) i(1)]] dist_facts(2) [OF c(1) i(1)] by auto
  qed
  have pos: "0 < dist c e" using dist_facts(3) [OF c(1) e1(1)] ae by simp
  obtain s' where s': "(env_run e s :: 'a kres option) = Some (Run e s')" "switched s c e s'" "sched_ok s' e"
    "\<forall>i. alive s' i = alive s i" using env_run_switch [OF ok ae(1)] by blast
  have y: "(sched_yield s :: 'a kres option) = Some (Run e s')"
    by (simp only: sched_yield_choice [OF ok] e option.case s'(1))
  show ?thesis
    by (rule exI [of _ e], rule exI [of _ s'], intro conjI) (use y s' ae(1) pos min j in \<open>simp_all only:, simp_all\<close>)
qed

text \<open>The scheduler is round robin: while an environment \<open>c\<close> runs and others can run, a call of
  \<open>sched_yield\<close> enters user mode in the next runnable environment after \<open>c\<close> in the table,
  going around at its end; that environment becomes the only running one, with its own address space
  and its saved registers, \<open>c\<close> becomes runnable, and no other environment changes.\<close>

theorem sched_yield_round_robin:
  assumes ok: "sched_ok s c" and j: "alive s j" "j \<noteq> c"
  shows "\<exists>e s'. (sched_yield s :: 'a kres option) = Some (Run e s') \<and> switched s c e s' \<and> sched_ok s' e \<and> alive s e \<and> e \<noteq> c \<and>
     (\<forall>i. alive s i \<and> i \<noteq> c \<longrightarrow> dist c e \<le> dist c i)"
proof -
  obtain e s' where e: "(sched_yield s :: 'a kres option) = Some (Run e s')" "switched s c e s'" "sched_ok s' e" "alive s e"
    "0 < dist c e" "\<forall>i. alive s i \<and> i \<noteq> c \<longrightarrow> dist c e \<le> dist c i"
    using sched_yield_step [OF assms] by blast
  moreover have "c < 1024" using ok by (simp add: sched_ok_def)
  then have "e \<noteq> c" using e(5) dist_facts(3) [of c c] by auto
  ultimately show ?thesis by blast
qed

definition demo_sched :: kstate where
  "demo_sched = bss_kstate\<lparr>curenv := Some 1000, envs := (\<lambda>i.
     zero_env\<lparr>env_status := (if i = 1000 then ENV_RUNNING else if i = 3 then ENV_RUNNABLE else ENV_FREE),
              env_pgdir := Some 0x80300000\<rparr>)\<rparr>"

lemma demo_sched_ok: "sched_ok demo_sched 1000" "alive demo_sched 3"
  by (auto simp: sched_ok_def alive_def demo_sched_def)

theorem sched_yield_round_robin_witness:
  "\<exists>e s'. sched_yield demo_sched = Some (Run e s') \<and> sched_ok s' e \<and> e \<noteq> 1000"
  using sched_yield_round_robin [OF demo_sched_ok] by fastforce

text \<open>A run of the scheduler.\<close>

primrec yields :: "nat \<Rightarrow> kstate \<Rightarrow> kstate option" where
  "yields 0 s = Some s"
| "yields (Suc n) s = (case (sched_yield s :: unit kres option) of Some (Run e s') \<Rightarrow> yields n s' | _ \<Rightarrow> None)"

lemma yields_reach:
  "sched_ok s c \<Longrightarrow> alive s j \<Longrightarrow> j < 1024 \<Longrightarrow> dist c j = d \<Longrightarrow>
   \<exists>k s'. k \<le> d \<and> yields k s = Some s' \<and> sched_ok s' j"
proof (induction d arbitrary: s c rule: less_induct)
  case (less d)
  have c: "c < 1024" using less.prems(1) by (simp add: sched_ok_def)
  show ?case
  proof (cases "j = c")
    case True
    then show ?thesis using less.prems(1) by (intro exI [of _ 0]) simp
  next
    case False
    obtain e s1 where e: "(sched_yield s :: unit kres option) = Some (Run e s1)" "sched_ok s1 e" "\<forall>i. alive s1 i = alive s i"
      "alive s e" "0 < dist c e" "dist c e \<le> dist c j"
      using sched_yield_step [OF less.prems(1,2) False] by blast
    have e1: "e < 1024" using e(4) by (simp add: alive_def)
    have "e = (c + dist c e) mod 1024" using dist_facts(2) [OF c e1] by simp
    then have d: "dist e j = d - dist c e" using dist_step [OF c less.prems(3) e(6)] less.prems(4) by simp
    then have "dist e j < d" using e(5,6) less.prems(4) by simp
    from less.IH [OF this e(2) _ less.prems(3) refl] e(3) less.prems(2) obtain k s' where
      k: "k \<le> dist e j" "yields k s1 = Some s'" "sched_ok s' j" by auto
    have "yields (Suc k) s = Some s'" using e(1) k(2) by simp
    moreover have "Suc k \<le> d" using k(1) d e(5,6) less.prems(4) by simp
    ultimately show ?thesis using k(3) by blast
  qed
qed

text \<open>C18. The scheduler is fair: if the processor does nothing but switch environments, every
  environment that can run is running after at most 1023 calls of \<open>sched_yield\<close>, and every one of
  these calls succeeds.\<close>

theorem sched_yield_fair:
  assumes "sched_ok s c" "alive s j"
  shows "\<exists>k s'. k \<le> 1023 \<and> yields k s = Some s' \<and> sched_ok s' j"
proof -
  have j: "j < 1024" "c < 1024" using assms by (auto simp: alive_def sched_ok_def)
  then have "dist c j \<le> 1023" using dist_facts(1) [of c j] by simp
  with yields_reach [OF assms j(1) refl] show ?thesis by (meson le_trans)
qed

theorem sched_yield_fair_witness: "\<exists>k s'. k \<le> 1023 \<and> yields k demo_sched = Some s' \<and> sched_ok s' 3"
  by (rule sched_yield_fair [OF demo_sched_ok])

text \<open>With nothing to run, the scheduler halts the processor with the kernel's page table and no
  current environment while an environment is still running elsewhere or dying, and otherwise goes
  to the monitor.\<close>

theorem sched_yield_idle:
  assumes none: "\<forall>i < NENV. env_status (envs s i) \<noteq> ENV_RUNNABLE"
    and cur: "case curenv s of None \<Rightarrow> True | Some c \<Rightarrow> c \<le> NENV \<and> env_status (envs s c) \<noteq> ENV_RUNNING"
  shows "sched_yield s =
     Some (if \<exists>i < NENV. env_status (envs s i) = ENV_RUNNING \<or> env_status (envs s i) = ENV_DYING
           then Halt (s\<lparr>curenv := None, satp := kern_pgdir s, asid := 0, cpu_status := CPU_HALTED, sstatus := sstatus s OR 0x2, sie := 0x20\<rparr>)
           else Monitor s)"
proof -
  have f: "find_runnable s a b = None" if "b \<le> NENV" for a b
    using none that by (auto simp: find_runnable_def find_None_iff)
  have "sched_yield s = Some (sched_halt s)"
    using cur f by (auto simp: sched_yield_def split: option.splits)
  then show ?thesis using none by (auto simp: sched_halt_def find_None_iff)
qed

theorem sched_yield_idle_witness: "sched_yield bss_kstate = Some (Monitor bss_kstate :: unit kres)"
  using sched_yield_idle [of bss_kstate] by (simp add: bss_kstate_def zero_env_def)

end
