(* ===== verification/Syscall.thy ===== *)
theory Syscall
  imports Sched
begin

unbundle bit_operations_syntax

text \<open>
  The system calls, \<^verbatim>\<open>kern/riscv/syscall.c\<close>. A call that always comes back to the dispatcher has
  type \<open>(int \<times> kstate) option\<close>; one that may give up the processor has type \<open>int kres option\<close>.
  The integers are the C \<^verbatim>\<open>int\<close> return values. Arguments have the widths of the C parameters; the
  dispatcher \<open>syscall\<close> converts them from the 64-bit registers as the C code does. Debug messages
  are not modelled; the text printed by \<open>sys_cputs\<close> is.

  \<open>tx_pa\<close> is the physical address of each transmit buffer of the network card, fixed when the
  kernel is linked.
\<close>

section \<open>Results of calls that may not return\<close>

definition kbind :: "'a kres option \<Rightarrow> ('a \<Rightarrow> kstate \<Rightarrow> 'b kres option) \<Rightarrow> 'b kres option" where
  "kbind m f = (case m of
      None \<Rightarrow> None
    | Some (Ret x s) \<Rightarrow> f x s
    | Some (Run e s) \<Rightarrow> Some (Run e s)
    | Some (Halt s) \<Rightarrow> Some (Halt s)
    | Some (Monitor s) \<Rightarrow> Some (Monitor s))"

definition returns :: "('a \<times> kstate) option \<Rightarrow> 'a kres option" where
  "returns m = map_option (\<lambda>(x, s). Ret x s) m"

lemma kbind_simps [simp]:
  "kbind None f = None" "kbind (Some (Ret x s)) f = f x s" "kbind (Some (Run e s)) f = Some (Run e s)"
  "kbind (Some (Halt s)) f = Some (Halt s)" "kbind (Some (Monitor s)) f = Some (Monitor s)"
  by (simp_all add: kbind_def)

lemma returns_simps [simp]: "returns (Some (x, s)) = Some (Ret x s)" "returns None = None"
  by (simp_all add: returns_def)

section \<open>Console\<close>

text \<open>The string conversion of \<open>cprintf\<close> with a precision: a character is read before the
  precision is looked at, and a negative precision is no limit.\<close>

partial_function (option) print_user :: "vaddr \<Rightarrow> int \<Rightarrow> kstate \<Rightarrow> kstate option" where
  "print_user p precision s = do {
     ch \<leftarrow> load_byte p s;
     if ch = 0 then Some s
     else if precision < 0 then print_user (p + 1) precision (s\<lparr>cons := cons_putc (uint ch) (cons s)\<rparr>)
     else if precision - 1 \<ge> 0
     then print_user (p + 1) (precision - 1) (s\<lparr>cons := cons_putc (uint ch) (cons s)\<rparr>)
     else Some s }"

definition put_string :: "int list \<Rightarrow> kstate \<Rightarrow> kstate" where
  "put_string cs s = s\<lparr>cons := fold cons_putc cs (cons s)\<rparr>"

definition sys_cputs :: "vaddr \<Rightarrow> u64 \<Rightarrow> kstate \<Rightarrow> unit kres option" where
  "sys_cputs str len s = do {
     cur \<leftarrow> curenv s;
     kbind (user_mem_assert cur str len 0x10 s) (\<lambda>_ s1.
       let precision = sint (ucast len :: u32) in
       if str = 0
       then Some (Ret () (put_string (take (if precision < 0 then 6 else nat precision)
              [0x28, 0x6e, 0x75, 0x6c, 0x6c, 0x29]) s1))
       else do { s2 \<leftarrow> print_user str precision s1; Some (Ret () s2) }) }"

definition sys_cgetc :: "kstate \<Rightarrow> (int \<times> kstate) option" where
  "sys_cgetc s = (let (c, con) = cons_getc (cons s) in Some (uint c, s\<lparr>cons := con\<rparr>))"

section \<open>Environments\<close>

definition sys_getenvid :: "kstate \<Rightarrow> (int \<times> kstate) option" where
  "sys_getenvid s = do { cur \<leftarrow> curenv s; Some (sint (env_id (envs s cur)), s) }"

definition sys_env_destroy :: "u32 \<Rightarrow> kstate \<Rightarrow> int kres option" where
  "sys_env_destroy envid s = do {
     (r, env) \<leftarrow> envid2env envid True s;
     if r < 0 then Some (Ret r s)
     else do { e \<leftarrow> env; kbind (env_destroy e s) (\<lambda>_ s1. Some (Ret 0 s1)) } }"

definition sys_yield :: "kstate \<Rightarrow> int kres option" where
  "sys_yield s = sched_yield s"

definition sys_exofork :: "kstate \<Rightarrow> (int \<times> kstate) option" where
  "sys_exofork s = do {
     cur \<leftarrow> curenv s;
     ((ret, env), s1) \<leftarrow> env_alloc (env_parent_id (envs s cur)) s;
     assert_that (\<not> ret < 0);
     e \<leftarrow> env;
     let s2 = upd_env e (\<lambda>v. v\<lparr>env_status := ENV_NOT_RUNNABLE\<rparr>) s1;
     let s3 = upd_env e (\<lambda>v. v\<lparr>env_parent_id := env_id (envs s2 cur), env_ipc_recving := False\<rparr>) s2;
     let tf = env_tf (envs s3 cur);
     let s4 = upd_env e (\<lambda>v. v\<lparr>env_tf := tf\<lparr>tf_a0 := 0, tf_sepc := tf_sepc tf + 4,
                                            tf_tp := env_addr s3 e\<rparr>\<rparr>) s3;
     let s5 = upd_env e (\<lambda>v. v\<lparr>env_pgfault_upcall := env_pgfault_upcall (envs s4 cur)\<rparr>) s4;
     Some (sint (env_id (envs s5 e)), s5) }"

text \<open>The numbers of the enumeration in \<^verbatim>\<open>inc/riscv/env.h\<close>.\<close>

definition env_status_of :: "int \<Rightarrow> EnvStatus" where
  "env_status_of n = (if n = 0 then ENV_FREE else if n = 1 then ENV_DYING else if n = 2 then ENV_RUNNABLE
     else if n = 3 then ENV_RUNNING else ENV_NOT_RUNNABLE)"

definition sys_env_set_status :: "u32 \<Rightarrow> int \<Rightarrow> kstate \<Rightarrow> (int \<times> kstate) option" where
  "sys_env_set_status envid status s =
     (if status < 0 \<or> status > 4 then Some (- E_INVAL, s)
      else do {
        (ret, env) \<leftarrow> envid2env envid True s;
        if ret < 0 then Some (- E_BAD_ENV, s)
        else do {
          e \<leftarrow> env;
          if env_status (envs s e) = ENV_RUNNABLE \<or> env_status (envs s e) = ENV_NOT_RUNNABLE
          then Some (0, upd_env e (\<lambda>v. v\<lparr>env_status := env_status_of status\<rparr>) s)
          else Some (- E_INVAL, s) } })"

definition sys_env_set_pgfault_upcall :: "u32 \<Rightarrow> vaddr \<Rightarrow> kstate \<Rightarrow> (int \<times> kstate) option" where
  "sys_env_set_pgfault_upcall envid func s = do {
     (ret, env) \<leftarrow> envid2env envid True s;
     if ret < 0 then Some (- E_BAD_ENV, s)
     else if func = 0 then Some (- E_INVAL, s)
     else do { e \<leftarrow> env; Some (0, upd_env e (\<lambda>v. v\<lparr>env_pgfault_upcall := func\<rparr>) s) } }"

text \<open>A trap frame in user memory: 36 registers, least significant byte first.\<close>

definition load_u64 :: "vaddr \<Rightarrow> kstate \<Rightarrow> u64 option" where
  "load_u64 va s = do {
     bs \<leftarrow> load_bytes va 8 s;
     Some (foldr (\<lambda>b w. push_bit 8 w OR ucast b) bs 0) }"

primrec load_words :: "vaddr \<Rightarrow> nat \<Rightarrow> kstate \<Rightarrow> u64 list option" where
  "load_words va 0 s = Some []"
| "load_words va (Suc n) s = do { w \<leftarrow> load_u64 va s; ws \<leftarrow> load_words (va + 8) n s; Some (w # ws) }"

definition tf_of_words :: "u64 list \<Rightarrow> Trapframe" where
  "tf_of_words w = \<lparr>tf_sepc = w ! 0, tf_ra = w ! 1, tf_sp = w ! 2, tf_gp = w ! 3, tf_tp = w ! 4,
     tf_t0 = w ! 5, tf_t1 = w ! 6, tf_t2 = w ! 7, tf_s0 = w ! 8, tf_s1 = w ! 9, tf_a0 = w ! 10,
     tf_a1 = w ! 11, tf_a2 = w ! 12, tf_a3 = w ! 13, tf_a4 = w ! 14, tf_a5 = w ! 15, tf_a6 = w ! 16,
     tf_a7 = w ! 17, tf_s2 = w ! 18, tf_s3 = w ! 19, tf_s4 = w ! 20, tf_s5 = w ! 21, tf_s6 = w ! 22,
     tf_s7 = w ! 23, tf_s8 = w ! 24, tf_s9 = w ! 25, tf_s10 = w ! 26, tf_s11 = w ! 27, tf_t3 = w ! 28,
     tf_t4 = w ! 29, tf_t5 = w ! 30, tf_t6 = w ! 31, tf_status = w ! 32, tf_stval = w ! 33,
     tf_scause = w ! 34, tf_orig_a0 = w ! 35\<rparr>"

definition sys_env_set_trapframe :: "u32 \<Rightarrow> vaddr \<Rightarrow> kstate \<Rightarrow> (int \<times> kstate) option" where
  "sys_env_set_trapframe envid tf s = do {
     (ret, env) \<leftarrow> envid2env envid True s;
     if ret < 0 then Some (- E_BAD_ENV, s)
     else do {
       e \<leftarrow> env;
       w \<leftarrow> load_words tf 36 s;
       Some (0, upd_env e (\<lambda>v. v\<lparr>env_tf := tf_of_words w\<rparr>) s) } }"

section \<open>Memory\<close>

definition sys_page_alloc :: "u32 \<Rightarrow> vaddr \<Rightarrow> u32 \<Rightarrow> kstate \<Rightarrow> (int \<times> kstate) option" where
  "sys_page_alloc envid va perm s = do {
     (ret, env) \<leftarrow> envid2env envid True s;
     if ret < 0 then Some (- E_BAD_ENV, s)
     else if va \<ge> UTOP \<or> va mod PGSIZE \<noteq> 0 then Some (- E_INVAL, s)
     else if perm AND NOT (ucast PTE_SYSCALL) \<noteq> 0 then Some (- E_INVAL, s)
     else do {
       (pg, s1) \<leftarrow> page_alloc 1 s;
       pginfo \<leftarrow> pg;
       e \<leftarrow> env;
       pgdir \<leftarrow> env_pgdir (envs s1 e);
       (ret, s2) \<leftarrow> page_insert pgdir pginfo va perm s1;
       if ret < 0 then do { s3 \<leftarrow> page_free pginfo s2; Some (ret, s3) }
       else Some (0, s2) } }"

definition sys_page_map :: "u32 \<Rightarrow> vaddr \<Rightarrow> u32 \<Rightarrow> vaddr \<Rightarrow> u32 \<Rightarrow> kstate \<Rightarrow> (int \<times> kstate) option" where
  "sys_page_map srcenvid srcva dstenvid dstva perm s = do {
     (ret, envsrc) \<leftarrow> envid2env srcenvid True s;
     if ret < 0 then Some (- E_BAD_ENV, s)
     else do {
       (ret, envdst) \<leftarrow> envid2env dstenvid True s;
       if ret < 0 then Some (- E_BAD_ENV, s)
       else if srcva \<ge> UTOP \<or> srcva mod PGSIZE \<noteq> 0 then Some (- E_INVAL, s)
       else if dstva \<ge> UTOP \<or> dstva mod PGSIZE \<noteq> 0 then Some (- E_INVAL, s)
       else do {
         src \<leftarrow> envsrc;
         srcdir \<leftarrow> env_pgdir (envs s src);
         r \<leftarrow> page_lookup srcdir srcva s;
         (case r of
            None \<Rightarrow> Some (- E_INVAL, s)
          | Some (pginfo, pte) \<Rightarrow>
              if perm AND 0x4 \<noteq> 0 \<and> rd_pte s pte AND PTE_W = 0 then Some (- E_INVAL, s)
              else do {
                dst \<leftarrow> envdst;
                dstdir \<leftarrow> env_pgdir (envs s dst);
                (ret, s1) \<leftarrow> page_insert dstdir pginfo dstva perm s;
                if ret < 0 then Some (ret, s1) else Some (0, s1) }) } } }"

definition sys_page_unmap :: "u32 \<Rightarrow> vaddr \<Rightarrow> kstate \<Rightarrow> (int \<times> kstate) option" where
  "sys_page_unmap envid va s = do {
     (ret, env) \<leftarrow> envid2env envid True s;
     if ret < 0 then Some (- E_BAD_ENV, s)
     else if va \<ge> UTOP \<or> va mod PGSIZE \<noteq> 0 then Some (- E_INVAL, s)
     else do {
       e \<leftarrow> env;
       pgdir \<leftarrow> env_pgdir (envs s e);
       s1 \<leftarrow> page_remove pgdir va s;
       Some (0, s1) } }"

definition sys_page_clear_dirty :: "u32 \<Rightarrow> vaddr \<Rightarrow> u32 \<Rightarrow> vaddr \<Rightarrow> kstate \<Rightarrow> (int \<times> kstate) option" where
  "sys_page_clear_dirty srcenv srcva dstenv dstva s = do {
     assert_that (srcenv = dstenv);
     assert_that (srcva = dstva);
     cur \<leftarrow> curenv s;
     pgdir \<leftarrow> env_pgdir (envs s cur);
     (p, s1) \<leftarrow> pgdir_walk pgdir srcva False s;
     pte \<leftarrow> p;
     (r, s2) \<leftarrow> sys_page_map srcenv srcva dstenv dstva (ucast (rd_pte s1 pte AND PTE_SYSCALL)) s1;
     if r < 0 then Some (r, s2) else Some (0, s2) }"

definition sys_uvpt_pte :: "vaddr \<Rightarrow> kstate \<Rightarrow> (int \<times> kstate) option" where
  "sys_uvpt_pte srcva s = do {
     cur \<leftarrow> curenv s;
     pgdir \<leftarrow> env_pgdir (envs s cur);
     (p, s1) \<leftarrow> pgdir_walk pgdir srcva False s;
     Some (case p of None \<Rightarrow> 0 | Some pte \<Rightarrow> sint (ucast (rd_pte s1 pte) :: u32), s1) }"

text \<open>The loop of \<open>sys_copy_shared_pages\<close> over the pages of the file descriptor area.\<close>

primrec copy_shared :: "u32 \<Rightarrow> nat list \<Rightarrow> kstate \<Rightarrow> (int \<times> kstate) option" where
  "copy_shared child [] s = Some (0, s)"
| "copy_shared child (i # is) s = do {
     let va = 0xD0000000 + of_nat i * PGSIZE;
     cur \<leftarrow> curenv s;
     pgdir \<leftarrow> env_pgdir (envs s cur);
     (p, s1) \<leftarrow> pgdir_walk pgdir va False s;
     (case p of
        None \<Rightarrow> copy_shared child is s1
      | Some pte \<Rightarrow>
          (let perm = (ucast (rd_pte s1 pte AND PTE_SYSCALL) :: u32) in
           if perm AND 0x200 \<noteq> 0 then do {
             (r, s2) \<leftarrow> sys_page_map 0 va child va (0x200 OR perm OR 0x10) s1;
             if r < 0 then Some (r, s2) else copy_shared child is s2 }
           else copy_shared child is s1)) }"

definition sys_copy_shared_pages :: "u32 \<Rightarrow> kstate \<Rightarrow> (int \<times> kstate) option" where
  "sys_copy_shared_pages child s = copy_shared child [0..<64] s"

section \<open>Messages between environments\<close>

definition sys_ipc_try_send :: "u32 \<Rightarrow> u64 \<Rightarrow> vaddr \<Rightarrow> u32 \<Rightarrow> kstate \<Rightarrow> (int \<times> kstate) option" where
  "sys_ipc_try_send envid val srcva perm s = do {
     (ret, env) \<leftarrow> envid2env envid False s;
     if ret < 0 then Some (- E_BAD_ENV, s)
     else do {
       e \<leftarrow> env;
       if \<not> env_ipc_recving (envs s e) then Some (- E_IPC_NOT_RECV, s)
       else do {
         cur \<leftarrow> curenv s;
         (err, p_flag, s1) \<leftarrow>
           (if srcva < UTOP then
              if srcva mod PGSIZE \<noteq> 0 then Some (- E_INVAL, False, s)
              else if perm AND NOT (ucast PTE_SYSCALL) \<noteq> 0 then Some (- E_INVAL, False, s)
              else do {
                srcdir \<leftarrow> env_pgdir (envs s cur);
                q \<leftarrow> page_lookup srcdir srcva s;
                (case q of
                   None \<Rightarrow> Some (- E_INVAL, False, s)
                 | Some (pginfo, pte) \<Rightarrow>
                     if perm AND 0x4 \<noteq> 0 \<and> rd_pte s pte AND PTE_W = 0 then Some (- E_INVAL, False, s)
                     else do {
                       dstdir \<leftarrow> env_pgdir (envs s e);
                       (r, t) \<leftarrow> page_insert dstdir pginfo (env_ipc_dstva (envs s e)) perm s;
                       if r < 0 then Some (- E_NO_MEM, False, t) else Some (0, True, t) }) }
            else Some (0, False, s));
         if err < 0 then Some (err, s1)
         else
           Some (0, upd_env e (\<lambda>v. v\<lparr>env_ipc_from := env_id (envs s1 cur), env_ipc_value := val,
                      env_ipc_perm := (if p_flag then perm else 0),
                      env_tf := (env_tf v)\<lparr>tf_a0 := 0, tf_sepc := tf_sepc (env_tf v) + 4\<rparr>,
                      env_status := ENV_RUNNABLE, env_ipc_recving := False\<rparr>) s1) } } }"

definition sys_ipc_recv :: "vaddr \<Rightarrow> kstate \<Rightarrow> int kres option" where
  "sys_ipc_recv dstva s = do {
     cur \<leftarrow> curenv s;
     if env_ipc_recving (envs s cur)
     then sched_yield (upd_env cur (\<lambda>v. v\<lparr>env_status := ENV_NOT_RUNNABLE\<rparr>) s)
     else if dstva < UTOP \<and> dstva mod PGSIZE \<noteq> 0 then Some (Ret (- E_INVAL) s)
     else
       (let s1 = (if dstva < UTOP then upd_env cur (\<lambda>v. v\<lparr>env_ipc_dstva := dstva\<rparr>) s else s) in
        sched_yield (upd_env cur (\<lambda>v. v\<lparr>env_ipc_recving := True, env_status := ENV_NOT_RUNNABLE\<rparr>) s1)) }"

section \<open>Interrupts, time and network\<close>

definition sys_disable_irq :: "kstate \<Rightarrow> (int \<times> kstate) option" where
  "sys_disable_irq s = Some (0, s\<lparr>sie := sie s AND NOT 0x20\<rparr>)"

definition sys_enable_irq :: "kstate \<Rightarrow> (int \<times> kstate) option" where
  "sys_enable_irq s = Some (0, s\<lparr>sie := sie s OR 0x20\<rparr>)"

definition sys_time_msec :: "kstate \<Rightarrow> (int \<times> kstate) option" where
  "sys_time_msec s = Some (sint (time_msec (ticks s)), s)"

definition sys_pack_send :: "(nat \<Rightarrow> u32) \<Rightarrow> vaddr \<Rightarrow> u32 \<Rightarrow> kstate \<Rightarrow> int kres option" where
  "sys_pack_send tx_pa data len s = do {
     cur \<leftarrow> curenv s;
     kbind (user_mem_assert cur data (scast len) 0x10 s) (\<lambda>_ s1.
       if data \<ge> UTOP \<or> data + scast len \<ge> UTOP then Some (Ret (- E_INVAL) s1)
       else do {
         bytes \<leftarrow> load_bytes data (unat (scast len :: u64)) s1;
         (r, n) \<leftarrow> transmit_pack tx_pa bytes (e1000 s1);
         assert_that (\<not> r < 0);
         Some (Ret r (s1\<lparr>e1000 := n\<rparr>)) }) }"

definition bytes_u32 :: "u32 \<Rightarrow> u8 list" where
  "bytes_u32 w = map (\<lambda>k. ucast (drop_bit (8 * k) w)) [0..<4]"

definition sys_pack_recv :: "vaddr \<Rightarrow> vaddr \<Rightarrow> kstate \<Rightarrow> (int \<times> kstate) option" where
  "sys_pack_recv data len s =
     (if data \<ge> UTOP then Some (- E_INVAL, s)
      else
        (let ((r, bytes), n) = receive_pack (e1000 s) in
         if r = - E_NO_MEM then Some (- E_WAIT, s)
         else do {
           s1 \<leftarrow> store_bytes data bytes s;
           s2 \<leftarrow> store_bytes len (bytes_u32 (of_nat (length bytes))) s1;
           assert_that (\<not> r < 0);
           Some (r, s2\<lparr>e1000 := n\<rparr>) }))"

section \<open>The dispatcher\<close>

definition syscall :: "(nat \<Rightarrow> u32) \<Rightarrow> u64 \<Rightarrow> u64 \<Rightarrow> u64 \<Rightarrow> u64 \<Rightarrow> u64 \<Rightarrow> u64 \<Rightarrow> kstate \<Rightarrow> int kres option" where
  "syscall tx_pa syscallno a1 a2 a3 a4 a5 s =
     (if syscallno = 0 then kbind (sys_cputs a1 a2 s) (\<lambda>_ s1. Some (Ret 0 s1))
      else if syscallno = 1 then returns (sys_cgetc s)
      else if syscallno = 2 then returns (sys_getenvid s)
      else if syscallno = 3 then sys_env_destroy (ucast a1) s
      else if syscallno = 10 then kbind (sys_yield s) (\<lambda>_ s1. Some (Ret 0 s1))
      else if syscallno = 7 then returns (sys_exofork s)
      else if syscallno = 8 then returns (sys_env_set_status (ucast a1) (sint (ucast a2 :: u32)) s)
      else if syscallno = 4 then returns (sys_page_alloc (ucast a1) a2 (ucast a3) s)
      else if syscallno = 5 then returns (sys_page_map (ucast a1) a2 (ucast a3) a4 (ucast a5) s)
      else if syscallno = 6 then returns (sys_page_unmap (ucast a1) a2 s)
      else if syscallno = 9 then returns (sys_env_set_trapframe (ucast a1) a2 s)
      else if syscallno = 11 then returns (sys_env_set_pgfault_upcall (ucast a1) a2 s)
      else if syscallno = 12
      then returns (sys_ipc_try_send (ucast a1) (ucast (ucast a2 :: u32)) a3 (ucast a4) s)
      else if syscallno = 13 then kbind (sys_ipc_recv a1 s) (\<lambda>_ s1. Some (Ret 0 s1))
      else if syscallno = 14 then returns (sys_page_clear_dirty (ucast a1) a2 (ucast a3) a4 s)
      else if syscallno = 15 then returns (sys_uvpt_pte a1 s)
      else if syscallno = 16 then returns (sys_copy_shared_pages (ucast a1) s)
      else if syscallno = 17 then returns (sys_disable_irq s)
      else if syscallno = 18 then returns (sys_enable_irq s)
      else if syscallno = 19 then returns (sys_time_msec s)
      else if syscallno = 20 then sys_pack_send tx_pa a1 (ucast a2) s
      else if syscallno = 21 then returns (sys_pack_recv a1 a2 s)
      else Some (Ret (- E_INVAL) s))"

end
