(* ===== verification/Syscall_Props.thy ===== *)
theory Syscall_Props
  imports Syscall
begin

unbundle bit_operations_syntax

text \<open>
  Properties of the system calls: the memory calls implement their contracts on address spaces,
  an environment cannot operate on an environment that is neither itself nor its child, and a
  message sent to a blocked receiver arrives exactly once.
\<close>

section \<open>Allocating for an address space\<close>

lemma vm_page_alloc:
  assumes inv: "vm_inv s R S U (n # xs)"
  obtains s' where "page_alloc 1 s = Some (Some n, s')" "vm_inv s' R S U xs"
    "\<forall>r \<in> R. \<forall>q \<in> lpaths S. leaf s' r q = leaf s r q" "\<And>r p. \<not> tab_at s' R S r p (page2pa n)"
    "n < npages s'" "n \<notin> set xs" "pp_ref (pages s' n) = 0" "envs s' = envs s" "curenv s' = curenv s"
    "kregs s' = kregs s" "pmem s' = (pmem s)(page2pa n := \<lambda>_. 0)" "\<And>k. pp_ref (pages s' k) = pp_ref (pages s k)"
    "npages s' = npages s" "tab_at s' R S = tab_at s R S"
proof -
  define s' where "s' = zero_frame (page2pa n)
    (upd_page n (\<lambda>p. p\<lparr>pp_link := None\<rparr>) (s\<lparr>page_free_list := pp_link (pages s n)\<rparr>))"
  have al: "page_alloc 1 s = Some (Some n, s')" "alloc_inv s' xs"
    using page_alloc_cons [OF vm_invD(1) [OF inv], of 1] by (simp_all add: s'_def)
  have n: "n < npages s" "pp_ref (pages s n) = 0" "n \<notin> set xs"
    using alloc_invD(3,4,6) [OF vm_invD(1) [OF inv]] by auto
  have nt: "\<not> tab_at s R S r p (page2pa n)" for r p
    using not_tab_page [OF inv n(1)] by simp
  have m: "pmem s' t = pmem s t" if "tab_at s R S r p t" for r p t
    using nt that by (auto simp: s'_def)
  have np: "npages s' = npages s" by (simp add: s'_def)
  have ref: "card (mappings s R U k) \<le> unat (pp_ref (pages s' k))" for k
    using vm_invD(5) [OF inv] by (simp add: maps_ok_def s'_def)
  note fr = vm_inv_frame [OF inv al(2) _ m np ref]
  have inv': "vm_inv s' R S U xs" by (rule fr(1)) auto
  have lf: "\<forall>r \<in> R. \<forall>q \<in> lpaths S. leaf s' r q = leaf s r q" by (rule fr(2)) auto
  have tb: "\<forall>r \<in> R. \<forall>p \<in> tpaths S. tbl s' r p = tbl s r p" by (rule fr(3)) auto
  have ta: "tab_at s' R S = tab_at s R S" using tb by (auto simp: tab_at_def fun_eq_iff)
  then have nt': "\<not> tab_at s' R S r p (page2pa n)" for r p using nt by simp
  show thesis by (rule that [OF al(1) inv' lf nt' _ _ _ _ _ _ _ _ _ ta]) (use n in \<open>simp_all add: s'_def\<close>)
qed

lemma perm_ok:
  assumes "perm AND NOT (ucast PTE_SYSCALL) = (0 :: u32)"
  shows "drop_bit 10 (scast perm :: u64) = 0"
proof -
  have "\<not> bit perm k" if "10 \<le> k" for k
  proof
    assume b: "bit perm k"
    have "(ucast PTE_SYSCALL :: u32) = take_bit 10 (ucast PTE_SYSCALL)" by (simp add: PTE_SYSCALL_def)
    then have "\<not> bit (ucast PTE_SYSCALL :: u32) k"
      using that by (metis bit_take_bit_iff not_le)
    moreover have "k < 32" using bit_imp_le_length [OF b] by simp
    ultimately have "bit (perm AND NOT (ucast PTE_SYSCALL)) k" using b by (simp add: bit_and_iff bit_not_iff)
    then show False by (simp add: assms)
  qed
  then have "\<not> bit (drop_bit 10 (scast perm :: u64)) k" for k
    by (simp add: bit_drop_bit_eq bit_signed_iff)
  then show ?thesis by (simp add: bit_eq_iff)
qed


section \<open>Memory calls\<close>

lemma envid2env_ret: "envid2env envid c s = Some (r, x) \<Longrightarrow> r = 0 \<or> r = - E_BAD_ENV"
  by (auto simp: envid2env_def Let_def split: if_splits option.splits bind_splits)

text \<open>A small memory with one environment running in it.\<close>

definition demo_sys :: kstate where
  "demo_sys = bss_kstate\<lparr>npages := 12, page_free_list := Some 2,
     pages := (\<lambda>n. \<lparr>pp_link = (if 2 \<le> n \<and> n < 9 then Some (n + 1) else None),
                    pp_ref = (if n = 0 then 1 else 0)\<rparr>),
     curenv := Some 0,
     envs := (\<lambda>_. zero_env\<lparr>env_status := ENV_RUNNING, env_pgdir := Some (page2pa 0)\<rparr>)\<rparr>"

lemma demo_sys_fields:
  "pmem demo_sys = (\<lambda>_ _. 0)" "npages demo_sys = 12" "envid2env 0 True demo_sys = Some (0, Some 0)"
  "env_pgdir (envs demo_sys i) = Some (page2pa 0)" "curenv demo_sys = Some 0" "pp_ref (pages demo_sys 11) = 0"
  by (simp_all add: demo_sys_def bss_kstate_def envid2env_def)

lemma vm_inv_demo_sys: "vm_inv demo_sys {page2pa 0} {0} {0} [2, 3, 4, 5, 6, 7, 8, 9]"
proof -
  have "alloc_inv demo_sys [2, 3, 4, 5, 6, 7, 8, 9]"
    by (auto simp: alloc_inv_def demo_sys_def bss_kstate_def)
  from vm_inv_zero_mem [OF this, of "{0}" "{0}" "{0}"] show ?thesis by (simp add: demo_sys_fields)
qed

lemma insertable_demo_sys: "insertable demo_sys {page2pa 0} {0} [2, 3, 4, 5, 6, 7, 8, 9] 11 6"
proof -
  have "page2pa 11 \<noteq> page2pa 0" using page2pa_inj [of 11 0] by auto
  then show ?thesis using perm_ok [of 6]
    by (auto simp: insertable_def tab_at_def tbl_zero_mem [OF demo_sys_fields(1)] demo_sys_fields PTE_SYSCALL_def)
qed

lemma demo_addr:
  "(0x1000 :: vaddr) < UTOP" "(0x1000 :: vaddr) mod PGSIZE = 0" "PD0X 0x1000 \<in> {0}"
  "(0x2000 :: vaddr) < UTOP" "(0x2000 :: vaddr) mod PGSIZE = 0" "PD0X 0x2000 \<in> {0}"
  "page2pa 0 \<in> {page2pa 0}"
  using PD0X_demo by simp_all

text \<open>Inserting a page at an address that maps nothing counts one more reference.\<close>

lemma page_insert_unmapped:
  assumes inv: "vm_inv s R S U xs" and r: "r \<in> R" and va: "PD0X va \<in> U"
    and ins: "insertable s R S xs pp perm" and mem: "3 \<le> length xs" and z: "va_pte s r va = 0"
  obtains s' xs' where "page_insert r pp va perm s = Some (0, s')" "vm_inv s' R S U xs'"
    "sets_pte R S s r va (pte_insert pp perm) s'" "length xs \<le> length xs' + 3"
    "pp_ref (pages s' pp) = pp_ref (pages s pp) + 1"
proof -
  obtain q s1 xs1 where w: "pgdir_walk r va True s = Some (q, s1)" and inv1: "vm_inv s1 R S U xs1"
    and g: "grows R S (set xs) s xs s1 xs1" and l: "length xs \<le> length xs1 + 3"
    and q: "case q of None \<Rightarrow> length xs < 3 | Some p \<Rightarrow> slot s1 r va = Some p"
    using walk_create_spec [OF inv r vm_inv_US [OF inv va]] by blast
  from q mem obtain p where p: "q = Some p" "slot s1 r va = Some p" by (cases q) auto
  note ins1 = insertable_grows [OF ins inv g]
  have z1: "va_pte s1 r va = 0"
    using z g r ixs_paths(1) [OF vm_inv_US [OF inv va]] by (simp add: grows_def va_pte_def)
  then have rd: "rd_pte s1 p = 0" using p by (simp add: va_pte_slot)
  note new = insert_new_spec [OF inv1 r va p(2) ins1(1) z1]
  have nf: "page_free_list s1 \<noteq> Some pp"
    using not_free_head [OF inv1] ins1(1) by (simp add: insertable_def)
  show thesis
    by (rule that [OF _ new(1) sets_pte_grows [OF g new(2)] l])
      (use page_insert_walk [OF w [unfolded p(1)], of pp perm] rd nf ins1(2) in simp_all)
qed

lemma demo_sys_mapped:
  obtains s xs p where "vm_inv s {page2pa 0} {0} {0} xs" "3 \<le> length xs" "envs s = envs demo_sys"
    "curenv s = Some 0" "page_lookup (page2pa 0) 0x1000 s = Some (Some (11, p))"
    "rd_pte s p = pte_insert 11 6" "pp_ref (pages s 11) = 1"
proof -
  have z: "va_pte demo_sys (page2pa 0) 0x1000 = 0"
    by (simp add: va_pte_def leaf_def tbl_zero_mem [OF demo_sys_fields(1)] demo_sys_fields split: option.splits)
  obtain s xs where s: "vm_inv s {page2pa 0} {0} {0} xs" "8 \<le> length xs + 3"
    "sets_pte {page2pa 0} {0} demo_sys (page2pa 0) 0x1000 (pte_insert 11 6) s" "pp_ref (pages s 11) = 1"
    by (rule page_insert_unmapped [OF vm_inv_demo_sys demo_addr(7,3) insertable_demo_sys _ z])
      (simp_all add: demo_sys_fields)
  have e: "pte_frame (pte_insert 11 6) = 11" "pte_insert 11 6 \<noteq> 0"
    using pte_insert_facts [of 11 demo_sys 6] insertable_demo_sys by (simp_all add: demo_sys_fields insertable_def)
  have v: "va_pte s (page2pa 0) 0x1000 = pte_insert 11 6"
    using sets_pte_va [OF s(3) demo_addr(7,3)] by simp
  then obtain p where p: "slot s (page2pa 0) 0x1000 = Some p" "rd_pte s p = pte_insert 11 6"
    using e(2) by (auto simp: va_pte_slot split: option.splits)
  show thesis
    by (rule that [OF s(1) _ _ _ _ p(2) s(4)])
      (use s p page_lookup_spec [OF s(1) demo_addr(7,3)] v e in \<open>simp_all add: sets_pte_def demo_sys_fields\<close>)
qed

lemma sys_page_alloc_ok:
  assumes inv: "vm_inv s R S U (n # xs)" and env: "envid2env envid True s = Some (0, Some e)"
    and pgdir: "env_pgdir (envs s e) = Some r" "r \<in> R" and va: "va < UTOP" "va mod PGSIZE = 0" "PD0X va \<in> U"
    and perm: "perm AND NOT (ucast PTE_SYSCALL) = 0" and mem: "3 \<le> length xs"
  obtains s' xs' where "sys_page_alloc envid va perm s = Some (0, s')" "vm_inv s' R S U xs'"
    "maps_page R S (n # xs) s r va (pte_insert n perm) s'" "length xs \<le> length xs' + 3"
    "pmem s' (page2pa n) = (\<lambda>_. 0)"
proof -
  obtain s1 where s1: "page_alloc 1 s = Some (Some n, s1)" "vm_inv s1 R S U xs"
    "\<forall>r \<in> R. \<forall>q \<in> lpaths S. leaf s1 r q = leaf s r q" "\<And>r p. \<not> tab_at s1 R S r p (page2pa n)"
    "n < npages s1" "n \<notin> set xs" "pp_ref (pages s1 n) = 0" "envs s1 = envs s" "curenv s1 = curenv s"
    "kregs s1 = kregs s" "pmem s1 = (pmem s)(page2pa n := \<lambda>_. 0)" "\<And>k. pp_ref (pages s1 k) = pp_ref (pages s k)"
    "npages s1 = npages s" "tab_at s1 R S = tab_at s R S"
    using vm_page_alloc [OF inv] by metis
  have ins: "insertable s1 R S xs n perm"
    using s1(4-7) perm_ok [OF perm] by (simp add: insertable_def)
  obtain s2 ys p where s2: "page_insert r n va perm s1 = Some (0, s2)" "vm_inv s2 R S U ys"
    "sets_pte R S s1 r va (pte_insert n perm) s2" "length xs \<le> length ys + 3"
    "maps_page R S xs s1 r va (pte_insert n perm) s2"
    by (rule insert_lookup [OF s1(2) pgdir(2) va(3) ins mem])
  have call: "sys_page_alloc envid va perm s = Some (0, s2)"
    using env s1 pgdir va perm s2(1) by (simp add: sys_page_alloc_def not_le)
  have n19: "k < 2 ^ 19" if "k < npages s" for k using that vm_invD(6) [OF inv] by linarith
  have np: "page2pa n \<notin> page2pa ` set xs"
    using page2pa_inj n19 s1(5,6,13) alloc_invD(3) [OF vm_invD(1) [OF s1(2)]] by auto
  have mp: "maps_page R S (n # xs) s r va (pte_insert n perm) s2"
    using s2(5) s1(3,8-14) by (auto simp: maps_page_def sets_pte_def keeps_data_def refs_le_def)
  have "pmem s2 (page2pa n) = (\<lambda>_. 0)"
    using s2(5) np s1(4,11) by (simp add: maps_page_def keeps_data_def)
  with call s2(2,4) mp that show thesis by blast
qed



lemma sys_page_map_ok:
  assumes inv: "vm_inv s R S U xs"
    and src: "envid2env srcid True s = Some (0, Some e1)" "env_pgdir (envs s e1) = Some r1" "r1 \<in> R"
      "srcva < UTOP" "srcva mod PGSIZE = 0" "PD0X srcva \<in> U"
    and dst: "envid2env dstid True s = Some (0, Some e2)" "env_pgdir (envs s e2) = Some r2" "r2 \<in> R"
      "dstva < UTOP" "dstva mod PGSIZE = 0" "PD0X dstva \<in> U"
    and pg: "va_pte s r1 srcva \<noteq> 0" "pte_frame (va_pte s r1 srcva) = pp"
      "perm AND 0x4 = 0 \<or> va_pte s r1 srcva AND PTE_W \<noteq> 0" "pp_ref (pages s pp) \<noteq> 0xFFFF"
      "drop_bit 10 (scast perm :: u64) = 0"
    and mem: "3 \<le> length xs"
  obtains s' xs' where "sys_page_map srcid srcva dstid dstva perm s = Some (0, s')" "vm_inv s' R S U xs'"
    "maps_page R S xs s r2 dstva (pte_insert pp perm) s'" "length xs \<le> length xs' + 3"
proof -
  obtain pte where pte: "slot s r1 srcva = Some pte" "rd_pte s pte = va_pte s r1 srcva"
    using pg(1) by (auto simp: va_pte_slot split: option.splits)
  have lk: "page_lookup r1 srcva s = Some (Some (pp, pte))"
    using page_lookup_spec [OF inv src(3,6)] pg(1,2) pte(1) by simp
  have ins: "insertable s R S xs pp perm"
    using mapped_page(2,5,6) [OF inv src(3,6) pg(1)] pg(2,4,5) by (auto simp: insertable_def)
  obtain s2 ys' p where s2: "page_insert r2 pp dstva perm s = Some (0, s2)" "vm_inv s2 R S U ys'"
    "length xs \<le> length ys' + 3" "maps_page R S xs s r2 dstva (pte_insert pp perm) s2"
    by (rule insert_lookup [OF inv dst(3,6) ins mem])
  have "sys_page_map srcid srcva dstid dstva perm s = Some (0, s2)"
    using src dst pg lk pte(2) s2(1) by (auto simp: sys_page_map_def not_le)
  then show thesis using s2(2,3,4) that by blast
qed

text \<open>C17. \<open>sys_page_map\<close> shares a page: the page mapped at the source address is mapped at the
  destination address with the requested permissions, the source mapping and every other mapping
  stay as they were, and the invariant is kept. The permission bits beyond the ten low ones must be
  clear: the call itself does not check them.\<close>

theorem sys_page_map_shares:
  assumes inv: "vm_inv s R S U xs"
    and src: "envid2env srcid True s = Some (0, Some e1)" "env_pgdir (envs s e1) = Some r1" "r1 \<in> R"
      "srcva < UTOP" "srcva mod PGSIZE = 0" "PD0X srcva \<in> U"
    and dst: "envid2env dstid True s = Some (0, Some e2)" "env_pgdir (envs s e2) = Some r2" "r2 \<in> R"
      "dstva < UTOP" "dstva mod PGSIZE = 0" "PD0X dstva \<in> U"
    and pg: "page_lookup r1 srcva s = Some (Some (pp, pte))"
      "perm AND 0x4 = 0 \<or> rd_pte s pte AND PTE_W \<noteq> 0" "pp_ref (pages s pp) \<noteq> 0xFFFF"
      "drop_bit 10 (scast perm :: u64) = 0"
    and mem: "3 \<le> length xs"
  shows "\<exists>s' xs'. sys_page_map srcid srcva dstid dstva perm s = Some (0, s') \<and> vm_inv s' R S U xs' \<and>
     va_pte s' r2 dstva = PTE_ENTRY (page2pa pp) OR scast perm OR PTE_V \<and>
     (\<forall>r' \<in> R. \<forall>va'. PD0X va' \<in> S \<longrightarrow> r' \<noteq> r2 \<or> TPGNUM va' \<noteq> TPGNUM dstva \<longrightarrow>
        va_pte s' r' va' = va_pte s r' va')"
proof -
  have v: "va_pte s r1 srcva \<noteq> 0" "pte_frame (va_pte s r1 srcva) = pp" "rd_pte s pte = va_pte s r1 srcva"
    using pg(1) page_lookup_spec [OF inv src(3,6)] by (auto simp: va_pte_slot split: if_splits option.splits)
  obtain s' xs' where s': "sys_page_map srcid srcva dstid dstva perm s = Some (0, s')" "vm_inv s' R S U xs'"
    "maps_page R S xs s r2 dstva (pte_insert pp perm) s'"
    by (rule sys_page_map_ok [OF inv src dst v(1,2) pg(2) [unfolded v(3)] pg(3,4) mem])
  then have st: "sets_pte R S s r2 dstva (pte_insert pp perm) s'" by (simp add: maps_page_def)
  show ?thesis
    using s'(1,2) sets_pte_va [OF st] dst(3) vm_inv_US [OF inv dst(6)]
    by (intro exI [of _ s'] exI [of _ xs']) (auto simp: pte_insert_def)
qed

theorem sys_page_map_shares_witness:
  "\<exists>s s'. va_pte s (page2pa 0) 0x1000 = pte_insert 11 6 \<and> sys_page_map 0 0x1000 0 0x2000 2 s = Some (0, s') \<and>
     va_pte s' (page2pa 0) 0x2000 = PTE_ENTRY (page2pa 11) OR scast (2 :: u32) OR PTE_V"
proof -
  obtain s xs p where s: "vm_inv s {page2pa 0} {0} {0} xs" "3 \<le> length xs" "envs s = envs demo_sys"
    "curenv s = Some 0" "page_lookup (page2pa 0) 0x1000 s = Some (Some (11, p))"
    "rd_pte s p = pte_insert 11 6" "pp_ref (pages s 11) = 1" by (rule demo_sys_mapped)
  have e: "envid2env 0 True s = Some (0, Some 0)" "env_pgdir (envs s 0) = Some (page2pa 0)"
    using s(3,4) by (simp_all add: envid2env_def demo_sys_fields)
  have "(2 :: u32) AND 0x4 = 0 \<or> rd_pte s p AND PTE_W \<noteq> 0" "pp_ref (pages s 11) \<noteq> 0xFFFF"
    "drop_bit 10 (scast (2 :: u32) :: u64) = 0" using s(7) perm_ok [of 2] by (simp_all add: PTE_SYSCALL_def)
  from sys_page_map_shares [OF s(1) e demo_addr(7,1-3) e demo_addr(7,4-6) s(5) this s(2)] obtain s' where
    "sys_page_map 0 0x1000 0 0x2000 2 s = Some (0, s')"
    "va_pte s' (page2pa 0) 0x2000 = PTE_ENTRY (page2pa 11) OR scast (2 :: u32) OR PTE_V" by blast
  moreover have "va_pte s (page2pa 0) 0x1000 = pte_insert 11 6"
    using s(5,6) page_lookup_spec [OF s(1) demo_addr(7,3)] by (auto simp: va_pte_slot split: if_splits option.splits)
  ultimately show ?thesis by blast
qed

lemma sys_page_unmap_ok:
  assumes inv: "vm_inv s R S U xs" and env: "envid2env envid True s = Some (0, Some e)"
    and pgdir: "env_pgdir (envs s e) = Some r" "r \<in> R" and va: "va < UTOP" "va mod PGSIZE = 0" "PD0X va \<in> U"
  obtains s' xs' where "sys_page_unmap envid va s = Some (0, s')" "vm_inv s' R S U xs'"
    "maps_page R S xs s r va 0 s'" "length xs \<le> length xs'"
proof -
  obtain s' xs' where s': "page_remove r va s = Some s'" "vm_inv s' R S U xs'" "sets_pte R S s r va 0 s'"
    and pm: "pmem s' = (case slot s r va of None \<Rightarrow> pmem s
      | Some p \<Rightarrow> (pmem s)(fst p := (pmem s (fst p))(snd p := 0)))"
    and x: "xs' = (if va_pte s r va \<noteq> 0 \<and> pp_ref (pages s (pte_frame (va_pte s r va))) = 1
            then pte_frame (va_pte s r va) # xs else xs)"
    and ref: "\<forall>k. pp_ref (pages s' k) = (if va_pte s r va \<noteq> 0 \<and> k = pte_frame (va_pte s r va)
        then pp_ref (pages s k) - 1 else pp_ref (pages s k))"
    using page_remove_spec [OF inv pgdir(2) va(3)] by blast
  have "tab_at s R S r [PD0X va, PD1X va, PD2X va] (fst p)" if "slot s r va = Some p" for p
    using that pgdir(2) ixs_paths(4) [OF vm_inv_US [OF inv va(3)]] by (auto simp: slot_def tab_at_def simp del: tbl.simps)
  then have "keeps_data R S xs s s'" using pm by (auto simp: keeps_data_def split: option.splits)
  moreover have "unat (pp_ref (pages s' k)) \<le> unat (pp_ref (pages s k))" for k
    using ref mapped_page(4) [OF inv pgdir(2) va(3)] by (simp add: unat_minus_one)
  then have "refs_le s B \<Longrightarrow> refs_le s' (Suc B)" for B unfolding refs_le_def by (meson le_SucI le_trans)
  ultimately have "maps_page R S xs s r va 0 s'" using s'(3) by (simp add: maps_page_def)
  moreover have "sys_page_unmap envid va s = Some (0, s')"
    using env pgdir va s'(1) by (simp add: sys_page_unmap_def not_le)
  ultimately show thesis using that s'(2) x by simp
qed

section \<open>Protection\<close>

text \<open>The identifiers an environment \<open>c\<close> may name in a call that changes an environment: 0, its
  own, and those of its children.\<close>

definition controls :: "kstate \<Rightarrow> nat \<Rightarrow> u32 \<Rightarrow> bool" where
  "controls s c envid \<longleftrightarrow> envid = 0 \<or>
     (let e = ENVX envid in env_status (envs s e) \<noteq> ENV_FREE \<and> env_id (envs s e) = envid \<and>
        (e = c \<or> env_parent_id (envs s e) = env_id (envs s c)))"

lemma envid2env_controls:
  assumes "curenv s = Some c"
  shows "envid2env envid True s = Some (if envid = 0 then (0, Some c) else
     if controls s c envid then (0, Some (ENVX envid)) else (- E_BAD_ENV, None))"
  using assms by (auto simp: envid2env_def controls_def Let_def)

lemma denied_page_map:
  assumes "curenv s = Some c" "\<not> controls s c srcid \<or> \<not> controls s c dstid"
  shows "sys_page_map srcid va dstid va' perm s = Some (- E_BAD_ENV, s)"
proof -
  have "envid = 0 \<Longrightarrow> controls s c envid" for envid by (simp add: controls_def)
  then show ?thesis using assms(2) by (auto simp: sys_page_map_def envid2env_controls [OF assms(1)])
qed

lemma pgdir_walk_same: "pgdir_walk pgdir va False s = Some (p, s1) \<Longrightarrow> s1 = s"
  by (auto simp: pgdir_walk_def Option.bind_eq_Some_conv split: option.splits)

lemma denied_clear_dirty:
  assumes "curenv s = Some c" "\<not> controls s c envid" "sys_page_clear_dirty envid va envid' va' s = Some (r, s')"
  shows "r = - E_BAD_ENV \<and> s' = s"
  using assms(3) denied_page_map [OF assms(1) disjI1 [OF assms(2)]]
  by (auto simp: sys_page_clear_dirty_def Option.bind_eq_Some_conv dest!: pgdir_walk_same split: if_splits)

lemma denied_copy_shared:
  assumes "curenv s = Some c" "\<not> controls s c child"
  shows "copy_shared child is s = Some (r, s') \<Longrightarrow> s' = s"
proof (induction "is")
  case (Cons i "is")
  let ?va = "0xD0000000 + of_nat i * PGSIZE"
  obtain pgdir p where w: "env_pgdir (envs s c) = Some pgdir" "pgdir_walk pgdir ?va False s = Some (p, s)"
    using Cons.prems assms(1) by (auto simp: Option.bind_eq_Some_conv Let_def dest: pgdir_walk_same)
  show ?case
    using Cons w assms(1) denied_page_map [OF assms(1) disjI2 [OF assms(2)]]
    by (auto simp: Let_def split: option.splits if_splits)
qed simp

text \<open>C20. Protection. The calls that destroy an environment (3), allocate, map or unmap its memory (4, 5, 6), change
  its status (8), its registers (9) or its page fault handler (11) fail with an error and change nothing at
  all when an identifier given is neither the caller's own nor that of one of its children (a stale identifier included).
  Clearing the dirty bit of a page (14) of such an environment fails with an error and changes nothing unless the
  kernel panics on the arguments, and copying the shared pages to it (16) changes nothing, though it reports success
  when the caller has no shared page. The calls that are not listed do not name an environment, apart from sending a
  message (12), which every environment may do.\<close>

theorem syscall_protects:
  assumes cur: "curenv s = Some c"
  shows "(n \<in> {3, 4, 6, 8, 9, 11} \<and> \<not> controls s c (ucast a1) \<or>
       n = 5 \<and> (\<not> controls s c (ucast a1) \<or> \<not> controls s c (ucast a3)) \<longrightarrow>
       (\<exists>r. syscall tx_pa n a1 a2 a3 a4 a5 s = Some (Ret r s) \<and> (r = - E_BAD_ENV \<or> r = - E_INVAL))) \<and>
     (\<not> controls s c (ucast a1) \<longrightarrow> syscall tx_pa 14 a1 a2 a3 a4 a5 s \<in> {None, Some (Ret (- E_BAD_ENV) s)}) \<and>
     (\<not> controls s c (ucast a1) \<longrightarrow> syscall tx_pa 16 a1 a2 a3 a4 a5 s \<in> insert None (range (\<lambda>r. Some (Ret r s))))"
proof (intro conjI impI)
  note e = envid2env_controls [OF cur]
  have nz: "ucast a1 \<noteq> (0 :: u32)" if "\<not> controls s c (ucast a1)" for a1 :: u64
    using that by (auto simp: controls_def)
  assume "n \<in> {3, 4, 6, 8, 9, 11} \<and> \<not> controls s c (ucast a1) \<or>
    n = 5 \<and> (\<not> controls s c (ucast a1) \<or> \<not> controls s c (ucast a3))"
  then consider "n = 3" "\<not> controls s c (ucast a1)" | "n = 4" "\<not> controls s c (ucast a1)"
    | "n = 6" "\<not> controls s c (ucast a1)" | "n = 8" "\<not> controls s c (ucast a1)"
    | "n = 9" "\<not> controls s c (ucast a1)" | "n = 11" "\<not> controls s c (ucast a1)"
    | "n = 5" "\<not> controls s c (ucast a1) \<or> \<not> controls s c (ucast a3)" by blast
  then show "\<exists>r. syscall tx_pa n a1 a2 a3 a4 a5 s = Some (Ret r s) \<and> (r = - E_BAD_ENV \<or> r = - E_INVAL)"
  proof cases
    case 1 then show ?thesis using nz by (simp add: syscall_def sys_env_destroy_def e)
  next
    case 2 then show ?thesis using nz by (simp add: syscall_def sys_page_alloc_def e)
  next
    case 3 then show ?thesis using nz by (simp add: syscall_def sys_page_unmap_def e)
  next
    case 4 then show ?thesis using nz by (simp add: syscall_def sys_env_set_status_def e)
  next
    case 5 then show ?thesis using nz by (simp add: syscall_def sys_env_set_trapframe_def e)
  next
    case 6 then show ?thesis using nz by (simp add: syscall_def sys_env_set_pgfault_upcall_def e)
  next
    case 7 then show ?thesis using denied_page_map [OF cur] by (simp add: syscall_def)
  qed
next
  assume "\<not> controls s c (ucast a1)"
  then show "syscall tx_pa 14 a1 a2 a3 a4 a5 s \<in> {None, Some (Ret (- E_BAD_ENV) s)}"
    using denied_clear_dirty [OF cur] by (cases "sys_page_clear_dirty (ucast a1) a2 (ucast a3) a4 s") (auto simp: syscall_def)
next
  assume "\<not> controls s c (ucast a1)"
  then show "syscall tx_pa 16 a1 a2 a3 a4 a5 s \<in> insert None (range (\<lambda>r. Some (Ret r s)))"
    using denied_copy_shared [OF cur]
    by (cases "sys_copy_shared_pages (ucast a1) s") (auto simp: syscall_def sys_copy_shared_pages_def)
qed

theorem syscall_protects_witness:
  "curenv demo_sys = Some 0 \<and> \<not> controls demo_sys 0 0x1003 \<and>
   (\<exists>r. syscall (\<lambda>_. 0) 4 0x1003 0x1000 6 0 0 demo_sys = Some (Ret r demo_sys) \<and> (r = - E_BAD_ENV \<or> r = - E_INVAL))"
proof -
  have c: "\<not> controls demo_sys 0 (ucast (0x1003 :: u64))"
    by (simp add: controls_def demo_sys_def zero_env_def)
  with syscall_protects [OF demo_sys_fields(5), of 4 "0x1003" 6 "\<lambda>_. 0" "0x1000" 0 0] show ?thesis
    by (simp add: demo_sys_fields)
qed

section \<open>Messages\<close>

text \<open>When the current environment is blocked and another one is runnable, the scheduler enters a
  runnable environment and changes nothing in the other ones.\<close>

lemma sched_yield_blocked:
  assumes c: "curenv s = Some c" "c < NENV" "env_status (envs s c) = ENV_NOT_RUNNABLE"
    and d: "d < NENV" "env_status (envs s d) = ENV_RUNNABLE"
    and pd: "\<forall>i < NENV. env_status (envs s i) = ENV_RUNNABLE \<longrightarrow> env_pgdir (envs s i) \<noteq> None"
  shows "\<exists>e s'. (sched_yield s :: 'a kres option) = Some (Run e s') \<and> e < NENV \<and>
     env_status (envs s e) = ENV_RUNNABLE \<and> curenv s' = Some e \<and> envs s' =
     (envs s)(e := (envs s e)\<lparr>env_status := ENV_RUNNING, env_runs := env_runs (envs s e) + 1, env_cpunum := cpunum s\<rparr>)"
proof -
  let ?P = "\<lambda>i. env_status (envs s i) = ENV_RUNNABLE"
  have y: "(sched_yield s :: 'a kres option) = (case List.find ?P ([c..<NENV] @ [0..<c]) of
      Some i \<Rightarrow> env_run i s | None \<Rightarrow> Some (sched_halt s))"
    unfolding find_append using c by (simp add: sched_yield_def find_runnable_def split: option.splits)
  have "List.find ?P ([c..<NENV] @ [0..<c]) \<noteq> None" using d by (auto simp: find_None_iff)
  then obtain e where e: "List.find ?P ([c..<NENV] @ [0..<c]) = Some e" by blast
  then have "?P e" "e \<in> set ([c..<NENV] @ [0..<c])" unfolding find_Some_iff using nth_mem by blast+
  then have e1: "?P e" "e < NENV" "e \<noteq> c" using c by auto
  then obtain pg where "env_pgdir (envs s e) = Some pg" using pd by auto
  with c e1 have "\<exists>s'. (env_run e s :: 'a kres option) = Some (Run e s') \<and> curenv s' = Some e \<and> envs s' =
     (envs s)(e := (envs s e)\<lparr>env_status := ENV_RUNNING, env_runs := env_runs (envs s e) + 1, env_cpunum := cpunum s\<rparr>)"
    by (simp add: env_run_def env_pop_tf_def)
  then obtain s' where s': "(env_run e s :: 'a kres option) = Some (Run e s')" "curenv s' = Some e" "envs s' =
     (envs s)(e := (envs s e)\<lparr>env_status := ENV_RUNNING, env_runs := env_runs (envs s e) + 1, env_cpunum := cpunum s\<rparr>)"
    by blast
  have "(sched_yield s :: 'a kres option) = Some (Run e s')" by (simp only: y e option.case s'(1))
  with s' e1 show ?thesis by blast
qed

text \<open>C22. Rendezvous: when an environment \<open>c\<close> waits for a message without a page, another
  environment runs. If the environment that runs sends a value to \<open>c\<close>, the call returns 0 and \<open>c\<close>
  is runnable again, holds the low 32 bits of the value and the sender's identifier, and will
  continue after its call with the result 0. A second message is refused, so none is overwritten.\<close>

theorem ipc_rendezvous:
  assumes c: "curenv s = Some c" "c < NENV" "\<not> env_ipc_recving (envs s c)" "env_status (envs s c) = ENV_RUNNING"
    and i: "ENVX (env_id (envs s c)) = c" "env_id (envs s c) \<noteq> 0"
    and d: "d < NENV" "env_status (envs s d) = ENV_RUNNABLE"
    and pd: "\<forall>i < NENV. env_status (envs s i) = ENV_RUNNABLE \<longrightarrow> env_pgdir (envs s i) \<noteq> None"
    and va: "dstva \<ge> UTOP" "srcva \<ge> UTOP"
  shows "\<exists>e s1 s2 from. syscall tx_pa 13 dstva b2 b3 b4 b5 s = Some (Run e s1) \<and> e \<noteq> c \<and> e < NENV \<and>
     syscall tx_pa 12 (ucast (env_id (envs s c))) v srcva perm b5 s1 = Some (Ret 0 s2) \<and>
     from = env_id (envs s e) \<and> curenv s2 = Some e \<and>
     envs s2 c = (envs s c)\<lparr>env_status := ENV_RUNNABLE, env_ipc_recving := False,
        env_ipc_value := ucast (ucast v :: u32), env_ipc_from := from, env_ipc_perm := 0,
        env_tf := (env_tf (envs s c))\<lparr>tf_a0 := 0, tf_sepc := tf_sepc (env_tf (envs s c)) + 4\<rparr>\<rparr> \<and>
     syscall tx_pa 12 (ucast (env_id (envs s c))) w srcva perm b5 s2 = Some (Ret (- E_IPC_NOT_RECV) s2)"
proof -
  define t where "t = upd_env c (\<lambda>v. v\<lparr>env_ipc_recving := True, env_status := ENV_NOT_RUNNABLE\<rparr>) s"
  have dc: "d \<noteq> c" using c d by auto
  have nva: "\<not> dstva < UTOP" "\<not> srcva < UTOP" using va by (simp_all only: not_less)
  have pre: "curenv t = Some c" "c < NENV" "env_status (envs t c) = ENV_NOT_RUNNABLE"
    "d < NENV" "env_status (envs t d) = ENV_RUNNABLE"
    "\<forall>i < NENV. env_status (envs t i) = ENV_RUNNABLE \<longrightarrow> env_pgdir (envs t i) \<noteq> None"
    using c d dc pd by (auto simp: t_def)
  from sched_yield_blocked [OF pre, where ?'a = int] obtain e s1 where
    y: "(sched_yield t :: int kres option) = Some (Run e s1)" "e < NENV" "env_status (envs t e) = ENV_RUNNABLE"
    "curenv s1 = Some e" "envs s1 = (envs t)(e := (envs t e)\<lparr>env_status := ENV_RUNNING,
       env_runs := env_runs (envs t e) + 1, env_cpunum := cpunum t\<rparr>)" by blast
  have ec: "e \<noteq> c" using y(3) pre(3) by auto
  have recv: "syscall tx_pa 13 dstva b2 b3 b4 b5 s = Some (Run e s1)"
    using c nva(1) y(1) by (simp add: syscall_def sys_ipc_recv_def t_def)
  have s1c: "envs s1 c = (envs s c)\<lparr>env_ipc_recving := True, env_status := ENV_NOT_RUNNABLE\<rparr>"
    using y(5) ec by (simp add: t_def)
  have id1: "ucast (ucast (env_id (envs s c)) :: u64) = env_id (envs s c)" by (simp add: ucast_up_ucast_id is_up)
  have find: "envid2env (env_id (envs s c)) False u = Some (0, Some c)"
    if "env_status (envs u c) \<noteq> ENV_FREE" "env_id (envs u c) = env_id (envs s c)" for u
    using that i by (simp add: envid2env_def Let_def)
  define s2 where "s2 = upd_env c (\<lambda>u. u\<lparr>env_ipc_from := env_id (envs s1 e), env_ipc_value := ucast (ucast v :: u32),
      env_ipc_perm := 0, env_tf := (env_tf u)\<lparr>tf_a0 := 0, tf_sepc := tf_sepc (env_tf u) + 4\<rparr>,
      env_status := ENV_RUNNABLE, env_ipc_recving := False\<rparr>) s1"
  have send: "syscall tx_pa 12 (ucast (env_id (envs s c))) v srcva perm b5 s1 = Some (Ret 0 s2)"
    using find [of s1] s1c y(4) nva(2)
    by (simp add: syscall_def sys_ipc_try_send_def id1 s2_def)
  have s2c: "envs s2 c = (envs s c)\<lparr>env_status := ENV_RUNNABLE, env_ipc_recving := False,
        env_ipc_value := ucast (ucast v :: u32), env_ipc_from := env_id (envs s e), env_ipc_perm := 0,
        env_tf := (env_tf (envs s c))\<lparr>tf_a0 := 0, tf_sepc := tf_sepc (env_tf (envs s c)) + 4\<rparr>\<rparr>"
    using s1c y(5) ec by (simp add: s2_def t_def)
  have again: "syscall tx_pa 12 (ucast (env_id (envs s c))) w srcva perm b5 s2 = Some (Ret (- E_IPC_NOT_RECV) s2)"
    using find [of s2] s2c by (simp add: syscall_def sys_ipc_try_send_def id1)
  show ?thesis
    using recv ec y(2,4) send s2c again by (intro exI [of _ e] exI [of _ s1] exI [of _ s2]) (simp add: s2_def)
qed

definition demo_ipc :: kstate where
  "demo_ipc = bss_kstate\<lparr>curenv := Some 1, envs := (\<lambda>i.
     zero_env\<lparr>env_id := 0x1000 + of_nat i, env_pgdir := Some 0x80300000,
       env_status := (if i = 1 then ENV_RUNNING else if i = 2 then ENV_RUNNABLE else ENV_FREE)\<rparr>)\<rparr>"

theorem ipc_rendezvous_witness:
  "\<exists>e s1 s2. syscall (\<lambda>_. 0) 13 UTOP 0 0 0 0 demo_ipc = Some (Run e s1) \<and>
     syscall (\<lambda>_. 0) 12 0x1001 7 UTOP 0 0 s1 = Some (Ret 0 s2) \<and>
     env_ipc_value (envs s2 1) = 7 \<and> env_status (envs s2 1) = ENV_RUNNABLE"
proof -
  have h1: "env_id (envs demo_ipc 1) = 0x1001" by (simp add: demo_ipc_def)
  have h: "curenv demo_ipc = Some 1" "(1 :: nat) < NENV" "\<not> env_ipc_recving (envs demo_ipc 1)"
    "env_status (envs demo_ipc 1) = ENV_RUNNING" "ENVX (env_id (envs demo_ipc 1)) = 1" "env_id (envs demo_ipc 1) \<noteq> 0"
    "(2 :: nat) < NENV" "env_status (envs demo_ipc 2) = ENV_RUNNABLE"
    "\<forall>i < NENV. env_status (envs demo_ipc i) = ENV_RUNNABLE \<longrightarrow> env_pgdir (envs demo_ipc i) \<noteq> None"
    "UTOP \<ge> UTOP" "UTOP \<ge> UTOP"
    by (simp_all add: demo_ipc_def ENVX_def zero_env_def)
  from ipc_rendezvous [OF h, of "\<lambda>_. 0" 0 0 0 0 7 0 0] show ?thesis unfolding h1 by fastforce
qed

end
