(* ===== verification/Trap.thy ===== *)
theory Trap
  imports Syscall_Props
begin

unbundle bit_operations_syntax

text \<open>
  Traps, \<^verbatim>\<open>kern/riscv/trap.c\<close>, with the timer of \<^verbatim>\<open>kern/riscv/clint.c\<close> and the program
  counter chosen by the return path of \<^verbatim>\<open>kern/riscv/trapentry.S\<close>.

  A trap frame is either the one saved in an environment or the copy on the kernel stack: \<open>tf_ptr\<close>
  is the C pointer. \<open>now\<close> is the value of the time register. The state handed to \<open>trap\<close> is the one
  after the hardware has entered the kernel. The kernel lock is the subject of the theory
  \<open>Spinlock\<close>; printing, and the stall of a processor after another one panicked, are not modelled.
  The kernel monitor, entered by a breakpoint, never returns (theory \<open>Monitor\<close>).
\<close>

section \<open>The timer\<close>

definition sbi_set_time :: "u64 \<Rightarrow> kstate \<Rightarrow> kstate" where
  "sbi_set_time t s = s\<lparr>mtimecmp := t\<rparr>"

definition clint_init :: "u64 \<Rightarrow> kstate \<Rightarrow> kstate" where
  "clint_init now s =
     (let s1 = sbi_set_time (now + 100000) s;
          s2 = s1\<lparr>sie := sie s1 OR 0x20\<rparr>
      in s2\<lparr>sstatus := sstatus s2 OR 0x2\<rparr>)"

definition reset_timer :: "u64 \<Rightarrow> kstate \<Rightarrow> kstate" where
  "reset_timer now s = (let s1 = sbi_set_time (now + 100000) s in s1\<lparr>sie := sie s1 OR 0x20\<rparr>)"

section \<open>Trap frames\<close>

datatype tf_ptr = Stack Trapframe | Saved nat

definition get_tf :: "tf_ptr \<Rightarrow> kstate \<Rightarrow> Trapframe" where
  "get_tf p s = (case p of Stack tf \<Rightarrow> tf | Saved e \<Rightarrow> env_tf (envs s e))"

definition set_tf :: "tf_ptr \<Rightarrow> (Trapframe \<Rightarrow> Trapframe) \<Rightarrow> kstate \<Rightarrow> tf_ptr \<times> kstate" where
  "set_tf p f s = (case p of
      Stack tf \<Rightarrow> (Stack (f tf), s)
    | Saved e \<Rightarrow> (Saved e, upd_env e (\<lambda>v. v\<lparr>env_tf := f (env_tf v)\<rparr>) s))"

text \<open>The bit \<^verbatim>\<open>SSTATUS_SPP\<close> of the saved status: the trap came from supervisor mode.\<close>

definition from_kernel :: "Trapframe \<Rightarrow> bool" where
  "from_kernel tf \<longleftrightarrow> tf_status tf AND 0x100 \<noteq> 0"

text \<open>The program counter user mode resumes at. The return path skips the \<^verbatim>\<open>ecall\<close> of a yield,
  recognised by the saved argument register.\<close>

definition resume_pc :: "Trapframe \<Rightarrow> u64" where
  "resume_pc tf = (if tf_orig_a0 tf - 0xa = 0 then tf_sepc tf + 4 else tf_sepc tf)"

section \<open>Page faults\<close>

definition bytes_u64 :: "u64 \<Rightarrow> u8 list" where
  "bytes_u64 w = map (\<lambda>k. ucast (drop_bit (8 * k) w)) [0..<8]"

text \<open>\<open>push_words\<close> is the sequence of assignments \<^verbatim>\<open>*(--sp) = w\<close>.\<close>

primrec push_words :: "u64 list \<Rightarrow> vaddr \<Rightarrow> kstate \<Rightarrow> (vaddr \<times> kstate) option" where
  "push_words [] sp s = Some (sp, s)"
| "push_words (w # ws) sp s = do {
     s1 \<leftarrow> store_bytes (sp - 8) (bytes_u64 w) s;
     push_words ws (sp - 8) s1 }"

definition fault_frame :: "Trapframe \<Rightarrow> u64 \<Rightarrow> u64 list" where
  "fault_frame tf fault_va =
     [tf_sp tf, tf_sepc tf, tf_scause tf, tf_t6 tf, tf_t5 tf, tf_t4 tf, tf_t3 tf, tf_s11 tf, tf_s10 tf,
      tf_s9 tf, tf_s8 tf, tf_s7 tf, tf_s6 tf, tf_s5 tf, tf_s4 tf, tf_s3 tf, tf_s2 tf, tf_a7 tf, tf_a6 tf,
      tf_a5 tf, tf_a4 tf, tf_a3 tf, tf_a2 tf, tf_a1 tf, tf_a0 tf, tf_s1 tf, tf_s0 tf, tf_t2 tf, tf_t1 tf,
      tf_t0 tf, tf_tp tf, tf_gp tf, tf_sp tf, tf_ra tf, fault_va]"

definition page_fault_handler :: "tf_ptr \<Rightarrow> kstate \<Rightarrow> unit kres option" where
  "page_fault_handler p s = do {
     let fault_va = tf_stval (get_tf p s);
     assert_that (\<not> from_kernel (get_tf p s));
     cur \<leftarrow> curenv s;
     if env_pgfault_upcall (envs s cur) = 0 then env_destroy cur s
     else kbind (user_mem_assert cur (UXSTACKTOP - 4) 4 0x4 s) (\<lambda>_ s1. do {
       let tf = get_tf p s1;
       let nested = (tf_sp tf \<ge> UXSTACKTOP - PGSIZE \<and> tf_sp tf < UXSTACKTOP);
       (sp, s2) \<leftarrow> push_words ((if nested then [0] else []) @ fault_frame tf fault_va)
                   (if nested then tf_sp tf else UXSTACKTOP) s1;
       let entry = env_pgfault_upcall (envs s2 cur);
       kbind (user_mem_assert cur entry 4 (0x10 OR 0x4 OR 0x8 OR 0x2) s2) (\<lambda>_ s3.
         env_run cur (upd_env cur (\<lambda>v. v\<lparr>env_tf := (env_tf v)\<lparr>tf_sp := sp, tf_sepc := entry,
                                                               tf_orig_a0 := 0\<rparr>\<rparr>) s3)) }) }"

section \<open>Dispatch\<close>

definition trap_dispatch :: "(nat \<Rightarrow> u32) \<Rightarrow> u64 \<Rightarrow> tf_ptr \<Rightarrow> kstate \<Rightarrow> unit kres option" where
  "trap_dispatch tx_pa now p s =
     (let scause = tf_scause (get_tf p s) in
      if scause AND push_bit 63 1 \<noteq> 0 then do {
        let (p1, s1) = set_tf p (\<lambda>tf. tf\<lparr>tf_scause := tf_scause tf AND NOT (push_bit 63 1)\<rparr>) s;
        if tf_scause (get_tf p1 s1) = 5 then do {
          let (p2, s2) = set_tf p1 (\<lambda>tf. tf\<lparr>tf_orig_a0 := 0\<rparr>) s1;
          let s3 = s2\<lparr>sie := sie s2 AND NOT 0x20\<rparr>;
          let s4 = reset_timer now s3;
          t \<leftarrow> time_tick (ticks s4);
          sched_yield (s4\<lparr>ticks := t\<rparr>) }
        else Some (Ret () s1) }
      else if scause = 12 \<or> scause = 13 \<or> scause = 15 then page_fault_handler p s
      else if scause = 3 then Some (Monitor s)
      else if scause = 8 then
        (let tf = get_tf p s in
         kbind (syscall tx_pa (tf_a0 tf) (tf_a1 tf) (tf_a2 tf) (tf_a3 tf) (tf_a4 tf) (tf_a5 tf) s) (\<lambda>r s1.
           Some (Ret () (snd (set_tf p (\<lambda>tf. tf\<lparr>tf_a0 := word_of_int r, tf_sepc := tf_sepc tf + 4\<rparr>) s1)))))
      else do {
        cur \<leftarrow> curenv s;
        assert_that (\<not> from_kernel (get_tf p s));
        env_destroy cur s })"

definition trap :: "(nat \<Rightarrow> u32) \<Rightarrow> u64 \<Rightarrow> Trapframe \<Rightarrow> kstate \<Rightarrow> unit kres option" where
  "trap tx_pa now tf s = do {
     let s1 = s\<lparr>cpu_status := CPU_STARTED\<rparr>;
     assert_that (sstatus s1 AND 0x2 = 0);
     let resume = (\<lambda>p t. kbind (trap_dispatch tx_pa now p t) (\<lambda>_ t1.
           case curenv t1 of
             None \<Rightarrow> sched_yield t1
           | Some c \<Rightarrow> if env_status (envs t1 c) = ENV_RUNNING then env_run c t1 else sched_yield t1));
     if \<not> from_kernel tf then do {
       cur \<leftarrow> curenv s1;
       if env_status (envs s1 cur) = ENV_DYING then do {
         s2 \<leftarrow> env_free cur s1;
         sched_yield (s2\<lparr>curenv := None\<rparr>) }
       else resume (Saved cur) (upd_env cur (\<lambda>v. v\<lparr>env_tf := tf\<rparr>) s1) }
     else resume (Stack tf) s1 }"

section \<open>Returning to user mode\<close>

lemma env_run_not_Ret: "env_run e s \<noteq> Some (Ret x s')"
  by (auto simp: env_run_def env_pop_tf_def Let_def split: option.splits bind_splits)

lemma sched_yield_not_Ret: "sched_yield s \<noteq> Some (Ret x s')"
  by (auto simp: sched_yield_def sched_halt_def env_run_not_Ret split: option.splits)

lemma kbind_sched_yield [simp]: "kbind (sched_yield s) f = sched_yield s"
proof -
  have "kbind (env_run e s) f = env_run e s" for e
    by (simp add: env_run_def env_pop_tf_def Let_def bind_eq_None_conv split: option.splits bind_splits)
  moreover have "kbind (Some (sched_halt s)) f = Some (sched_halt s)" by (simp add: sched_halt_def)
  ultimately show ?thesis by (auto simp: sched_yield_def split: option.splits)
qed

lemma env_run_current:
  assumes "curenv s = Some c" "env_status (envs s c) = ENV_RUNNING" "env_pgdir (envs s c) = Some pg"
  shows "\<exists>s'. env_run c s = Some (Run c s') \<and> curenv s' = Some c \<and> env_tf (envs s' c) = env_tf (envs s c) \<and>
     env_status (envs s' c) = ENV_RUNNING \<and> satp s' = pg \<and> pmem s' = pmem s"
  using assms by (simp add: env_run_def env_pop_tf_def)

text \<open>C23. A system call resumes its caller: when an environment traps with a system call, the call
  returns \<open>r\<close> to the dispatcher and the caller is still the running environment with its saved
  registers, the kernel goes back to user mode in the caller, in its own address space, at the
  instruction after the call, with \<open>r\<close> in the result register and all other registers unchanged.\<close>

theorem trap_syscall_resumes:
  assumes c: "curenv s = Some c" "env_status (envs s c) = ENV_RUNNING" "sstatus s AND 0x2 = 0"
    and tf: "\<not> from_kernel tf" "tf_scause tf = 8" "tf_orig_a0 tf = tf_a0 tf"
    and call: "syscall tx_pa (tf_a0 tf) (tf_a1 tf) (tf_a2 tf) (tf_a3 tf) (tf_a4 tf) (tf_a5 tf)
      (upd_env c (\<lambda>v. v\<lparr>env_tf := tf\<rparr>) (s\<lparr>cpu_status := CPU_STARTED\<rparr>)) = Some (Ret r s1)"
    and s1: "curenv s1 = Some c" "env_status (envs s1 c) = ENV_RUNNING" "env_tf (envs s1 c) = tf"
      "env_pgdir (envs s1 c) = Some pg"
  shows "\<exists>s'. trap tx_pa now tf s = Some (Run c s') \<and>
     env_tf (envs s' c) = tf\<lparr>tf_a0 := word_of_int r, tf_sepc := tf_sepc tf + 4\<rparr> \<and>
     resume_pc (env_tf (envs s' c)) = tf_sepc tf + 4 \<and> satp s' = pg \<and> pmem s' = pmem s1"
proof -
  let ?f = "\<lambda>tf. tf\<lparr>tf_a0 := word_of_int r, tf_sepc := tf_sepc tf + 4\<rparr>"
  define s2 where "s2 = upd_env c (\<lambda>v. v\<lparr>env_tf := ?f (env_tf v)\<rparr>) s1"
  have "curenv s2 = Some c" "env_status (envs s2 c) = ENV_RUNNING" "env_pgdir (envs s2 c) = Some pg"
    using s1 by (simp_all add: s2_def)
  then obtain s' where s': "(env_run c s2 :: unit kres option) = Some (Run c s')"
    "env_tf (envs s' c) = env_tf (envs s2 c)" "satp s' = pg" "pmem s' = pmem s2"
    using env_run_current [where ?'a = unit] by blast
  have no: "tf_a0 tf \<noteq> 10"
  proof
    assume "tf_a0 tf = 10"
    with call show False
      by (auto simp: syscall_def sys_yield_def kbind_def sched_yield_not_Ret split: option.splits kres.splits)
  qed
  have "(8 :: u64) AND push_bit 63 1 = 0" by (simp add: push_bit_eq_mult)
  then have "trap tx_pa now tf s = env_run c s2"
    using c tf call s1 by (simp add: trap_def trap_dispatch_def get_tf_def set_tf_def s2_def)
  moreover have "env_tf (envs s' c) = ?f tf" using s'(2) s1(3) by (simp add: s2_def)
  ultimately show ?thesis using s' tf(3) no by (simp add: resume_pc_def s2_def)
qed

text \<open>C24. Preemption: when the timer interrupts the running environment, or it yields, all its registers
  are saved as the trap found them (a timer interrupt changes only the recorded cause and the saved copy of the call
  number, which are not registers of the environment), it becomes runnable, and the next runnable environment
  in circular order is entered, with its own saved registers and address space;
  when the interrupted one runs again it continues at the interrupted instruction after an interrupt, and after its
  call when it yielded.\<close>

theorem trap_preempts:
  assumes ok: "sched_ok s c" and j: "alive s j" "j \<noteq> c" and hw: "sstatus s AND 0x2 = 0" "\<not> from_kernel tf"
    and cause: "tf_scause tf = push_bit 63 1 OR 5 \<and> unat (ticks s) + 1 < 429496730 \<or>
                tf_scause tf = 8 \<and> tf_a0 tf = 10 \<and> tf_orig_a0 tf = 10"
  defines "tf' \<equiv> (if tf_scause tf = 8 then tf else tf\<lparr>tf_scause := 5, tf_orig_a0 := 0\<rparr>)"
  shows "\<exists>e s'. trap tx_pa now tf s = Some (Run e s') \<and> sched_ok s' e \<and> e \<noteq> c \<and>
     (\<forall>i. alive s i \<and> i \<noteq> c \<longrightarrow> dist c e \<le> dist c i) \<and>
     envs s' c = (envs s c)\<lparr>env_tf := tf', env_status := ENV_RUNNABLE\<rparr> \<and>
     env_tf (envs s' e) = env_tf (envs s e) \<and> satp s' = the (env_pgdir (envs s e)) \<and>
     (\<forall>i. i \<noteq> c \<and> i \<noteq> e \<longrightarrow> envs s' i = envs s i) \<and>
     resume_pc tf' = (if tf_scause tf = 8 then tf_sepc tf + 4 else tf_sepc tf)"
proof -
  have c: "curenv s = Some c" "env_status (envs s c) = ENV_RUNNING" "c < 1024" using ok by (auto simp: sched_ok_def)
  have step: ?thesis if t: "trap tx_pa now tf s = sched_yield t" "curenv t = Some c"
    "envs t = (envs s)(c := (envs s c)\<lparr>env_tf := tf'\<rparr>)"
    "resume_pc tf' = (if tf_scause tf = 8 then tf_sepc tf + 4 else tf_sepc tf)" for t
  proof -
    have al: "alive t i = alive s i" for i using t(3) by (simp add: alive_def)
    then have "sched_ok t c" "alive t j" using ok j t by (auto simp: sched_ok_def)
    from sched_yield_step [OF this j(2)] obtain e s' where e: "(sched_yield t :: unit kres option) = Some (Run e s')"
      "switched t c e s'" "sched_ok s' e" "0 < dist c e" "\<forall>i. alive t i \<and> i \<noteq> c \<longrightarrow> dist c e \<le> dist c i" by blast
    have "e \<noteq> c" using e(4) dist_facts(3) [OF c(3) c(3)] by auto
    with e t al show ?thesis by (intro exI [of _ e] exI [of _ s']) (simp add: switched_def)
  qed
  from cause show ?thesis
  proof
    assume a: "tf_scause tf = push_bit 63 1 OR 5 \<and> unat (ticks s) + 1 < 429496730"
    then obtain t' where t': "time_tick (ticks s) = Some t'" using time_tick_msec by blast
    have "tf_scause tf AND push_bit 63 1 \<noteq> 0" "tf_scause tf AND NOT (push_bit 63 1) = 5" "tf_scause tf \<noteq> 8"
      using a by (simp_all add: push_bit_eq_mult)
    note m = this
    define u where "u = upd_env c (\<lambda>v. v\<lparr>env_tf := (env_tf v)\<lparr>tf_orig_a0 := 0\<rparr>\<rparr>)
      (upd_env c (\<lambda>v. v\<lparr>env_tf := (env_tf v)\<lparr>tf_scause := tf_scause (env_tf v) AND NOT (push_bit 63 1)\<rparr>\<rparr>)
        (upd_env c (\<lambda>v. v\<lparr>env_tf := tf\<rparr>) (s\<lparr>cpu_status := CPU_STARTED\<rparr>)))"
    define t where "t = (reset_timer now (u\<lparr>sie := sie u AND NOT 0x20\<rparr>))\<lparr>ticks := t'\<rparr>"
    have "trap tx_pa now tf s = sched_yield t"
      using c hw t' m by (simp add: trap_def trap_dispatch_def get_tf_def set_tf_def t_def u_def reset_timer_def sbi_set_time_def)
    moreover have "curenv t = Some c" "envs t = (envs s)(c := (envs s c)\<lparr>env_tf := tf'\<rparr>)"
      using c m by (simp_all add: t_def u_def reset_timer_def sbi_set_time_def tf'_def)
    ultimately show ?thesis by (rule step) (use m in \<open>simp add: resume_pc_def tf'_def\<close>)
  next
    assume a: "tf_scause tf = 8 \<and> tf_a0 tf = 10 \<and> tf_orig_a0 tf = 10"
    have "(8 :: u64) AND push_bit 63 1 = 0" by (simp add: push_bit_eq_mult)
    with c hw a have "trap tx_pa now tf s = sched_yield (upd_env c (\<lambda>v. v\<lparr>env_tf := tf\<rparr>) (s\<lparr>cpu_status := CPU_STARTED\<rparr>))"
      by (simp add: trap_def trap_dispatch_def syscall_def sys_yield_def get_tf_def)
    then show ?thesis by (rule step) (use a c in \<open>auto simp: resume_pc_def tf'_def\<close>)
  qed
qed

definition demo_trap :: "u64 \<Rightarrow> Trapframe" where
  "demo_trap cause = zero_tf\<lparr>tf_scause := cause, tf_a0 := 10, tf_orig_a0 := 10, tf_sepc := 0x800000\<rparr>"

theorem trap_preempts_witness:
  "\<exists>e s'. trap (\<lambda>_. 0) 0 (demo_trap 8) demo_sched = Some (Run e s') \<and> e \<noteq> 1000 \<and>
     env_tf (envs s' 1000) = demo_trap 8 \<and> resume_pc (demo_trap 8) = 0x800004"
proof -
  have "sstatus demo_sched AND 0x2 = 0" "\<not> from_kernel (demo_trap 8)"
    "tf_scause (demo_trap 8) = push_bit 63 1 OR 5 \<and> unat (ticks demo_sched) + 1 < 429496730 \<or>
     tf_scause (demo_trap 8) = 8 \<and> tf_a0 (demo_trap 8) = 10 \<and> tf_orig_a0 (demo_trap 8) = 10"
    by (simp_all add: demo_sched_def bss_kstate_def demo_trap_def from_kernel_def zero_tf_def)
  moreover have "(3 :: nat) \<noteq> 1000" by simp
  ultimately obtain e s' where
    "trap (\<lambda>_. 0) 0 (demo_trap 8) demo_sched = Some (Run e s')" "e \<noteq> 1000"
    "envs s' 1000 = (envs demo_sched 1000)\<lparr>env_tf := (if tf_scause (demo_trap 8) = 8 then demo_trap 8
       else (demo_trap 8)\<lparr>tf_scause := 5, tf_orig_a0 := 0\<rparr>), env_status := ENV_RUNNABLE\<rparr>"
    "resume_pc (if tf_scause (demo_trap 8) = 8 then demo_trap 8 else (demo_trap 8)\<lparr>tf_scause := 5, tf_orig_a0 := 0\<rparr>) =
       (if tf_scause (demo_trap 8) = 8 then tf_sepc (demo_trap 8) + 4 else tf_sepc (demo_trap 8))"
    using trap_preempts [OF demo_sched_ok, of "demo_trap 8" "\<lambda>_. 0" 0] by blast
  moreover have "tf_scause (demo_trap 8) = 8" "tf_sepc (demo_trap 8) = 0x800000" by (simp_all add: demo_trap_def)
  ultimately show ?thesis by (intro exI [of _ e] exI [of _ s']) simp
qed

theorem trap_syscall_resumes_witness:
  "\<exists>s'. trap (\<lambda>_. 0) 0 (zero_tf\<lparr>tf_scause := 8, tf_a0 := 99, tf_orig_a0 := 99, tf_sepc := 0x800000\<rparr>) demo_sched =
       Some (Run 1000 s') \<and> tf_a0 (env_tf (envs s' 1000)) = - 3 \<and> tf_sepc (env_tf (envs s' 1000)) = 0x800004"
proof -
  define tf where "tf = zero_tf\<lparr>tf_scause := 8, tf_a0 := 99, tf_orig_a0 := 99, tf_sepc := 0x800000\<rparr>"
  let ?s1 = "upd_env 1000 (\<lambda>v. v\<lparr>env_tf := tf\<rparr>) (demo_sched\<lparr>cpu_status := CPU_STARTED\<rparr>)"
  have "curenv demo_sched = Some 1000" "env_status (envs demo_sched 1000) = ENV_RUNNING" "sstatus demo_sched AND 0x2 = 0"
    "\<not> from_kernel tf" "tf_scause tf = 8" "tf_orig_a0 tf = tf_a0 tf"
    "syscall (\<lambda>_. 0) (tf_a0 tf) (tf_a1 tf) (tf_a2 tf) (tf_a3 tf) (tf_a4 tf) (tf_a5 tf) ?s1 = Some (Ret (- 3) ?s1)"
    "curenv ?s1 = Some 1000" "env_status (envs ?s1 1000) = ENV_RUNNING" "env_tf (envs ?s1 1000) = tf"
    "env_pgdir (envs ?s1 1000) = Some 0x80300000"
    by (simp_all add: demo_sched_def bss_kstate_def tf_def from_kernel_def zero_tf_def syscall_def)
  from trap_syscall_resumes [OF this, of 0] show ?thesis unfolding tf_def by auto
qed

end
