(* ===== verification/Ulib.thy ===== *)
theory Ulib
  imports Syscall_Props
begin

unbundle bit_operations_syntax

text \<open>
  The user side of the kernel interface: the system call stubs of \<^verbatim>\<open>lib/riscv/syscall.c\<close> and
  \<^verbatim>\<open>inc/riscv/lib.h\<close>, page reference counts (\<^verbatim>\<open>lib/riscv/pageref.c\<close>), the search for an
  environment by type (\<^verbatim>\<open>lib/riscv/ipc.c\<close>), and \<open>memmove\<close> on the memory of the running
  environment. A stub executes \<^verbatim>\<open>ecall\<close>; the kernel runs its dispatcher and resumes the caller with
  the result (property \<open>trap_syscall_resumes\<close> of the theory \<open>Trap\<close>). A call that gives up the
  processor does not come back at once and has no result here, \<open>None\<close>.

  \<open>ubyte s r va\<close> is the byte the address space with root \<open>r\<close> shows at \<open>va\<close>; the lemmas say which
  bytes of which address spaces the memory calls can change.
\<close>

section \<open>System call stubs\<close>

definition usyscall ::
    "(nat \<Rightarrow> u32) \<Rightarrow> u64 \<Rightarrow> bool \<Rightarrow> u64 \<Rightarrow> u64 \<Rightarrow> u64 \<Rightarrow> u64 \<Rightarrow> u64 \<Rightarrow> kstate \<Rightarrow> (int \<times> kstate) option" where
  "usyscall tx_pa num check a1 a2 a3 a4 a5 s =
     (case syscall tx_pa num a1 a2 a3 a4 a5 s of
        Some (Ret ret s1) \<Rightarrow> if check \<and> ret > 0 then None else Some (ret, s1)
      | _ \<Rightarrow> None)"

definition usys_getenvid :: "(nat \<Rightarrow> u32) \<Rightarrow> kstate \<Rightarrow> (int \<times> kstate) option" where
  "usys_getenvid tx_pa s = usyscall tx_pa 2 False 0 0 0 0 0 s"

definition usys_page_alloc :: "(nat \<Rightarrow> u32) \<Rightarrow> u32 \<Rightarrow> vaddr \<Rightarrow> u32 \<Rightarrow> kstate \<Rightarrow> (int \<times> kstate) option" where
  "usys_page_alloc tx_pa envid va perm s = usyscall tx_pa 4 True (scast envid) va (scast perm) 0 0 s"

definition usys_page_map ::
    "(nat \<Rightarrow> u32) \<Rightarrow> u32 \<Rightarrow> vaddr \<Rightarrow> u32 \<Rightarrow> vaddr \<Rightarrow> u32 \<Rightarrow> kstate \<Rightarrow> (int \<times> kstate) option" where
  "usys_page_map tx_pa srcenv srcva dstenv dstva perm s =
     usyscall tx_pa 5 True (scast srcenv) srcva (scast dstenv) dstva (scast perm) s"

definition usys_page_unmap :: "(nat \<Rightarrow> u32) \<Rightarrow> u32 \<Rightarrow> vaddr \<Rightarrow> kstate \<Rightarrow> (int \<times> kstate) option" where
  "usys_page_unmap tx_pa envid va s = usyscall tx_pa 6 True (scast envid) va 0 0 0 s"

definition usys_exofork :: "(nat \<Rightarrow> u32) \<Rightarrow> kstate \<Rightarrow> (int \<times> kstate) option" where
  "usys_exofork tx_pa s = usyscall tx_pa 7 False 0 0 0 0 0 s"

definition usys_env_set_status :: "(nat \<Rightarrow> u32) \<Rightarrow> u32 \<Rightarrow> u32 \<Rightarrow> kstate \<Rightarrow> (int \<times> kstate) option" where
  "usys_env_set_status tx_pa envid status s = usyscall tx_pa 8 True (scast envid) (scast status) 0 0 0 s"

definition usys_env_set_pgfault_upcall ::
    "(nat \<Rightarrow> u32) \<Rightarrow> u32 \<Rightarrow> vaddr \<Rightarrow> kstate \<Rightarrow> (int \<times> kstate) option" where
  "usys_env_set_pgfault_upcall tx_pa envid upcall s = usyscall tx_pa 11 True (scast envid) upcall 0 0 0 s"

definition usys_ipc_try_send ::
    "(nat \<Rightarrow> u32) \<Rightarrow> u32 \<Rightarrow> u64 \<Rightarrow> vaddr \<Rightarrow> u32 \<Rightarrow> kstate \<Rightarrow> (int \<times> kstate) option" where
  "usys_ipc_try_send tx_pa envid val srcva perm s = usyscall tx_pa 12 False (scast envid) val srcva (scast perm) 0 s"

definition usys_uvpt_pte :: "(nat \<Rightarrow> u32) \<Rightarrow> vaddr \<Rightarrow> kstate \<Rightarrow> (int \<times> kstate) option" where
  "usys_uvpt_pte tx_pa srcva s = usyscall tx_pa 15 False srcva 0 0 0 0 s"

definition usys_copy_shared_pages :: "(nat \<Rightarrow> u32) \<Rightarrow> u32 \<Rightarrow> kstate \<Rightarrow> (int \<times> kstate) option" where
  "usys_copy_shared_pages tx_pa child s = usyscall tx_pa 16 True (scast child) 0 0 0 0 s"

section \<open>Library functions on kernel tables\<close>

text \<open>The table of environments and the page array are mapped read-only in every address space.\<close>

definition ipc_find_env :: "EnvType \<Rightarrow> kstate \<Rightarrow> u32" where
  "ipc_find_env type s =
     (case List.find (\<lambda>i. env_type (envs s i) = type) [0..<NENV] of
        Some i \<Rightarrow> env_id (envs s i)
      | None \<Rightarrow> 0)"

text \<open>The stub returns the entry as an \<^verbatim>\<open>int\<close>, which is sign-extended to the 64 bits of
  \<^verbatim>\<open>pte_t\<close>.\<close>

definition pageref :: "(nat \<Rightarrow> u32) \<Rightarrow> vaddr \<Rightarrow> kstate \<Rightarrow> (int \<times> kstate) option" where
  "pageref tx_pa v s = do {
     (r, s1) \<leftarrow> usys_uvpt_pte tx_pa v s;
     let pte = (word_of_int r :: u64);
     if pte AND PTE_V = 0 then Some (0, s1)
     else Some (uint (pp_ref (pages s1 (PGNUM (push_bit 12 (drop_bit 10 pte))))), s1) }"

section \<open>Memory of the running environment\<close>

primrec ucopy_up :: "vaddr \<Rightarrow> vaddr \<Rightarrow> nat \<Rightarrow> kstate \<Rightarrow> kstate option" where
  "ucopy_up d p 0 s = Some s"
| "ucopy_up d p (Suc n) s = do { b \<leftarrow> load_byte p s; s1 \<leftarrow> store_byte d b s; ucopy_up (d + 1) (p + 1) n s1 }"

primrec ucopy_down :: "vaddr \<Rightarrow> vaddr \<Rightarrow> nat \<Rightarrow> kstate \<Rightarrow> kstate option" where
  "ucopy_down d p 0 s = Some s"
| "ucopy_down d p (Suc n) s = do {
     b \<leftarrow> load_byte (p - 1) s; s1 \<leftarrow> store_byte (d - 1) b s; ucopy_down (d - 1) (p - 1) n s1 }"

definition user_memmove :: "vaddr \<Rightarrow> vaddr \<Rightarrow> u64 \<Rightarrow> kstate \<Rightarrow> kstate option" where
  "user_memmove dst src n s =
     (if src < dst \<and> src + n > dst then ucopy_down (dst + n) (src + n) (unat n) s
      else ucopy_up dst src (unat n) s)"

section \<open>The stubs reach the kernel functions\<close>

lemma id_cast [simp]: "(ucast (scast (w :: u32) :: u64) :: u32) = w"
  by (rule bit_word_eqI) (simp add: bit_unsigned_iff bit_signed_iff)

lemma usys_page_alloc_ok:
  "sys_page_alloc envid va perm s = Some (r, s') \<Longrightarrow> r \<le> 0 \<Longrightarrow> usys_page_alloc tx_pa envid va perm s = Some (r, s')"
  by (simp add: usys_page_alloc_def usyscall_def syscall_def)

lemma usys_page_map_ok:
  "sys_page_map e1 va1 e2 va2 perm s = Some (r, s') \<Longrightarrow> r \<le> 0 \<Longrightarrow>
   usys_page_map tx_pa e1 va1 e2 va2 perm s = Some (r, s')"
  by (simp add: usys_page_map_def usyscall_def syscall_def)

lemma usys_page_unmap_ok:
  "sys_page_unmap envid va s = Some (r, s') \<Longrightarrow> r \<le> 0 \<Longrightarrow> usys_page_unmap tx_pa envid va s = Some (r, s')"
  by (simp add: usys_page_unmap_def usyscall_def syscall_def)

lemma usys_getenvid_ok: "curenv s = Some c \<Longrightarrow> usys_getenvid tx_pa s = Some (sint (env_id (envs s c)), s)"
  by (simp add: usys_getenvid_def usyscall_def syscall_def sys_getenvid_def)

section \<open>What an address space shows\<close>

definition page_byte :: "kstate \<Rightarrow> paddr \<Rightarrow> nat \<Rightarrow> u8" where
  "page_byte s pa off = get_byte (pmem s pa (off div 8)) (off mod 8)"

definition ubyte :: "kstate \<Rightarrow> paddr \<Rightarrow> vaddr \<Rightarrow> u8 option" where
  "ubyte s r va = (let e = va_pte s r va in
     if pte_valid e then Some (page_byte s (PTE_PHY e) (unat (PGOFF va))) else None)"

lemma bit_set_byte:
  "bit (set_byte w k b) m \<longleftrightarrow> m < 64 \<and> (if 8 * k \<le> m \<and> m < 8 * k + 8 then bit b (m - 8 * k) else bit w m)"
proof -
  have ff: "(0xFF :: u64) = mask 8" by (simp add: mask_eq_exp_minus_1)
  have "m < 64" if "bit w m" using bit_imp_le_length [OF that] by simp
  moreover have "m - 8 * k < 8" if "bit b (m - 8 * k)" using bit_imp_le_length [OF that] by simp
  ultimately show ?thesis
    unfolding set_byte_def ff
    by (auto simp: bit_unsigned_iff bit_or_iff bit_and_iff bit_not_iff bit_push_bit_iff bit_mask_iff)
qed

lemma get_set_byte: "j < 8 \<Longrightarrow> k < 8 \<Longrightarrow> get_byte (set_byte w k b) j = (if j = k then b else get_byte w j)"
proof (rule bit_word_eqI)
  fix i assume jk: "j < 8" "k < 8" and "i < LENGTH(8)"
  then have i: "i < 8" by simp
  have "8 * k \<le> 8 * j + i \<and> 8 * j + i < 8 * k + 8 \<longleftrightarrow> j = k" "8 * j + i < 64" using jk i by arith+
  then show "bit (get_byte (set_byte w k b) j) i \<longleftrightarrow> bit (if j = k then b else get_byte w j) i"
    using i by (simp add: get_byte_def bit_unsigned_iff bit_drop_bit_eq bit_set_byte)
qed

lemma TPGNUM_PD0X: "TPGNUM va = TPGNUM va' \<Longrightarrow> PD0X va = PD0X va'"
  by (simp add: TPGNUM_eq_iff)

lemma va_pte_page: "TPGNUM va = TPGNUM va' \<Longrightarrow> va_pte s r va = va_pte s r va'"
  by (simp add: va_pte_def ixs_eq_iff [symmetric])

lemma pte_valid_nonzero: "pte_valid e \<Longrightarrow> e \<noteq> 0"
  by (auto simp: pte_valid_def)

lemma page_notin:
  assumes inv: "vm_inv s R S U xs" and n: "n < npages s" "n \<notin> set xs"
  shows "page2pa n \<notin> page2pa ` set xs"
proof
  assume "page2pa n \<in> page2pa ` set xs"
  then obtain m where m: "m \<in> set xs" "page2pa n = page2pa m" by auto
  then have "m < npages s" using alloc_invD(3) [OF vm_invD(1) [OF inv]] by blast
  with n m vm_invD(6) [OF inv] have "n = m" by (metis order_less_le_trans page2pa_inj)
  with m n show False by simp
qed

text \<open>Mapping or unmapping a page changes what one page of one address space shows, nothing else.\<close>

lemma ubyte_keeps:
  assumes inv: "vm_inv s R S U xs" and m: "maps_page R S xs s r va e s'"
    and r': "r' \<in> R" and va': "PD0X va' \<in> U" and ne: "r' \<noteq> r \<or> TPGNUM va' \<noteq> TPGNUM va"
  shows "ubyte s' r' va' = ubyte s r' va'"
proof -
  have st: "sets_pte R S s r va e s'" and kd: "keeps_data R S xs s s'" using m by (auto simp: maps_page_def)
  have v: "va_pte s' r' va' = va_pte s r' va'"
    using sets_pte_va [OF st r' vm_inv_US [OF inv va']] ne by auto
  show ?thesis
  proof (cases "pte_valid (va_pte s r' va')")
    case True
    note mp = mapped_page [OF inv r' va' pte_valid_nonzero [OF True]]
    have "page2pa (pte_frame (va_pte s r' va')) \<notin> page2pa ` set xs"
      using page_notin [OF inv mp(2,5)] .
    then have "pmem s' (PTE_PHY (va_pte s r' va')) = pmem s (PTE_PHY (va_pte s r' va'))"
      using kd mp(1,6) by (simp add: keeps_data_def pte_wf_def)
    then show ?thesis by (simp add: ubyte_def page_byte_def v Let_def)
  qed (simp add: ubyte_def v)
qed

section \<open>Reading and writing user memory\<close>

text \<open>\<open>data_write\<close>: only the contents of pages that are not tables changed; the address spaces are the
  same.\<close>

definition data_write :: "paddr set \<Rightarrow> nat set \<Rightarrow> kstate \<Rightarrow> kstate \<Rightarrow> bool" where
  "data_write R S s s' \<longleftrightarrow> (\<exists>m. s' = s\<lparr>pmem := m\<rparr>) \<and>
     (\<forall>r p t. tab_at s R S r p t \<longrightarrow> pmem s' t = pmem s t)"

lemma data_write_inv:
  assumes inv: "vm_inv s R S U xs" and w: "data_write R S s s'"
  shows "vm_inv s' R S U xs" "tab_at s' R S = tab_at s R S"
    "r \<in> R \<Longrightarrow> PD0X va \<in> S \<Longrightarrow> va_pte s' r va = va_pte s r va"
proof -
  obtain m where s': "s' = s\<lparr>pmem := m\<rparr>" using w by (auto simp: data_write_def)
  have al: "alloc_inv s' xs" using vm_invD(1) [OF inv] alloc_inv_cong [of s' s] by (simp add: s')
  have ref: "card (mappings s R U n) \<le> unat (pp_ref (pages s' n))" for n
    using vm_invD(5) [OF inv] by (simp add: maps_ok_def s')
  have m: "pmem s' t = pmem s t" if "tab_at s R S r p t" for r p t using w that by (auto simp: data_write_def)
  have np: "npages s' = npages s" by (simp add: s')
  note fr = vm_inv_frame [OF inv al _ m np ref]
  show "vm_inv s' R S U xs" by (rule fr(1)) auto
  have tb: "\<forall>r \<in> R. \<forall>p \<in> tpaths S. tbl s' r p = tbl s r p" by (rule fr(3)) auto
  then show "tab_at s' R S = tab_at s R S" by (auto simp: tab_at_def fun_eq_iff)
  have "\<forall>r \<in> R. \<forall>q \<in> lpaths S. leaf s' r q = leaf s r q" by (rule fr(2)) auto
  then show "r \<in> R \<Longrightarrow> PD0X va \<in> S \<Longrightarrow> va_pte s' r va = va_pte s r va"
    using ixs_paths(1) by (simp add: va_pte_def)
qed

lemma data_write_refl [simp]: "data_write R S s s"
  by (auto simp: data_write_def intro: exI [of _ "pmem s"])

lemma data_write_trans:
  "data_write R S s s' \<Longrightarrow> tab_at s' R S = tab_at s R S \<Longrightarrow> data_write R S s' s'' \<Longrightarrow> data_write R S s s''"
  by (auto simp: data_write_def)

lemma page_byte_write:
  "page_byte (wr_pte (pa, off div 8) (set_byte (pmem s pa (off div 8)) (off mod 8) b) s) pa' off' =
   (if pa' = pa \<and> off' = off then b else page_byte s pa' off')"
proof (cases "pa' = pa \<and> off' div 8 = off div 8")
  case True
  then have "off' = off \<longleftrightarrow> off' mod 8 = off mod 8" by (metis mod_div_decomp)
  with True show ?thesis by (simp add: page_byte_def get_set_byte)
qed (auto simp: page_byte_def)

lemma store_byte_spec:
  assumes inv: "vm_inv s R S U xs" and r: "satp s \<in> R" and va: "PD0X va \<in> U"
    and e: "pte_valid (va_pte s (satp s) va)" "va_pte s (satp s) va AND PTE_W \<noteq> 0"
  obtains s' where "store_byte va b s = Some s'" "data_write R S s s'"
    "\<And>pa off. page_byte s' pa off = (if pa = page2pa (pte_frame (va_pte s (satp s) va)) \<and> off = unat (PGOFF va)
       then b else page_byte s pa off)"
proof -
  let ?e = "va_pte s (satp s) va" and ?o = "unat (PGOFF va)"
  note mp = mapped_page [OF inv r va pte_valid_nonzero [OF e(1)]]
  have ph: "PTE_PHY ?e = page2pa (pte_frame ?e)" using mp(1) by (simp add: pte_wf_def)
  define s' where "s' = wr_pte (PTE_PHY ?e, ?o div 8) (set_byte (pmem s (PTE_PHY ?e) (?o div 8)) (?o mod 8) b) s"
  have "store_byte va b s = Some s'" using e by (simp add: store_byte_def translate_def s'_def)
  moreover have "pmem s' t = pmem s t" if "tab_at s R S r' p' t" for r' p' t
    using mp(6) that ph by (auto simp: s'_def)
  then have "data_write R S s s'" by (auto simp: data_write_def s'_def wr_pte_def)
  moreover have "page_byte s' pa off = (if pa = page2pa (pte_frame ?e) \<and> off = ?o then b else page_byte s pa off)"
    for pa off unfolding s'_def page_byte_write ph ..
  ultimately show thesis by (rule that)
qed

lemma load_byte_spec:
  "pte_valid (va_pte s (satp s) va) \<Longrightarrow> va_pte s (satp s) va AND PTE_R \<noteq> 0 \<Longrightarrow>
   load_byte va s = Some (page_byte s (PTE_PHY (va_pte s (satp s) va)) (unat (PGOFF va)))"
  by (simp add: load_byte_def translate_def page_byte_def)

text \<open>Copying a page forwards, byte by byte, to a page in another frame.\<close>

lemma ucopy_page:
  assumes inv: "vm_inv s R S U xs" and r: "satp s \<in> R" and pg: "D mod PGSIZE = 0" "P mod PGSIZE = 0"
    and U: "PD0X D \<in> U" "PD0X P \<in> U"
    and d: "pte_valid (va_pte s (satp s) D)" "va_pte s (satp s) D AND PTE_W \<noteq> 0" "pte_frame (va_pte s (satp s) D) = n"
    and p: "pte_valid (va_pte s (satp s) P)" "va_pte s (satp s) P AND PTE_R \<noteq> 0" "pte_frame (va_pte s (satp s) P) = k"
    and ne: "page2pa k \<noteq> page2pa n"
  shows "i + l \<le> 4096 \<Longrightarrow> \<exists>s'. ucopy_up (D + of_nat i) (P + of_nat i) l s = Some s' \<and> data_write R S s s' \<and>
     (\<forall>pa off. page_byte s' pa off = (if pa = page2pa n \<and> i \<le> off \<and> off < i + l then page_byte s (page2pa k) off
        else page_byte s pa off))"
  using inv r d p
proof (induction l arbitrary: i s)
  case (Suc l)
  note inv = Suc.prems(2) and r = Suc.prems(3)
  have i: "i < 4096" using Suc.prems(1) by simp
  note D = page_offset [OF pg(1) i] and P = page_offset [OF pg(2) i]
  have vD: "va_pte s (satp s) (D + of_nat i) = va_pte s (satp s) D" by (rule va_pte_page [OF D(2)])
  have vP: "va_pte s (satp s) (P + of_nat i) = va_pte s (satp s) P" by (rule va_pte_page [OF P(2)])
  have UD: "PD0X (D + of_nat i) \<in> U" using U(1) TPGNUM_PD0X [OF D(2)] by simp
  have "PTE_PHY (va_pte s (satp s) P) = page2pa k"
    using mapped_page(1) [OF inv r U(2) pte_valid_nonzero] Suc.prems(7,9) by (simp add: pte_wf_def)
  then have ld: "load_byte (P + of_nat i) s = Some (page_byte s (page2pa k) i)"
    using load_byte_spec [of s "P + of_nat i"] Suc.prems(7,8) vP P(3) by simp
  obtain s1 where s1: "store_byte (D + of_nat i) (page_byte s (page2pa k) i) s = Some s1" "data_write R S s s1"
    "\<And>pa off. page_byte s1 pa off = (if pa = page2pa n \<and> off = i then page_byte s (page2pa k) i else page_byte s pa off)"
    using store_byte_spec [OF inv r UD] Suc.prems(4-6) vD D(3) by metis
  have st: "satp s1 = satp s" using s1(2) by (auto simp: data_write_def)
  note dw = data_write_inv [OF inv s1(2)]
  have v1: "va_pte s1 (satp s1) D = va_pte s (satp s) D" "va_pte s1 (satp s1) P = va_pte s (satp s) P"
    using dw(3) r vm_inv_US [OF inv] U by (simp_all add: st)
  obtain s2 where s2: "ucopy_up (D + of_nat (Suc i)) (P + of_nat (Suc i)) l s1 = Some s2" "data_write R S s1 s2"
    "\<forall>pa off. page_byte s2 pa off = (if pa = page2pa n \<and> Suc i \<le> off \<and> off < Suc i + l
       then page_byte s1 (page2pa k) off else page_byte s1 pa off)"
    using Suc.IH [of "Suc i" s1] Suc.prems dw(1) v1 st by auto
  have "ucopy_up (D + of_nat i) (P + of_nat i) (Suc l) s = Some s2"
    using ld s1(1) s2(1) by (simp add: algebra_simps)
  moreover have "data_write R S s s2" by (rule data_write_trans [OF s1(2) dw(2) s2(2)])
  moreover have "page_byte s2 pa off = (if pa = page2pa n \<and> i \<le> off \<and> off < i + Suc l then page_byte s (page2pa k) off
      else page_byte s pa off)" for pa off
    using s2(3) s1(3) ne by (cases "off = i") auto
  ultimately show ?case by blast
qed auto

end
