(* ===== verification/Fork_Props.thy ===== *)
theory Fork_Props
  imports Fork
begin

unbundle bit_operations_syntax

text \<open>
  Properties of copy-on-write \<open>fork\<close>. \<open>fork_correct\<close> follows the whole call, from the installation
  of the page fault handler over the creation of the child to the copying of its address space;
  \<open>cow_isolates\<close> follows a write to a copy-on-write page, from the page fault to the retried store.
\<close>

section \<open>Isolation\<close>

text \<open>C1. Copy-on-write isolates: when the running environment writes to a page it can read, whose
  write faulted, the handler succeeds, the retried store succeeds, the environment reads back the byte
  it wrote, and no byte of any other address space, nor any other byte of its own outside the
  temporary page, reads differently than before the fault.\<close>

theorem cow_isolates:
  assumes inv: "vm_inv s R S U xs" and mem: "7 \<le> length xs" and run: "runs_in s c r" and r: "r \<in> R"
    and va: "va < UTOP" "PD0X va \<in> U" "TPGNUM va \<noteq> TPGNUM UTEMP" "0 \<in> U"
    and e: "pte_valid (va_pte s r va)" "va_pte s r va AND PTE_R \<noteq> 0"
    and B: "refs_le s B" "1 \<le> B" "B < 0xFFFE"
  shows "\<exists>s' s'' xs'. pgfault tx_pa va s = Some s' \<and> store_byte va b s' = Some s'' \<and> vm_inv s'' R S U xs' \<and>
     ubyte s'' r va = Some b \<and>
     (\<forall>r' \<in> R. \<forall>va'. PD0X va' \<in> U \<longrightarrow>
        r' \<noteq> r \<or> TPGNUM va' \<noteq> TPGNUM UTEMP \<and> (TPGNUM va' \<noteq> TPGNUM va \<or> PGOFF va' \<noteq> PGOFF va) \<longrightarrow>
        ubyte s'' r' va' = ubyte s r' va')"
proof -
  obtain n ys where xs: "xs = n # ys" "6 \<le> length ys" using mem by (cases xs) auto
  let ?a = "ROUNDDOWN va PGSIZE"
  note ps = page_split [of va]
  have "?a \<le> va" by (simp only: word_le_nat_alt unat_ROUNDDOWN diff_le_self)
  then have a: "?a < UTOP" "PD0X ?a \<in> U" "TPGNUM ?a \<noteq> TPGNUM UTEMP"
    using va TPGNUM_PD0X [OF ps(3)] ps(3) by auto
  have ve: "va_pte s r ?a = va_pte s r va" by (rule va_pte_page [OF ps(3)])
  obtain s' xs' where s': "pgfault tx_pa va s = Some s'" "vm_inv s' R S U xs'" "runs_in s' c r"
    and v: "\<And>r' va. r' \<in> R \<Longrightarrow> PD0X va \<in> S \<Longrightarrow> va_pte s' r' va = (if r' = r \<and> TPGNUM va = TPGNUM UTEMP then 0
       else if r' = r \<and> TPGNUM va = TPGNUM ?a then pte_insert n 0x1F else va_pte s r' va)"
    and ub: "\<And>r' va. r' \<in> R \<Longrightarrow> PD0X va \<in> U \<Longrightarrow> r' \<noteq> r \<or> TPGNUM va \<noteq> TPGNUM UTEMP \<Longrightarrow> ubyte s' r' va = ubyte s r' va"
    by (rule pgfault_ok [OF inv [unfolded xs(1)] xs(2) run r a va(4) refl _ _ B, where tx_pa = tx_pa, unfolded ve,
        OF e], rule that, assumption+)
  note US = vm_inv_US [OF inv]
  have n: "n < npages s" "npages s \<le> 2 ^ 19"
    using alloc_invD(3) [OF vm_invD(1) [OF inv]] vm_invD(6) [OF inv] xs(1) by auto
  note fn = pte_insert_facts [OF n perm_1F(2)]
  have sat: "satp s' = r" using s'(3) by (simp add: runs_in_def)
  have ve': "va_pte s' r va = pte_insert n 0x1F" using v [OF r US [OF va(2)]] va(3) ps(3) by simp
  have w: "pte_insert n 0x1F AND PTE_W \<noteq> 0" by (simp only: pte_bits pte_insert_bit) simp
  obtain s'' where s'': "store_byte va b s' = Some s''" "data_write R S s' s''"
    "\<And>pa off. page_byte s'' pa off = (if pa = page2pa n \<and> off = unat (PGOFF va) then b else page_byte s' pa off)"
    by (rule store_byte_spec [OF s'(2), of va b]) (use sat r va(2) ve' w fn(1) in auto)
  note dw = data_write_inv [OF s'(2) s''(2)]
  have ph: "PTE_PHY (pte_insert n 0x1F) = page2pa n" using fn(1,3) by (simp add: pte_wf_def)
  have "ubyte s'' r va = Some b"
    using dw(3) [OF r US [OF va(2)]] ve' by (simp add: ubyte_def s''(3) ph)
  moreover have "ubyte s'' r' va' = ubyte s r' va'"
    if x: "r' \<in> R" "PD0X va' \<in> U"
      "r' \<noteq> r \<or> TPGNUM va' \<noteq> TPGNUM UTEMP \<and> (TPGNUM va' \<noteq> TPGNUM va \<or> PGOFF va' \<noteq> PGOFF va)" for r' va'
  proof -
    have u: "ubyte s' r' va' = ubyte s r' va'" using ub [OF x(1,2)] x(3) by blast
    have vv: "va_pte s'' r' va' = va_pte s' r' va'" by (rule dw(3) [OF x(1) US [OF x(2)]])
    have "\<not> (PTE_PHY (va_pte s' r' va') = page2pa n \<and> unat (PGOFF va') = unat (PGOFF va))"
      if val: "pte_valid (va_pte s' r' va')"
    proof (cases "r' = r \<and> TPGNUM va' = TPGNUM va")
      case True
      then show ?thesis using x(3) by (auto simp: word_unat_eq_iff)
    next
      case False
      then have "va_pte s' r' va' = va_pte s r' va'"
        using v [OF x(1) US [OF x(2)]] ps(3) x(3) by auto
      then have "va_pte s r' va' \<noteq> 0" "PTE_PHY (va_pte s' r' va') = page2pa (pte_frame (va_pte s r' va'))"
        using pte_valid_nonzero [OF val] mapped_page(1) [OF inv x(1,2)] by (auto simp: pte_wf_def)
      then show ?thesis using page_notin [OF inv] mapped_page(2,5) [OF inv x(1,2)] xs(1) by fastforce
    qed
    then have "ubyte s'' r' va' = ubyte s' r' va'" by (auto simp: ubyte_def vv s''(3) Let_def)
    then show ?thesis using u by simp
  qed
  ultimately show ?thesis using s'(1) s''(1) dw(1) by blast
qed

section \<open>Duplicating pages\<close>

lemma perm_31B: "drop_bit 10 (scast (0x31B :: u32) :: u64) = 0"
proof -
  have "(0x31B :: u32) AND NOT (ucast PTE_SYSCALL) = 0" by (simp add: PTE_SYSCALL_def)
  then show ?thesis by (rule perm_ok)
qed

lemma envid2env_cong: "envs s' = envs s \<Longrightarrow> curenv s' = curenv s \<Longrightarrow> envid2env i b s' = envid2env i b s"
  by (simp add: envid2env_def Let_def)

lemma curenv_maps: "maps_page R S xs s r va e s' \<Longrightarrow> curenv s' = curenv s"
  by (simp add: maps_page_def sets_pte_def)

lemma frame_keeps:
  assumes "vm_inv s R S U xs" "maps_page R S xs s r va e s'" "r' \<in> R" "PD0X va' \<in> U" "va_pte s r' va' \<noteq> 0"
  shows "page_byte s' (PTE_PHY (va_pte s r' va')) off = page_byte s (PTE_PHY (va_pte s r' va')) off"
proof -
  note mp = mapped_page [OF assms(1,3,4,5)]
  have "page2pa (pte_frame (va_pte s r' va')) \<notin> page2pa ` set xs" by (rule page_notin [OF assms(1) mp(2,5)])
  then show ?thesis using assms(2) mp(1,6) by (simp add: maps_page_def keeps_data_def page_byte_def pte_wf_def)
qed

lemma refs_less: "refs_le s B \<Longrightarrow> B < 0xFFFF \<Longrightarrow> pp_ref (pages s k) \<noteq> 0xFFFF"
  by (auto simp: refs_le_def word_unat_eq_iff dest!: spec [of _ k])

lemma duppage_ok:
  assumes inv: "vm_inv s R S U xs" and run: "runs_in s c r" and r: "r \<in> R"
    and ch: "envid2env i True s = Some (0, Some e)" "env_pgdir (envs s e) = Some rc" "rc \<in> R" "rc \<noteq> r"
    and va: "va = pn * PGSIZE" "va < UTOP" "va mod PGSIZE = 0" "PD0X va \<in> U" and v: "pte_valid (va_pte s r va)"
    and mem: "6 \<le> length xs" and B: "refs_le s B" "1 \<le> B" "B < 0xFFFE"
  obtains s' xs' where "duppage tx_pa i pn s = Some (0, s')" "vm_inv s' R S U xs'" "length xs \<le> length xs' + 6"
    "runs_in s' c r" "envs s' = envs s" "refs_le s' (B + 2)"
    "\<And>r' va'. r' \<in> R \<Longrightarrow> PD0X va' \<in> S \<Longrightarrow> va_pte s' r' va' = (if (r' = r \<or> r' = rc) \<and> TPGNUM va' = TPGNUM va
       then pte_insert (pte_frame (va_pte s r va')) 0x31B else va_pte s r' va')"
    "\<And>r' va'. r' \<in> R \<Longrightarrow> PD0X va' \<in> U \<Longrightarrow>
       ubyte s' r' va' = ubyte s (if r' = rc \<and> TPGNUM va' = TPGNUM va then r else r') va'"
proof -
  note US = vm_inv_US [OF inv]
  let ?k = "pte_frame (va_pte s r va)" and ?p = "0x31B :: u32"
  have pg: "env_pgdir (envs s c) = Some r" using run by (simp add: runs_in_def)
  note nz = pte_valid_nonzero [OF v]
  note mp = mapped_page [OF inv r va(4) nz]
  note fk = pte_insert_facts [OF mp(2) vm_invD(6) [OF inv] perm_31B]
  have ph: "PTE_PHY (va_pte s r va) = page2pa ?k" "PTE_PHY (pte_insert ?k ?p) = page2pa ?k"
    using mp(1) fk(1,3) by (auto simp: pte_wf_def)
  have w: "?p AND 4 = 0" by simp
  obtain s2 xs2 where s2: "sys_page_map (env_id (envs s c)) va i va ?p s = Some (0, s2)" "vm_inv s2 R S U xs2"
    "maps_page R S xs s rc va (pte_insert ?k ?p) s2" "length xs \<le> length xs2 + 3"
    by (rule sys_page_map_ok [OF inv runs_in_self [OF run] pg r va(2-4) ch(1-3) va(2-4) nz refl _
          refs_less [OF B(1)] perm_31B]) (use w B mem in auto)
  have st2: "sets_pte R S s rc va (pte_insert ?k ?p) s2" using s2(3) by (simp add: maps_page_def)
  note run2 = runs_in_maps [OF s2(3) run] and e2 = envs_maps [OF s2(3)]
  have B2: "refs_le s2 (Suc B)" using s2(3) B by (simp add: maps_page_def)
  have v2: "va_pte s2 r va = va_pte s r va" using sets_pte_va [OF st2 r US [OF va(4)]] ch(4) by simp
  have id2: "envid2env (env_id (envs s c)) True s2 = Some (0, Some c)" using runs_in_self [OF run2] e2 by simp
  have pg2: "env_pgdir (envs s2 c) = Some r" using pg e2 by simp
  have nz2: "va_pte s2 r va \<noteq> 0" using nz v2 by simp
  obtain s5 xs5 where s5: "sys_page_map (env_id (envs s c)) va (env_id (envs s c)) va ?p s2 = Some (0, s5)"
    "vm_inv s5 R S U xs5" "maps_page R S xs2 s2 r va (pte_insert ?k ?p) s5" "length xs2 \<le> length xs5 + 3"
    by (rule sys_page_map_ok [OF s2(2) id2 pg2 r va(2-4) id2 pg2 r va(2-4) nz2 _ _ refs_less [OF B2] perm_31B])
      (use w B mem s2(4) v2 in auto)
  have st5: "sets_pte R S s2 r va (pte_insert ?k ?p) s5" using s5(3) by (simp add: maps_page_def)
  have call: "duppage tx_pa i pn s = Some (0, s5)"
    using usys_page_map_ok [OF s2(1)] usys_page_map_ok [OF s5(1)] e2 va(1)
    by (simp add: duppage_def runs_in_getenvid [OF run] runs_in_getenvid [OF run2])
  have vv: "va_pte s5 r' va' = (if (r' = r \<or> r' = rc) \<and> TPGNUM va' = TPGNUM va
      then pte_insert (pte_frame (va_pte s r va')) ?p else va_pte s r' va')" if "r' \<in> R" "PD0X va' \<in> S" for r' va'
    using sets_pte_va [OF st5 that] sets_pte_va [OF st2 that] va_pte_page [of va' va s r] by auto
  have pb: "page_byte s5 (page2pa ?k) off = page_byte s (page2pa ?k) off" for off
    using frame_keeps [OF inv s2(3) r va(4) nz] frame_keeps [OF s2(2) s5(3) r va(4) nz2] v2 ph(1) by simp
  have ub: "ubyte s5 r' va' = ubyte s (if r' = rc \<and> TPGNUM va' = TPGNUM va then r else r') va'"
    if x: "r' \<in> R" "PD0X va' \<in> U" for r' va'
  proof (cases "(r' = r \<or> r' = rc) \<and> TPGNUM va' = TPGNUM va")
    case True
    then have "va_pte s5 r' va' = pte_insert ?k ?p" "va_pte s r va' = va_pte s r va"
      using vv [OF x(1) US [OF x(2)]] va_pte_page [of va' va s r] by auto
    then have "ubyte s5 r' va' = ubyte s r va'" using v pb by (simp add: ubyte_def ph)
    then show ?thesis using True by auto
  next
    case False
    have "ubyte s5 r' va' = ubyte s2 r' va'" by (rule ubyte_keeps [OF s2(2) s5(3) x]) (use False in blast)
    also have "\<dots> = ubyte s r' va'" by (rule ubyte_keeps [OF inv s2(3) x]) (use False in blast)
    finally show ?thesis using False by auto
  qed
  show thesis
    by (rule that [OF call s5(2) _ runs_in_maps [OF s5(3) run2] _ _ vv ub])
      (use s2(4) s5(3,4) envs_maps [OF s5(3)] e2 B2 in \<open>auto simp: maps_page_def\<close>)
qed

text \<open>The loop.\<close>

definition in_pages :: "u64 list \<Rightarrow> vaddr \<Rightarrow> bool" where
  "in_pages pns va \<longleftrightarrow> (\<exists>pn \<in> set pns. TPGNUM va = TPGNUM (pn * PGSIZE))"

lemma duppages_ok:
  assumes "vm_inv s R S U xs" "runs_in s c r" "r \<in> R"
    and "envid2env i True s = Some (0, Some e)" "env_pgdir (envs s e) = Some rc" "rc \<in> R" "rc \<noteq> r"
    and "\<forall>pn \<in> set pns. pn * PGSIZE < UTOP \<and> pn * PGSIZE mod PGSIZE = 0 \<and> PD0X (pn * PGSIZE) \<in> U \<and>
      pte_valid (va_pte s r (pn * PGSIZE))"
    and "6 * length pns \<le> length xs" and "refs_le s B" "1 \<le> B" "B + 2 * length pns < 0xFFFF"
  shows "\<exists>s' xs'. duppages tx_pa i pns s = Some s' \<and> vm_inv s' R S U xs' \<and> length xs \<le> length xs' + 6 * length pns \<and>
    runs_in s' c r \<and> envs s' = envs s \<and> refs_le s' (B + 2 * length pns) \<and>
    (\<forall>r' va'. r' \<in> R \<longrightarrow> PD0X va' \<in> S \<longrightarrow> va_pte s' r' va' = (if (r' = r \<or> r' = rc) \<and> in_pages pns va'
       then pte_insert (pte_frame (va_pte s r va')) 0x31B else va_pte s r' va')) \<and>
    (\<forall>r' va'. r' \<in> R \<longrightarrow> PD0X va' \<in> U \<longrightarrow>
       ubyte s' r' va' = ubyte s (if r' = rc \<and> in_pages pns va' then r else r') va')"
  using assms
proof (induction pns arbitrary: s xs B)
  case Nil
  then show ?case by (intro exI [of _ s] exI [of _ xs]) (simp add: in_pages_def)
next
  case (Cons pn pns)
  note inv = Cons.prems(1) and run = Cons.prems(2) and r = Cons.prems(3) and ch = Cons.prems(4-7)
  let ?va = "pn * PGSIZE"
  have va: "?va < UTOP" "?va mod PGSIZE = 0" "PD0X ?va \<in> U" "pte_valid (va_pte s r ?va)" using Cons.prems(8) by auto
  have lim: "6 \<le> length xs" "B < 0xFFFE" using Cons.prems(9,12) by auto
  obtain s1 xs1 where s1: "duppage tx_pa i pn s = Some (0, s1)" "vm_inv s1 R S U xs1" "length xs \<le> length xs1 + 6"
    "runs_in s1 c r" "envs s1 = envs s" "refs_le s1 (B + 2)"
    and v1: "\<And>r' va'. r' \<in> R \<Longrightarrow> PD0X va' \<in> S \<Longrightarrow> va_pte s1 r' va' = (if (r' = r \<or> r' = rc) \<and> TPGNUM va' = TPGNUM ?va
       then pte_insert (pte_frame (va_pte s r va')) 0x31B else va_pte s r' va')"
    and u1: "\<And>r' va'. r' \<in> R \<Longrightarrow> PD0X va' \<in> U \<Longrightarrow>
       ubyte s1 r' va' = ubyte s (if r' = rc \<and> TPGNUM va' = TPGNUM ?va then r else r') va'"
    by (rule duppage_ok [OF inv run r ch refl va lim(1) Cons.prems(10,11) lim(2), where tx_pa = tx_pa], rule that, assumption+)
  note US = vm_inv_US [OF inv]
  have cur: "curenv s1 = curenv s" using s1(4) run by (simp add: runs_in_def)
  have ch1: "envid2env i True s1 = Some (0, Some e)" "env_pgdir (envs s1 e) = Some rc" "rc \<in> R" "rc \<noteq> r"
    using ch s1(5) envid2env_cong [OF s1(5) cur] by auto
  have val: "pte_valid (va_pte s1 r (q * PGSIZE))" if "q \<in> set pns" for q
    using v1 [OF r US] Cons.prems(8) that by simp
  have pns: "\<forall>pn \<in> set pns. pn * PGSIZE < UTOP \<and> pn * PGSIZE mod PGSIZE = 0 \<and> PD0X (pn * PGSIZE) \<in> U \<and>
      pte_valid (va_pte s1 r (pn * PGSIZE))" using Cons.prems(8) val by auto
  have ih: "6 * length pns \<le> length xs1" "1 \<le> B + 2" "B + 2 + 2 * length pns < 0xFFFF"
    using Cons.prems(9,12) s1(3) by auto
  obtain s' xs' where s': "duppages tx_pa i pns s1 = Some s'" "vm_inv s' R S U xs'" "length xs1 \<le> length xs' + 6 * length pns"
    "runs_in s' c r" "envs s' = envs s1" "refs_le s' (B + 2 + 2 * length pns)"
    and v': "\<forall>r' va'. r' \<in> R \<longrightarrow> PD0X va' \<in> S \<longrightarrow> va_pte s' r' va' = (if (r' = r \<or> r' = rc) \<and> in_pages pns va'
       then pte_insert (pte_frame (va_pte s1 r va')) 0x31B else va_pte s1 r' va')"
    and u': "\<forall>r' va'. r' \<in> R \<longrightarrow> PD0X va' \<in> U \<longrightarrow>
       ubyte s' r' va' = ubyte s1 (if r' = rc \<and> in_pages pns va' then r else r') va'"
    using Cons.IH [OF s1(2,4) r ch1 pns ih(1) s1(6) ih(2,3)] by blast
  have ip: "in_pages (pn # pns) va' \<longleftrightarrow> TPGNUM va' = TPGNUM ?va \<or> in_pages pns va'" for va' by (auto simp: in_pages_def)
  have fr: "pte_frame (va_pte s1 r va') = pte_frame (va_pte s r va')" if "PD0X va' \<in> S" for va'
  proof -
    have e: "TPGNUM va' = TPGNUM ?va \<Longrightarrow> va_pte s r va' = va_pte s r ?va" by (rule va_pte_page)
    have f: "pte_frame (pte_insert (pte_frame (va_pte s r ?va)) 0x31B) = pte_frame (va_pte s r ?va)"
      by (rule pte_insert_facts(1) [OF mapped_page(2) [OF inv r va(3) pte_valid_nonzero [OF va(4)]] vm_invD(6) [OF inv] perm_31B])
    show ?thesis using v1 [OF r that] e f by auto
  qed
  have "va_pte s' r' va' = (if (r' = r \<or> r' = rc) \<and> in_pages (pn # pns) va'
       then pte_insert (pte_frame (va_pte s r va')) 0x31B else va_pte s r' va')" if "r' \<in> R" "PD0X va' \<in> S" for r' va'
    using v' v1 [OF that] fr [OF that(2)] that by (simp add: ip)
  moreover have "ubyte s' r' va' = ubyte s (if r' = rc \<and> in_pages (pn # pns) va' then r else r') va'"
    if "r' \<in> R" "PD0X va' \<in> U" for r' va'
    using u' u1 [OF that] u1 [OF r that(2)] that ch(4) by (cases "r' = rc") (simp_all add: ip)
  ultimately show ?case
    using s1(1,3,5) s'(1-6) by (intro exI [of _ s'] exI [of _ xs']) (simp add: algebra_simps)
qed

section \<open>The file descriptor area\<close>

definition fd_va :: "nat \<Rightarrow> vaddr" where
  "fd_va i = 0xD0000000 + of_nat i * PGSIZE"

lemma fd_va_facts:
  assumes "i < 64"
  shows "fd_va i < UTOP" "fd_va i mod PGSIZE = 0" "PD0X (fd_va i) = 0" "TPGNUM (fd_va i) = 0xD0000 + i"
proof -
  have u: "unat (fd_va i) = 0xD0000000 + i * 4096"
    using assms by (simp add: fd_va_def unat_word_ariths unat_of_nat)
  show "fd_va i < UTOP" using assms by (simp add: word_less_nat_alt u)
  show "fd_va i mod PGSIZE = 0" by (simp add: word_unat_eq_iff unat_mod_distrib u)
  show "PD0X (fd_va i) = 0" using assms by (simp add: PDX_eq u)
  show "TPGNUM (fd_va i) = 0xD0000 + i" using assms by (simp add: TPGNUM_div u)
qed

lemma share_perm:
  fixes w :: u64
  defines "p \<equiv> (ucast (w AND PTE_SYSCALL) :: u32)"
  shows "drop_bit 10 (scast (0x200 OR p OR 0x10 :: u32) :: u64) = 0"
    "(0x200 OR p OR 0x10 :: u32) AND 0x4 = 0 \<or> w AND PTE_W \<noteq> 0" "p AND 0x200 \<noteq> 0 \<longleftrightarrow> bit w 9"
proof -
  let ?P = "ucast PTE_SYSCALL :: u32"
  have p: "p = ucast w AND ?P" by (simp add: p_def unsigned_and_eq)
  have b: "bit ?P 2" "bit ?P 9" by (simp_all add: PTE_SYSCALL_def)
  have pb: "bit p 2 \<longleftrightarrow> bit w 2" "bit p 9 \<longleftrightarrow> bit w 9" using b by (simp_all add: p bit_and_iff bit_unsigned_iff)
  have z: "(0x200 :: u32) AND NOT ?P = 0" "(0x10 :: u32) AND NOT ?P = 0" by (simp_all add: PTE_SYSCALL_def)
  have "(0x200 OR p OR 0x10) AND NOT ?P = (0x200 AND NOT ?P) OR (p AND NOT ?P) OR (0x10 AND NOT ?P)"
    by (simp only: bit.conj_disj_distrib2)
  also have "p AND NOT ?P = 0" by (simp add: p and.assoc)
  finally show "drop_bit 10 (scast (0x200 OR p OR 0x10 :: u32) :: u64) = 0" using z by (intro perm_ok) simp
  have "(0x200 OR p OR 0x10 :: u32) AND 0x4 \<noteq> 0 \<longleftrightarrow> bit (0x200 OR p OR 0x10 :: u32) 2"
    using and_exp_eq_0_iff_not_bit [of "0x200 OR p OR 0x10 :: u32" 2] by simp
  also have "\<dots> \<longleftrightarrow> bit w 2" using pb(1) by (simp add: bit_or_iff)
  finally show "(0x200 OR p OR 0x10 :: u32) AND 0x4 = 0 \<or> w AND PTE_W \<noteq> 0" by (auto simp: pte_bits)
  show "p AND 0x200 \<noteq> 0 \<longleftrightarrow> bit w 9" using and_exp_eq_0_iff_not_bit [of p 9] pb(2) by simp
qed

definition in_fds :: "nat list \<Rightarrow> vaddr \<Rightarrow> bool" where
  "in_fds is va \<longleftrightarrow> (\<exists>i \<in> set is. TPGNUM va = TPGNUM (fd_va i))"

lemma copy_shared_ok:
  assumes "vm_inv s R S U xs" "curenv s = Some c" "env_pgdir (envs s c) = Some r" "r \<in> R"
    and "envid2env ch True s = Some (0, Some e)" "env_pgdir (envs s e) = Some rc" "rc \<in> R" "rc \<noteq> r"
    and "0 \<in> U" "\<forall>i \<in> set is. i < 64"
    and "3 * length is \<le> length xs" "refs_le s B" "1 \<le> B" "B + length is < 0xFFFF"
  shows "\<exists>s' xs'. copy_shared ch is s = Some (0, s') \<and> vm_inv s' R S U xs' \<and> length xs \<le> length xs' + 3 * length is \<and>
    envs s' = envs s \<and> curenv s' = curenv s \<and> satp s' = satp s \<and> refs_le s' (B + length is) \<and>
    (\<forall>r' \<in> R. \<forall>va'. PD0X va' \<in> S \<longrightarrow> r' \<noteq> rc \<or> \<not> in_fds is va' \<longrightarrow> va_pte s' r' va' = va_pte s r' va') \<and>
    (\<forall>r' \<in> R. \<forall>va'. PD0X va' \<in> U \<longrightarrow> r' \<noteq> rc \<or> \<not> in_fds is va' \<longrightarrow> ubyte s' r' va' = ubyte s r' va') \<and>
    (\<forall>i \<in> set is. bit (va_pte s r (fd_va i)) 9 \<longrightarrow> va_pte s' rc (fd_va i) \<noteq> 0 \<and>
       pte_frame (va_pte s' rc (fd_va i)) = pte_frame (va_pte s r (fd_va i)))"
  using assms
proof (induction "is" arbitrary: s xs B)
  case Nil
  then show ?case by (intro exI [of _ s] exI [of _ xs]) simp
next
  case (Cons i "is")
  note inv = Cons.prems(1) and cur = Cons.prems(2,3) and r = Cons.prems(4) and ch = Cons.prems(5-8)
  note US = vm_inv_US [OF inv]
  let ?va = "fd_va i" and ?w = "va_pte s r (fd_va i)"
  have i: "i < 64" using Cons.prems(10) by simp
  note f = fd_va_facts [OF i]
  have U: "PD0X ?va \<in> U" using f(3) Cons.prems(9) by simp
  have wk: "pgdir_walk r ?va False s = Some (slot s r ?va, s)"
    by (simp add: pgdir_walk_def walk_through_spec [OF inv r US [OF U]] split: option.splits)
  define p where "p = (ucast (?w AND PTE_SYSCALL) :: u32)"
  note sp = share_perm [of ?w, folded p_def]
  obtain s1 xs1 where s1: "copy_shared ch (i # is) s = copy_shared ch is s1" "vm_inv s1 R S U xs1"
    "length xs \<le> length xs1 + 3" "envs s1 = envs s" "curenv s1 = curenv s" "satp s1 = satp s" "refs_le s1 (Suc B)"
    "\<And>r' va'. r' \<in> R \<Longrightarrow> PD0X va' \<in> S \<Longrightarrow> r' \<noteq> rc \<or> TPGNUM va' \<noteq> TPGNUM ?va \<Longrightarrow> va_pte s1 r' va' = va_pte s r' va'"
    "\<And>r' va'. r' \<in> R \<Longrightarrow> PD0X va' \<in> U \<Longrightarrow> r' \<noteq> rc \<or> TPGNUM va' \<noteq> TPGNUM ?va \<Longrightarrow> ubyte s1 r' va' = ubyte s r' va'"
    "bit ?w 9 \<Longrightarrow> va_pte s1 rc ?va \<noteq> 0 \<and> pte_frame (va_pte s1 rc ?va) = pte_frame ?w"
  proof (cases "bit ?w 9")
    case False
    then have "copy_shared ch (i # is) s = copy_shared ch is s"
      using cur wk sp(3) by (auto simp: fd_va_def [symmetric] va_pte_slot p_def Let_def split: option.splits)
    moreover have "refs_le s (Suc B)" using Cons.prems(12) unfolding refs_le_def by (meson le_SucI)
    ultimately show thesis using that [of s xs] inv False by simp
  next
    case True
    then have nz: "?w \<noteq> 0" by auto
    then obtain q where q: "slot s r ?va = Some q" "rd_pte s q = ?w" by (auto simp: va_pte_slot split: option.splits)
    have self: "envid2env 0 True s = Some (0, Some c)" using cur by (simp add: envid2env_def)
    obtain s1 xs1 where s1: "sys_page_map 0 ?va ch ?va (0x200 OR p OR 0x10) s = Some (0, s1)" "vm_inv s1 R S U xs1"
      "maps_page R S xs s rc ?va (pte_insert (pte_frame ?w) (0x200 OR p OR 0x10)) s1" "length xs \<le> length xs1 + 3"
      by (rule sys_page_map_ok [OF inv self cur(2) r f(1,2) U ch(1-3) f(1,2) U nz refl sp(2) refs_less [OF Cons.prems(12)] sp(1)])
        (use Cons.prems(11,14) in auto)
    have st: "sets_pte R S s rc ?va (pte_insert (pte_frame ?w) (0x200 OR p OR 0x10)) s1" using s1(3) by (simp add: maps_page_def)
    have call: "copy_shared ch (i # is) s = copy_shared ch is s1"
      using cur wk q sp(3) True s1(1) by (simp add: fd_va_def [symmetric] p_def Let_def)
    have fr: "pte_frame (pte_insert (pte_frame ?w) (0x200 OR p OR 0x10)) = pte_frame ?w"
      "pte_insert (pte_frame ?w) (0x200 OR p OR 0x10) \<noteq> 0"
      using pte_insert_facts [OF mapped_page(2) [OF inv r U nz] vm_invD(6) [OF inv] sp(1)] by auto
    show thesis
    proof (rule that [OF call s1(2,4)])
      show "va_pte s1 r' va' = va_pte s r' va'"
        if "r' \<in> R" "PD0X va' \<in> S" "r' \<noteq> rc \<or> TPGNUM va' \<noteq> TPGNUM ?va" for r' va'
        using sets_pte_va [OF st that(1,2)] that(3) by auto
      show "va_pte s1 rc ?va \<noteq> 0 \<and> pte_frame (va_pte s1 rc ?va) = pte_frame ?w"
        using sets_pte_va [OF st ch(3) US [OF U]] fr by simp
    qed (use s1(3) Cons.prems(12,13) ubyte_keeps [OF inv s1(3)] in \<open>auto simp: maps_page_def sets_pte_def\<close>)
  qed
  have ch1: "envid2env ch True s1 = Some (0, Some e)" "env_pgdir (envs s1 e) = Some rc" "rc \<in> R" "rc \<noteq> r"
    using ch s1(4) envid2env_cong [OF s1(4,5)] by auto
  have cur1: "curenv s1 = Some c" "env_pgdir (envs s1 c) = Some r" using cur s1(4,5) by auto
  have ih: "\<forall>i \<in> set is. i < 64" "3 * length is \<le> length xs1" "1 \<le> Suc B" "Suc B + length is < 0xFFFF"
    using Cons.prems(10,11,14) s1(3) by auto
  obtain s' xs' where s': "copy_shared ch is s1 = Some (0, s')" "vm_inv s' R S U xs'" "length xs1 \<le> length xs' + 3 * length is"
    "envs s' = envs s1" "curenv s' = curenv s1" "satp s' = satp s1" "refs_le s' (Suc B + length is)"
    "\<forall>r' \<in> R. \<forall>va'. PD0X va' \<in> S \<longrightarrow> r' \<noteq> rc \<or> \<not> in_fds is va' \<longrightarrow> va_pte s' r' va' = va_pte s1 r' va'"
    "\<forall>r' \<in> R. \<forall>va'. PD0X va' \<in> U \<longrightarrow> r' \<noteq> rc \<or> \<not> in_fds is va' \<longrightarrow> ubyte s' r' va' = ubyte s1 r' va'"
    "\<forall>i \<in> set is. bit (va_pte s1 r (fd_va i)) 9 \<longrightarrow> va_pte s' rc (fd_va i) \<noteq> 0 \<and>
       pte_frame (va_pte s' rc (fd_va i)) = pte_frame (va_pte s1 r (fd_va i))"
    using Cons.IH [OF s1(2) cur1 r ch1 Cons.prems(9) ih(1,2) s1(7) ih(3,4)] by blast
  have ip: "in_fds (i # is) va \<longleftrightarrow> TPGNUM va = TPGNUM ?va \<or> in_fds is va" for va by (auto simp: in_fds_def)
  have vr: "va_pte s1 r (fd_va j) = va_pte s r (fd_va j)" if "j < 64" for j
    using s1(8) [OF r US] ch(4) Cons.prems(9) fd_va_facts(3) [OF that] by auto
  have last: "va_pte s' rc (fd_va j) \<noteq> 0 \<and> pte_frame (va_pte s' rc (fd_va j)) = pte_frame (va_pte s r (fd_va j))"
    if j: "j \<in> set (i # is)" "bit (va_pte s r (fd_va j)) 9" for j
  proof (cases "j \<in> set is")
    case True
    then show ?thesis using s'(10) j(2) vr ih(1) by auto
  next
    case False
    then have ji: "j = i" using j by simp
    have "\<not> in_fds is ?va" using False ih(1) i fd_va_facts(4) unfolding in_fds_def ji by auto
    then have "va_pte s' rc ?va = va_pte s1 rc ?va" using s'(8) ch(3) US [OF U] by blast
    then show ?thesis using s1(10) j(2) ji by simp
  qed
  show ?case
    by (intro exI [of _ s'] exI [of _ xs']) (use s1 s' last in \<open>auto simp: ip\<close>)
qed

section \<open>Creating the child\<close>

lemma exofork_ok:
  assumes inv: "vm_inv s R S U (n # xs)" and S: "S \<inter> kernel_slots = {}" and run: "runs_in s c r" and r: "r \<in> R"
    and fl: "env_free_list s = Some e" "e < NENV" "e \<noteq> c" and k: "kern_pgdir s \<noteq> page2pa n"
    and B: "refs_le s B" "1 \<le> B"
  obtains s' i where "usys_exofork tx_pa s = Some (sint i, s')" "0 < sint i"
    "vm_inv s' (insert (page2pa n) R) S U xs" "page2pa n \<notin> R" "runs_in s' c r" "refs_le s' B"
    "envid2env i True s' = Some (0, Some e)" "env_id (envs s' e) = i" "env_parent_id (envs s' e) = env_id (envs s c)"
    "env_status (envs s' e) = ENV_NOT_RUNNABLE" "env_pgdir (envs s' e) = Some (page2pa n)"
    "tf_a0 (env_tf (envs s' e)) = 0" "tf_sepc (env_tf (envs s' e)) = tf_sepc (env_tf (envs s c)) + 4"
    "env_pgfault_upcall (envs s' e) = env_pgfault_upcall (envs s c)" "\<And>j. j \<noteq> e \<Longrightarrow> envs s' j = envs s j"
    "\<And>r' va. r' \<in> R \<Longrightarrow> PD0X va \<in> S \<Longrightarrow> va_pte s' r' va = va_pte s r' va"
    "\<And>r' va. r' \<in> R \<Longrightarrow> PD0X va \<in> U \<Longrightarrow> ubyte s' r' va = ubyte s r' va"
proof -
  let ?par = "env_parent_id (envs s c)" and ?i = "next_env_id (env_id (envs s e)) e"
  obtain s1 where s1: "env_alloc ?par s = Some ((0, Some e), s1)" "alloc_inv s1 xs"
    "pmem s1 = (pmem s)(page2pa n := env_pgdir_init s (page2pa n))"
    "envs s1 = (envs s)(e := (envs s e)\<lparr>env_pgdir := Some (page2pa n), env_id := ?i,
       env_parent_id := ?par, env_type := ENV_TYPE_USER, env_status := ENV_RUNNABLE, env_runs := 0,
       env_tf := zero_tf\<lparr>tf_sp := USTACKTOP, tf_status := sstatus s OR 0x20, tf_tp := env_addr s e\<rparr>,
       env_pgfault_upcall := 0, env_ipc_recving := False\<rparr>)"
    "\<forall>m. m \<noteq> n \<longrightarrow> pages s1 m = pages s m" "npages s1 = npages s" "curenv s1 = curenv s"
    "satp s1 = satp s" "pp_ref (pages s1 n) = 1"
    by (rule env_alloc_ok [OF fl(1) vm_invD(1) [OF inv] k])
  note id = next_env_id_facts [OF fl(2)]
  define s' where "s' = snd (the (sys_exofork s))"
  have cur: "curenv s = Some c" using run by (simp add: runs_in_def)
  have f: "\<exists>t. s' = s1\<lparr>envs := (envs s1)(e := t)\<rparr>" "sys_exofork s = Some (sint ?i, s')"
    using fl(3) by (simp_all add: s'_def sys_exofork_def cur s1(1,4) Let_def upd_env_def) blast
  then obtain t where t: "s' = s1\<lparr>envs := (envs s1)(e := t)\<rparr>" by blast
  have ev: "envs s' e = (envs s1 e)\<lparr>env_status := ENV_NOT_RUNNABLE, env_parent_id := env_id (envs s c),
      env_ipc_recving := False, env_pgfault_upcall := env_pgfault_upcall (envs s c),
      env_tf := (env_tf (envs s c))\<lparr>tf_a0 := 0, tf_sepc := tf_sepc (env_tf (envs s c)) + 4, tf_tp := env_addr s1 e\<rparr>\<rparr>"
    using fl(3) by (simp add: s'_def sys_exofork_def cur s1(1,4) Let_def env_addr_def)
  have ej: "envs s' j = envs s j" if "j \<noteq> e" for j using that s1(4) by (simp add: t)
  have sub: "pmem s' = pmem s1" "npages s' = npages s1" "pages s' = pages s1" "page_free_list s' = page_free_list s1"
    "curenv s' = Some c" "satp s' = satp s" using t s1(7,8) cur by auto
  have al: "alloc_inv s' xs" using s1(2) alloc_inv_cong [of s' s1] sub by simp
  have pm: "pmem s' = (pmem s)(page2pa n := env_pgdir_init s (page2pa n))" using sub(1) s1(3) by simp
  note nr = vm_inv_new_root [OF inv al S pm]
  have pr: "\<forall>m. m \<noteq> n \<longrightarrow> pages s' m = pages s m" "npages s' = npages s" using sub s1(5,6) by auto
  have nt: "\<not> tab_at s R S r' p (page2pa n)" for r' p
    using not_tab_page [OF inv] alloc_invD(3) [OF vm_invD(1) [OF inv]] by simp
  then have nR: "page2pa n \<notin> R" using tab_at_def [of s R S "page2pa n" "[]"] by auto
  have ub: "ubyte s' r' va = ubyte s r' va" if x: "r' \<in> R" "PD0X va \<in> U" for r' va
  proof -
    have v: "va_pte s' r' va = va_pte s r' va" using nr(2) [OF pr] x vm_inv_US [OF inv] by blast
    have "PTE_PHY (va_pte s r' va) \<noteq> page2pa n" if "pte_valid (va_pte s r' va)"
      using mapped_page(1,2,5) [OF inv x pte_valid_nonzero [OF that]] page_notin [OF inv] by (fastforce simp: pte_wf_def)
    then show ?thesis by (simp add: ubyte_def v page_byte_def pm Let_def)
  qed
  have ref: "refs_le s' B"
    unfolding refs_le_def
  proof
    fix m show "unat (pp_ref (pages s' m)) \<le> B"
      using B pr(1) s1(9) sub(3) by (cases "m = n") (simp_all add: refs_le_def)
  qed
  have call: "usys_exofork tx_pa s = Some (sint ?i, s')" using f(2) by (simp add: usys_exofork_def usyscall_def syscall_def)
  have run': "runs_in s' c r" using run sub ej [of c] fl(3) by (simp add: runs_in_def)
  have look: "envid2env ?i True s' = Some (0, Some e)"
    using id(2,3) ev s1(4) sub(5) ej [of c] fl(3) by (simp add: envid2env_def Let_def)
  show thesis
    by (rule that [OF call id(1) nr(1) [OF pr] nR run' ref look _ _ _ _ _ _ _ ej _ ub])
      (use ev s1(4) nr(2) [OF pr] in auto)
qed

section \<open>Installing the handler\<close>

abbreviation (input) UXPAGE :: vaddr where "UXPAGE \<equiv> UXSTACKTOP - PGSIZE"

lemma UXPAGE_facts: "UXPAGE < UTOP" "UXPAGE mod PGSIZE = 0" "PD0X UXPAGE = 0x1F7"
  by (simp_all add: PDX_eq)

lemma perm_stack: "(0x16 :: u32) AND NOT (ucast PTE_SYSCALL) = 0" "(0x17 :: u32) AND NOT (ucast PTE_SYSCALL) = 0"
  by (simp_all add: PTE_SYSCALL_def)

lemma ubyte_cong: "pmem s' = pmem s \<Longrightarrow> ubyte s' r va = ubyte s r va"
  by (simp add: ubyte_def page_byte_def va_pte_cong [of s' s] Let_def)

lemma upd_env_vm [simp]:
  "vm_inv (upd_env i f s) R S U xs = vm_inv s R S U xs" "va_pte (upd_env i f s) r va = va_pte s r va"
  "ubyte (upd_env i f s) r va = ubyte s r va" "refs_le (upd_env i f s) B = refs_le s B"
  by (rule vm_inv_cong; simp) (simp_all add: va_pte_cong [of "upd_env i f s" s] ubyte_cong [of "upd_env i f s" s] refs_le_def)

lemma handler_ok:
  assumes inv: "vm_inv s R S U xs" and mem: "4 \<le> length xs" and run: "runs_in s c r" and r: "r \<in> R"
    and X: "0x1F7 \<in> U" and up: "upcall \<noteq> 0" and B: "refs_le s B" "1 \<le> B"
  obtains s' xs' where "set_pgfault_handler tx_pa upcall h g s = Some (h, s')" "vm_inv s' R S U xs'"
    "length xs \<le> length xs' + 4" "runs_in s' c r" "refs_le s' (Suc B)" "kregs s' = kregs s"
    "\<And>j. j \<noteq> c \<Longrightarrow> envs s' j = envs s j" "env_id (envs s' c) = env_id (envs s c)"
    "env_tf (envs s' c) = env_tf (envs s c)" "g = 0 \<longrightarrow> env_pgfault_upcall (envs s' c) = upcall"
    "\<And>r' va. r' \<in> R \<Longrightarrow> PD0X va \<in> S \<Longrightarrow> r' \<noteq> r \<or> TPGNUM va \<noteq> TPGNUM UXPAGE \<Longrightarrow> va_pte s' r' va = va_pte s r' va"
    "\<And>r' va. r' \<in> R \<Longrightarrow> PD0X va \<in> U \<Longrightarrow> r' \<noteq> r \<or> TPGNUM va \<noteq> TPGNUM UXPAGE \<Longrightarrow> ubyte s' r' va = ubyte s r' va"
proof (cases "g = 0")
  case False
  have "refs_le s (Suc B)" using B(1) unfolding refs_le_def by (meson le_SucI)
  then show thesis using that [of s xs] False inv run by (simp add: set_pgfault_handler_def)
next
  case True
  obtain n ys where xs: "xs = n # ys" "3 \<le> length ys" using mem by (cases xs) auto
  have pg: "env_pgdir (envs s c) = Some r" using run by (simp add: runs_in_def)
  have XU: "PD0X UXPAGE \<in> U" using UXPAGE_facts(3) X by simp
  obtain s2 xs2 where s2: "sys_page_alloc (env_id (envs s c)) UXPAGE 0x16 s = Some (0, s2)" "vm_inv s2 R S U xs2"
    "maps_page R S (n # ys) s r UXPAGE (pte_insert n 0x16) s2" "length ys \<le> length xs2 + 3"
    by (rule sys_page_alloc_ok [OF inv [unfolded xs(1)] runs_in_self [OF run] pg r UXPAGE_facts(1,2) XU perm_stack(1) xs(2)])
  note run2 = runs_in_maps [OF s2(3) run] and e2 = envs_maps [OF s2(3)]
  have st: "sets_pte R S s r UXPAGE (pte_insert n 0x16) s2" using s2(3) by (simp add: maps_page_def)
  define s3 where "s3 = upd_env c (\<lambda>v. v\<lparr>env_pgfault_upcall := upcall\<rparr>) s2"
  have up3: "usys_env_set_pgfault_upcall tx_pa (env_id (envs s c)) upcall s2 = Some (0, s3)"
    using runs_in_self [OF run2] e2 up
    by (simp add: usys_env_set_pgfault_upcall_def usyscall_def syscall_def sys_env_set_pgfault_upcall_def s3_def)
  have call: "set_pgfault_handler tx_pa upcall h g s = Some (h, s3)"
    using True usys_page_alloc_ok [OF s2(1)] up3
    by (simp add: set_pgfault_handler_def runs_in_getenvid [OF run])
  have kr: "kregs s3 = kregs s" using st by (simp add: sets_pte_def s3_def)
  show thesis
  proof (rule that [OF call _ _ _ _ kr])
    show "ubyte s3 r' va = ubyte s r' va"
      if "r' \<in> R" "PD0X va \<in> U" "r' \<noteq> r \<or> TPGNUM va \<noteq> TPGNUM UXPAGE" for r' va
      using ubyte_keeps [OF inv [unfolded xs(1)] s2(3) that] by (simp add: s3_def)
    show "va_pte s3 r' va = va_pte s r' va"
      if "r' \<in> R" "PD0X va \<in> S" "r' \<noteq> r \<or> TPGNUM va \<noteq> TPGNUM UXPAGE" for r' va
      using sets_pte_va [OF st that(1,2)] that(3) by (auto simp: s3_def)
    show "refs_le s3 (Suc B)" using s2(3) B by (simp add: s3_def maps_page_def)
    show "runs_in s3 c r" using run2 by (simp add: s3_def runs_in_def)
    show "length xs \<le> length xs2 + 4" using s2(4) xs(1) by simp
  qed (use s2(2) e2 in \<open>simp_all add: s3_def\<close>)
qed

section \<open>Fork\<close>

definition forked :: "vaddr \<Rightarrow> u64 list" where
  "forked uend = fork_pages uend @ [(USTACKTOP - PGSIZE) div PGSIZE]"

lemma fork_page:
  fixes uend :: vaddr
  assumes "i < (unat uend - unat (UTEXT :: vaddr) + 4095) div 4096" "uend \<le> 0xD0000000"
  shows "unat ((UTEXT div PGSIZE + of_nat i) * PGSIZE :: u64) = (0x800 + i) * 4096" "i < 0xD0000 - 0x800"
proof -
  have "unat uend \<le> unat (0xD0000000 :: u64)" using assms(2) by (simp only: word_le_nat_alt)
  then have "unat uend - unat (UTEXT :: vaddr) + 4095 \<le> (0xD0000 - 0x800) * 4096 + 4095" by simp
  then have "(unat uend - unat (UTEXT :: vaddr) + 4095) div 4096 \<le> ((0xD0000 - 0x800) * 4096 + 4095) div 4096"
    by (rule div_le_mono)
  with assms(1) show i: "i < 0xD0000 - 0x800" by simp
  then show "unat ((UTEXT div PGSIZE + of_nat i) * PGSIZE :: u64) = (0x800 + i) * 4096"
    by (simp add: unat_word_ariths unat_of_nat)
qed

lemma forked_facts:
  assumes "pn \<in> set (forked uend)" "uend \<le> 0xD0000000" "{0, 0x1F9} \<subseteq> U"
  shows "pn * PGSIZE < UTOP" "pn * PGSIZE mod PGSIZE = 0" "PD0X (pn * PGSIZE) \<in> U" "PD0X (pn * PGSIZE) \<noteq> 0x1F7"
    "\<not> in_fds [0..<64] (pn * PGSIZE)"
proof -
  consider i where "pn = UTEXT div PGSIZE + of_nat i" "unat (pn * PGSIZE) = (0x800 + i) * 4096" "i < 0xD0000 - 0x800"
    | "pn = (USTACKTOP - PGSIZE) div PGSIZE"
    using assms(1) fork_page [OF _ assms(2)] by (auto simp: forked_def fork_pages_def)
  then have "pn * PGSIZE < UTOP \<and> pn * PGSIZE mod PGSIZE = 0 \<and> PD0X (pn * PGSIZE) \<in> {0, 0x1F9} \<and>
      \<not> in_fds [0..<64] (pn * PGSIZE)"
  proof cases
    case 1
    then have "TPGNUM (pn * PGSIZE) = 0x800 + i" "PD0X (pn * PGSIZE) = 0" by (simp_all add: TPGNUM_div PDX_eq)
    moreover have "pn * PGSIZE < UTOP" using 1(2,3) by (simp add: word_less_nat_alt)
    moreover have "pn * PGSIZE mod PGSIZE = 0" using 1(2) by (simp add: word_unat_eq_iff unat_mod_distrib)
    ultimately show ?thesis using 1(3) by (auto simp: in_fds_def fd_va_facts)
  next
    case 2
    then have p: "pn * PGSIZE = 0xfffffcffeffff000" by simp
    have "PD0X (pn * PGSIZE) = 0x1F9" unfolding p by (simp add: PDX_eq)
    moreover from this have "TPGNUM (pn * PGSIZE) \<noteq> TPGNUM (fd_va i)" if "i < 64" for i
      using TPGNUM_PD0X [of "pn * PGSIZE" "fd_va i"] fd_va_facts(3) [OF that] by auto
    then have "\<not> in_fds [0..<64] (pn * PGSIZE)" by (auto simp: in_fds_def)
    ultimately show ?thesis unfolding p by simp
  qed
  then show "pn * PGSIZE < UTOP" "pn * PGSIZE mod PGSIZE = 0" "PD0X (pn * PGSIZE) \<in> U" "PD0X (pn * PGSIZE) \<noteq> 0x1F7"
    "\<not> in_fds [0..<64] (pn * PGSIZE)" using assms(3) by auto
qed

lemma in_forked:
  assumes "in_pages (forked uend) va" "uend \<le> 0xD0000000" "{0, 0x1F9} \<subseteq> U"
  shows "PD0X va \<in> U" "TPGNUM va \<noteq> TPGNUM UXPAGE" "\<not> in_fds [0..<64] va"
proof -
  obtain pn where pn: "pn \<in> set (forked uend)" "TPGNUM va = TPGNUM (pn * PGSIZE)"
    using assms(1) by (auto simp: in_pages_def)
  note f = forked_facts [OF pn(1) assms(2,3)] and d = TPGNUM_PD0X [OF pn(2)]
  show "PD0X va \<in> U" "\<not> in_fds [0..<64] va" using f d pn(2) by (simp_all add: in_fds_def)
  show "TPGNUM va \<noteq> TPGNUM UXPAGE" using f(4) d TPGNUM_PD0X [of va UXPAGE] UXPAGE_facts(3) by auto
qed

lemma duppages_snoc:
  "duppages tx_pa i (pns @ [pn]) s = Some s' \<longleftrightarrow>
   (\<exists>t r. duppages tx_pa i pns s = Some t \<and> duppage tx_pa i pn t = Some (r, s'))"
  by (induction pns arbitrary: s) (auto split: bind_splits)

text \<open>The rest of \<open>fork\<close> after the pages are duplicated.\<close>

lemma fork_finish:
  assumes inv: "vm_inv s R S U xs" and run: "runs_in s c r" and r: "r \<in> R" and U: "{0, 0x1F7} \<subseteq> U"
    and ch: "envid2env i True s = Some (0, Some e)" "env_pgdir (envs s e) = Some rc" "rc \<in> R" "rc \<noteq> r"
      "env_status (envs s e) = ENV_NOT_RUNNABLE"
    and mem: "196 \<le> length xs" and B: "refs_le s B" "1 \<le> B" "B + 64 < 0xFFFF"
  obtains s5 s6 s' xs' where "usys_copy_shared_pages tx_pa i s = Some (0, s5)"
    "usys_page_alloc tx_pa i UXPAGE 0x17 s5 = Some (0, s6)" "usys_env_set_status tx_pa i 2 s6 = Some (0, s')"
    "vm_inv s' R S U xs'" "envs s' = (envs s)(e := (envs s e)\<lparr>env_status := ENV_RUNNABLE\<rparr>)"
    "\<And>r' va'. r' \<in> R \<Longrightarrow> PD0X va' \<in> S \<Longrightarrow> r' \<noteq> rc \<or> \<not> in_fds [0..<64] va' \<and> TPGNUM va' \<noteq> TPGNUM UXPAGE \<Longrightarrow>
       va_pte s' r' va' = va_pte s r' va'"
    "\<And>r' va'. r' \<in> R \<Longrightarrow> PD0X va' \<in> U \<Longrightarrow> r' \<noteq> rc \<or> \<not> in_fds [0..<64] va' \<and> TPGNUM va' \<noteq> TPGNUM UXPAGE \<Longrightarrow>
       ubyte s' r' va' = ubyte s r' va'"
    "\<And>j. j < 64 \<Longrightarrow> bit (va_pte s r (fd_va j)) 9 \<Longrightarrow> va_pte s' rc (fd_va j) \<noteq> 0 \<and>
       pte_frame (va_pte s' rc (fd_va j)) = pte_frame (va_pte s r (fd_va j))"
proof -
  note US = vm_inv_US [OF inv]
  have cur: "curenv s = Some c" "env_pgdir (envs s c) = Some r" using run by (auto simp: runs_in_def)
  have z: "0 \<in> U" "\<forall>i \<in> set [0..<64]. i < (64 :: nat)" "3 * length [0..<64] \<le> length xs"
    "B + length [0..<64] < 0xFFFF" using U mem B(3) by auto
  obtain s5 xs5 where s5: "copy_shared i [0..<64] s = Some (0, s5)" "vm_inv s5 R S U xs5" "length xs \<le> length xs5 + 192"
    "envs s5 = envs s" "curenv s5 = curenv s"
    "\<forall>r' \<in> R. \<forall>va'. PD0X va' \<in> S \<longrightarrow> r' \<noteq> rc \<or> \<not> in_fds [0..<64] va' \<longrightarrow> va_pte s5 r' va' = va_pte s r' va'"
    "\<forall>r' \<in> R. \<forall>va'. PD0X va' \<in> U \<longrightarrow> r' \<noteq> rc \<or> \<not> in_fds [0..<64] va' \<longrightarrow> ubyte s5 r' va' = ubyte s r' va'"
    "\<forall>i \<in> set [0..<64]. bit (va_pte s r (fd_va i)) 9 \<longrightarrow> va_pte s5 rc (fd_va i) \<noteq> 0 \<and>
       pte_frame (va_pte s5 rc (fd_va i)) = pte_frame (va_pte s r (fd_va i))"
    using copy_shared_ok [OF inv cur r ch(1-4) z(1,2,3) B(1,2) z(4)] by auto
  have c5: "usys_copy_shared_pages tx_pa i s = Some (0, s5)"
    using s5(1) by (simp add: usys_copy_shared_pages_def usyscall_def syscall_def sys_copy_shared_pages_def)
  have e5: "envid2env i True s5 = Some (0, Some e)" "env_pgdir (envs s5 e) = Some rc"
    using ch s5(4) envid2env_cong [OF s5(4,5)] by auto
  obtain n ys where xs5: "xs5 = n # ys" "3 \<le> length ys" using s5(3) mem by (cases xs5) auto
  have XU: "PD0X UXPAGE \<in> U" using UXPAGE_facts(3) U by simp
  obtain s6 xs6 where s6: "sys_page_alloc i UXPAGE 0x17 s5 = Some (0, s6)" "vm_inv s6 R S U xs6"
    "maps_page R S (n # ys) s5 rc UXPAGE (pte_insert n 0x17) s6"
    by (rule sys_page_alloc_ok [OF s5(2) [unfolded xs5(1)] e5 ch(3) UXPAGE_facts(1,2) XU perm_stack(2) xs5(2)])
  have st: "sets_pte R S s5 rc UXPAGE (pte_insert n 0x17) s6" using s6(3) by (simp add: maps_page_def)
  have en6: "envs s6 = envs s" "curenv s6 = curenv s" using st s5(4,5) by (simp_all add: sets_pte_def)
  define s7 where "s7 = upd_env e (\<lambda>v. v\<lparr>env_status := ENV_RUNNABLE\<rparr>) s6"
  have c7: "usys_env_set_status tx_pa i 2 s6 = Some (0, s7)"
    using envid2env_cong [OF en6] ch(1,5) en6(1)
    by (simp add: usys_env_set_status_def usyscall_def syscall_def sys_env_set_status_def s7_def env_status_of_def)
  show thesis
  proof (rule that [OF c5 usys_page_alloc_ok [OF s6(1)] c7])
    show "vm_inv s7 R S U xs6" using s6(2) by (simp add: s7_def)
    show "envs s7 = (envs s)(e := (envs s e)\<lparr>env_status := ENV_RUNNABLE\<rparr>)" using en6(1) by (simp add: s7_def)
    show "va_pte s7 r' va' = va_pte s r' va'" if "r' \<in> R" "PD0X va' \<in> S"
      "r' \<noteq> rc \<or> \<not> in_fds [0..<64] va' \<and> TPGNUM va' \<noteq> TPGNUM UXPAGE" for r' va'
      using sets_pte_va [OF st that(1,2)] s5(6) that by (auto simp: s7_def)
    show "ubyte s7 r' va' = ubyte s r' va'" if "r' \<in> R" "PD0X va' \<in> U"
      "r' \<noteq> rc \<or> \<not> in_fds [0..<64] va' \<and> TPGNUM va' \<noteq> TPGNUM UXPAGE" for r' va'
      using ubyte_keeps [OF s5(2) [unfolded xs5(1)] s6(3) that(1,2)] s5(7) that by (auto simp: s7_def)
    show "va_pte s7 rc (fd_va j) \<noteq> 0 \<and> pte_frame (va_pte s7 rc (fd_va j)) = pte_frame (va_pte s r (fd_va j))"
      if "j < 64" "bit (va_pte s r (fd_va j)) 9" for j
    proof -
      have "PD0X (fd_va j) \<in> S" "TPGNUM (fd_va j) \<noteq> TPGNUM UXPAGE"
        using fd_va_facts(3) [OF that(1)] U US [of "fd_va j"] TPGNUM_PD0X [of "fd_va j" UXPAGE] UXPAGE_facts(3) by auto
      then have "va_pte s7 rc (fd_va j) = va_pte s5 rc (fd_va j)" using sets_pte_va [OF st ch(3)] by (simp add: s7_def)
      then show ?thesis using s5(8) that by auto
    qed
  qed simp
qed

text \<open>Installing the handler, creating the child and duplicating the pages.\<close>

lemma fork_space:
  assumes inv: "vm_inv s R S U xs" and S: "S \<inter> kernel_slots = {}" and U: "{0, 0x1F7, 0x1F9} \<subseteq> U"
    and run: "runs_in s c r" and r: "r \<in> R" and k: "kern_pgdir s \<in> R" and up: "upcall \<noteq> 0"
    and fl: "env_free_list s = Some e" "e < NENV" "e \<noteq> c" and ue: "uend \<le> 0xD0000000"
    and pg: "\<forall>pn \<in> set (forked uend). pte_valid (va_pte s r (pn * PGSIZE))"
    and mem: "6 * length (forked uend) + 5 \<le> length xs"
    and B: "refs_le s B" "1 \<le> B" "B + 2 * length (forked uend) < 0xFFFE"
  obtains s1 s2 s3 i xs3 rc where "set_pgfault_handler tx_pa upcall h g s = Some (h, s1)"
    "usys_exofork tx_pa s1 = Some (sint i, s2)" "duppages tx_pa i (forked uend) s2 = Some s3" "0 < sint i"
    "rc \<notin> R" "vm_inv s3 (insert rc R) S U xs3" "runs_in s3 c r" "length xs \<le> length xs3 + 6 * length (forked uend) + 5"
    "refs_le s3 (Suc B + 2 * length (forked uend))" "envid2env i True s3 = Some (0, Some e)"
    "env_id (envs s3 e) = i" "env_parent_id (envs s3 e) = env_id (envs s c)"
    "env_status (envs s3 e) = ENV_NOT_RUNNABLE" "env_pgdir (envs s3 e) = Some rc" "tf_a0 (env_tf (envs s3 e)) = 0"
    "tf_sepc (env_tf (envs s3 e)) = tf_sepc (env_tf (envs s c)) + 4"
    "env_pgfault_upcall (envs s3 e) = env_pgfault_upcall (envs s3 c)"
    "\<And>r' va. r' \<in> R \<Longrightarrow> PD0X va \<in> S \<Longrightarrow> r' \<noteq> r \<or> TPGNUM va \<noteq> TPGNUM UXPAGE \<and> \<not> in_pages (forked uend) va \<Longrightarrow>
       va_pte s3 r' va = va_pte s r' va"
    "\<And>r' va. r' = r \<or> r' = rc \<Longrightarrow> in_pages (forked uend) va \<Longrightarrow> va_pte s3 r' va AND PTE_W = 0"
    "\<And>r' va. r' \<in> R \<Longrightarrow> PD0X va \<in> U \<Longrightarrow> r' \<noteq> r \<or> TPGNUM va \<noteq> TPGNUM UXPAGE \<Longrightarrow> ubyte s3 r' va = ubyte s r' va"
    "\<And>va. in_pages (forked uend) va \<Longrightarrow> ubyte s3 rc va = ubyte s r va"
proof -
  have m4: "4 \<le> length xs" and UX: "0x1F7 \<in> U" using mem U by auto
  obtain s1 xs1 where s1: "set_pgfault_handler tx_pa upcall h g s = Some (h, s1)" "vm_inv s1 R S U xs1"
    "length xs \<le> length xs1 + 4" "runs_in s1 c r" "refs_le s1 (Suc B)" "kregs s1 = kregs s"
    and ej: "\<And>j. j \<noteq> c \<Longrightarrow> envs s1 j = envs s j" and ec: "env_id (envs s1 c) = env_id (envs s c)"
    "env_tf (envs s1 c) = env_tf (envs s c)"
    and v1: "\<And>r' va. r' \<in> R \<Longrightarrow> PD0X va \<in> S \<Longrightarrow> r' \<noteq> r \<or> TPGNUM va \<noteq> TPGNUM UXPAGE \<Longrightarrow> va_pte s1 r' va = va_pte s r' va"
    and u1: "\<And>r' va. r' \<in> R \<Longrightarrow> PD0X va \<in> U \<Longrightarrow> r' \<noteq> r \<or> TPGNUM va \<noteq> TPGNUM UXPAGE \<Longrightarrow> ubyte s1 r' va = ubyte s r' va"
    by (rule handler_ok [OF inv m4 run r UX up B(1,2), where tx_pa = tx_pa and h = h and g = g], rule that, assumption+)
  obtain n ys where xs1: "xs1 = n # ys" using s1(3) mem by (cases xs1) auto
  have kn: "kern_pgdir s1 \<noteq> page2pa n"
  proof
    assume "kern_pgdir s1 = page2pa n"
    then have "tab_at s1 R S (page2pa n) [] (page2pa n)" using k s1(6) by (simp add: tab_at_def)
    moreover have "n < npages s1" using alloc_invD(3) [OF vm_invD(1) [OF s1(2)]] xs1 by simp
    ultimately show False using not_tab_page [OF s1(2)] xs1 by simp
  qed
  have fl1: "env_free_list s1 = Some e" using fl(1) s1(6) by simp
  let ?rc = "page2pa n" and ?R = "insert (page2pa n) R"
  obtain s2 i where s2: "usys_exofork tx_pa s1 = Some (sint i, s2)" "0 < sint i" "vm_inv s2 ?R S U ys" "?rc \<notin> R"
    "runs_in s2 c r" "refs_le s2 (Suc B)"
    "envid2env i True s2 = Some (0, Some e)" "env_id (envs s2 e) = i" "env_parent_id (envs s2 e) = env_id (envs s1 c)"
    "env_status (envs s2 e) = ENV_NOT_RUNNABLE" "env_pgdir (envs s2 e) = Some ?rc"
    "tf_a0 (env_tf (envs s2 e)) = 0" "tf_sepc (env_tf (envs s2 e)) = tf_sepc (env_tf (envs s1 c)) + 4"
    "env_pgfault_upcall (envs s2 e) = env_pgfault_upcall (envs s1 c)"
    and e2: "\<And>j. j \<noteq> e \<Longrightarrow> envs s2 j = envs s1 j"
    and v2: "\<And>r' va. r' \<in> R \<Longrightarrow> PD0X va \<in> S \<Longrightarrow> va_pte s2 r' va = va_pte s1 r' va"
    and u2: "\<And>r' va. r' \<in> R \<Longrightarrow> PD0X va \<in> U \<Longrightarrow> ubyte s2 r' va = ubyte s1 r' va"
    by (rule exofork_ok [OF s1(2) [unfolded xs1] S s1(4) r fl1 fl(2,3) kn s1(5), where tx_pa = tx_pa], simp, rule that, assumption+)
  note US = vm_inv_US [OF inv]
  have U': "{0, 0x1F9} \<subseteq> U" using U by auto
  have rne: "?rc \<noteq> r" using s2(4) r by blast
  have rR: "r \<in> ?R" "?rc \<in> ?R" using r by auto
  have pn2: "\<forall>pn \<in> set (forked uend). pn * PGSIZE < UTOP \<and> pn * PGSIZE mod PGSIZE = 0 \<and> PD0X (pn * PGSIZE) \<in> U \<and>
      pte_valid (va_pte s2 r (pn * PGSIZE))"
  proof
    fix pn assume pn: "pn \<in> set (forked uend)"
    then have "in_pages (forked uend) (pn * PGSIZE)" by (auto simp: in_pages_def)
    note f = forked_facts [OF pn ue U'] and g = in_forked [OF this ue U']
    have "va_pte s2 r (pn * PGSIZE) = va_pte s r (pn * PGSIZE)" using v1 v2 r US [OF f(3)] g(2) by simp
    then show "pn * PGSIZE < UTOP \<and> pn * PGSIZE mod PGSIZE = 0 \<and> PD0X (pn * PGSIZE) \<in> U \<and>
      pte_valid (va_pte s2 r (pn * PGSIZE))" using f pg pn by simp
  qed
  have lim: "6 * length (forked uend) \<le> length ys" "1 \<le> Suc B" "Suc B + 2 * length (forked uend) < 0xFFFF"
    using s1(3) xs1 mem B(3) by auto
  obtain s3 xs3 where s3: "duppages tx_pa i (forked uend) s2 = Some s3" "vm_inv s3 ?R S U xs3"
    "length ys \<le> length xs3 + 6 * length (forked uend)" "runs_in s3 c r" "envs s3 = envs s2"
    "refs_le s3 (Suc B + 2 * length (forked uend))"
    and v3: "\<forall>r' va'. r' \<in> ?R \<longrightarrow> PD0X va' \<in> S \<longrightarrow> va_pte s3 r' va' = (if (r' = r \<or> r' = ?rc) \<and> in_pages (forked uend) va'
       then pte_insert (pte_frame (va_pte s2 r va')) 0x31B else va_pte s2 r' va')"
    and u3: "\<forall>r' va'. r' \<in> ?R \<longrightarrow> PD0X va' \<in> U \<longrightarrow>
       ubyte s3 r' va' = ubyte s2 (if r' = ?rc \<and> in_pages (forked uend) va' then r else r') va'"
    using duppages_ok [OF s2(3,5) rR(1) s2(7,11) rR(2) rne pn2 lim(1) s2(6) lim(2,3)] by blast
  have nR: "r' \<noteq> ?rc" if "r' \<in> R" for r' using s2(4) that by blast
  show thesis
  proof (rule that [OF s1(1) s2(1) s3(1) s2(2) s2(4) s3(2,4) _ s3(6)])
    show "envid2env i True s3 = Some (0, Some e)"
      using s2(7) envid2env_cong [OF s3(5)] s3(4) s2(5) by (simp add: runs_in_def)
    show "va_pte s3 r' va = va_pte s r' va" if "r' \<in> R" "PD0X va \<in> S"
      "r' \<noteq> r \<or> TPGNUM va \<noteq> TPGNUM UXPAGE \<and> \<not> in_pages (forked uend) va" for r' va
      using v3 v2 [OF that(1,2)] v1 [OF that(1,2)] nR that by auto
    show "va_pte s3 r' va AND PTE_W = 0" if x: "r' = r \<or> r' = ?rc" "in_pages (forked uend) va" for r' va
    proof -
      have "PD0X va \<in> S" using in_forked(1) [OF x(2) ue U'] US by blast
      then have "va_pte s3 r' va = pte_insert (pte_frame (va_pte s2 r va)) 0x31B" using v3 x rR by auto
      moreover have "\<not> bit (pte_insert (pte_frame (va_pte s2 r va)) 0x31B) 2" by (simp add: pte_insert_bit)
      ultimately show ?thesis using pte_bits(2) by metis
    qed
    show "ubyte s3 r' va = ubyte s r' va" if "r' \<in> R" "PD0X va \<in> U" "r' \<noteq> r \<or> TPGNUM va \<noteq> TPGNUM UXPAGE" for r' va
      using u3 u2 [OF that(1,2)] u1 [OF that] nR that by simp
    show "ubyte s3 ?rc va = ubyte s r va" if x: "in_pages (forked uend) va" for va
      using u3 u2 [OF r] u1 [OF r] in_forked [OF x ue U'] rR x by simp
  qed (use s1(3) xs1 s2 s3(3,5) e2 [of c] fl(3) ec in simp_all)
qed

text \<open>C2. \<open>fork\<close> duplicates the caller: it returns the positive identifier of a new child, which is
  runnable, has the caller as its parent, continues after the same call with the result 0 and inherits
  the page fault handler. In every page from \<open>UTEXT\<close> up to \<^verbatim>\<open>end\<close> and in the stack page the child shows
  the bytes the caller showed, and neither of the two can write to these pages; the shared pages of the
  file descriptor area are the same physical pages in both. No byte of any address space that existed
  before reads differently, except in the caller's exception stack page, which the first call allocates,
  and the invariant of the virtual memory holds with the child's page directory as one more root.\<close>

theorem fork_correct:
  assumes inv: "vm_inv s R S U xs" and S: "S \<inter> kernel_slots = {}" and U: "{0, 0x1F7, 0x1F9} \<subseteq> U"
    and run: "runs_in s c r" and r: "r \<in> R" and k: "kern_pgdir s \<in> R" and up: "upcall \<noteq> 0"
    and fl: "env_free_list s = Some e" "e < NENV" "e \<noteq> c" and ue: "uend \<le> 0xD0000000"
    and pg: "\<forall>pn \<in> set (forked uend). pte_valid (va_pte s r (pn * PGSIZE))"
    and mem: "6 * length (forked uend) + 201 \<le> length xs"
    and B: "refs_le s B" "1 \<le> B" "B + 2 * length (forked uend) + 65 < 0xFFFF"
  shows "\<exists>s' i rc xs'. fork tx_pa upcall h uend g s = Some ((sint i, h), s') \<and> 0 < sint i \<and>
     rc \<notin> R \<and> vm_inv s' (insert rc R) S U xs' \<and>
     (let v = envs s' e in env_id v = i \<and> env_parent_id v = env_id (envs s c) \<and> env_status v = ENV_RUNNABLE \<and>
        env_pgdir v = Some rc \<and> tf_a0 (env_tf v) = 0 \<and> tf_sepc (env_tf v) = tf_sepc (env_tf (envs s c)) + 4 \<and>
        env_pgfault_upcall v = env_pgfault_upcall (envs s' c)) \<and>
     (\<forall>va. in_pages (forked uend) va \<longrightarrow> ubyte s' rc va = ubyte s r va \<and>
        va_pte s' rc va AND PTE_W = 0 \<and> va_pte s' r va AND PTE_W = 0) \<and>
     (\<forall>j < 64. bit (va_pte s r (fd_va j)) 9 \<longrightarrow> va_pte s' rc (fd_va j) \<noteq> 0 \<and>
        pte_frame (va_pte s' rc (fd_va j)) = pte_frame (va_pte s r (fd_va j))) \<and>
     (\<forall>r' \<in> R. \<forall>va. PD0X va \<in> U \<longrightarrow> r' \<noteq> r \<or> TPGNUM va \<noteq> TPGNUM UXPAGE \<longrightarrow> ubyte s' r' va = ubyte s r' va)"
proof -
  have lim: "6 * length (forked uend) + 5 \<le> length xs" "B + 2 * length (forked uend) < 0xFFFE" using mem B(3) by auto
  obtain s1 s2 s3 i xs3 rc where a: "set_pgfault_handler tx_pa upcall h g s = Some (h, s1)"
    "usys_exofork tx_pa s1 = Some (sint i, s2)" "duppages tx_pa i (forked uend) s2 = Some s3" "0 < sint i"
    "rc \<notin> R" "vm_inv s3 (insert rc R) S U xs3" "runs_in s3 c r" "length xs \<le> length xs3 + 6 * length (forked uend) + 5"
    "refs_le s3 (Suc B + 2 * length (forked uend))" "envid2env i True s3 = Some (0, Some e)"
    "env_id (envs s3 e) = i" "env_parent_id (envs s3 e) = env_id (envs s c)"
    "env_status (envs s3 e) = ENV_NOT_RUNNABLE" "env_pgdir (envs s3 e) = Some rc" "tf_a0 (env_tf (envs s3 e)) = 0"
    "tf_sepc (env_tf (envs s3 e)) = tf_sepc (env_tf (envs s c)) + 4"
    "env_pgfault_upcall (envs s3 e) = env_pgfault_upcall (envs s3 c)"
    and v3: "\<And>r' va. r' \<in> R \<Longrightarrow> PD0X va \<in> S \<Longrightarrow> r' \<noteq> r \<or> TPGNUM va \<noteq> TPGNUM UXPAGE \<and> \<not> in_pages (forked uend) va \<Longrightarrow>
       va_pte s3 r' va = va_pte s r' va"
    and w3: "\<And>r' va. r' = r \<or> r' = rc \<Longrightarrow> in_pages (forked uend) va \<Longrightarrow> va_pte s3 r' va AND PTE_W = 0"
    and u3: "\<And>r' va. r' \<in> R \<Longrightarrow> PD0X va \<in> U \<Longrightarrow> r' \<noteq> r \<or> TPGNUM va \<noteq> TPGNUM UXPAGE \<Longrightarrow> ubyte s3 r' va = ubyte s r' va"
    and c3: "\<And>va. in_pages (forked uend) va \<Longrightarrow> ubyte s3 rc va = ubyte s r va"
    by (rule fork_space [OF inv S U run r k up fl ue pg lim(1) B(1,2) lim(2), where tx_pa = tx_pa and h = h and g = g],
        rule that, assumption+)
  let ?R = "insert rc R"
  have rR: "r \<in> ?R" "rc \<in> ?R" "rc \<noteq> r" using r a(5) by auto
  have U': "{0, 0x1F7} \<subseteq> U" "{0, 0x1F9} \<subseteq> U" using U by auto
  have lim2: "196 \<le> length xs3" "1 \<le> Suc B + 2 * length (forked uend)" "Suc B + 2 * length (forked uend) + 64 < 0xFFFF"
    using a(8) mem B(3) by auto
  obtain s5 s6 s' xs' where b: "usys_copy_shared_pages tx_pa i s3 = Some (0, s5)"
    "usys_page_alloc tx_pa i UXPAGE 0x17 s5 = Some (0, s6)" "usys_env_set_status tx_pa i 2 s6 = Some (0, s')"
    "vm_inv s' ?R S U xs'" "envs s' = (envs s3)(e := (envs s3 e)\<lparr>env_status := ENV_RUNNABLE\<rparr>)"
    and v': "\<And>r' va'. r' \<in> ?R \<Longrightarrow> PD0X va' \<in> S \<Longrightarrow> r' \<noteq> rc \<or> \<not> in_fds [0..<64] va' \<and> TPGNUM va' \<noteq> TPGNUM UXPAGE \<Longrightarrow>
       va_pte s' r' va' = va_pte s3 r' va'"
    and u': "\<And>r' va'. r' \<in> ?R \<Longrightarrow> PD0X va' \<in> U \<Longrightarrow> r' \<noteq> rc \<or> \<not> in_fds [0..<64] va' \<and> TPGNUM va' \<noteq> TPGNUM UXPAGE \<Longrightarrow>
       ubyte s' r' va' = ubyte s3 r' va'"
    and f': "\<And>j. j < 64 \<Longrightarrow> bit (va_pte s3 r (fd_va j)) 9 \<Longrightarrow> va_pte s' rc (fd_va j) \<noteq> 0 \<and>
       pte_frame (va_pte s' rc (fd_va j)) = pte_frame (va_pte s3 r (fd_va j))"
    by (rule fork_finish [OF a(6,7) rR(1) U'(1) a(10,14) rR(2,3) a(13) lim2(1) a(9) lim2(2,3), where tx_pa = tx_pa],
        rule that, assumption+)
  note US = vm_inv_US [OF inv]
  obtain t q where t: "duppages tx_pa i (fork_pages uend) s2 = Some t"
    "duppage tx_pa i ((USTACKTOP - PGSIZE) div PGSIZE) t = Some (q, s3)"
    using a(3) unfolding forked_def duppages_snoc by blast
  have call: "fork tx_pa upcall h uend g s = Some ((sint i, h), s')"
    using a(1,2,4) t b(1-3) by (simp add: fork_def)
  have pages: "ubyte s' rc va = ubyte s r va \<and> va_pte s' rc va AND PTE_W = 0 \<and> va_pte s' r va AND PTE_W = 0"
    if x: "in_pages (forked uend) va" for va
    using in_forked [OF x ue U'(2)] u' [OF rR(2)] c3 [OF x] v' [OF rR(2) US] v' [OF rR(1) US] rR(3) w3 [OF _ x] by auto
  have fds: "va_pte s' rc (fd_va j) \<noteq> 0 \<and> pte_frame (va_pte s' rc (fd_va j)) = pte_frame (va_pte s r (fd_va j))"
    if j: "j < 64" "bit (va_pte s r (fd_va j)) 9" for j
  proof -
    have "in_fds [0..<64] (fd_va j)" using j(1) by (auto simp: in_fds_def)
    then have "\<not> in_pages (forked uend) (fd_va j)" using in_forked(3) [OF _ ue U'(2)] by blast
    moreover have "TPGNUM (fd_va j) \<noteq> TPGNUM UXPAGE" "PD0X (fd_va j) \<in> S"
      using TPGNUM_PD0X [of "fd_va j" UXPAGE] fd_va_facts(3) [OF j(1)] UXPAGE_facts(3) U' US [of "fd_va j"] by auto
    ultimately have "va_pte s3 r (fd_va j) = va_pte s r (fd_va j)" using v3 [OF r] by blast
    then show ?thesis using f' [OF j(1)] j(2) by simp
  qed
  have old: "ubyte s' r' va = ubyte s r' va" if "r' \<in> R" "PD0X va \<in> U" "r' \<noteq> r \<or> TPGNUM va \<noteq> TPGNUM UXPAGE" for r' va
    using u' [of r' va] u3 [OF that] that a(5) by auto
  have env: "envs s' e = (envs s3 e)\<lparr>env_status := ENV_RUNNABLE\<rparr>" "envs s' c = envs s3 c" using b(5) fl(3) by auto
  show ?thesis
    by (rule exI [of _ s'], rule exI [of _ i], rule exI [of _ rc], rule exI [of _ xs'])
      (use call a(4,5,11,12,14-17) b(4) env pages fds old in \<open>simp add: Let_def\<close>)
qed

section \<open>An example\<close>

text \<open>A memory of 400 pages; page 310 is the root of the running environment, page 311 is mapped as
  its text and as its stack.\<close>

definition demo_fork :: kstate where
  "demo_fork = bss_kstate\<lparr>npages := 400, page_free_list := Some 0,
     pages := (\<lambda>n. \<lparr>pp_link = (if Suc n < 300 then Some (Suc n) else None), pp_ref = (if n = 310 then 1 else 0)\<rparr>),
     curenv := Some 1, kern_pgdir := page2pa 310, satp := page2pa 310, env_free_list := Some 2,
     envs := (\<lambda>i. zero_env\<lparr>env_id := 0x1000 + of_nat i, env_status := ENV_RUNNING, env_pgdir := Some (page2pa 310)\<rparr>)\<rparr>"

lemma vm_inv_demo_fork: "vm_inv demo_fork {page2pa 310} {0, 0x1F7, 0x1F9} {0, 0x1F7, 0x1F9} [0..<300]"
proof -
  have "chain (\<lambda>n. pp_link (pages demo_fork n)) (Some 0) [0..<300]"
    by (rule chain_upto) (simp_all add: demo_fork_def)
  then have "alloc_inv demo_fork [0..<300]" by (auto simp: alloc_inv_def demo_fork_def)
  from vm_inv_zero_mem [OF this, of "{310}" "{0, 0x1F7, 0x1F9}" "{0, 0x1F7, 0x1F9}"] show ?thesis
    by (simp add: demo_fork_def bss_kstate_def)
qed

lemma demo_fork_ready:
  obtains s xs where "vm_inv s {page2pa 310} {0, 0x1F7, 0x1F9} {0, 0x1F7, 0x1F9} xs" "280 \<le> length xs"
    "runs_in s 1 (page2pa 310)" "kregs s = kregs demo_fork" "refs_le s 3"
    "va_pte s (page2pa 310) 0x800000 = pte_insert 311 0x17"
    "va_pte s (page2pa 310) (USTACKTOP - PGSIZE) = pte_insert 311 0x17"
proof -
  let ?R = "{page2pa 310}" and ?S = "{0, 0x1F7, 0x1F9} :: nat set" and ?r = "page2pa 310" and ?e = "pte_insert 311 0x17"
  have z: "pmem demo_fork = (\<lambda>_ _. 0)" "npages demo_fork = 400" and r311: "pp_ref (pages demo_fork 311) = 0"
    by (simp_all add: demo_fork_def bss_kstate_def)
  have p: "drop_bit 10 (scast (0x17 :: u32) :: u64) = 0" by (rule perm_ok [OF perm_stack(2)])
  have n: "(311 :: nat) < npages demo_fork" "npages demo_fork \<le> 2 ^ 19" using z by auto
  note fe = pte_insert_facts [OF n p]
  have ne: "page2pa 311 \<noteq> page2pa 310" using page2pa_inj [of 311 310] by auto
  have ins: "insertable demo_fork ?R ?S [0..<300] 311 0x17"
    using ne p z r311 by (auto simp: insertable_def tab_at_def tbl_zero_mem [OF z(1)])
  have P: "PD0X 0x800000 \<in> ?S" "PD0X (USTACKTOP - PGSIZE) \<in> ?S" by (simp_all add: PDX_eq)
  have r: "?r \<in> ?R" by simp
  have l: "3 \<le> length [0..<300]" by simp
  obtain s1 xs1 q where s1: "vm_inv s1 ?R ?S ?S xs1" "sets_pte ?R ?S demo_fork ?r 0x800000 ?e s1"
    "length [0..<300] \<le> length xs1 + 3" "maps_page ?R ?S [0..<300] demo_fork ?r 0x800000 ?e s1"
    by (rule insert_lookup [OF vm_inv_demo_fork r P(1) ins l])
  have B0: "refs_le demo_fork 1" by (simp add: refs_le_def demo_fork_def)
  then have B1: "refs_le s1 2" using s1(4) by (simp add: maps_page_def numeral_2_eq_2)
  have v1: "va_pte s1 ?r 0x800000 = ?e" using sets_pte_va [OF s1(2) r P(1)] by simp
  have ins1: "insertable s1 ?R ?S xs1 311 0x17"
    using mapped_page(2,5,6) [OF s1(1) r P(1)] v1 fe(1,2) refs_less [OF B1] p by (simp add: insertable_def)
  have l1: "3 \<le> length xs1" using s1(3) by simp
  obtain s2 xs2 q2 where s2: "vm_inv s2 ?R ?S ?S xs2" "sets_pte ?R ?S s1 ?r (USTACKTOP - PGSIZE) ?e s2"
    "length xs1 \<le> length xs2 + 3" "maps_page ?R ?S xs1 s1 ?r (USTACKTOP - PGSIZE) ?e s2"
    by (rule insert_lookup [OF s1(1) r P(2) ins1 l1])
  have "va_pte s2 ?r 0x800000 = ?e" "va_pte s2 ?r (USTACKTOP - PGSIZE) = ?e"
    using sets_pte_va [OF s2(2) r P(1)] sets_pte_va [OF s2(2) r P(2)] v1 by (simp_all split: if_splits)
  moreover have "refs_le s2 3" using s2(4) B1 by (simp add: maps_page_def numeral_3_eq_3 numeral_2_eq_2)
  moreover have "280 \<le> length xs2" using s1(3) s2(3) by simp
  moreover have "runs_in demo_fork 1 ?r" by (simp add: runs_in_def demo_fork_def ENVX_def)
  then have "runs_in s2 1 ?r" by (rule runs_in_maps [OF s2(4) runs_in_maps [OF s1(4)]])
  moreover have "kregs s2 = kregs demo_fork" using s1(2) s2(2) by (simp add: sets_pte_def)
  ultimately show thesis using that s2(1) by blast
qed

lemma forked_demo: "forked 0x800001 = [0x800, 0xfffffcffeffff]"
  by (simp add: forked_def fork_pages_def)

theorem fork_correct_witness:
  "\<exists>s s' i. va_pte s (page2pa 310) 0x800000 = pte_insert 311 0x17 \<and>
     fork (\<lambda>_. 0) 0x800100 0x800200 0x800001 0 s = Some ((sint (i :: u32), 0x800200), s') \<and> 0 < sint i \<and>
     env_status (envs s' 2) = ENV_RUNNABLE"
proof -
  obtain s xs where s: "vm_inv s {page2pa 310} {0, 0x1F7, 0x1F9} {0, 0x1F7, 0x1F9} xs" "280 \<le> length xs"
    "runs_in s 1 (page2pa 310)" "kregs s = kregs demo_fork" "refs_le s 3"
    "va_pte s (page2pa 310) 0x800000 = pte_insert 311 0x17"
    "va_pte s (page2pa 310) (USTACKTOP - PGSIZE) = pte_insert 311 0x17" by (rule demo_fork_ready)
  have h: "{0, 0x1F7, 0x1F9} \<inter> kernel_slots = {}" "{0, 0x1F7, 0x1F9} \<subseteq> {0, 0x1F7, 0x1F9 :: nat}"
    "page2pa 310 \<in> {page2pa 310}" "kern_pgdir s \<in> {page2pa 310}" "(0x800100 :: vaddr) \<noteq> 0" "env_free_list s = Some 2"
    "(2 :: nat) < NENV" "(2 :: nat) \<noteq> 1" "(0x800001 :: vaddr) \<le> 0xD0000000"
    "\<forall>pn \<in> set (forked 0x800001). pte_valid (va_pte s (page2pa 310) (pn * PGSIZE))"
    "6 * length (forked 0x800001) + 201 \<le> length xs" "(1 :: nat) \<le> 3" "3 + 2 * length (forked 0x800001) + 65 < (0xFFFF :: nat)"
    using s(2,4,6,7) unfolding forked_demo by (simp_all add: kernel_slots_def demo_fork_def)
  from fork_correct [OF s(1) h(1,2) s(3) h(3-11) s(5) h(12,13), of "\<lambda>_. 0" "0x800200" 0] show ?thesis
    unfolding Let_def
  proof (elim exE conjE)
    fix s' and i :: u32 and rc xs'
    assume "fork (\<lambda>_. 0) 0x800100 0x800200 0x800001 0 s = Some ((sint i, 0x800200), s')" "0 < sint i"
      "env_status (envs s' 2) = ENV_RUNNABLE"
    with s(6) show ?thesis by blast
  qed
qed

theorem cow_isolates_witness:
  "\<exists>s s' s''. pgfault (\<lambda>_. 0) 0x800123 s = Some s' \<and> store_byte 0x800123 7 s' = Some s'' \<and>
     ubyte s'' (page2pa 310) 0x800123 = Some 7 \<and> ubyte s'' (page2pa 310) 0x800124 = ubyte s (page2pa 310) 0x800124"
proof -
  obtain s xs where s: "vm_inv s {page2pa 310} {0, 0x1F7, 0x1F9} {0, 0x1F7, 0x1F9} xs" "280 \<le> length xs"
    "runs_in s 1 (page2pa 310)" "kregs s = kregs demo_fork" "refs_le s 3"
    "va_pte s (page2pa 310) 0x800000 = pte_insert 311 0x17" by (rule demo_fork_ready)
  have t: "TPGNUM (0x800123 :: vaddr) = TPGNUM (0x800000 :: vaddr)" by (simp add: TPGNUM_div)
  have v: "va_pte s (page2pa 310) 0x800123 = pte_insert 311 0x17" using va_pte_page [OF t] s(6) by simp
  have h: "7 \<le> length xs" "page2pa 310 \<in> {page2pa 310}" "(0x800123 :: vaddr) < UTOP" "PD0X 0x800123 \<in> {0, 0x1F7, 0x1F9}"
    "TPGNUM (0x800123 :: vaddr) \<noteq> TPGNUM UTEMP" "0 \<in> {0, 0x1F7, 0x1F9 :: nat}" "pte_valid (va_pte s (page2pa 310) 0x800123)"
    "va_pte s (page2pa 310) 0x800123 AND PTE_R \<noteq> 0" "(1 :: nat) \<le> 3" "(3 :: nat) < 0xFFFE"
    using s(2) v by (simp_all add: PDX_eq TPGNUM_div pte_bits pte_insert_bit)
  obtain s' s'' where r: "pgfault (\<lambda>_. 0) 0x800123 s = Some s'" "store_byte 0x800123 7 s' = Some s''"
    "ubyte s'' (page2pa 310) 0x800123 = Some 7"
    "\<forall>r' \<in> {page2pa 310}. \<forall>va'. PD0X va' \<in> {0, 0x1F7, 0x1F9} \<longrightarrow>
        r' \<noteq> page2pa 310 \<or> TPGNUM va' \<noteq> TPGNUM UTEMP \<and> (TPGNUM va' \<noteq> TPGNUM 0x800123 \<or> PGOFF va' \<noteq> PGOFF 0x800123) \<longrightarrow>
        ubyte s'' r' va' = ubyte s r' va'"
    using cow_isolates [OF s(1) h(1) s(3) h(2-8) s(5) h(9,10), of "\<lambda>_. 0" 7] by blast
  have "PD0X 0x800124 \<in> {0, 0x1F7, 0x1F9}" "TPGNUM (0x800124 :: vaddr) \<noteq> TPGNUM UTEMP" "PGOFF 0x800124 \<noteq> PGOFF 0x800123"
    by (simp_all add: PDX_eq TPGNUM_div PGOFF_def)
  then have "ubyte s'' (page2pa 310) 0x800124 = ubyte s (page2pa 310) 0x800124" using r(4) by blast
  with r(1-3) show ?thesis by blast
qed

end
