(* ===== verification/Cstring.thy ===== *)
theory Cstring
  imports Kernel_Prelude
begin

unbundle bit_operations_syntax

text \<open>
  The string routines of \<^verbatim>\<open>lib/riscv/string.c\<close>, linked into the kernel and into every program.
  Memory is a function from 64-bit addresses to bytes; a \<^verbatim>\<open>char\<close> is unsigned on this machine. A
  loop that runs to a terminating null byte is a partial function: without such a byte it does
  not end, \<open>None\<close>. Lengths of type \<^verbatim>\<open>int\<close> are natural numbers, so strings are shorter than
  \<^verbatim>\<open>2^31\<close> bytes.
\<close>

type_synonym cmem = "u64 \<Rightarrow> u8"

section \<open>Lengths\<close>

partial_function (option) strlen_loop :: "cmem \<Rightarrow> u64 \<Rightarrow> nat \<Rightarrow> nat option" where
  "strlen_loop m s n = (if m s \<noteq> 0 then strlen_loop m (s + 1) (n + 1) else Some n)"

definition strlen :: "cmem \<Rightarrow> u64 \<Rightarrow> nat option" where
  "strlen m s = strlen_loop m s 0"

fun strnlen_loop :: "cmem \<Rightarrow> u64 \<Rightarrow> nat \<Rightarrow> nat \<Rightarrow> nat" where
  "strnlen_loop m s 0 n = n"
| "strnlen_loop m s (Suc sz) n = (if m s \<noteq> 0 then strnlen_loop m (s + 1) sz (n + 1) else n)"

definition strnlen :: "cmem \<Rightarrow> u64 \<Rightarrow> u64 \<Rightarrow> nat" where
  "strnlen m s sz = strnlen_loop m s (unat sz) 0"

section \<open>Copying\<close>

partial_function (option) strcpy_loop :: "u64 \<Rightarrow> u64 \<Rightarrow> cmem \<Rightarrow> cmem option" where
  "strcpy_loop dst src m =
     (let m1 = m(dst := m src) in
      if m src \<noteq> 0 then strcpy_loop (dst + 1) (src + 1) m1 else Some m1)"

definition strcpy :: "u64 \<Rightarrow> u64 \<Rightarrow> cmem \<Rightarrow> (u64 \<times> cmem) option" where
  "strcpy dst src m = do { m1 \<leftarrow> strcpy_loop dst src m; Some (dst, m1) }"

definition strcat :: "u64 \<Rightarrow> u64 \<Rightarrow> cmem \<Rightarrow> (u64 \<times> cmem) option" where
  "strcat dst src m = do {
     len \<leftarrow> strlen m dst;
     (_, m1) \<leftarrow> strcpy (dst + of_nat len) src m;
     Some (dst, m1) }"

fun strncpy_loop :: "u64 \<Rightarrow> u64 \<Rightarrow> nat \<Rightarrow> cmem \<Rightarrow> cmem" where
  "strncpy_loop dst src 0 m = m"
| "strncpy_loop dst src (Suc n) m =
     (let m1 = m(dst := m src) in
      strncpy_loop (dst + 1) (if m1 src \<noteq> 0 then src + 1 else src) n m1)"

definition strncpy :: "u64 \<Rightarrow> u64 \<Rightarrow> u64 \<Rightarrow> cmem \<Rightarrow> u64 \<times> cmem" where
  "strncpy dst src sz m = (dst, strncpy_loop dst src (unat sz) m)"

text \<open>The loop of \<open>strlcpy\<close>: the count is the value of \<^verbatim>\<open>size\<close> after its decrement.\<close>

fun strlcpy_loop :: "u64 \<Rightarrow> u64 \<Rightarrow> nat \<Rightarrow> cmem \<Rightarrow> u64 \<times> cmem" where
  "strlcpy_loop dst src 0 m = (dst, m)"
| "strlcpy_loop dst src (Suc n) m =
     (if m src \<noteq> 0 then strlcpy_loop (dst + 1) (src + 1) n (m(dst := m src)) else (dst, m))"

definition strlcpy :: "u64 \<Rightarrow> u64 \<Rightarrow> u64 \<Rightarrow> cmem \<Rightarrow> u64 \<times> cmem" where
  "strlcpy dst src sz m =
     (if sz > 0
      then (let (d, m1) = strlcpy_loop dst src (unat (sz - 1)) m in (d - dst, m1(d := 0)))
      else (0, m))"

section \<open>Comparison and search\<close>

partial_function (option) strcmp :: "cmem \<Rightarrow> u64 \<Rightarrow> u64 \<Rightarrow> int option" where
  "strcmp m p q = (if m p \<noteq> 0 \<and> m p = m q then strcmp m (p + 1) (q + 1)
                   else Some (uint (m p) - uint (m q)))"

fun strncmp_loop :: "cmem \<Rightarrow> u64 \<Rightarrow> u64 \<Rightarrow> nat \<Rightarrow> int" where
  "strncmp_loop m p q 0 = 0"
| "strncmp_loop m p q (Suc n) =
     (if m p \<noteq> 0 \<and> m p = m q then strncmp_loop m (p + 1) (q + 1) n else uint (m p) - uint (m q))"

definition strncmp :: "cmem \<Rightarrow> u64 \<Rightarrow> u64 \<Rightarrow> u64 \<Rightarrow> int" where
  "strncmp m p q n = strncmp_loop m p q (unat n)"

text \<open>The null pointer that \<open>strchr\<close> returns when it does not find the character is \<open>None\<close>.\<close>

partial_function (option) strchr :: "cmem \<Rightarrow> u64 \<Rightarrow> u8 \<Rightarrow> u64 option option" where
  "strchr m s c = (if m s = 0 then Some None else if m s = c then Some (Some s) else strchr m (s + 1) c)"

partial_function (option) strfind :: "cmem \<Rightarrow> u64 \<Rightarrow> u8 \<Rightarrow> u64 option" where
  "strfind m s c = (if m s = 0 then Some s else if m s = c then Some s else strfind m (s + 1) c)"

section \<open>Blocks of memory\<close>

fun fill_loop :: "u64 \<Rightarrow> u8 \<Rightarrow> nat \<Rightarrow> cmem \<Rightarrow> cmem" where
  "fill_loop p c 0 m = m"
| "fill_loop p c (Suc n) m = fill_loop (p + 1) c n (m(p := c))"

text \<open>\<open>memset\<close> keeps the count in an \<^verbatim>\<open>int\<close>.\<close>

definition memset :: "u64 \<Rightarrow> u32 \<Rightarrow> u64 \<Rightarrow> cmem \<Rightarrow> u64 \<times> cmem" where
  "memset v c n m = (v, fill_loop v (ucast c) (nat (sint (ucast n :: u32))) m)"

fun copy_up :: "u64 \<Rightarrow> u64 \<Rightarrow> nat \<Rightarrow> cmem \<Rightarrow> cmem" where
  "copy_up d s 0 m = m"
| "copy_up d s (Suc n) m = copy_up (d + 1) (s + 1) n (m(d := m s))"

fun copy_down :: "u64 \<Rightarrow> u64 \<Rightarrow> nat \<Rightarrow> cmem \<Rightarrow> cmem" where
  "copy_down d s 0 m = m"
| "copy_down d s (Suc n) m = copy_down (d - 1) (s - 1) n (m(d - 1 := m (s - 1)))"

definition memmove :: "u64 \<Rightarrow> u64 \<Rightarrow> u64 \<Rightarrow> cmem \<Rightarrow> u64 \<times> cmem" where
  "memmove dst src n m =
     (if src < dst \<and> src + n > dst then (dst, copy_down (dst + n) (src + n) (unat n) m)
      else (dst, copy_up dst src (unat n) m))"

definition memcpy :: "u64 \<Rightarrow> u64 \<Rightarrow> u64 \<Rightarrow> cmem \<Rightarrow> u64 \<times> cmem" where
  "memcpy dst src n m = memmove dst src n m"

fun memcmp_loop :: "cmem \<Rightarrow> u64 \<Rightarrow> u64 \<Rightarrow> nat \<Rightarrow> int" where
  "memcmp_loop m p q 0 = 0"
| "memcmp_loop m p q (Suc n) =
     (if m p \<noteq> m q then uint (m p) - uint (m q) else memcmp_loop m (p + 1) (q + 1) n)"

definition memcmp :: "cmem \<Rightarrow> u64 \<Rightarrow> u64 \<Rightarrow> u64 \<Rightarrow> int" where
  "memcmp m v1 v2 n = memcmp_loop m v1 v2 (unat n)"

fun memfind_loop :: "cmem \<Rightarrow> u64 \<Rightarrow> u8 \<Rightarrow> nat \<Rightarrow> u64" where
  "memfind_loop m s c 0 = s"
| "memfind_loop m s c (Suc n) = (if m s = c then s else memfind_loop m (s + 1) c n)"

definition memfind :: "cmem \<Rightarrow> u64 \<Rightarrow> u32 \<Rightarrow> u64 \<Rightarrow> u64" where
  "memfind m s c n = memfind_loop m s (ucast c) (if s < s + n then unat n else 0)"

section \<open>Numbers\<close>

partial_function (option) skip_blanks :: "cmem \<Rightarrow> u64 \<Rightarrow> u64 option" where
  "skip_blanks m s = (if m s = 0x20 \<or> m s = 0x09 then skip_blanks m (s + 1) else Some s)"

definition digit_of :: "u8 \<Rightarrow> int option" where
  "digit_of c = (if c \<ge> 0x30 \<and> c \<le> 0x39 then Some (uint c - 0x30)
                 else if c \<ge> 0x61 \<and> c \<le> 0x7a then Some (uint c - 0x61 + 10)
                 else if c \<ge> 0x41 \<and> c \<le> 0x5a then Some (uint c - 0x41 + 10)
                 else None)"

text \<open>The value is a 64-bit \<^verbatim>\<open>long\<close>; the code does not detect overflow and the value wraps.\<close>

partial_function (option) digits_loop :: "cmem \<Rightarrow> int \<Rightarrow> u64 \<Rightarrow> u64 \<Rightarrow> (u64 \<times> u64) option" where
  "digits_loop m base s val =
     (case digit_of (m s) of
        None \<Rightarrow> Some (s, val)
      | Some dig \<Rightarrow> if dig \<ge> base then Some (s, val)
                    else digits_loop m base (s + 1) (val * word_of_int base + word_of_int dig))"

definition strtol :: "cmem \<Rightarrow> u64 \<Rightarrow> int \<Rightarrow> (u64 \<times> u64) option" where
  "strtol m str base = do {
     s \<leftarrow> skip_blanks m str;
     let neg = (m s \<noteq> 0x2b \<and> m s = 0x2d);
     let s = (if m s = 0x2b then s + 1 else if m s = 0x2d then s + 1 else s);
     let (s, base) = (if (base = 0 \<or> base = 16) \<and> m s = 0x30 \<and> m (s + 1) = 0x78 then (s + 2, 16)
                      else if base = 0 \<and> m s = 0x30 then (s + 1, 8)
                      else if base = 0 then (s, 10) else (s, base));
     (endptr, val) \<leftarrow> digits_loop m base s 0;
     Some (if neg then - val else val, endptr) }"

section \<open>Addresses\<close>

lemma addr_eq: "i < 2 ^ 64 \<Longrightarrow> j < 2 ^ 64 \<Longrightarrow> (a :: u64) + of_nat i = a + of_nat j \<longleftrightarrow> i = j"
  by (simp add: word_of_nat_eq_iff take_bit_eq_mod)

lemma unat_addr: "unat a + i < 2 ^ 64 \<Longrightarrow> unat ((a :: u64) + of_nat i) = unat a + i"
  by (simp add: unat_word_ariths unat_of_nat)

lemma addr_neq: "unat (a :: u64) + i < 2 ^ 64 \<Longrightarrow> unat b + j < 2 ^ 64 \<Longrightarrow> unat a + i \<noteq> unat b + j \<Longrightarrow>
   a + of_nat i \<noteq> b + of_nat j"
  by (metis unat_addr)

section \<open>Copying blocks\<close>

lemma copy_up_spec:
  assumes "n \<le> 2 ^ 64 - 1" "\<forall>i j. i < j \<and> j < n \<longrightarrow> d + of_nat i \<noteq> s + of_nat j"
  shows "(\<forall>k < n. copy_up d s n m (d + of_nat k) = m (s + of_nat k)) \<and>
     (\<forall>x. (\<forall>k < n. x \<noteq> d + of_nat k) \<longrightarrow> copy_up d s n m x = m x)"
  using assms
proof (induction n arbitrary: d s m)
  case 0
  then show ?case by simp
next
  case (Suc n)
  define m1 where "m1 = m(d := m s)"
  have m1: "m1 d = m s" "\<And>x. x \<noteq> d \<Longrightarrow> m1 x = m x" by (simp_all add: m1_def)
  have shift: "a + 1 + of_nat i = a + of_nat (Suc i)" for a :: u64 and i by (simp add: algebra_simps)
  have H: "\<forall>i j. i < j \<and> j < n \<longrightarrow> d + 1 + of_nat i \<noteq> s + 1 + of_nat j"
    using Suc.prems(2) unfolding shift by (metis Suc_less_eq)
  have ne: "d + of_nat (Suc k) \<noteq> d" if "k < n" for k
    using addr_eq [of "Suc k" 0 d] that Suc.prems(1) by simp
  have rd: "m1 (s + of_nat (Suc k)) = m (s + of_nat (Suc k))" if "k < n" for k
    using Suc.prems(2) [rule_format, of 0 "Suc k"] that m1(2) [of "s + of_nat (Suc k)"] by auto
  note IH = Suc.IH [OF _ H, of m1, unfolded shift]
  have IH1: "copy_up (d + 1) (s + 1) n m1 (d + of_nat (Suc k)) = m (s + of_nat (Suc k))" if "k < n" for k
    using IH Suc.prems(1) rd [OF that] that by fastforce
  have IH2: "copy_up (d + 1) (s + 1) n m1 x = m1 x" if "\<forall>k < n. x \<noteq> d + of_nat (Suc k)" for x
    using IH Suc.prems(1) that by auto
  have d0: "copy_up (d + 1) (s + 1) n m1 d = m s" using IH2 [of d] ne m1(1) by metis
  have "copy_up d s (Suc n) m (d + of_nat k) = m (s + of_nat k)" if "k < Suc n" for k
    using that IH1 d0 by (cases k) (auto simp: m1_def)
  moreover have "copy_up d s (Suc n) m x = m x" if "\<forall>k < Suc n. x \<noteq> d + of_nat k" for x
  proof -
    have "x \<noteq> d" "\<forall>k < n. x \<noteq> d + of_nat (Suc k)" using that by (auto dest: spec [of _ 0])
    then show ?thesis using IH2 [of x] m1(2) [of x] by (simp add: m1_def)
  qed
  ultimately show ?case by blast
qed

lemma copy_down_spec:
  assumes "n \<le> 2 ^ 64 - 1" "\<forall>i j. i < j \<and> j < n \<longrightarrow> d + of_nat j \<noteq> s + of_nat i"
  shows "(\<forall>k < n. copy_down (d + of_nat n) (s + of_nat n) n m (d + of_nat k) = m (s + of_nat k)) \<and>
     (\<forall>x. (\<forall>k < n. x \<noteq> d + of_nat k) \<longrightarrow> copy_down (d + of_nat n) (s + of_nat n) n m x = m x)"
  using assms
proof (induction n arbitrary: m)
  case 0
  then show ?case by simp
next
  case (Suc n)
  define m1 where "m1 = m(d + of_nat n := m (s + of_nat n))"
  have m1: "m1 (d + of_nat n) = m (s + of_nat n)" "\<And>x. x \<noteq> d + of_nat n \<Longrightarrow> m1 x = m x" by (simp_all add: m1_def)
  have step: "copy_down (d + of_nat (Suc n)) (s + of_nat (Suc n)) (Suc n) m =
      copy_down (d + of_nat n) (s + of_nat n) n m1"
    by (simp add: algebra_simps m1_def)
  have H: "\<forall>i j. i < j \<and> j < n \<longrightarrow> d + of_nat j \<noteq> s + of_nat i" using Suc.prems(2) less_SucI by blast
  note IH = Suc.IH [OF _ H, of m1]
  have ne: "\<forall>k < n. d + of_nat n \<noteq> d + of_nat k"
    using Suc.prems(1) addr_eq [of n _ d] by auto
  have rd: "m1 (s + of_nat k) = m (s + of_nat k)" if "k < n" for k
    using Suc.prems(2) [rule_format, of k n] that by (auto simp: m1_def)
  have "copy_down (d + of_nat n) (s + of_nat n) n m1 (d + of_nat k) = m (s + of_nat k)" if "k < Suc n" for k
  proof (cases "k = n")
    case True
    then show ?thesis using IH Suc.prems(1) ne m1(1) by auto
  next
    case False
    then show ?thesis using that IH Suc.prems(1) rd by simp
  qed
  moreover have "copy_down (d + of_nat n) (s + of_nat n) n m1 x = m x" if "\<forall>k < Suc n. x \<noteq> d + of_nat k" for x
    using IH Suc.prems(1) that m1(2) [of x] by auto
  ultimately show ?case unfolding step by blast
qed

text \<open>C39. \<open>memmove\<close> copies: for two ranges of \<open>n\<close> bytes inside the address space, overlapping in any
  way, afterwards the destination holds the bytes the source held before and no other byte of
  memory has changed; the result is the destination.\<close>

theorem memmove_copies:
  assumes "unat src + unat n < 2 ^ 64" "unat dst + unat n < 2 ^ 64"
  shows "\<exists>m'. memmove dst src n m = (dst, m') \<and>
     (\<forall>k < unat n. m' (dst + of_nat k) = m (src + of_nat k)) \<and>
     (\<forall>x. (\<forall>k < unat n. x \<noteq> dst + of_nat k) \<longrightarrow> m' x = m x)"
proof -
  have n: "unat n \<le> 2 ^ 64 - 1" using assms(1) by simp
  have e: "unat (src + n) = unat src + unat n" using unat_addr [of src "unat n"] assms by simp
  have ne: "dst + of_nat i \<noteq> src + of_nat j" if "i < unat n" "j < unat n" "unat dst + i \<noteq> unat src + j" for i j
    using addr_neq that assms by simp
  show ?thesis
  proof (cases "src < dst \<and> src + n > dst")
    case True
    then have "\<forall>i j. i < j \<and> j < unat n \<longrightarrow> dst + of_nat j \<noteq> src + of_nat i"
      using ne by (auto simp: word_less_nat_alt)
    from copy_down_spec [OF n this] True show ?thesis by (simp add: memmove_def)
  next
    case False
    then have "\<forall>i j. i < j \<and> j < unat n \<longrightarrow> dst + of_nat i \<noteq> src + of_nat j"
      using ne e by (auto simp: word_less_nat_alt not_less)
    from copy_up_spec [OF n this] False show ?thesis by (auto simp: memmove_def)
  qed
qed

theorem memmove_copies_witness:
  "\<exists>m'. memmove 101 100 3 (\<lambda>a. ucast a) = (101, m') \<and> (\<forall>k < 3. m' (101 + of_nat k) = ucast (100 + of_nat k :: u64))"
  using memmove_copies [of 100 3 101 "\<lambda>a. ucast a"] by auto

section \<open>Strings\<close>

text \<open>\<open>bytes_at m s xs\<close>: the bytes \<open>xs\<close> are in memory from address \<open>s\<close> on; \<open>cstr m s xs\<close>: there is
  a string with the characters \<open>xs\<close> and its null byte.\<close>

fun bytes_at :: "cmem \<Rightarrow> u64 \<Rightarrow> u8 list \<Rightarrow> bool" where
  "bytes_at m s [] \<longleftrightarrow> True"
| "bytes_at m s (x # xs) \<longleftrightarrow> m s = x \<and> bytes_at m (s + 1) xs"

definition cstr :: "cmem \<Rightarrow> u64 \<Rightarrow> u8 list \<Rightarrow> bool" where
  "cstr m s xs \<longleftrightarrow> 0 \<notin> set xs \<and> bytes_at m s (xs @ [0])"

lemma cstr_simps [simp]:
  "cstr m s [] \<longleftrightarrow> m s = 0" "cstr m s (x # xs) \<longleftrightarrow> m s = x \<and> x \<noteq> 0 \<and> cstr m (s + 1) xs"
  by (auto simp: cstr_def)

lemma cstr_unique: "cstr m s xs \<Longrightarrow> cstr m s ys \<Longrightarrow> xs = ys"
proof (induction xs arbitrary: s ys)
  case Nil
  then show ?case by (cases ys) auto
next
  case (Cons x xs)
  then show ?case by (cases ys) auto
qed

lemma bytes_at_append:
  "bytes_at m s (xs @ ys) \<longleftrightarrow> bytes_at m s xs \<and> bytes_at m (s + of_nat (length xs)) ys"
  by (induction xs arbitrary: s) (auto simp: algebra_simps)

lemma bytes_at_nth: "bytes_at m s xs \<longleftrightarrow> (\<forall>k < length xs. m (s + of_nat k) = xs ! k)"
proof (induction xs arbitrary: s)
  case (Cons x xs)
  have "(\<forall>k < length (x # xs). m (s + of_nat k) = (x # xs) ! k) \<longleftrightarrow>
      m s = x \<and> (\<forall>k < length xs. m (s + 1 + of_nat k) = xs ! k)"
    by (simp add: All_less_Suc2 algebra_simps)
  with Cons.IH [of "s + 1"] show ?case by simp
qed simp

lemma strlen_cstr: "cstr m s xs \<Longrightarrow> strlen m s = Some (length xs)"
proof -
  have "cstr m s xs \<Longrightarrow> strlen_loop m s n = Some (n + length xs)" for n
    by (induction xs arbitrary: s n) (auto simp: strlen_loop.simps)
  then show "cstr m s xs \<Longrightarrow> strlen m s = Some (length xs)" by (simp add: strlen_def)
qed

lemma uint_pos_iff: "0 < uint w \<longleftrightarrow> w \<noteq> 0"
  using uint_ge_0 [of w] uint_0_iff [of w] by linarith

text \<open>\<open>strcmp\<close> compares: on two strings it ends, its result is 0 exactly when they are equal and
  negative exactly when the first one is before the second one in the lexicographic order of
  bytes.\<close>

theorem strcmp_order:
  assumes "cstr m p xs" "cstr m q ys"
  shows "\<exists>r. strcmp m p q = Some r \<and> (r = 0 \<longleftrightarrow> xs = ys) \<and> (r < 0 \<longleftrightarrow> ord_class.lexordp xs ys)"
  using assms
proof (induction xs arbitrary: p q ys)
  case Nil
  then show ?case by (cases ys) (auto simp: strcmp.simps word_less_def uint_0_iff uint_pos_iff)
next
  case (Cons x xs)
  show ?case
  proof (cases ys)
    case Nil
    then show ?thesis using Cons.prems
      by (auto simp: strcmp.simps uint_0_iff uint_pos_iff)
  next
    case (Cons y ys')
    show ?thesis
    proof (cases "x = y")
      case True
      then show ?thesis
        using Cons Cons.prems Cons.IH [of "p + 1" "q + 1" ys'] by (subst strcmp.simps) auto
    next
      case False
      then have "uint (m p) \<noteq> uint (m q)" using Cons Cons.prems by (simp add: word_uint_eq_iff)
      then show ?thesis
        using False Cons Cons.prems by (subst strcmp.simps) (auto simp: word_less_def)
    qed
  qed
qed

theorem strcmp_order_witness:
  "\<exists>r. strcmp (\<lambda>a. if a = 1 then 0x61 else if a = 4 then 0x62 else 0) 1 4 = Some r \<and>
     (r = 0 \<longleftrightarrow> [0x61] = [0x62 :: u8]) \<and> (r < 0 \<longleftrightarrow> ord_class.lexordp [0x61] [0x62 :: u8])"
  by (rule strcmp_order) simp_all

section \<open>Bounded copies\<close>

lemma strlcpy_loop_bounds:
  assumes "strlcpy_loop dst src n m = (d, m')"
  shows "\<exists>k \<le> n. d = dst + of_nat k \<and> (\<forall>x. (\<forall>i < k. x \<noteq> dst + of_nat i) \<longrightarrow> m' x = m x)"
  using assms
proof (induction dst src n m rule: strlcpy_loop.induct)
  case (2 dst src n m)
  show ?case
  proof (cases "m src = 0")
    case True
    then show ?thesis using "2.prems" by (intro exI [of _ 0]) auto
  next
    case False
    then have "strlcpy_loop (dst + 1) (src + 1) n (m(dst := m src)) = (d, m')" using "2.prems" by simp
    from "2.IH" [OF False this] obtain k where k: "k \<le> n" "d = dst + 1 + of_nat k"
      "\<forall>x. (\<forall>i < k. x \<noteq> dst + 1 + of_nat i) \<longrightarrow> m' x = (m(dst := m src)) x" by blast
    have "m' x = m x" if x: "\<forall>i < Suc k. x \<noteq> dst + of_nat i" for x
    proof -
      have "x \<noteq> dst" "\<forall>i < k. x \<noteq> dst + 1 + of_nat i"
        using x by (auto dest: spec [of _ 0] spec [of _ "Suc _"] simp: algebra_simps)
      with k(3) show ?thesis by simp
    qed
    with k(1,2) show ?thesis by (intro exI [of _ "Suc k"]) (auto simp: algebra_simps)
  qed
qed auto

text \<open>\<open>strlcpy\<close> stays in its buffer: whatever the source holds, terminated or not, overlapping or
  not, a call with a positive size ends, returns a length below the size, leaves a null byte at
  that position and changes no byte outside the \<open>sz\<close> bytes of the buffer.\<close>

theorem strlcpy_bounded:
  assumes "sz > 0"
  shows "\<exists>r m'. strlcpy dst src sz m = (r, m') \<and> r < sz \<and> m' (dst + r) = 0 \<and>
     (\<forall>x. (\<forall>k < unat sz. x \<noteq> dst + of_nat k) \<longrightarrow> m' x = m x)"
proof -
  obtain d m1 where l: "strlcpy_loop dst src (unat (sz - 1)) m = (d, m1)" by (cases "strlcpy_loop dst src (unat (sz - 1)) m")
  have u: "unat (sz - 1) = unat sz - 1" "0 < unat sz" using assms by (simp_all add: unat_minus_one unat_gt_0 word_neq_0_conv)
  from strlcpy_loop_bounds [OF l] obtain k where k: "k \<le> unat sz - 1" "d = dst + of_nat k"
    "\<forall>x. (\<forall>i < k. x \<noteq> dst + of_nat i) \<longrightarrow> m1 x = m x" using u by auto
  have lt: "k < unat sz" using k(1) u by simp
  moreover have "unat sz < 2 ^ 64" by (rule order_less_le_trans [OF unsigned_less]) simp
  ultimately have "k < 2 ^ 64" by simp
  then have "unat (of_nat k :: u64) = k" by (simp add: unat_of_nat)
  then have "of_nat k < sz" using lt by (simp add: word_less_nat_alt)
  moreover have "(m1(d := 0)) x = m x" if "\<forall>i < unat sz. x \<noteq> dst + of_nat i" for x
    using that k lt by auto
  ultimately show ?thesis using assms l k(2) by (simp add: strlcpy_def)
qed

theorem strlcpy_bounded_witness:
  "\<exists>r m'. strlcpy 200 100 4 (\<lambda>_. 0x41) = (r, m') \<and> r < 4 \<and> m' (200 + r) = 0 \<and> m' 204 = 0x41"
proof -
  have "(204 :: u64) \<noteq> 200 + of_nat k" if "k < 4" for k
    using addr_eq [of 4 k 200] that by simp
  then show ?thesis using strlcpy_bounded [of 4 200 100 "\<lambda>_. 0x41"] by auto
qed

section \<open>Parsing numbers\<close>

text \<open>The digit characters and the number a list of digits stands for.\<close>

definition dchar :: "nat \<Rightarrow> u8" where
  "dchar d = (if d < 10 then 0x30 + of_nat d else 0x61 + of_nat (d - 10))"

definition num_value :: "nat \<Rightarrow> nat list \<Rightarrow> nat" where
  "num_value b ds = foldl (\<lambda>v d. v * b + d) 0 ds"

lemma digit_of_dchar: "d < 16 \<Longrightarrow> digit_of (dchar d) = Some (int d)"
proof -
  have "\<forall>d \<in> set [0..<16]. digit_of (dchar d) = Some (int d)" by code_simp
  then show "d < 16 \<Longrightarrow> digit_of (dchar d) = Some (int d)" by simp
qed

lemma digits_loop_spec:
  assumes "bytes_at m s (map dchar ds @ [c])" "\<forall>d \<in> set ds. d < b" "b \<le> 16" "digit_of c = None"
  shows "digits_loop m (int b) s (of_nat v) = Some (s + of_nat (length ds), of_nat (foldl (\<lambda>v d. v * b + d) v ds))"
  using assms
proof (induction ds arbitrary: s v)
  case Nil
  then show ?case by (simp add: digits_loop.simps)
next
  case (Cons d ds)
  then have d: "digit_of (m s) = Some (int d)" "d < b" using digit_of_dchar [of d] by auto
  have "digits_loop m (int b) s (of_nat v) = digits_loop m (int b) (s + 1) (of_nat (v * b + d))"
    using d by (subst digits_loop.simps) simp
  also have "\<dots> = Some (s + 1 + of_nat (length ds), of_nat (foldl (\<lambda>v d. v * b + d) (v * b + d) ds))"
    using Cons.prems by (intro Cons.IH) auto
  finally show ?case by (simp add: algebra_simps)
qed

lemma strtol_digits:
  assumes "bytes_at m s (map dchar ds @ [c])" "ds \<noteq> []" "\<forall>d \<in> set ds. d < b" "b = 8 \<or> b = 10 \<or> b = 16"
    "digit_of c = None"
  shows "strtol m s (int b) = Some (of_nat (num_value b ds), s + of_nat (length ds))"
proof -
  have b: "b \<le> 16" "b \<noteq> 0" using assms(4) by auto
  obtain d ds' where ds: "ds = d # ds'" "d < 16" using assms(2,3) b by (cases ds) auto
  have first: "m s = dchar d" using assms(1) ds by simp
  have "\<forall>d \<in> set [0..<16]. dchar d \<noteq> 0x20 \<and> dchar d \<noteq> 0x09 \<and> dchar d \<noteq> 0x2b \<and> dchar d \<noteq> 0x2d \<and> dchar d \<noteq> 0x78"
    by code_simp
  then have ch: "dchar e \<noteq> 0x20 \<and> dchar e \<noteq> 0x09 \<and> dchar e \<noteq> 0x2b \<and> dchar e \<noteq> 0x2d \<and> dchar e \<noteq> 0x78" if "e < 16" for e
    using that by simp
  have second: "m (s + 1) \<noteq> 0x78"
  proof (cases ds')
    case Nil
    then have "m (s + 1) = c" using assms(1) ds by simp
    moreover have "digit_of 0x78 = Some 33" by code_simp
    ultimately show ?thesis using assms(5) by auto
  next
    case (Cons e es)
    then show ?thesis using assms(1,3) ds b ch [of e] by auto
  qed
  have "skip_blanks m s = Some s" using ch [OF ds(2)] first by (simp add: skip_blanks.simps)
  moreover have "digits_loop m (int b) s 0 = Some (s + of_nat (length ds), of_nat (num_value b ds))"
    using digits_loop_spec [OF assms(1,3) b(1) assms(5), of 0] by (simp add: num_value_def)
  ultimately show ?thesis using ch [OF ds(2)] first second b by (simp add: strtol_def)
qed

end
