(* ===== verification/Printfmt.thy ===== *)
theory Printfmt
  imports Cstring
begin

unbundle bit_operations_syntax

text \<open>
  Formatted output, \<^verbatim>\<open>lib/riscv/printfmt.c\<close>, used by the kernel and by programs. The output
  function \<open>putch\<close> acts on a state of any type, and \<open>mem\<close> is the memory in that state, from which
  string arguments are read: the console in the kernel, the buffer of \<open>vsnprintf\<close>. A format is the
  list of its bytes without the null byte; the arguments are the list of the 64-bit slots that
  \<^verbatim>\<open>va_arg\<close> reads. A missing argument, and output that does not end, are \<open>None\<close>. The
  counter of characters of \<open>vsnprintf\<close> is an integer; what a C \<^verbatim>\<open>int\<close> does beyond 2147483647 characters is not modelled.
\<close>

section \<open>Numbers\<close>

primrec put_times :: "(int \<Rightarrow> 's \<Rightarrow> 's) \<Rightarrow> int \<Rightarrow> nat \<Rightarrow> 's \<Rightarrow> 's" where
  "put_times putch c 0 st = st"
| "put_times putch c (Suc n) st = put_times putch c n (putch c st)"

definition hexdigit :: "nat \<Rightarrow> int" where
  "hexdigit d = uint (dchar d)"

partial_function (option) printnum :: "(int \<Rightarrow> 's \<Rightarrow> 's) \<Rightarrow> nat \<Rightarrow> nat \<Rightarrow> int \<Rightarrow> int \<Rightarrow> 's \<Rightarrow> 's option" where
  "printnum putch num base width padc st = do {
     st1 \<leftarrow> (if num \<ge> base then printnum putch (num div base) base (width - 1) padc st
             else Some (put_times putch padc (nat (width - 1)) st));
     Some (putch (hexdigit (num mod base)) st1) }"

section \<open>Conversions\<close>

record conv =
  padc :: int
  width :: int
  precision :: int
  lflag :: nat
  altflag :: bool

definition getuint :: "nat \<Rightarrow> u64 list \<Rightarrow> (u64 \<times> u64 list) option" where
  "getuint lf ap = (case ap of [] \<Rightarrow> None
     | a # as \<Rightarrow> Some (if lf \<ge> 1 then a else ucast (ucast a :: u32), as))"

definition getint :: "nat \<Rightarrow> u64 list \<Rightarrow> (u64 \<times> u64 list) option" where
  "getint lf ap = (case ap of [] \<Rightarrow> None
     | a # as \<Rightarrow> Some (if lf \<ge> 1 then a else scast (ucast a :: u32), as))"

definition va_int :: "u64 list \<Rightarrow> (int \<times> u64 list) option" where
  "va_int ap = (case ap of [] \<Rightarrow> None | a # as \<Rightarrow> Some (sint (ucast a :: u32), as))"

definition is_digit :: "u8 \<Rightarrow> bool" where
  "is_digit c \<longleftrightarrow> 0x30 \<le> c \<and> c \<le> 0x39"

definition process_precision :: "int \<Rightarrow> conv \<Rightarrow> conv" where
  "process_precision p cv = (if width cv < 0 then cv\<lparr>width := p, precision := -1\<rparr> else cv\<lparr>precision := p\<rparr>)"

text \<open>The flags, widths and precisions of an escape sequence up to its conversion character; at the
  end of the format the conversion character is the null byte.\<close>

function escape :: "u8 list \<Rightarrow> conv \<Rightarrow> u64 list \<Rightarrow> (u8 \<times> conv \<times> u8 list \<times> u64 list) option" where
  "escape [] cv ap = Some (0, cv, [], ap)"
| "escape (ch # fmt) cv ap =
     (if ch = 0x2d then escape fmt (cv\<lparr>padc := 0x2d\<rparr>) ap
      else if ch = 0x30 then escape fmt (cv\<lparr>padc := 0x30\<rparr>) ap
      else if is_digit ch then
        escape (dropWhile is_digit fmt)
          (process_precision (foldl (\<lambda>v c. v * 10 + uint c - 0x30) 0 (ch # takeWhile is_digit fmt)) cv) ap
      else if ch = 0x2a then do {
        (p, ap1) \<leftarrow> va_int ap;
        escape fmt (process_precision p cv) ap1 }
      else if ch = 0x2e then escape fmt (if width cv < 0 then cv\<lparr>width := 0\<rparr> else cv) ap
      else if ch = 0x23 then escape fmt (cv\<lparr>altflag := True\<rparr>) ap
      else if ch = 0x6c then escape fmt (cv\<lparr>lflag := lflag cv + 1\<rparr>) ap
      else Some (ch, cv, fmt, ap))"
  by pat_completeness auto
termination
  by (relation "measure (\<lambda>(fmt, _, _). length fmt)")
    (auto simp: less_Suc_eq_le length_dropWhile_le)

text \<open>The loop over the characters of a string argument, with the width left at its end.\<close>

partial_function (option) put_string_loop ::
    "(int \<Rightarrow> 's \<Rightarrow> 's) \<Rightarrow> ('s \<Rightarrow> cmem) \<Rightarrow> bool \<Rightarrow> u64 \<Rightarrow> int \<Rightarrow> int \<Rightarrow> 's \<Rightarrow> (int \<times> 's) option" where
  "put_string_loop putch mem alt p prec w st =
     (let ch = mem st p in
      if ch = 0 then Some (w, st)
      else if prec < 0 \<or> prec - 1 \<ge> 0 then
        put_string_loop putch mem alt (p + 1) (if prec < 0 then prec else prec - 1) (w - 1)
          (putch (if alt \<and> (ch < 0x20 \<or> ch > 0x7e) then 0x3f else uint ch) st)
      else Some (w, st))"

text \<open>A string constant of the program, such as an error message: the same loop over a list.\<close>

definition put_const :: "(int \<Rightarrow> 's \<Rightarrow> 's) \<Rightarrow> string \<Rightarrow> 's \<Rightarrow> 's" where
  "put_const putch cs st = fold (\<lambda>c. putch (of_char c)) cs st"

definition fmt_string ::
    "(int \<Rightarrow> 's \<Rightarrow> 's) \<Rightarrow> ('s \<Rightarrow> cmem) \<Rightarrow> conv \<Rightarrow> u64 \<Rightarrow> 's \<Rightarrow> 's option" where
  "fmt_string putch mem cv p st =
     (if p = 0 then
        (let cs = take (if precision cv < 0 then 6 else nat (precision cv)) ''(null)'';
             lead = (width cv > 0 \<and> padc cv \<noteq> 0x2d);
             st1 = (if lead then put_times putch (padc cv) (nat (width cv - int (length cs))) st else st);
             st2 = put_const putch cs st1
         in Some (if lead then st2 else put_times putch 0x20 (nat (width cv - int (length cs))) st2))
      else do {
        let lead = (width cv > 0 \<and> padc cv \<noteq> 0x2d);
        let w = (if lead then width cv - int (strnlen (mem st) p (word_of_int (precision cv))) else width cv);
        let (w, st1) = (if lead then (min w 0, put_times putch (padc cv) (nat w) st) else (w, st));
        (w, st2) \<leftarrow> put_string_loop putch mem (altflag cv) p (precision cv) w st1;
        Some (put_times putch 0x20 (nat w) st2) })"

definition error_string :: "int \<Rightarrow> string option" where
  "error_string e =
     (if e = 1 then Some ''unspecified error'' else if e = 2 then Some ''bad environment''
      else if e = 3 then Some ''invalid parameter'' else if e = 4 then Some ''out of memory''
      else if e = 5 then Some ''out of environments'' else if e = 6 then Some ''segmentation fault''
      else if e = 7 then Some ''env is not recving'' else if e = 8 then Some ''unexpected end of file''
      else if e = 9 then Some ''no free space on disk'' else if e = 10 then Some ''too many files are open''
      else if e = 11 then Some ''file or block not found'' else if e = 12 then Some ''invalid path''
      else if e = 13 then Some ''file already exists'' else if e = 14 then Some ''file is not a valid executable''
      else if e = 15 then Some ''operation not supported'' else None)"

definition put_signed :: "(int \<Rightarrow> 's \<Rightarrow> 's) \<Rightarrow> u64 \<Rightarrow> conv \<Rightarrow> 's \<Rightarrow> 's option" where
  "put_signed putch num cv st =
     (if sint num < 0 then printnum putch (unat (- num)) 10 (width cv) (padc cv) (putch 0x2d st)
      else printnum putch (unat num) 10 (width cv) (padc cv) st)"

definition plain :: conv where
  "plain = \<lparr>padc = 0x20, width = -1, precision = -1, lflag = 0, altflag = False\<rparr>"

definition put_error :: "(int \<Rightarrow> 's \<Rightarrow> 's) \<Rightarrow> int \<Rightarrow> 's \<Rightarrow> 's option" where
  "put_error putch e st =
     (let err = (if e < 0 then - e else e) in
      case (if err \<ge> MAXERROR then None else error_string err) of
        None \<Rightarrow> put_signed putch (word_of_int err) plain (put_const putch ''error '' st)
      | Some p \<Rightarrow> Some (put_const putch p st))"

section \<open>The formatting loop\<close>

text \<open>One conversion: \<open>None\<close> in the result means that the character is not a conversion, and the
  escape sequence is printed literally.\<close>

definition convert ::
    "(int \<Rightarrow> 's \<Rightarrow> 's) \<Rightarrow> ('s \<Rightarrow> cmem) \<Rightarrow> u8 \<Rightarrow> conv \<Rightarrow> u64 list \<Rightarrow> 's \<Rightarrow> (u64 list \<times> 's) option option" where
  "convert putch mem ch cv ap st =
     (if ch = 0x63 then do { (c, ap1) \<leftarrow> va_int ap; Some (Some (ap1, putch c st)) }
      else if ch = 0x65 then do {
        (err, ap1) \<leftarrow> va_int ap;
        st1 \<leftarrow> put_error putch err st; Some (Some (ap1, st1)) }
      else if ch = 0x73 then
        (case ap of [] \<Rightarrow> None
         | p # ap1 \<Rightarrow> do { st1 \<leftarrow> fmt_string putch mem cv p st; Some (Some (ap1, st1)) })
      else if ch = 0x64 then do {
        (num, ap1) \<leftarrow> getint (lflag cv) ap;
        st1 \<leftarrow> put_signed putch num cv st; Some (Some (ap1, st1)) }
      else if ch = 0x75 then do {
        (num, ap1) \<leftarrow> getuint (lflag cv) ap;
        st1 \<leftarrow> printnum putch (unat num) 10 (width cv) (padc cv) st; Some (Some (ap1, st1)) }
      else if ch = 0x6f then do {
        (num, ap1) \<leftarrow> getuint (lflag cv) ap;
        st1 \<leftarrow> printnum putch (unat num) 8 (width cv) (padc cv) st; Some (Some (ap1, st1)) }
      else if ch = 0x70 then
        (case ap of [] \<Rightarrow> None
         | num # ap1 \<Rightarrow> do {
             st1 \<leftarrow> printnum putch (unat num) 16 (width cv) (padc cv) (putch 0x78 (putch 0x30 st));
             Some (Some (ap1, st1)) })
      else if ch = 0x78 then do {
        (num, ap1) \<leftarrow> getuint (lflag cv) ap;
        st1 \<leftarrow> printnum putch (unat num) 16 (width cv) (padc cv) st; Some (Some (ap1, st1)) }
      else if ch = 0x25 then Some (Some (ap, putch 0x25 st))
      else Some None)"

lemma escape_length: "escape fmt cv ap = Some (ch, cv', rest, ap') \<Longrightarrow> length rest \<le> length fmt"
proof (induction fmt cv ap rule: escape.induct)
  case (2 c fmt cv ap)
  consider "c = 0x2d" | "c = 0x30" | "is_digit c" "c \<noteq> 0x2d" "c \<noteq> 0x30" | "\<not> is_digit c" "c = 0x2a" | "\<not> is_digit c" "c = 0x2e"
    | "\<not> is_digit c" "c = 0x23" | "\<not> is_digit c" "c = 0x6c"
    | "\<not> is_digit c" "c \<noteq> 0x2d" "c \<noteq> 0x30" "c \<noteq> 0x2a" "c \<noteq> 0x2e" "c \<noteq> 0x23" "c \<noteq> 0x6c" by blast
  then show ?case
  proof cases
    case 1
    then show ?thesis using "2.IH"(1) "2.prems" by (simp add: le_SucI)
  next
    case 2
    then show ?thesis using "2.IH"(2) "2.prems" by (simp add: le_SucI)
  next
    case 3
    then have "length rest \<le> length (dropWhile is_digit fmt)" using "2.IH"(3) "2.prems" by simp
    then show ?thesis using length_dropWhile_le [of is_digit fmt] by simp
  next
    case 4
    then obtain p ap1 where "va_int ap = Some (p, ap1)" using "2.prems" by (auto simp: is_digit_def Option.bind_eq_Some_conv)
    then show ?thesis using 4 "2.IH"(4) "2.prems" by (simp add: le_SucI)
  next
    case 5
    then show ?thesis using "2.IH"(5) "2.prems" by (simp add: le_SucI)
  next
    case 6
    then show ?thesis using "2.IH"(6) "2.prems" by (simp add: le_SucI)
  next
    case 7
    then show ?thesis using "2.IH"(7) "2.prems" by (simp add: le_SucI)
  next
    case 8
    then show ?thesis using "2.prems" by simp
  qed
qed simp

function vprintfmt ::
    "(int \<Rightarrow> 's \<Rightarrow> 's) \<Rightarrow> ('s \<Rightarrow> cmem) \<Rightarrow> u8 list \<Rightarrow> u64 list \<Rightarrow> 's \<Rightarrow> 's option" where
  "vprintfmt putch mem [] ap st = Some st"
| "vprintfmt putch mem (ch # fmt) ap st =
     (if ch \<noteq> 0x25 then vprintfmt putch mem fmt ap (putch (uint ch) st)
      else
        (case escape fmt plain ap of
           None \<Rightarrow> None
         | Some (c, cv, rest, ap1) \<Rightarrow>
             (case convert putch mem c cv ap1 st of
                None \<Rightarrow> None
              | Some None \<Rightarrow> vprintfmt putch mem fmt ap1 (putch 0x25 st)
              | Some (Some (ap2, st1)) \<Rightarrow> vprintfmt putch mem rest ap2 st1)))"
  by pat_completeness auto
termination
  by (relation "measure (\<lambda>(_, _, fmt, _, _). length fmt)") (auto dest: escape_length)

section \<open>Formatting into a buffer\<close>

record sprintbuf =
  sp_mem :: cmem
  sp_buf :: u64
  sp_ebuf :: u64
  sp_cnt :: int

definition sprintputch :: "int \<Rightarrow> sprintbuf \<Rightarrow> sprintbuf" where
  "sprintputch ch b =
     (let b1 = b\<lparr>sp_cnt := sp_cnt b + 1\<rparr> in
      if sp_buf b1 < sp_ebuf b1
      then b1\<lparr>sp_mem := (sp_mem b1)(sp_buf b1 := word_of_int ch), sp_buf := sp_buf b1 + 1\<rparr>
      else b1)"

definition vsnprintf :: "u64 \<Rightarrow> int \<Rightarrow> u8 list \<Rightarrow> u64 list \<Rightarrow> cmem \<Rightarrow> (int \<times> cmem) option" where
  "vsnprintf buffer n fmt ap m =
     (if buffer = 0 \<or> n < 1 then Some (- E_INVAL, m)
      else do {
        b \<leftarrow> vprintfmt sprintputch sp_mem fmt ap
               \<lparr>sp_mem = m, sp_buf = buffer, sp_ebuf = buffer + word_of_int n - 1, sp_cnt = 0\<rparr>;
        Some (sp_cnt b, (sp_mem b)(sp_buf b := 0)) })"

section \<open>Printing numbers\<close>

lemma put_times_fold: "put_times putch c n st = fold putch (replicate n c) st"
  by (induction n arbitrary: st) simp_all

lemma printnum_spec:
  assumes "2 \<le> b"
  shows "\<exists>ds. ds \<noteq> [] \<and> (\<forall>d \<in> set ds. d < b) \<and> num_value b ds = n \<and>
     (\<forall>w st. printnum putch n b w pad st =
        Some (fold putch (replicate (nat (w - int (length ds))) pad @ map hexdigit ds) st))"
proof (induction n rule: less_induct)
  case (less n)
  show ?case
  proof (cases "n < b")
    case True
    have "printnum putch n b w pad st = Some (fold putch (replicate (nat (w - 1)) pad @ [hexdigit n]) st)" for w st
      using True by (subst printnum.simps) (simp add: put_times_fold)
    then show ?thesis using True by (intro exI [of _ "[n]"]) (simp add: num_value_def)
  next
    case False
    then have "n div b < n" using assms by simp
    from less.IH [OF this] obtain ds where ds: "ds \<noteq> []" "\<forall>d \<in> set ds. d < b" "num_value b ds = n div b"
      "\<And>w st. printnum putch (n div b) b w pad st =
        Some (fold putch (replicate (nat (w - int (length ds))) pad @ map hexdigit ds) st)" by blast
    have "printnum putch n b w pad st =
        Some (fold putch (replicate (nat (w - int (length (ds @ [n mod b])))) pad @ map hexdigit (ds @ [n mod b])) st)" for w st
      using False ds(4) by (subst printnum.simps) (simp add: algebra_simps)
    moreover have "num_value b (ds @ [n mod b]) = n" using ds(3) by (simp add: num_value_def)
    ultimately show ?thesis using ds(2) assms by (intro exI [of _ "ds @ [n mod b]"]) auto
  qed
qed

lemma hexdigit_byte: "word_of_int (hexdigit d) = dchar d"
  by (simp add: hexdigit_def)

text \<open>Printing and parsing numbers are inverse: \<open>printnum\<close> ends for the bases in use, and if the
  characters it prints for a 64-bit number without padding are in memory, followed by a null byte,
  \<open>strtol\<close> in the same base returns the number and stops at the null byte.\<close>

theorem printnum_strtol:
  assumes b: "b = 8 \<or> b = 10 \<or> b = 16" and n: "n < 2 ^ 64"
  shows "\<exists>cs. printnum (\<lambda>c st. st @ [c]) n b (-1) 0x20 [] = Some cs \<and>
     (\<forall>m s. bytes_at m s (map word_of_int cs @ [0]) \<longrightarrow>
        strtol m s (int b) = Some (of_nat n, s + of_nat (length cs)))"
proof -
  have "2 \<le> b" using b by auto
  from printnum_spec [OF this, where putch = "\<lambda>c (st :: int list). st @ [c]" and n = n and pad = "0x20"] obtain ds where ds: "ds \<noteq> []" "\<forall>d \<in> set ds. d < b"
    "num_value b ds = n" "printnum (\<lambda>c st. st @ [c]) n b (-1) 0x20 [] =
      Some (fold (\<lambda>c st. st @ [c]) (map hexdigit ds) [])" by auto
  have f: "fold (\<lambda>c st. st @ [c]) cs st = st @ cs" for cs st :: "int list"
    by (induction cs arbitrary: st) simp_all
  have "digit_of 0 = None" by (simp add: digit_of_def)
  then have "strtol m s (int b) = Some (of_nat n, s + of_nat (length ds))" if "bytes_at m s (map dchar ds @ [0])" for m s
    using strtol_digits [OF that ds(1,2) b] ds(3) by simp
  then show ?thesis using ds(4) by (intro exI [of _ "map hexdigit ds"]) (simp add: f comp_def hexdigit_byte)
qed

theorem printnum_strtol_witness:
  "\<exists>cs. printnum (\<lambda>c st. st @ [c]) 6828 8 (-1) 0x20 [] = Some cs \<and>
     (\<forall>m s. bytes_at m s (map word_of_int cs @ [0]) \<longrightarrow> strtol m s 8 = Some (6828, s + of_nat (length cs)))"
  using printnum_strtol [of 8 6828] by simp

section \<open>Output stays in the buffer\<close>

text \<open>A property of the output state that every call of \<open>putch\<close> keeps is kept by all formatting.\<close>

definition keeps :: "('s \<Rightarrow> bool) \<Rightarrow> (int \<Rightarrow> 's \<Rightarrow> 's) \<Rightarrow> bool" where
  "keeps P putch \<longleftrightarrow> (\<forall>c st. P st \<longrightarrow> P (putch c st))"

lemma fold_putch_inv:
  assumes "keeps P putch"
  shows "P st \<Longrightarrow> P (fold putch cs st)"
  using assms by (induction cs arbitrary: st) (simp_all add: keeps_def)

lemma put_times_inv: "keeps P putch \<Longrightarrow> P st \<Longrightarrow> P (put_times putch c n st)"
  unfolding put_times_fold by (rule fold_putch_inv)

lemma put_const_inv: "keeps P putch \<Longrightarrow> P st \<Longrightarrow> P (put_const putch cs st)"
  unfolding put_const_def by (induction cs arbitrary: st) (simp_all add: keeps_def)

lemma printnum_inv:
  assumes "keeps P putch" "2 \<le> b" "P st"
  obtains st' where "printnum putch n b w pad st = Some st'" "P st'"
  using printnum_spec [OF assms(2), of n putch pad] fold_putch_inv [OF assms(1,3)] by metis

lemma put_signed_inv:
  assumes "keeps P putch" "P st"
  obtains st' where "put_signed putch num cv st = Some st'" "P st'"
proof (cases "sint num < 0")
  case True
  obtain st' where "printnum putch (unat (- num)) 10 (width cv) (padc cv) (putch 0x2d st) = Some st'" "P st'"
    by (rule printnum_inv [OF assms(1), of 10 "putch 0x2d st"]) (use assms in \<open>auto simp: keeps_def\<close>)
  with True that show thesis by (simp add: put_signed_def)
next
  case False
  obtain st' where "printnum putch (unat num) 10 (width cv) (padc cv) st = Some st'" "P st'"
    by (rule printnum_inv [OF assms(1), of 10 st]) (use assms in auto)
  with False that show thesis by (simp add: put_signed_def)
qed

lemma put_string_loop_inv:
  assumes "keeps P putch" "put_string_loop putch mem alt p prec w st = Some y" "P st"
  shows "P (snd y)"
proof -
  let ?Q = "\<lambda>f (mm :: 'a \<Rightarrow> cmem) (alt :: bool) (p :: u64) (prec :: int) (w :: int) st (y :: int \<times> 'a).
      f = putch \<longrightarrow> P st \<longrightarrow> P (snd y)"
  have "?Q putch mem alt p prec w st y"
  proof (rule put_string_loop.raw_induct [where P = ?Q, OF _ assms(2)])
    fix loop f mem alt p prec w st y
    assume IH: "\<And>f mem alt p prec w st y. loop f mem alt p prec w st = Some y \<Longrightarrow> ?Q f mem alt p prec w st y"
      and body: "(let ch = mem st p in
        if ch = 0 then Some (w, st)
        else if prec < 0 \<or> prec - 1 \<ge> 0 then
          loop f mem alt (p + 1) (if prec < 0 then prec else prec - 1) (w - 1)
            (f (if alt \<and> (ch < 0x20 \<or> ch > 0x7e) then 0x3f else uint ch) st)
        else Some (w, st)) = Some y"
    show "?Q f mem alt p prec w st y"
      using body IH assms(1) unfolding Let_def keeps_def by (auto split: if_splits)
  qed
  then show ?thesis using assms(3) by blast
qed

lemma fmt_string_inv:
  assumes "keeps P putch" "fmt_string putch mem cv p st = Some st'" "P st"
  shows "P st'"
proof (cases "p = 0")
  case True
  then show ?thesis using assms(2,3)
    by (auto simp: fmt_string_def Let_def intro!: put_times_inv [OF assms(1)] put_const_inv [OF assms(1)])
next
  case False
  then obtain st1 w w' st2 where st1: "st1 = st \<or> (\<exists>n. st1 = put_times putch (padc cv) n st)"
    "put_string_loop putch mem (altflag cv) p (precision cv) w st1 = Some (w', st2)" "st' = put_times putch 0x20 (nat w') st2"
    using assms(2) by (auto simp: fmt_string_def Let_def Option.bind_eq_Some_conv split: if_splits) blast
  have "P st1" using st1(1) assms(3) put_times_inv [OF assms(1,3)] by auto
  then have "P st2" using put_string_loop_inv [OF assms(1) st1(2)] by simp
  then show ?thesis using st1(3) put_times_inv [OF assms(1)] by simp
qed


lemma put_error_inv:
  assumes "keeps P putch" "P st"
  obtains st' where "put_error putch e st = Some st'" "P st'"
proof -
  define err where "err = (if e < 0 then - e else e)"
  have d: "put_error putch e st = (case (if err \<ge> MAXERROR then None else error_string err) of
        None \<Rightarrow> put_signed putch (word_of_int err) plain (put_const putch ''error '' st)
      | Some p \<Rightarrow> Some (put_const putch p st))" unfolding put_error_def Let_def err_def ..
  show thesis
  proof (cases "if err \<ge> MAXERROR then None else error_string err")
    case None
    obtain st' where "put_signed putch (word_of_int err) plain (put_const putch ''error '' st) = Some st'" "P st'"
      by (rule put_signed_inv [OF assms(1) put_const_inv [OF assms]])
    then show thesis using that unfolding d None by simp
  next
    case (Some p)
    then show thesis using that put_const_inv [OF assms] unfolding d Some by simp
  qed
qed

lemma convert_inv:
  assumes "keeps P putch" "convert putch mem ch cv ap st = Some (Some (ap', st'))" "P st"
  shows "P st'"
proof -
  have pn: "P u" if "printnum putch n b w pad t = Some u" "P t" "2 \<le> b" for n b w pad t u
    using printnum_inv [OF assms(1) that(3,2), of n w pad] that(1) by auto
  have sg: "P u" if "put_signed putch n c t = Some u" "P t" for n c t u
    using put_signed_inv [OF assms(1) that(2), of n c] that(1) by auto
  have er: "P u" if "put_error putch n t = Some u" "P t" for n t u
    using put_error_inv [OF assms(1) that(2), of n] that(1) by auto
  show ?thesis
    using assms(2,3) pn sg er fmt_string_inv [OF assms(1)] assms(1) [unfolded keeps_def] unfolding convert_def
    by (auto split: if_splits option.splits list.splits bind_splits)
qed

lemma vprintfmt_inv:
  assumes "keeps P putch"
  shows "vprintfmt putch mem fmt ap st = Some st' \<Longrightarrow> P st \<Longrightarrow> P st'"
proof (induction "length fmt" arbitrary: fmt ap st rule: less_induct)
  case less
  show ?case
  proof (cases fmt)
    case Nil
    then show ?thesis using less.prems by simp
  next
    case (Cons ch r)
    have k: "P (putch c st)" for c using assms less.prems(2) by (simp add: keeps_def)
    show ?thesis
    proof (cases "ch = 0x25")
      case False
      then show ?thesis using less.hyps [of r ap "putch (uint ch) st"] less.prems(1) k Cons by simp
    next
      case True
      obtain c cv rest ap1 where e: "escape r plain ap = Some (c, cv, rest, ap1)"
        using less.prems(1) Cons True by (auto split: option.splits)
      then have l: "length rest < length fmt" using escape_length [OF e] Cons by simp
      obtain q where q: "convert putch mem c cv ap1 st = Some q"
        using less.prems(1) Cons True e by (auto split: option.splits)
      show ?thesis
      proof (cases q)
        case None
        then show ?thesis using less.hyps [of r ap1 "putch 0x25 st"] less.prems(1) k Cons True e q by simp
      next
        case (Some x)
        then show ?thesis
          using less.hyps [OF l] less.prems Cons True e q convert_inv [OF assms] by (cases x) auto
      qed
    qed
  qed
qed

text \<open>The state of \<open>vsnprintf\<close>: the position is between the start and the last byte of the buffer,
  and nothing outside the buffer has been written.\<close>

definition buf_ok :: "cmem \<Rightarrow> u64 \<Rightarrow> nat \<Rightarrow> sprintbuf \<Rightarrow> bool" where
  "buf_ok m a n b \<longleftrightarrow> sp_ebuf b = a + of_nat (n - 1) \<and> (\<exists>k < n. sp_buf b = a + of_nat k) \<and> 0 \<le> sp_cnt b \<and>
     (\<forall>x. (\<forall>k < n. x \<noteq> a + of_nat k) \<longrightarrow> sp_mem b x = m x)"

lemma sprintputch_ok:
  assumes "unat a + n \<le> 2 ^ 64" "0 < n"
  shows "keeps (buf_ok m a n) sprintputch"
proof -
  have "buf_ok m a n (sprintputch c b)" if ok: "buf_ok m a n b" for c b
  proof -
    obtain k where k: "k < n" "sp_buf b = a + of_nat k" using ok by (auto simp: buf_ok_def)
    have e: "sp_ebuf b = a + of_nat (n - 1)" using ok by (simp only: buf_ok_def)
    have u: "unat (sp_buf b) = unat a + k" "unat (sp_ebuf b) = unat a + (n - 1)"
      unfolding k(2) e by (rule unat_addr; use k(1) assms in simp)+
    show ?thesis
    proof (cases "sp_buf b < sp_ebuf b")
      case True
      then have "Suc k < n" using u by (simp add: word_less_nat_alt)
      moreover have "a + of_nat k + 1 = a + of_nat (Suc k)" by (simp add: algebra_simps)
      ultimately show ?thesis using True ok k unfolding buf_ok_def sprintputch_def by (auto simp: Let_def)
    next
      case False
      then show ?thesis using ok by (simp add: buf_ok_def sprintputch_def Let_def)
    qed
  qed
  then show ?thesis by (simp add: keeps_def)
qed

section \<open>Formatting ends\<close>

lemma escape_total:
  "0x2a \<notin> set fmt \<Longrightarrow> \<exists>c cv' rest. escape fmt cv ap = Some (c, cv', rest, ap) \<and> set rest \<subseteq> set fmt \<and> (c = 0 \<or> c \<in> set fmt)"
proof (induction fmt cv ap rule: escape.induct)
  case (2 c fmt cv ap)
  have n: "0x2a \<notin> set fmt" "c \<noteq> 0x2a" using "2.prems" by auto
  consider "c = 0x2d" | "c = 0x30" | "is_digit c" "c \<noteq> 0x2d" "c \<noteq> 0x30" | "\<not> is_digit c" "c = 0x2e"
    | "\<not> is_digit c" "c = 0x23" | "\<not> is_digit c" "c = 0x6c"
    | "\<not> is_digit c" "c \<noteq> 0x2d" "c \<noteq> 0x30" "c \<noteq> 0x2e" "c \<noteq> 0x23" "c \<noteq> 0x6c" by blast
  then show ?case
  proof cases
    case 1
    then show ?thesis using "2.IH"(1) n by fastforce
  next
    case 2
    then show ?thesis using "2.IH"(2) n by fastforce
  next
    case 3
    have "0x2a \<notin> set (dropWhile is_digit fmt)" using n(1) set_dropWhileD by fastforce
    then show ?thesis using 3 "2.IH"(3) n set_dropWhileD by (simp, fastforce)
  next
    case 4
    then show ?thesis using "2.IH"(5) n by fastforce
  next
    case 5
    then show ?thesis using "2.IH"(6) n by fastforce
  next
    case 6
    then show ?thesis using "2.IH"(7) n by fastforce
  next
    case 7
    then show ?thesis using n by auto
  qed
qed simp

lemma convert_total:
  assumes "ap \<noteq> []" "ch \<noteq> 0x73"
  shows "\<exists>q. convert putch mem ch cv ap st = Some q \<and> (\<forall>ap' st'. q = Some (ap', st') \<longrightarrow> length ap \<le> length ap' + 1)"
proof -
  obtain x ys where ap: "ap = x # ys" using assms(1) by (cases ap) auto
  have k: "keeps (\<lambda>_. True) putch" by (simp add: keeps_def)
  have pn: "\<exists>u. printnum putch n b w pad t = Some u" if "2 \<le> b" for n b w pad t
    using printnum_spec [OF that, where putch = putch and n = n and pad = pad] by auto
  have sg: "\<exists>u. put_signed putch n c t = Some u" for n c t
    by (rule put_signed_inv [OF k TrueI, where num = n and cv = c and st = t]) blast
  have er: "\<exists>u. put_error putch n t = Some u" for n t
    by (rule put_error_inv [OF k TrueI, where e = n and st = t]) blast
  show ?thesis
    using assms(2) pn [of 8 "unat (fst (the (getuint (lflag cv) ap)))" "width cv" "padc cv" st]
      pn [of 10 "unat (fst (the (getuint (lflag cv) ap)))" "width cv" "padc cv" st]
      pn [of 16 "unat (fst (the (getuint (lflag cv) ap)))" "width cv" "padc cv" st]
      pn [of 16 "unat x" "width cv" "padc cv" "putch 0x78 (putch 0x30 st)"]
      sg [of "fst (the (getint (lflag cv) ap))" cv st] er [of "sint (ucast x :: u32)" st]
    unfolding convert_def ap by (auto simp: getuint_def getint_def va_int_def split: if_splits)
qed

lemma vprintfmt_total:
  "0x73 \<notin> set fmt \<Longrightarrow> 0x2a \<notin> set fmt \<Longrightarrow> length fmt \<le> length ap \<Longrightarrow> \<exists>st'. vprintfmt putch mem fmt ap st = Some st'"
proof (induction "length fmt" arbitrary: fmt ap st rule: less_induct)
  case less
  show ?case
  proof (cases fmt)
    case (Cons ch r)
    then have r: "0x73 \<notin> set r" "0x2a \<notin> set r" "length r < length ap" "length r < length fmt" using less.prems by auto
    obtain c cv rest where e: "escape r plain ap = Some (c, cv, rest, ap)" "set rest \<subseteq> set r" "c = 0 \<or> c \<in> set r"
      using escape_total [OF r(2)] by blast
    have c: "c \<noteq> 0x73" "ap \<noteq> []" using e(3) r by auto
    obtain q where q: "convert putch mem c cv ap st = Some q" "\<forall>ap' st'. q = Some (ap', st') \<longrightarrow> length ap \<le> length ap' + 1"
      using convert_total [OF c(2,1), where putch = putch and mem = mem and cv = cv and st = st] by (elim exE conjE)
    have l: "length rest \<le> length r" by (rule escape_length [OF e(1)])
    show ?thesis
    proof (cases "ch = 0x25")
      case False
      then show ?thesis using less.hyps [of r ap "putch (uint ch) st"] r Cons by simp
    next
      case True
      show ?thesis
      proof (cases q)
        case None
        then show ?thesis using less.hyps [of r ap "putch 0x25 st"] r Cons True e(1) q(1) by simp
      next
        case (Some x)
        obtain ap' st1 where x: "x = (ap', st1)" by (cases x)
        then have "length rest \<le> length ap'" using q(2) Some l r(3) by force
        moreover have "0x73 \<notin> set rest" "0x2a \<notin> set rest" using e(2) r by auto
        ultimately show ?thesis
          using less.hyps [of rest ap' st1] l r(4) Cons True e(1) q(1) Some x by simp
      qed
    qed
  qed simp
qed

text \<open>C33. \<open>vsnprintf\<close> stays in its buffer of \<open>n\<close> bytes: for every format and all arguments, if it
  returns, the result is not negative, the buffer holds a null byte and no byte outside the buffer
  has changed. It returns whenever the format prints no string, takes no width from an
  argument and has an argument for each of its characters; a null or empty buffer is refused.\<close>

theorem vsnprintf_bounded:
  assumes "a \<noteq> 0" "0 < n" "unat a + n \<le> 2 ^ 64"
  shows "(\<forall>r m'. vsnprintf a (int n) fmt ap m = Some (r, m') \<longrightarrow> 0 \<le> r \<and> (\<exists>k < n. m' (a + of_nat k) = 0) \<and>
       (\<forall>x. (\<forall>k < n. x \<noteq> a + of_nat k) \<longrightarrow> m' x = m x)) \<and>
     (0x73 \<notin> set fmt \<and> 0x2a \<notin> set fmt \<and> length fmt \<le> length ap \<longrightarrow> vsnprintf a (int n) fmt ap m \<noteq> None) \<and>
     vsnprintf 0 (int n) fmt ap m = Some (- E_INVAL, m) \<and> vsnprintf a 0 fmt ap m = Some (- E_INVAL, m)"
proof -
  let ?b = "\<lparr>sp_mem = m, sp_buf = a, sp_ebuf = a + word_of_int (int n) - 1, sp_cnt = 0\<rparr>"
  have eb: "a + word_of_int (int n) - 1 = a + of_nat (n - 1)" using assms(2) by (simp add: of_nat_diff)
  have ok: "buf_ok m a n ?b"
    using assms(2) unfolding buf_ok_def eb by (auto intro!: exI [of _ 0])
  have "0 \<le> r \<and> (\<exists>k < n. m' (a + of_nat k) = 0) \<and> (\<forall>x. (\<forall>k < n. x \<noteq> a + of_nat k) \<longrightarrow> m' x = m x)"
    if v: "vsnprintf a (int n) fmt ap m = Some (r, m')" for r m'
  proof -
    obtain b where b: "vprintfmt sprintputch sp_mem fmt ap ?b = Some b" "r = sp_cnt b" "m' = (sp_mem b)(sp_buf b := 0)"
      using v assms(1,2) by (auto simp: vsnprintf_def Option.bind_eq_Some_conv)
    have "buf_ok m a n b" by (rule vprintfmt_inv [OF sprintputch_ok [OF assms(3,2)] b(1) ok])
    then show ?thesis using b(2,3) by (auto simp: buf_ok_def)
  qed
  moreover have "vsnprintf a (int n) fmt ap m \<noteq> None"
    if "0x73 \<notin> set fmt" "0x2a \<notin> set fmt" "length fmt \<le> length ap"
    using vprintfmt_total [OF that, of sprintputch sp_mem ?b] assms(1,2) by (auto simp: vsnprintf_def)
  moreover have "vsnprintf 0 (int n) fmt ap m = Some (- E_INVAL, m)" "vsnprintf a 0 fmt ap m = Some (- E_INVAL, m)"
    by (simp_all add: vsnprintf_def)
  ultimately show ?thesis by blast
qed

theorem vsnprintf_bounded_witness:
  "\<exists>r m'. vsnprintf 100 (int 4) [0x25, 0x75] [12345, 0] (\<lambda>_. 0x41) = Some (r, m') \<and> 0 \<le> r \<and> m' 104 = 0x41"
proof -
  have h: "(100 :: u64) \<noteq> 0" "0 < (4 :: nat)" "unat (100 :: u64) + 4 \<le> 2 ^ 64" by simp_all
  note b = vsnprintf_bounded [OF h, of "[0x25, 0x75]" "[12345, 0]" "\<lambda>_. 0x41"]
  have "vsnprintf 100 (int 4) [0x25, 0x75] [12345, 0] (\<lambda>_. 0x41) \<noteq> None" using b by simp
  then obtain r m' where v: "vsnprintf 100 (int 4) [0x25, 0x75] [12345, 0] (\<lambda>_. 0x41) = Some (r, m')" by fast
  have "(104 :: u64) \<noteq> 100 + of_nat k" if "k < 4" for k
    using addr_eq [of 4 k 100] that by simp
  then have "0 \<le> r" "m' 104 = 0x41" using b v by blast+
  with v show ?thesis by blast
qed

end
