(* ===== verification/Monitor.thy ===== *)
theory Monitor
  imports Console Printfmt
begin

text \<open>
  The line editor \<^verbatim>\<open>lib/riscv/readline.c\<close>, as compiled into the kernel, and the kernel monitor
  \<^verbatim>\<open>kern/riscv/monitor.c\<close>. A line is the list of the bytes in \<^verbatim>\<open>buf\<close> up to the null byte. What the
  commands print is left out, apart from the list that \<open>mon_help\<close> prints; all of them only print.
\<close>

section \<open>The line editor\<close>

abbreviation (input) BUFLEN :: nat where "BUFLEN \<equiv> 1024"

partial_function (option) readline_loop :: "u8 list \<Rightarrow> console \<Rightarrow> (u8 list \<times> console) option" where
  "readline_loop line c = do {
     (x, c1) \<leftarrow> getchar c;
     if (x = 0x08 \<or> x = 0x7f) \<and> length line > 0 then readline_loop (butlast line) (cons_putc 0x08 c1)
     else if x \<ge> 0x20 \<and> length line < BUFLEN - 1 then readline_loop (line @ [x]) (cons_putc (uint x) c1)
     else if x = 0x0a \<or> x = 0x0d then Some (line, cons_putc 0x0a c1)
     else readline_loop line c1 }"

definition readline :: "string \<Rightarrow> console \<Rightarrow> (u8 list \<times> console) option" where
  "readline prompt c = readline_loop [] (put_const cons_putc prompt c)"

section \<open>Commands\<close>

abbreviation (input) MAXARGS :: nat where "MAXARGS \<equiv> 16"

definition whitespace :: "u8 \<Rightarrow> bool" where
  "whitespace c \<longleftrightarrow> c \<in> {0x09, 0x0d, 0x0a, 0x20}"

text \<open>The loop that splits the line: the arguments, or nothing when there are too many.\<close>

function split_args :: "nat \<Rightarrow> u8 list \<Rightarrow> u8 list list option" where
  "split_args argc b =
     (let b1 = dropWhile whitespace b in
      if b1 = [] then Some []
      else if argc = MAXARGS - 1 then None
      else map_option (\<lambda>args. takeWhile (\<lambda>c. \<not> whitespace c) b1 # args)
             (split_args (argc + 1) (dropWhile (\<lambda>c. \<not> whitespace c) b1)))"
  by pat_completeness auto
termination
proof (relation "measure (\<lambda>(argc, b). length b)")
  fix argc :: nat and b b1 :: "u8 list"
  assume b1: "b1 = dropWhile whitespace b" and ne: "b1 \<noteq> []"
  then have "\<not> whitespace (hd b1)" by (simp add: hd_dropWhile)
  with ne have "length (dropWhile (\<lambda>c. \<not> whitespace c) b1) < length b1"
    by (cases b1) (simp_all add: less_Suc_eq_le length_dropWhile_le)
  also have "\<dots> \<le> length b" unfolding b1 by (rule length_dropWhile_le)
  finally show "((argc + 1, dropWhile (\<lambda>c. \<not> whitespace c) b1), argc, b) \<in> measure (\<lambda>(argc, b). length b)" by simp
qed simp

declare split_args.simps [simp del]

datatype command = mon_help | mon_kerninfo | mon_backtrace | mon_showmappings | mon_pagepermission | mon_dump | mon_continue

definition commands :: "(string \<times> command) list" where
  "commands = [(''help'', mon_help), (''kerninfo'', mon_kerninfo), (''backtrace'', mon_backtrace),
     (''showmappings'', mon_showmappings), (''pagepermission'', mon_pagepermission), (''dump'', mon_dump),
     (''continue'', mon_continue)]"

text \<open>What a command line leads to, and the value \<open>runcmd\<close> returns for it.\<close>

datatype cmd_result = Too_many | No_command | Unknown "u8 list" | Invoked command "u8 list list"

definition bytes_of :: "string \<Rightarrow> u8 list" where
  "bytes_of cs = map of_char cs"

definition runcmd :: "u8 list \<Rightarrow> cmd_result" where
  "runcmd b =
     (case split_args 0 b of
        None \<Rightarrow> Too_many
      | Some [] \<Rightarrow> No_command
      | Some (a # as) \<Rightarrow>
          (case List.find (\<lambda>(name, cmd). bytes_of name = a) commands of
             None \<Rightarrow> Unknown a
           | Some (name, cmd) \<Rightarrow> Invoked cmd (a # as)))"

primrec mon_ret :: "command \<Rightarrow> int" where
  "mon_ret mon_help = 0"
| "mon_ret mon_kerninfo = 0"
| "mon_ret mon_backtrace = 0"
| "mon_ret mon_showmappings = 0"
| "mon_ret mon_pagepermission = 0"
| "mon_ret mon_dump = 0"
| "mon_ret mon_continue = 0"

primrec runcmd_ret :: "cmd_result \<Rightarrow> int" where
  "runcmd_ret Too_many = 0"
| "runcmd_ret No_command = 0"
| "runcmd_ret (Unknown a) = 0"
| "runcmd_ret (Invoked cmd args) = mon_ret cmd"

text \<open>The loop of \<open>monitor\<close>; \<open>run\<close> is what a command prints.\<close>

partial_function (option) monitor :: "(cmd_result \<Rightarrow> console \<Rightarrow> console) \<Rightarrow> console \<Rightarrow> console option" where
  "monitor run c = do {
     (line, c1) \<leftarrow> readline ''K> '' c;
     let c2 = run (runcmd line) c1;
     if runcmd_ret (runcmd line) < 0 then Some c2 else monitor run c2 }"

section \<open>Splitting the line\<close>

text \<open>The words of a line, by a pass over its characters.\<close>

fun split_words :: "u8 list \<Rightarrow> u8 list \<Rightarrow> u8 list list" where
  "split_words w [] = (if w = [] then [] else [w])"
| "split_words w (c # cs) =
     (if whitespace c then (if w = [] then [] else [w]) @ split_words [] cs else split_words (w @ [c]) cs)"

lemma split_words_drop: "split_words [] b = split_words [] (dropWhile whitespace b)"
  by (induction b) auto

lemma split_words_take:
  "split_words w b =
     (let v = w @ takeWhile (\<lambda>c. \<not> whitespace c) b
      in (if v = [] then [] else [v]) @ split_words [] (dropWhile (\<lambda>c. \<not> whitespace c) b))"
  by (induction b arbitrary: w) (auto simp: Let_def)

lemma split_args_words:
  "argc < MAXARGS \<Longrightarrow>
   split_args argc b = (if argc + length (split_words [] b) < MAXARGS then Some (split_words [] b) else None)"
proof (induction argc b rule: split_args.induct)
  case (1 argc b)
  define b1 where "b1 = dropWhile whitespace b"
  show ?case
  proof (cases "b1 = []")
    case True
    have "split_words [] b = split_words [] b1" unfolding b1_def by (rule split_words_drop)
    then have "split_words [] b = []" by (simp add: True)
    then show ?thesis using True "1.prems" by (simp add: split_args.simps [of argc b] b1_def [symmetric] Let_def)
  next
    case ne: False
    then have h: "\<not> whitespace (hd b1)" unfolding b1_def by (rule hd_dropWhile)
    define w where "w = takeWhile (\<lambda>c. \<not> whitespace c) b1"
    define r where "r = dropWhile (\<lambda>c. \<not> whitespace c) b1"
    have w: "w \<noteq> []" using ne h by (cases b1) (simp_all add: w_def)
    have "split_words [] b = split_words [] b1" unfolding b1_def by (rule split_words_drop)
    also have "\<dots> = w # split_words [] r"
      using split_words_take [of "[]" b1] w by (simp add: w_def [symmetric] r_def [symmetric] Let_def)
    finally have s: "split_words [] b = w # split_words [] r" .
    show ?thesis
    proof (cases "argc = MAXARGS - 1")
      case True
      then show ?thesis using ne s by (subst split_args.simps) (simp add: b1_def [symmetric] Let_def)
    next
      case False
      have "split_args (argc + 1) r = (if argc + 1 + length (split_words [] r) < MAXARGS then Some (split_words [] r) else None)"
        unfolding r_def by (rule "1.IH" [OF b1_def]) (use ne False "1.prems" in auto)
      then show ?thesis using ne False s
        by (subst split_args.simps) (simp add: b1_def [symmetric] w_def [symmetric] r_def [symmetric] Let_def)
    qed
  qed
qed

text \<open>\<open>runcmd\<close> splits a line into its words: the loop that scans with two pointers gives the same
  words as the pass over the characters. A line of more than 15 words is refused, an empty one does
  nothing, and otherwise the first word selects the command of that name, which gets all words.
  No line makes \<open>runcmd\<close> return a negative value, so the monitor, once entered, never returns.\<close>

theorem runcmd_words:
  "runcmd b =
     (if length (split_words [] b) > 15 then Too_many
      else case split_words [] b of
          [] \<Rightarrow> No_command
        | a # as \<Rightarrow> (case List.find (\<lambda>(name, cmd). bytes_of name = a) commands of
             None \<Rightarrow> Unknown a | Some (name, cmd) \<Rightarrow> Invoked cmd (a # as))) \<and>
   runcmd_ret (runcmd b) = 0 \<and> monitor run c = None"
proof -
  have "mon_ret cmd = 0" for cmd by (cases cmd) simp_all
  then have r: "runcmd_ret (runcmd b) = 0" for b by (cases "runcmd b") simp_all
  have "False" if "monitor run c = Some d" for d
  proof (rule monitor.raw_induct [where P = "\<lambda>_ _ _. False", OF _ that])
    fix m run c d
    assume "\<And>run c d. m run c = Some d \<Longrightarrow> False"
      "do { (line, c1) \<leftarrow> readline ''K> '' c;
            let c2 = run (runcmd line) c1;
            if runcmd_ret (runcmd line) < 0 then Some c2 else m run c2 } = Some d"
    then show False by (auto simp: r Option.bind_eq_Some_conv Let_def)
  qed
  then have "monitor run c = None" by (cases "monitor run c") auto
  moreover have "split_args 0 b = (if length (split_words [] b) > 15 then None else Some (split_words [] b))"
    using split_args_words [of 0 b] by auto
  then have "runcmd b = (if length (split_words [] b) > 15 then Too_many
      else case split_words [] b of
          [] \<Rightarrow> No_command
        | a # as \<Rightarrow> (case List.find (\<lambda>(name, cmd). bytes_of name = a) commands of
             None \<Rightarrow> Unknown a | Some (name, cmd) \<Rightarrow> Invoked cmd (a # as)))" by (simp add: runcmd_def)
  ultimately show ?thesis using r by (intro conjI)
qed

section \<open>Reading a line\<close>

text \<open>Editing as a function of the characters typed: the line at the first end of line, and the
  characters after it.\<close>

fun edit :: "u8 list \<Rightarrow> u8 list \<Rightarrow> (u8 list \<times> u8 list) option" where
  "edit line [] = None"
| "edit line (x # xs) =
     (if (x = 0x08 \<or> x = 0x7f) \<and> line \<noteq> [] then edit (butlast line) xs
      else if 0x20 \<le> x \<and> length line < 1023 then edit (line @ [x]) xs
      else if x = 0x0a \<or> x = 0x0d then Some (line, xs)
      else edit line xs)"

text \<open>What the line delivers comes in bursts, ended by a -1; one call of \<open>cons_getc\<close> stores one burst.
  \<open>next_burst\<close> is what is left after the first burst, \<open>all_chars\<close> are the characters of all bursts.\<close>

fun next_burst :: "int list \<Rightarrow> int list" where
  "next_burst [] = []"
| "next_burst (x # xs) = (if x = -1 then xs else next_burst xs)"

definition all_chars :: "int list \<Rightarrow> u8 list" where
  "all_chars us = map word_of_int (filter (\<lambda>x. x \<noteq> -1 \<and> x \<noteq> 0) us)"

lemma next_burst_shorter: "us \<noteq> [] \<Longrightarrow> length (next_burst us) < length us"
proof (induction us)
  case (Cons x us)
  then show ?case by (cases "us = []") auto
qed simp

lemma all_chars_burst: "all_chars us = received us @ all_chars (next_burst us)"
  by (induction us) (auto simp: all_chars_def)

text \<open>No burst finds the buffer full, when \<open>q\<close> characters wait and one is taken after each burst.\<close>

function paced :: "nat \<Rightarrow> int list \<Rightarrow> bool" where
  "paced q us \<longleftrightarrow> q + length (received us) < 512 \<and> (us \<noteq> [] \<longrightarrow> paced (q + length (received us) - 1) (next_burst us))"
  by pat_completeness auto
termination by (relation "measure (\<lambda>(q, us). length us)") (auto simp: next_burst_shorter)

declare paced.simps [simp del]

lemma paced_Nil [simp]: "paced q [] \<longleftrightarrow> q < 512"
  by (subst paced.simps) simp

lemma paced_next: "paced q us \<Longrightarrow> q + length (received us) < 512 \<and> paced (q + length (received us) - 1) (next_burst us)"
  by (cases "us = []") (simp, simp only: paced.simps [of q us] simp_thms)

lemma cons_intr_uart: "cons_wf c \<Longrightarrow> uart_in (cons_intr c) = next_burst (uart_in c)"
proof (induction c rule: cons_intr.induct)
  case (1 c)
  show ?case
  proof (cases "uart_in c")
    case Nil
    then show ?thesis by (simp add: cons_intr.simps [of c] serial_proc_data_def)
  next
    case (Cons x xs)
    let ?c1 = "c\<lparr>uart_in := xs\<rparr>"
    have sp: "serial_proc_data c = (x, ?c1)" using Cons by (simp add: serial_proc_data_def)
    have wf: "cons_wf ?c1" using "1.prems" by (simp add: cons_wf_def)
    consider "x = -1" | "x \<noteq> -1" "x = 0" | "x \<noteq> -1" "x \<noteq> 0" by blast
    then show ?thesis
    proof cases
      case 1
      then show ?thesis using Cons sp by (simp add: cons_intr.simps [of c])
    next
      case 2
      then show ?thesis using "1.IH"(1) [OF sp [symmetric] refl 2 wf] Cons sp by (simp add: cons_intr.simps [of c])
    next
      case 3
      then show ?thesis using "1.IH"(2) [OF sp [symmetric] refl 3 cons_store_wpos(2) [OF wf]] Cons sp cons_store_wpos [OF wf, of x]
        by (simp add: cons_intr.simps [of c])
    qed
  qed
qed

text \<open>\<open>xs\<close> are the characters in the buffer and those that will still be delivered, none of them null; the buffer
  does not overflow when they are read one after the other.\<close>

definition typed :: "console \<Rightarrow> u8 list \<Rightarrow> bool" where
  "typed c xs \<longleftrightarrow> cons_wf c \<and> serial_exists c \<and> queue c @ all_chars (uart_in c) = xs \<and>
     paced (pending c) (uart_in c) \<and> 0 \<notin> set xs"

lemma typed_putc [simp]: "typed (cons_putc x c) xs = typed c xs"
  by (simp add: typed_def cons_putc_def cons_wf_def queue_def pending_def)

lemma typed_put_const [simp]: "typed (put_const cons_putc cs c) xs = typed c xs"
  unfolding put_const_def by (induction cs arbitrary: c) simp_all

lemma length_queue: "length (queue c) = pending c"
  by (simp add: queue_def)

text \<open>The state after a burst has been stored.\<close>

lemma typed_intr:
  assumes "typed c xs"
  shows "cons_wf (cons_intr c)" "queue (cons_intr c) @ all_chars (uart_in (cons_intr c)) = xs"
    "serial_exists (cons_intr c)" "uart_in (cons_intr c) = next_burst (uart_in c)"
    "paced (length (queue (cons_intr c)) - 1) (uart_in (cons_intr c))"
proof -
  have h: "cons_wf c" "serial_exists c" "queue c @ all_chars (uart_in c) = xs" "paced (pending c) (uart_in c)"
    using assms by (auto simp: typed_def)
  note p = paced_next [OF h(4)] and u = cons_intr_uart [OF h(1)]
  have i: "cons_wf (cons_intr c)" "queue (cons_intr c) = queue c @ received (uart_in c)" "serial_exists (cons_intr c)"
    using cons_intr_queue [OF h(1)] p h(2) by auto
  then show "cons_wf (cons_intr c)" "serial_exists (cons_intr c)" by auto
  show "uart_in (cons_intr c) = next_burst (uart_in c)" by (rule u)
  show "queue (cons_intr c) @ all_chars (uart_in (cons_intr c)) = xs"
    using i(2) h(3) all_chars_burst [of "uart_in c"] u by simp
  show "paced (length (queue (cons_intr c)) - 1) (uart_in (cons_intr c))"
    using p i(2) u by (simp add: length_queue)
qed

lemma getchar_typed:
  assumes "typed c (x # xs)"
  shows "\<exists>c1. getchar c = Some (x, c1) \<and> typed c1 xs"
  using assms
proof (induction "length (uart_in c)" arbitrary: c rule: less_induct)
  case less
  note i = typed_intr [OF less.prems]
  have se: "serial_exists c" "x \<noteq> 0" "0 \<notin> set xs" using less.prems by (auto simp: typed_def)
  show ?case
  proof (cases "queue (cons_intr c)")
    case Nil
    have e: "rpos (cons_intr c) = wpos (cons_intr c)" using queue_empty [OF i(1)] Nil by simp
    have "uart_in c \<noteq> []" using i(2,4) Nil by (auto simp: all_chars_def)
    then have "length (uart_in (cons_intr c)) < length (uart_in c)" by (simp add: i(4) next_burst_shorter)
    moreover have "typed (cons_intr c) (x # xs)"
      using i se Nil length_queue [of "cons_intr c"] by (simp add: typed_def)
    ultimately obtain c1 where "getchar (cons_intr c) = Some (x, c1)" "typed c1 xs" using less.hyps by blast
    moreover have "getchar c = getchar (cons_intr c)"
      using e se by (subst getchar.simps) (simp add: cons_getc_def serial_intr_def)
    ultimately show ?thesis by simp
  next
    case (Cons y ys)
    have y: "y = x" "ys @ all_chars (uart_in (cons_intr c)) = xs" using Cons i(2) by auto
    from cq.get_law [OF i(1) Cons] obtain c1 where c1: "cons_take (cons_intr c) = (x, c1)" "cons_wf c1" "queue c1 = ys"
      using y(1) by auto
    have k: "serial_exists c1 = serial_exists (cons_intr c)" "uart_in c1 = uart_in (cons_intr c)"
      using c1(1) by (auto simp: cons_take_def Let_def split: if_splits)
    have "rpos (cons_intr c) \<noteq> wpos (cons_intr c)" using queue_empty [OF i(1)] Cons by auto
    then have "getchar c = Some (x, c1)"
      using c1(1) se by (subst getchar.simps) (simp add: cons_getc_def serial_intr_def)
    moreover have "typed c1 xs" using c1 k i y se(3) Cons length_queue [of c1] by (simp add: typed_def)
    ultimately show ?thesis by blast
  qed
qed

lemma readline_loop_edit:
  assumes "typed c xs" "edit line xs = Some (res, rest)"
  shows "\<exists>c1. readline_loop line c = Some (res, c1) \<and> typed c1 rest"
  using assms
proof (induction line xs arbitrary: c rule: edit.induct)
  case (2 line x xs)
  obtain c1 where c1: "getchar c = Some (x, c1)" "typed c1 xs" using getchar_typed [OF "2.prems"(1)] by blast
  consider "(x = 0x08 \<or> x = 0x7f) \<and> line \<noteq> []" | "\<not> ((x = 0x08 \<or> x = 0x7f) \<and> line \<noteq> [])" "0x20 \<le> x \<and> length line < 1023"
    | "\<not> ((x = 0x08 \<or> x = 0x7f) \<and> line \<noteq> [])" "\<not> (0x20 \<le> x \<and> length line < 1023)" by blast
  then show ?case
  proof cases
    case 1
    then show ?thesis using "2.IH"(1) [OF 1, of "cons_putc 0x08 c1"] c1 "2.prems" by (subst readline_loop.simps) auto
  next
    case 2
    then show ?thesis using "2.IH"(2) [OF 2, of "cons_putc (uint x) c1"] c1 "2.prems" by (subst readline_loop.simps) auto
  next
    case 3
    then show ?thesis using "2.IH"(3) [OF 3, of c1] c1 "2.prems" by (subst readline_loop.simps) auto
  qed
qed simp

lemma edit_bounded:
  "edit line xs = Some (res, rest) \<Longrightarrow> length line \<le> 1023 \<Longrightarrow> \<forall>b \<in> set line. 0x20 \<le> b \<Longrightarrow>
   length res \<le> 1023 \<and> (\<forall>b \<in> set res. 0x20 \<le> b)"
proof (induction line xs rule: edit.induct)
  case (2 line x xs)
  consider "(x = 0x08 \<or> x = 0x7f) \<and> line \<noteq> []" | "\<not> ((x = 0x08 \<or> x = 0x7f) \<and> line \<noteq> [])" "0x20 \<le> x \<and> length line < 1023"
    | "\<not> ((x = 0x08 \<or> x = 0x7f) \<and> line \<noteq> [])" "\<not> (0x20 \<le> x \<and> length line < 1023)" by blast
  then show ?case
  proof cases
    case 1
    have "\<forall>b \<in> set (butlast line). 0x20 \<le> b" using "2.prems"(3) by (auto dest: in_set_butlastD)
    then show ?thesis using "2.IH"(1) [OF 1] 1 "2.prems" by simp
  next
    case 2
    then show ?thesis using "2.IH"(2) [OF 2] "2.prems" by auto
  next
    case 3
    then show ?thesis using "2.IH"(3) [OF 3] "2.prems" by (cases "x = 0x0a \<or> x = 0x0d") auto
  qed
qed simp

text \<open>C34. \<open>readline\<close> returns as soon as an end of line has been typed, with the line that editing
  gives: printable characters are appended while there is room, backspace and delete remove the last one, other
  characters are ignored. However many characters are typed before the end of line, the line fits the buffer of 1024
  bytes with its null byte; it has no control characters, and the characters typed after it are still to be read. The
  characters arrive in bursts that do not overflow the console's buffer.\<close>

theorem readline_returns:
  assumes "typed c xs" "edit [] xs = Some (line, rest)"
  shows "\<exists>c1. readline prompt c = Some (line, c1) \<and> typed c1 rest \<and> length line < BUFLEN \<and> (\<forall>b \<in> set line. 0x20 \<le> b)"
proof -
  have "typed (put_const cons_putc prompt c) xs" using assms(1) by simp
  from readline_loop_edit [OF this assms(2)] edit_bounded [OF assms(2)] show ?thesis by (auto simp: readline_def)
qed

text \<open>A line of 1500 characters, typed one by one, of which the first 1023 are kept.\<close>

definition demo_line :: "nat \<Rightarrow> int list" where
  "demo_line n = concat (replicate n [65, -1]) @ [13]"

lemma demo_line_paced: "paced 0 (demo_line n)"
proof (induction n)
  case (Suc n)
  have "demo_line (Suc n) = 65 # (-1) # demo_line n" by (simp add: demo_line_def)
  then show ?case using Suc by (subst paced.simps) simp
next
  case 0
  show ?case by (subst paced.simps) (simp add: demo_line_def)
qed

lemma demo_line_chars: "all_chars (demo_line n) = replicate n 65 @ [13]"
  by (induction n) (simp_all add: demo_line_def all_chars_def)

lemma edit_long: "length line \<le> 1023 \<Longrightarrow> 1023 \<le> length line + n \<Longrightarrow>
  edit line (replicate n 65 @ [13]) = Some (line @ replicate (1023 - length line) 65, [])"
proof (induction n arbitrary: line)
  case (Suc n)
  show ?case
  proof (cases "length line = 1023")
    case True
    then show ?thesis using Suc.IH [of line] by simp
  next
    case False
    then have l: "length (line @ [65]) \<le> 1023" using Suc.prems(1) by simp
    have "replicate (1023 - length line) (65 :: u8) = 65 # replicate (1023 - Suc (length line)) 65"
      using False Suc.prems(1) by (metis Suc_diff_Suc le_neq_implies_less replicate_Suc)
    then show ?thesis using Suc.IH [OF l] Suc.prems(2) False l by simp
  qed
qed simp

theorem readline_returns_witness:
  "\<exists>c1. readline ''K> '' \<lparr>buf = \<lambda>_. 0, rpos = 3, wpos = 3, serial_exists = True, uart_in = demo_line 1500, uart_out = []\<rparr> =
     Some (replicate 1023 65, c1) \<and> typed c1 []"
proof -
  let ?c = "\<lparr>buf = \<lambda>_. 0, rpos = 3, wpos = 3, serial_exists = True, uart_in = demo_line 1500, uart_out = []\<rparr>"
  have "typed ?c (replicate 1500 65 @ [13])"
    by (simp add: typed_def cons_wf_def queue_def pending_def demo_line_paced demo_line_chars)
  moreover have "edit [] (replicate 1500 65 @ [13]) = Some (replicate 1023 65, [])" using edit_long [of "[]" 1500] by simp
  ultimately show ?thesis using readline_returns [of ?c "replicate 1500 65 @ [13]" "replicate 1023 65" "[]" "''K> ''"] by blast
qed

end
