(* ===== verification/Block_Cache.thy ===== *)
theory Block_Cache
  imports Kernel_Prelude
begin

unbundle bit_operations_syntax

text \<open>
  The block cache of the file server, \<^verbatim>\<open>fs/bc.c\<close>, and the block bitmap tests it uses. Disk block
  \<open>n\<close> is the page at \<^verbatim>\<open>DISKMAP + n * BLKSIZE\<close> of the server's address space; an address in that
  region is a pair of a block number and an offset. \<open>page\<close> holds the pages that are mapped,
  \<open>pte_d\<close> their dirty bits, \<open>flash\<close> the blocks on the flash device, which is read and written by
  whole blocks. The device has room for \<open>FLASHBLOCKS\<close> blocks, fewer than the region has: beyond
  them \<^verbatim>\<open>cfi_flash_read\<close> leaves the fresh page of zeros as it is, \<^verbatim>\<open>cfi_flash_write\<close> writes nothing, and
  neither reports it (theory \<open>Flash\<close>). \<open>super_set\<close> and \<open>bitmap_set\<close> say whether the pointers \<^verbatim>\<open>super\<close> and \<^verbatim>\<open>bitmap\<close>
  have been set.

  On the blocks of the device the cache is shown to refine a memory of blocks with a disk behind it, \<open>fsmem\<close>, on which
  the theory \<open>Fs\<close> models the file system.
\<close>

section \<open>Words in a block\<close>

type_synonym block = "nat \<Rightarrow> u8"

definition rd32 :: "block \<Rightarrow> nat \<Rightarrow> u32" where
  "rd32 p i = ucast (p i) OR push_bit 8 (ucast (p (i + 1))) OR push_bit 16 (ucast (p (i + 2))) OR
     push_bit 24 (ucast (p (i + 3)))"

definition wr32 :: "nat \<Rightarrow> u32 \<Rightarrow> block \<Rightarrow> block" where
  "wr32 i w p = p(i := ucast w, i + 1 := ucast (drop_bit 8 w), i + 2 := ucast (drop_bit 16 w),
     i + 3 := ucast (drop_bit 24 w))"

section \<open>The cache\<close>

record bcache =
  flash :: "nat \<Rightarrow> block"
  page :: "nat \<Rightarrow> block option"
  pte_d :: "nat \<Rightarrow> bool"
  super_set :: bool
  bitmap_set :: bool

abbreviation (input) FLASHBLOCKS :: nat where "FLASHBLOCKS \<equiv> 6144"

text \<open>What \<^verbatim>\<open>cfi_flash_read\<close> leaves in a page of zeros.\<close>

definition flash_load :: "nat \<Rightarrow> bcache \<Rightarrow> block" where
  "flash_load b c = (if b < FLASHBLOCKS then flash c b else (\<lambda>_. 0))"

definition flash_store :: "nat \<Rightarrow> block \<Rightarrow> bcache \<Rightarrow> bcache" where
  "flash_store b p c = (if b < FLASHBLOCKS then c\<lparr>flash := (flash c)(b := p)\<rparr> else c)"

text \<open>What the server's memory shows in a block: the page if it is mapped, and otherwise what the page fault handler
  would load.\<close>

definition view :: "bcache \<Rightarrow> nat \<Rightarrow> block" where
  "view c b = (case page c b of Some p \<Rightarrow> p | None \<Rightarrow> flash_load b c)"

definition bc_nblocks :: "bcache \<Rightarrow> nat" where
  "bc_nblocks c = unat (rd32 (view c 1) 4)"

definition bc_diskaddr :: "nat \<Rightarrow> bcache \<Rightarrow> nat option" where
  "bc_diskaddr blockno c = (if blockno = 0 \<or> super_set c \<and> blockno \<ge> bc_nblocks c then None else Some blockno)"

definition va_is_mapped :: "nat \<Rightarrow> bcache \<Rightarrow> bool" where
  "va_is_mapped b c \<longleftrightarrow> page c b \<noteq> None"

definition va_is_dirty :: "nat \<Rightarrow> bcache \<Rightarrow> bool" where
  "va_is_dirty b c \<longleftrightarrow> page c b \<noteq> None \<and> pte_d c b"

definition bc_block_is_free :: "nat \<Rightarrow> bcache \<Rightarrow> bool" where
  "bc_block_is_free blockno c \<longleftrightarrow> super_set c \<and> blockno < bc_nblocks c \<and>
     bit (rd32 (view c (2 + blockno div 32 div 1024)) (4 * (blockno div 32 mod 1024))) (blockno mod 32)"

abbreviation (input) DISKBLOCKS :: nat where "DISKBLOCKS \<equiv> 0xC0000000 div 4096"

text \<open>The page fault handler for an address in block \<open>blockno\<close> that is not mapped.\<close>

definition bc_pgfault :: "nat \<Rightarrow> bcache \<Rightarrow> bcache option" where
  "bc_pgfault blockno c = do {
     assert_that (blockno < DISKBLOCKS);
     assert_that (\<not> (super_set c \<and> blockno \<ge> bc_nblocks c));
     let c1 = c\<lparr>page := (page c)(blockno := Some (flash_load blockno c)), pte_d := (pte_d c)(blockno := False)\<rparr>;
     assert_that (\<not> (bitmap_set c1 \<and> bc_block_is_free blockno c1));
     Some c1 }"

text \<open>A load from and a store to the memory of the server; an access to a page that is not mapped
  enters the page fault handler and is repeated.\<close>

definition bc_touch :: "nat \<Rightarrow> bcache \<Rightarrow> bcache option" where
  "bc_touch b c = (if page c b = None then bc_pgfault b c else Some c)"

definition bc_load :: "nat \<Rightarrow> nat \<Rightarrow> bcache \<Rightarrow> (u8 \<times> bcache) option" where
  "bc_load b i c = do {
     c1 \<leftarrow> bc_touch b c;
     p \<leftarrow> page c1 b;
     Some (p i, c1) }"

definition bc_store :: "nat \<Rightarrow> nat \<Rightarrow> u8 \<Rightarrow> bcache \<Rightarrow> bcache option" where
  "bc_store b i v c = do {
     c1 \<leftarrow> bc_touch b c;
     p \<leftarrow> page c1 b;
     Some (c1\<lparr>page := (page c1)(b := Some (p(i := v))), pte_d := (pte_d c1)(b := True)\<rparr>) }"

text \<open>\<open>flush_block\<close> of an address in block \<open>blockno\<close>.\<close>

definition bc_flush_block :: "nat \<Rightarrow> bcache \<Rightarrow> bcache option" where
  "bc_flush_block blockno c = do {
     assert_that (blockno < DISKBLOCKS);
     if \<not> va_is_mapped blockno c then Some c
     else if \<not> va_is_dirty blockno c then Some c
     else do {
       p \<leftarrow> page c blockno;
       let c1 = flash_store blockno p c;
       Some (c1\<lparr>pte_d := (pte_d c1)(blockno := False)\<rparr>) } }"

text \<open>\<open>sys_page_unmap\<close> of the page of a block.\<close>

definition bc_evict :: "nat \<Rightarrow> bcache \<Rightarrow> bcache" where
  "bc_evict b c = c\<lparr>page := (page c)(b := None), pte_d := (pte_d c)(b := False)\<rparr>"

section \<open>The memory of blocks\<close>

record fsmem =
  bmem :: "nat \<Rightarrow> block"
  fdisk :: "nat \<Rightarrow> block"

definition flush_block :: "nat \<Rightarrow> fsmem \<Rightarrow> fsmem option" where
  "flush_block b s = do {
     assert_that (b < DISKBLOCKS);
     Some (s\<lparr>fdisk := (fdisk s)(b := bmem s b)\<rparr>) }"

definition bc_abs :: "bcache \<Rightarrow> fsmem" where
  "bc_abs c = \<lparr>bmem = view c, fdisk = flash c\<rparr>"

text \<open>A clean page has the contents of its block on the device.\<close>

definition bc_inv :: "bcache \<Rightarrow> bool" where
  "bc_inv c \<longleftrightarrow> (\<forall>b p. b < FLASHBLOCKS \<longrightarrow> page c b = Some p \<longrightarrow> \<not> pte_d c b \<longrightarrow> p = flash c b)"

section \<open>Refinement\<close>

lemma flash_load_upd [simp]:
  "flash_load b (c\<lparr>page := pg, pte_d := d\<rparr>) = flash_load b c" "flash_load b (c\<lparr>pte_d := d\<rparr>) = flash_load b c"
  "flash_load b (c\<lparr>page := pg\<rparr>) = flash_load b c"
  by (simp_all add: flash_load_def)

lemma bc_touch_refines:
  assumes "bc_inv c" "bc_touch b c = Some c'"
  shows "bc_inv c'" "bc_abs c' = bc_abs c" "page c' b = Some (view c b)"
proof -
  have "bc_inv c' \<and> bc_abs c' = bc_abs c \<and> page c' b = Some (view c b)"
  proof (cases "page c b = None")
    case True
    then have c': "c' = c\<lparr>page := (page c)(b := Some (flash_load b c)), pte_d := (pte_d c)(b := False)\<rparr>"
      using assms(2) by (auto simp: bc_touch_def bc_pgfault_def Let_def)
    have "view c' = view c" using True by (auto simp: c' view_def fun_eq_iff split: option.splits)
    moreover have "bc_inv c'" using assms(1) by (auto simp: c' bc_inv_def flash_load_def)
    ultimately show ?thesis using True by (simp add: bc_abs_def c' view_def)
  next
    case False
    then show ?thesis using assms by (auto simp: view_def bc_touch_def)
  qed
  then show "bc_inv c'" "bc_abs c' = bc_abs c" "page c' b = Some (view c b)" by auto
qed

lemma bc_store_refines:
  assumes "bc_inv c" "bc_store b i v c = Some c'"
  shows "bc_inv c' \<and> bc_abs c' = (bc_abs c)\<lparr>bmem := (bmem (bc_abs c))(b := (bmem (bc_abs c) b)(i := v))\<rparr>"
proof -
  obtain c1 where t: "bc_touch b c = Some c1"
    and c': "c' = c1\<lparr>page := (page c1)(b := Some ((view c b)(i := v))), pte_d := (pte_d c1)(b := True)\<rparr>"
    using assms bc_touch_refines(3) [OF assms(1)] by (auto simp: bc_store_def Option.bind_eq_Some_conv)
  note c1 = bc_touch_refines [OF assms(1) t]
  have "view c' = (view c1)(b := (view c b)(i := v))" by (auto simp: c' view_def fun_eq_iff split: option.splits)
  with c1 c' show ?thesis by (auto simp: bc_inv_def bc_abs_def)
qed

lemma bc_flush_refines:
  assumes inv: "bc_inv c" and b: "b < FLASHBLOCKS"
  shows "map_option bc_abs (bc_flush_block b c) = flush_block b (bc_abs c)"
    "bc_flush_block b c = Some c' \<Longrightarrow> bc_inv c' \<and> \<not> va_is_dirty b c'"
proof -
  show "map_option bc_abs (bc_flush_block b c) = flush_block b (bc_abs c)"
  proof (cases "page c b")
    case None
    then show ?thesis using b
      by (auto simp: bc_flush_block_def flush_block_def va_is_mapped_def bc_abs_def view_def flash_load_def)
  next
    case (Some p)
    have "flash c b = p" if "\<not> pte_d c b" using inv that b Some by (simp add: bc_inv_def)
    then show ?thesis using b Some
      by (auto simp: bc_flush_block_def flush_block_def va_is_mapped_def va_is_dirty_def bc_abs_def view_def
          flash_store_def flash_load_def fun_eq_iff split: option.splits)
  qed
  show "bc_flush_block b c = Some c' \<Longrightarrow> bc_inv c' \<and> \<not> va_is_dirty b c'"
    using inv b by (auto simp: bc_flush_block_def va_is_mapped_def va_is_dirty_def bc_inv_def flash_store_def split: if_splits)
qed

text \<open>C25. On the blocks of the flash device the block cache refines a memory with a disk behind it, whichever blocks
  are cached: a load
  returns the byte in memory and changes nothing; a store changes this byte only; a flush makes the
  block on the disk equal to the block in memory and changes nothing else, also when it skips the
  write; and dropping a page that is not dirty changes nothing. For a block of the region beyond the 6144 blocks of
  the device a flush reports success and leaves the disk as it was, and a page that was flushed and dropped
  reads as zeros.\<close>

theorem block_cache_refines:
  assumes inv: "bc_inv c"
  shows "(b < FLASHBLOCKS \<longrightarrow>
       (\<forall>v c'. bc_load b i c = Some (v, c') \<longrightarrow> bc_inv c' \<and> v = bmem (bc_abs c) b i \<and> bc_abs c' = bc_abs c) \<and>
       (\<forall>v c'. bc_store b i v c = Some c' \<longrightarrow> bc_inv c' \<and>
          bc_abs c' = (bc_abs c)\<lparr>bmem := (bmem (bc_abs c))(b := (bmem (bc_abs c) b)(i := v))\<rparr>) \<and>
       map_option bc_abs (bc_flush_block b c) = flush_block b (bc_abs c) \<and>
       (\<forall>c'. bc_flush_block b c = Some c' \<longrightarrow> bc_inv c' \<and> \<not> va_is_dirty b c') \<and>
       (\<not> va_is_dirty b c \<longrightarrow> bc_inv (bc_evict b c) \<and> bc_abs (bc_evict b c) = bc_abs c)) \<and>
     (FLASHBLOCKS \<le> b \<and> b < DISKBLOCKS \<longrightarrow> (\<exists>c'. bc_flush_block b c = Some c' \<and> flash c' = flash c \<and>
       \<not> va_is_dirty b c' \<and> bmem (bc_abs (bc_evict b c')) b = (\<lambda>_. 0)))"
proof (intro conjI impI)
  assume b: "b < FLASHBLOCKS"
  show "\<forall>v c'. bc_load b i c = Some (v, c') \<longrightarrow> bc_inv c' \<and> v = bmem (bc_abs c) b i \<and> bc_abs c' = bc_abs c"
    using bc_touch_refines [OF inv] by (auto simp: bc_load_def Option.bind_eq_Some_conv bc_abs_def)
  show "\<forall>v c'. bc_store b i v c = Some c' \<longrightarrow> bc_inv c' \<and>
      bc_abs c' = (bc_abs c)\<lparr>bmem := (bmem (bc_abs c))(b := (bmem (bc_abs c) b)(i := v))\<rparr>"
    using bc_store_refines [OF inv] by blast
  show "map_option bc_abs (bc_flush_block b c) = flush_block b (bc_abs c)"
    "\<forall>c'. bc_flush_block b c = Some c' \<longrightarrow> bc_inv c' \<and> \<not> va_is_dirty b c'"
    using bc_flush_refines [OF inv b] by auto
  assume d: "\<not> va_is_dirty b c"
  have "flash c b = p" if "page c b = Some p" for p using inv d b that by (simp add: bc_inv_def va_is_dirty_def)
  then have "view (bc_evict b c) = view c"
    using b by (intro ext) (auto simp: bc_evict_def view_def flash_load_def split: option.splits)
  then show "bc_inv (bc_evict b c)" "bc_abs (bc_evict b c) = bc_abs c"
    using inv by (auto simp: bc_abs_def bc_inv_def bc_evict_def)
next
  assume b: "FLASHBLOCKS \<le> b \<and> b < DISKBLOCKS"
  show "\<exists>c'. bc_flush_block b c = Some c' \<and> flash c' = flash c \<and> \<not> va_is_dirty b c' \<and> bmem (bc_abs (bc_evict b c')) b = (\<lambda>_. 0)"
    using b by (auto simp: bc_flush_block_def va_is_mapped_def va_is_dirty_def flash_store_def bc_abs_def bc_evict_def view_def
        flash_load_def)
qed

definition demo_cache :: bcache where
  "demo_cache = \<lparr>flash = \<lambda>b i. of_nat b, page = \<lambda>b. if b = 5 then Some (\<lambda>i. 9) else None,
     pte_d = \<lambda>b. b = 5, super_set = False, bitmap_set = False\<rparr>"

theorem block_cache_refines_witness:
  "bc_inv demo_cache \<and> map_option bc_abs (bc_flush_block 5 demo_cache) = flush_block 5 (bc_abs demo_cache) \<and>
   (\<exists>c'. bc_flush_block 5 demo_cache = Some c' \<and> \<not> va_is_dirty 5 c')"
proof -
  have inv: "bc_inv demo_cache" by (simp add: bc_inv_def demo_cache_def)
  have "\<exists>c'. bc_flush_block 5 demo_cache = Some c'"
    by (simp add: bc_flush_block_def demo_cache_def va_is_mapped_def va_is_dirty_def Let_def)
  with block_cache_refines [OF inv, of 5 0] inv show ?thesis by simp blast
qed

end
