(* ===== verification/Fs.thy ===== *)
theory Fs
  imports Block_Cache
begin

unbundle bit_operations_syntax

text \<open>
  The file system, \<^verbatim>\<open>fs/fs.c\<close>, on the memory of blocks \<open>fsmem\<close> that the block cache provides.
  A \<^verbatim>\<open>struct File *\<close> is the address \<open>(block, offset)\<close> of the structure, which is read and
  written byte by byte where it lies: the root directory at offset 8 of the super block, every
  other file in a slot of 256 bytes of a directory block. The fields are at the offsets of the
  packed C structure; \<^verbatim>\<open>f_size\<close> has type \<^verbatim>\<open>off_t\<close>, a 32-bit integer. Names and paths are lists
  of bytes without the null byte. File offsets are natural numbers: the code is not called
  with negative ones.
\<close>

type_synonym faddr = "nat \<times> nat"

abbreviation (input) BLKSIZE :: nat where "BLKSIZE \<equiv> 4096"
abbreviation (input) NDIRECT :: nat where "NDIRECT \<equiv> 10"
abbreviation (input) NINDIRECT :: nat where "NINDIRECT \<equiv> 1024"
abbreviation (input) MAXNAMELEN :: nat where "MAXNAMELEN \<equiv> 128"
abbreviation (input) BLKFILES :: nat where "BLKFILES \<equiv> 16"
abbreviation (input) s_root :: faddr where "s_root \<equiv> (1, 8)"

section \<open>Memory\<close>

definition get32 :: "faddr \<Rightarrow> fsmem \<Rightarrow> u32" where
  "get32 a s = rd32 (bmem s (fst a)) (snd a)"

definition put32 :: "faddr \<Rightarrow> u32 \<Rightarrow> fsmem \<Rightarrow> fsmem" where
  "put32 a w s = s\<lparr>bmem := (bmem s)(fst a := wr32 (snd a) w (bmem s (fst a)))\<rparr>"

definition s_nblocks :: "fsmem \<Rightarrow> nat" where
  "s_nblocks s = unat (get32 (1, 4) s)"

definition f_size :: "faddr \<Rightarrow> fsmem \<Rightarrow> int" where
  "f_size f s = sint (get32 (fst f, snd f + 128) s)"

definition set_f_size :: "faddr \<Rightarrow> int \<Rightarrow> fsmem \<Rightarrow> fsmem" where
  "set_f_size f n s = put32 (fst f, snd f + 128) (word_of_int n) s"

definition f_type :: "faddr \<Rightarrow> fsmem \<Rightarrow> u32" where
  "f_type f s = get32 (fst f, snd f + 132) s"

definition f_direct :: "faddr \<Rightarrow> nat \<Rightarrow> faddr" where
  "f_direct f i = (fst f, snd f + 136 + 4 * i)"

definition f_indirect :: "faddr \<Rightarrow> faddr" where
  "f_indirect f = (fst f, snd f + 176)"

section \<open>Super block and bitmap\<close>

definition diskaddr :: "nat \<Rightarrow> fsmem \<Rightarrow> nat option" where
  "diskaddr blockno s = (if blockno = 0 \<or> blockno \<ge> s_nblocks s then None else Some blockno)"

definition check_super :: "fsmem \<Rightarrow> unit option" where
  "check_super s = do {
     assert_that (get32 (1, 0) s = 0x4A0530AE);
     assert_that (\<not> s_nblocks s > DISKBLOCKS) }"

definition bitmap :: "nat \<Rightarrow> faddr" where
  "bitmap w = (2 + w div 1024, 4 * (w mod 1024))"

definition block_is_free :: "nat \<Rightarrow> fsmem \<Rightarrow> bool" where
  "block_is_free blockno s \<longleftrightarrow>
     blockno < s_nblocks s \<and> bit (get32 (bitmap (blockno div 32)) s) (blockno mod 32)"

definition free_block :: "nat \<Rightarrow> fsmem \<Rightarrow> fsmem option" where
  "free_block blockno s = do {
     assert_that (blockno \<noteq> 0);
     let a = bitmap (blockno div 32);
     Some (put32 a (get32 a s OR push_bit (blockno mod 32) 1) s) }"

definition alloc_block :: "fsmem \<Rightarrow> (int \<times> fsmem) option" where
  "alloc_block s =
     (case List.find (\<lambda>i. bit (get32 (bitmap (i div 32)) s) (i mod 32)) [0..<s_nblocks s] of
        None \<Rightarrow> Some (- E_NO_DISK, s)
      | Some i \<Rightarrow> do {
          let a = bitmap (i div 32);
          let s1 = put32 a (get32 a s AND NOT (push_bit (i mod 32) 1)) s;
          s2 \<leftarrow> flush_block (fst a) s1;
          Some (int i, s2) })"

text \<open>The blocks of the bitmap are those with number \<open>2 + i\<close> for \<open>i * BLKBITSIZE < s_nblocks\<close>.\<close>

definition check_bitmap :: "fsmem \<Rightarrow> unit option" where
  "check_bitmap s = do {
     assert_that (\<forall>i \<in> set [0..<(s_nblocks s + 32767) div 32768]. \<not> block_is_free (2 + i) s);
     assert_that (\<not> block_is_free 0 s);
     assert_that (\<not> block_is_free 1 s) }"

section \<open>Blocks of a file\<close>

text \<open>The result is the error code and the address of the slot that holds the block number.\<close>

definition file_block_walk :: "faddr \<Rightarrow> nat \<Rightarrow> bool \<Rightarrow> fsmem \<Rightarrow> ((int \<times> faddr option) \<times> fsmem) option" where
  "file_block_walk f filebno alloc s =
     (if filebno < NDIRECT then Some ((0, Some (f_direct f filebno)), s)
      else if filebno - NDIRECT < NINDIRECT then
        if get32 (f_indirect f) s = 0 then
          if \<not> alloc then Some ((- E_NOT_FOUND, None), s)
          else do {
            (ret, s1) \<leftarrow> alloc_block s;
            let s2 = put32 (f_indirect f) (word_of_int ret) s1;
            if ret < 0 then Some ((- E_NO_DISK, None), s2)
            else do {
              blk \<leftarrow> diskaddr (unat (get32 (f_indirect f) s2)) s2;
              let s3 = s2\<lparr>bmem := (bmem s2)(blk := (\<lambda>i. if i < BLKSIZE then 0 else bmem s2 blk i))\<rparr>;
              blk \<leftarrow> diskaddr (unat (get32 (f_indirect f) s3)) s3;
              Some ((0, Some (blk, 4 * (filebno - NDIRECT))), s3) } }
        else do {
          blk \<leftarrow> diskaddr (unat (get32 (f_indirect f) s)) s;
          Some ((0, Some (blk, 4 * (filebno - NDIRECT))), s) }
      else Some ((- E_INVAL, None), s))"

text \<open>On success the second component is the block that holds the file's data.\<close>

definition file_get_block :: "faddr \<Rightarrow> nat \<Rightarrow> fsmem \<Rightarrow> ((int \<times> nat option) \<times> fsmem) option" where
  "file_get_block f filebno s =
     (if filebno > s_nblocks s then Some ((- E_INVAL, None), s)
      else do {
        ((ret, slot), s1) \<leftarrow> file_block_walk f filebno True s;
        if ret < 0 then Some ((ret, None), s1)
        else do {
          pdiskbno \<leftarrow> slot;
          if get32 pdiskbno s1 = 0 then do {
            (ret, s2) \<leftarrow> alloc_block s1;
            let s3 = put32 pdiskbno (word_of_int ret) s2;
            if ret < 0 then Some ((- E_NO_DISK, None), s3)
            else do {
              blk \<leftarrow> diskaddr (unat (get32 pdiskbno s3)) s3;
              Some ((0, Some blk), s3) } }
          else do {
            blk \<leftarrow> diskaddr (unat (get32 pdiskbno s1)) s1;
            Some ((0, Some blk), s1) } } })"

definition file_free_block :: "faddr \<Rightarrow> nat \<Rightarrow> fsmem \<Rightarrow> (int \<times> fsmem) option" where
  "file_free_block f filebno s = do {
     ((r, slot), s1) \<leftarrow> file_block_walk f filebno False s;
     if r < 0 then Some (r, s1)
     else do {
       ptr \<leftarrow> slot;
       if get32 ptr s1 \<noteq> 0 then do {
         s2 \<leftarrow> free_block (unat (get32 ptr s1)) s1;
         Some (0, put32 ptr 0 s2) }
       else Some (0, s1) } }"

text \<open>The block counts are \<^verbatim>\<open>uint32_t\<close>; sizes are not negative.\<close>

definition nblocks_of :: "int \<Rightarrow> nat" where
  "nblocks_of sz = nat ((sz + 4095) div 4096)"

definition file_truncate_blocks :: "faddr \<Rightarrow> int \<Rightarrow> fsmem \<Rightarrow> fsmem option" where
  "file_truncate_blocks f newsize s = do {
     s1 \<leftarrow> ofold (\<lambda>bno t. map_option snd (file_free_block f bno t))
             [nblocks_of newsize..<nblocks_of (f_size f s)] s;
     if nblocks_of newsize \<le> NDIRECT \<and> get32 (f_indirect f) s1 \<noteq> 0 then do {
       s2 \<leftarrow> free_block (unat (get32 (f_indirect f) s1)) s1;
       Some (put32 (f_indirect f) 0 s2) }
     else Some s1 }"

definition file_set_size :: "faddr \<Rightarrow> int \<Rightarrow> fsmem \<Rightarrow> (int \<times> fsmem) option" where
  "file_set_size f newsize s = do {
     s1 \<leftarrow> (if f_size f s > newsize then file_truncate_blocks f newsize s else Some s);
     s2 \<leftarrow> flush_block (fst f) (set_f_size f newsize s1);
     Some (0, s2) }"

text \<open>One iteration of \<open>file_flush\<close>.\<close>

definition flush_file_block :: "faddr \<Rightarrow> nat \<Rightarrow> fsmem \<Rightarrow> fsmem option" where
  "flush_file_block f i s = do {
     ((r, slot), s1) \<leftarrow> file_block_walk f i False s;
     (case slot of
        None \<Rightarrow> Some s1
      | Some p \<Rightarrow>
          if r < 0 \<or> get32 p s1 = 0 then Some s1
          else do {
            blk \<leftarrow> diskaddr (unat (get32 p s1)) s1;
            flush_block blk s1 }) }"

definition file_flush :: "faddr \<Rightarrow> fsmem \<Rightarrow> fsmem option" where
  "file_flush f s = do {
     s1 \<leftarrow> ofold (flush_file_block f) [0..<nblocks_of (f_size f s)] s;
     s2 \<leftarrow> flush_block (fst f) s1;
     if get32 (f_indirect f) s2 \<noteq> 0 then do {
       blk \<leftarrow> diskaddr (unat (get32 (f_indirect f) s2)) s2;
       flush_block blk s2 }
     else Some s2 }"

definition fs_sync :: "fsmem \<Rightarrow> fsmem option" where
  "fs_sync s = ofold (\<lambda>i t. diskaddr i t \<bind> (\<lambda>blk. flush_block blk t)) [1..<s_nblocks s] s"

section \<open>Reading and writing\<close>

text \<open>The loop of \<open>file_read\<close> from position \<open>pos\<close> to \<open>fin\<close>: the bytes read in order, or an error.\<close>

function file_read_loop :: "faddr \<Rightarrow> nat \<Rightarrow> nat \<Rightarrow> fsmem \<Rightarrow> ((int + u8 list) \<times> fsmem) option" where
  "file_read_loop f pos fin s =
     (if pos < fin then do {
        ((r, blk), s1) \<leftarrow> file_get_block f (pos div BLKSIZE) s;
        if r < 0 then Some (Inl r, s1)
        else do {
          b \<leftarrow> blk;
          let bn = min (BLKSIZE - pos mod BLKSIZE) (fin - pos);
          (rest, s2) \<leftarrow> file_read_loop f (pos + bn) fin s1;
          Some (case rest of Inl e \<Rightarrow> Inl e
                | Inr xs \<Rightarrow> Inr (map (\<lambda>k. bmem s1 b (pos mod BLKSIZE + k)) [0..<bn] @ xs), s2) } }
      else Some (Inr [], s))"
  by pat_completeness auto
termination
  by (relation "measure (\<lambda>(_, pos, fin, _). fin - pos)") (auto simp: min_def)

definition file_read :: "faddr \<Rightarrow> nat \<Rightarrow> nat \<Rightarrow> fsmem \<Rightarrow> ((int \<times> u8 list) \<times> fsmem) option" where
  "file_read f count offset s =
     (if int offset \<ge> f_size f s then Some ((0, []), s)
      else do {
        let count = min count (nat (f_size f s - int offset));
        (res, s1) \<leftarrow> file_read_loop f offset (offset + count) s;
        Some (case res of Inl e \<Rightarrow> (e, []) | Inr xs \<Rightarrow> (int count, xs), s1) })"

definition copy_in :: "u8 list \<Rightarrow> nat \<Rightarrow> block \<Rightarrow> block" where
  "copy_in xs i p = (\<lambda>j. if i \<le> j \<and> j < i + length xs then xs ! (j - i) else p j)"

text \<open>The loop of \<open>file_write\<close>: \<open>xs\<close> are the bytes that are left to write at \<open>pos\<close>.\<close>

function file_write_loop :: "faddr \<Rightarrow> nat \<Rightarrow> u8 list \<Rightarrow> fsmem \<Rightarrow> (int \<times> fsmem) option" where
  "file_write_loop f pos xs s =
     (if xs \<noteq> [] then do {
        ((r, blk), s1) \<leftarrow> file_get_block f (pos div BLKSIZE) s;
        if r < 0 then Some (r, s1)
        else do {
          b \<leftarrow> blk;
          let bn = min (BLKSIZE - pos mod BLKSIZE) (length xs);
          file_write_loop f (pos + bn) (drop bn xs)
            (s1\<lparr>bmem := (bmem s1)(b := copy_in (take bn xs) (pos mod BLKSIZE) (bmem s1 b))\<rparr>) } }
      else Some (0, s))"
  by pat_completeness auto
termination
  by (relation "measure (\<lambda>(_, _, xs, _). length xs)") (auto simp: min_def)

definition file_write :: "faddr \<Rightarrow> u8 list \<Rightarrow> nat \<Rightarrow> fsmem \<Rightarrow> (int \<times> fsmem) option" where
  "file_write f xs offset s = do {
     let fin = offset + length xs;
     (r, s1) \<leftarrow> (if f_size f s \<ge> 0 \<and> int fin > f_size f s
                 then file_set_size f (sint (of_nat fin :: u32)) s else Some (0, s));
     if r < 0 then Some (r, s1)
     else do {
       (r, s2) \<leftarrow> file_write_loop f offset xs s1;
       Some (if r < 0 then r else int (length xs), s2) } }"

section \<open>Directories and paths\<close>

definition name_is :: "u8 list \<Rightarrow> faddr \<Rightarrow> fsmem \<Rightarrow> bool" where
  "name_is name f s \<longleftrightarrow> (\<forall>k \<in> set [0..<length name]. bmem s (fst f) (snd f + k) = name ! k) \<and>
     bmem s (fst f) (snd f + length name) = 0"

text \<open>The search through the blocks \<open>bs\<close> of a directory for a file structure that passes a test.\<close>

primrec dir_scan :: "(faddr \<Rightarrow> fsmem \<Rightarrow> bool) \<Rightarrow> faddr \<Rightarrow> nat list \<Rightarrow> fsmem \<Rightarrow>
    ((int \<times> faddr option) \<times> fsmem) option" where
  "dir_scan test dir [] s = Some ((- E_NOT_FOUND, None), s)"
| "dir_scan test dir (i # is) s = do {
     ((r, blk), s1) \<leftarrow> file_get_block dir i s;
     if r < 0 then Some ((r, None), s1)
     else do {
       b \<leftarrow> blk;
       (case List.find (\<lambda>j. test (b, 256 * j) s1) [0..<BLKFILES] of
          Some j \<Rightarrow> Some ((0, Some (b, 256 * j)), s1)
        | None \<Rightarrow> dir_scan test dir is s1) } }"

definition dir_nblock :: "faddr \<Rightarrow> fsmem \<Rightarrow> nat" where
  "dir_nblock dir s = unat (word_of_int (f_size dir s div 4096) :: u32)"

definition dir_lookup :: "faddr \<Rightarrow> u8 list \<Rightarrow> fsmem \<Rightarrow> ((int \<times> faddr option) \<times> fsmem) option" where
  "dir_lookup dir name s = do {
     assert_that (f_size dir s mod 4096 = 0);
     dir_scan (name_is name) dir [0..<dir_nblock dir s] s }"

definition dir_alloc_file :: "faddr \<Rightarrow> fsmem \<Rightarrow> ((int \<times> faddr option) \<times> fsmem) option" where
  "dir_alloc_file dir s = do {
     assert_that (f_size dir s mod 4096 = 0);
     ((r, file), s1) \<leftarrow> dir_scan (\<lambda>f t. bmem t (fst f) (snd f) = 0) dir [0..<dir_nblock dir s] s;
     if r = 0 \<or> r \<noteq> - E_NOT_FOUND then Some ((r, file), s1)
     else do {
       let s2 = set_f_size dir (f_size dir s1 + 4096) s1;
       ((r, blk), s3) \<leftarrow> file_get_block dir (dir_nblock dir s) s2;
       if r < 0 then Some ((r, None), s3)
       else do { b \<leftarrow> blk; Some ((0, Some (b, 0)), s3) } } }"

definition skip_slash :: "u8 list \<Rightarrow> u8 list" where
  "skip_slash p = dropWhile (\<lambda>c. c = 0x2f) p"

record walked =
  w_ret :: int
  w_dir :: "faddr option"
  w_file :: "faddr option"
  w_last :: "u8 list"

function walk_loop :: "u8 list \<Rightarrow> faddr option \<Rightarrow> faddr \<Rightarrow> fsmem \<Rightarrow> (walked \<times> fsmem) option" where
  "walk_loop path dir f s =
     (if path = [] then Some (\<lparr>w_ret = 0, w_dir = dir, w_file = Some f, w_last = []\<rparr>, s)
      else
        (let dir = f;
             name = takeWhile (\<lambda>c. c \<noteq> 0x2f) path;
             path' = skip_slash (dropWhile (\<lambda>c. c \<noteq> 0x2f) path);
             fail = (\<lambda>r. \<lparr>w_ret = r, w_dir = None, w_file = None, w_last = []\<rparr>)
         in if length name \<ge> MAXNAMELEN then Some (fail (- E_BAD_PATH), s)
            else if f_type dir s \<noteq> 1 then Some (fail (- E_NOT_FOUND), s)
            else do {
              ((r, f'), s1) \<leftarrow> dir_lookup dir name s;
              if r < 0 then
                Some (if r = - E_NOT_FOUND \<and> path' = []
                      then (fail r)\<lparr>w_dir := Some dir, w_last := name\<rparr> else fail r, s1)
              else do { g \<leftarrow> f'; walk_loop path' (Some dir) g s1 } }))"
  by pat_completeness auto

termination
proof (relation "measure (\<lambda>(path, _, _, _). length path)")
  fix path :: "u8 list" and dir :: "faddr option" and f g dir' name path' fail and s s1 :: fsmem and q :: "(int \<times> faddr option) \<times> fsmem"
    and x :: "int \<times> faddr option" and r and f' :: "faddr option"
  assume ne: "path \<noteq> []" and p': "path' = skip_slash (dropWhile (\<lambda>c. c \<noteq> 0x2f) path)"
  obtain c r where path: "path = c # r" using ne by (cases path) auto
  have "length path' < length path"
  proof (cases "c = 0x2f")
    case True
    then have "path' = dropWhile (\<lambda>c. c = 0x2f) r" by (simp add: p' path skip_slash_def)
    then show ?thesis using path length_dropWhile_le [of "\<lambda>c. c = 0x2f" r] by simp
  next
    case False
    then have "path' = skip_slash (dropWhile (\<lambda>c. c \<noteq> 0x2f) r)" by (simp add: p' path)
    then show ?thesis
      using path length_dropWhile_le [of "\<lambda>c. c = 0x2f" "dropWhile (\<lambda>c. c \<noteq> 0x2f) r"]
        length_dropWhile_le [of "\<lambda>c. c \<noteq> 0x2f" r] by (simp add: skip_slash_def)
  qed
  then show "((path', Some dir', g, s1), path, dir, f, s) \<in> measure (\<lambda>(path, _, _, _). length path)" by simp
qed simp

definition walk_path :: "u8 list \<Rightarrow> fsmem \<Rightarrow> (walked \<times> fsmem) option" where
  "walk_path path s = walk_loop (skip_slash path) None s_root s"

definition file_create :: "u8 list \<Rightarrow> fsmem \<Rightarrow> ((int \<times> faddr option) \<times> fsmem) option" where
  "file_create path s = do {
     (w, s1) \<leftarrow> walk_path path s;
     if w_ret w = 0 then Some ((- E_FILE_EXISTS, None), s1)
     else (case w_dir w of
         None \<Rightarrow> Some ((w_ret w, None), s1)
       | Some dir \<Rightarrow>
           if w_ret w \<noteq> - E_NOT_FOUND then Some ((w_ret w, None), s1)
           else do {
             ((r, file), s2) \<leftarrow> dir_alloc_file dir s1;
             if r < 0 then Some ((r, None), s2)
             else do {
               f \<leftarrow> file;
               let s3 = s2\<lparr>bmem := (bmem s2)(fst f := copy_in (w_last w @ [0]) (snd f) (bmem s2 (fst f)))\<rparr>;
               s4 \<leftarrow> file_flush dir s3;
               Some ((0, Some f), s4) } }) }"

definition file_open :: "u8 list \<Rightarrow> fsmem \<Rightarrow> ((int \<times> faddr option) \<times> fsmem) option" where
  "file_open path s = do { (w, s1) \<leftarrow> walk_path path s; Some ((w_ret w, w_file w), s1) }"

text \<open>\<open>fs_init\<close> after the block cache has been set up.\<close>

definition fs_init :: "fsmem \<Rightarrow> unit option" where
  "fs_init s = do { _ \<leftarrow> check_super s; check_bitmap s }"

end
