(* ===== verification/Fs_Props.thy ===== *)
theory Fs_Props
  imports Fs
begin

unbundle bit_operations_syntax

text \<open>
  Properties of the file system: the block allocator, the blocks of a file, and reading back what
  was written. \<open>file_ok\<close> is the invariant of a file: its metadata, the bitmap, its indirect block
  and its data blocks are all in use and do not overlap.
\<close>

section \<open>Words in blocks\<close>

lemma rd32_wr32 [simp]: "rd32 (wr32 i w p) i = w"
proof (rule bit_word_eqI)
  fix n assume "n < LENGTH(32)"
  then show "bit (rd32 (wr32 i w p) i) n = bit w n"
    by (cases "n < 16"; cases "n < 24") (auto simp: rd32_def wr32_def bit_simps)
qed

lemma rd32_wr32_other: "i + 4 \<le> j \<or> j + 4 \<le> i \<Longrightarrow> rd32 (wr32 i w p) j = rd32 p j"
  by (auto simp: rd32_def wr32_def)

lemma rd32_cong: "(\<And>k. k < 4 \<Longrightarrow> p (i + k) = q (i + k)) \<Longrightarrow> rd32 p i = rd32 q i"
proof -
  assume h: "\<And>k. k < 4 \<Longrightarrow> p (i + k) = q (i + k)"
  from h [of 0] h [of 1] h [of 2] h [of 3] show ?thesis by (simp add: rd32_def)
qed

lemma get32_put32 [simp]: "get32 a (put32 a w s) = w"
  by (simp add: get32_def put32_def)

lemma get32_put32_other:
  "fst a \<noteq> fst b \<or> snd a + 4 \<le> snd b \<or> snd b + 4 \<le> snd a \<Longrightarrow> get32 a (put32 b w s) = get32 a s"
  by (auto simp: get32_def put32_def rd32_wr32_other)

lemma bmem_put32: "b \<noteq> fst a \<Longrightarrow> bmem (put32 a w s) b = bmem s b"
  by (simp add: put32_def)

lemma put32_fdisk [simp]: "fdisk (put32 a w s) = fdisk s"
  by (simp add: put32_def)

lemma get32_bmem: "bmem s' (fst a) = bmem s (fst a) \<Longrightarrow> get32 a s' = get32 a s"
  by (simp add: get32_def)

section \<open>The bitmap\<close>

lemma bitmap_word_eq:
  assumes "i div 32 \<noteq> j div 32"
  shows "fst (bitmap (i div 32)) \<noteq> fst (bitmap (j div 32)) \<or>
     snd (bitmap (i div 32)) + 4 \<le> snd (bitmap (j div 32)) \<or> snd (bitmap (j div 32)) + 4 \<le> snd (bitmap (i div 32))"
proof -
  have "i div 32 = i div 32 div 1024 * 1024 + i div 32 mod 1024" "j div 32 = j div 32 div 1024 * 1024 + j div 32 mod 1024"
    by simp_all
  then have "i div 32 div 1024 \<noteq> j div 32 div 1024 \<or> i div 32 mod 1024 \<noteq> j div 32 mod 1024" using assms by metis
  then show ?thesis by (auto simp: bitmap_def)
qed

text \<open>The test of a bit in the bitmap, without the check of the block number.\<close>

definition bit_set :: "nat \<Rightarrow> fsmem \<Rightarrow> bool" where
  "bit_set i s \<longleftrightarrow> bit (get32 (bitmap (i div 32)) s) (i mod 32)"

lemma bit_set_put:
  "bit_set j (put32 (bitmap (i div 32)) w s) = (if j div 32 = i div 32 then bit w (j mod 32) else bit_set j s)"
  using bitmap_word_eq [of j i] by (auto simp: bit_set_def get32_put32_other)

lemma bit_clear: "j < 32 \<Longrightarrow> i < 32 \<Longrightarrow> bit (w AND NOT (push_bit i 1) :: u32) j \<longleftrightarrow> bit w j \<and> j \<noteq> i"
  by (auto simp: bit_simps)

lemma bit_or_set: "j < 32 \<Longrightarrow> i < 32 \<Longrightarrow> bit (w OR push_bit i 1 :: u32) j \<longleftrightarrow> bit w j \<or> j = i"
  by (auto simp: bit_simps)

lemma div_mod_eq_iff: "j div 32 = i div 32 \<and> j mod 32 = i mod 32 \<longleftrightarrow> j = i" for i j :: nat
  by (metis div_mult_mod_eq)

lemma bit_set_cleared:
  "bit_set j (put32 (bitmap (i div 32)) (get32 (bitmap (i div 32)) s AND NOT (push_bit (i mod 32) 1)) s) \<longleftrightarrow>
     bit_set j s \<and> j \<noteq> i"
  using div_mod_eq_iff [of j i] by (auto simp: bit_set_put bit_clear simp del: push_bit_of_1) (auto simp: bit_set_def)

lemma bit_set_marked:
  "bit_set j (put32 (bitmap (i div 32)) (get32 (bitmap (i div 32)) s OR push_bit (i mod 32) 1) s) \<longleftrightarrow>
     bit_set j s \<or> j = i"
  using div_mod_eq_iff [of j i] by (auto simp: bit_set_put bit_or_set simp del: push_bit_of_1) (auto simp: bit_set_def)

lemma nblocks_bitmap [simp]: "s_nblocks (put32 (bitmap w) v s) = s_nblocks s"
  by (simp add: s_nblocks_def get32_put32_other bitmap_def)

lemma find_upt_Some: "List.find P [0..<n] = Some i \<Longrightarrow> i < n \<and> P i \<and> (\<forall>j < i. \<not> P j)"
  by (auto simp: find_Some_iff)

lemma alloc_block_find:
  "alloc_block s = (case List.find (\<lambda>i. bit_set i s) [0..<s_nblocks s] of
     None \<Rightarrow> Some (- E_NO_DISK, s)
   | Some i \<Rightarrow> do {
       let a = bitmap (i div 32);
       let s1 = put32 a (get32 a s AND NOT (push_bit (i mod 32) 1)) s;
       s2 \<leftarrow> flush_block (fst a) s1;
       Some (int i, s2) })"
  unfolding alloc_block_def bit_set_def ..

lemma alloc_block_spec:
  assumes n: "s_nblocks s \<le> DISKBLOCKS"
  shows "(\<forall>i < s_nblocks s. \<not> bit_set i s) \<and> alloc_block s = Some (- E_NO_DISK, s) \<or>
     (\<exists>i s'. i < s_nblocks s \<and> bit_set i s \<and> (\<forall>j < i. \<not> bit_set j s) \<and> alloc_block s = Some (int i, s') \<and>
        (\<forall>j. bit_set j s' \<longleftrightarrow> bit_set j s \<and> j \<noteq> i) \<and> s_nblocks s' = s_nblocks s \<and>
        (\<forall>b. b \<noteq> 2 + i div 32768 \<longrightarrow> bmem s' b = bmem s b) \<and> fdisk s' (2 + i div 32768) = bmem s' (2 + i div 32768))"
proof (cases "List.find (\<lambda>i. bit_set i s) [0..<s_nblocks s]")
  case None
  then have "\<forall>i < s_nblocks s. \<not> bit_set i s" by (simp add: find_None_iff)
  with None show ?thesis by (simp add: alloc_block_find)
next
  case (Some i)
  have i: "i < s_nblocks s" "bit_set i s" "\<forall>j < i. \<not> bit_set j s" using find_upt_Some [OF Some] by simp_all
  have blk: "fst (bitmap (i div 32)) = 2 + i div 32768" by (simp add: bitmap_def div_mult2_eq [of i 32 1024, symmetric])
  have "2 + i div 32768 < DISKBLOCKS" using i(1) n by simp
  moreover define t where "t = put32 (bitmap (i div 32)) (get32 (bitmap (i div 32)) s AND NOT (push_bit (i mod 32) 1)) s"
  moreover define s' where "s' = t\<lparr>fdisk := (fdisk t)(2 + i div 32768 := bmem t (2 + i div 32768))\<rparr>"
  ultimately have al: "alloc_block s = Some (int i, s')"
    using Some by (simp add: alloc_block_find flush_block_def blk Let_def)
  have "bit_set j s' = bit_set j t" for j by (simp add: s'_def bit_set_def get32_def)
  then have "bit_set j s' \<longleftrightarrow> bit_set j s \<and> j \<noteq> i" for j unfolding t_def bit_set_cleared by simp
  moreover have "s_nblocks s' = s_nblocks t" by (simp add: s'_def s_nblocks_def get32_def)
  ultimately show ?thesis
    using al i blk by (intro disjI2 exI [of _ i] exI [of _ s']) (auto simp: s'_def t_def bmem_put32)
qed

lemma block_is_free_bit: "block_is_free i s \<longleftrightarrow> i < s_nblocks s \<and> bit_set i s"
  by (simp add: block_is_free_def bit_set_def)

section \<open>The blocks of a file\<close>

text \<open>The block numbers a file refers to: its data blocks for \<open>k < 1034\<close> and its indirect block for
  \<open>k = 1034\<close>; zero when there is none.\<close>

definition file_ptr :: "faddr \<Rightarrow> nat \<Rightarrow> fsmem \<Rightarrow> nat" where
  "file_ptr f k s =
     (if k < 10 then unat (get32 (f_direct f k) s)
      else if k = 1034 then unat (get32 (f_indirect f) s)
      else if get32 (f_indirect f) s = 0 then 0
      else unat (get32 (unat (get32 (f_indirect f) s), 4 * (k - 10)) s))"

definition data_start :: "fsmem \<Rightarrow> nat" where
  "data_start s = 2 + (s_nblocks s + 32767) div 32768"

definition owned :: "faddr \<Rightarrow> fsmem \<Rightarrow> nat \<Rightarrow> bool" where
  "owned f s b \<longleftrightarrow> data_start s \<le> b \<and> b < s_nblocks s \<and> \<not> bit_set b s \<and> b \<noteq> fst f"

definition file_ok :: "faddr \<Rightarrow> fsmem \<Rightarrow> bool" where
  "file_ok f s \<longleftrightarrow> s_nblocks s \<le> DISKBLOCKS \<and> (\<forall>i < s_nblocks s. bit_set i s \<longrightarrow> data_start s \<le> i) \<and>
     (fst f = 1 \<and> 8 \<le> snd f \<or> data_start s \<le> fst f \<and> fst f < s_nblocks s \<and> \<not> bit_set (fst f) s) \<and>
     (\<forall>k \<le> 1034. file_ptr f k s \<noteq> 0 \<longrightarrow> owned f s (file_ptr f k s)) \<and>
     (\<forall>j \<le> 1034. \<forall>k \<le> 1034. file_ptr f j s = file_ptr f k s \<and> file_ptr f j s \<noteq> 0 \<longrightarrow> j = k)"

definition nfree :: "fsmem \<Rightarrow> nat" where
  "nfree s = card {i. i < s_nblocks s \<and> bit_set i s}"

definition fbyte :: "faddr \<Rightarrow> nat \<Rightarrow> fsmem \<Rightarrow> u8" where
  "fbyte f p s = bmem s (file_ptr f (p div 4096) s) (p mod 4096)"

text \<open>\<open>s'\<close> is \<open>s\<close> with the bytes \<open>xs\<close> written at \<open>pos\<close> of the file, perhaps with more blocks.\<close>

definition wrote :: "faddr \<Rightarrow> nat \<Rightarrow> u8 list \<Rightarrow> fsmem \<Rightarrow> fsmem \<Rightarrow> bool" where
  "wrote f pos xs s s' \<longleftrightarrow> file_ok f s' \<and> s_nblocks s' = s_nblocks s \<and> f_size f s' = f_size f s \<and>
     (\<forall>j \<le> 1034. file_ptr f j s \<noteq> 0 \<longrightarrow> file_ptr f j s' = file_ptr f j s) \<and>
     (\<forall>p < 1034 * 4096. file_ptr f (p div 4096) s \<noteq> 0 \<and> \<not> (pos \<le> p \<and> p < pos + length xs) \<longrightarrow>
        fbyte f p s' = fbyte f p s) \<and>
     (\<forall>i < length xs. file_ptr f ((pos + i) div 4096) s' \<noteq> 0 \<and> fbyte f (pos + i) s' = xs ! i)"

lemma file_ptr_unchanged:
  assumes "bmem s' (fst f) = bmem s (fst f)" "file_ptr f 1034 s \<noteq> 0 \<longrightarrow> bmem s' (file_ptr f 1034 s) = bmem s (file_ptr f 1034 s)"
  shows "file_ptr f k s' = file_ptr f k s"
proof -
  have d: "get32 (f_direct f k) s' = get32 (f_direct f k) s" "get32 (f_indirect f) s' = get32 (f_indirect f) s"
    using assms(1) by (intro get32_bmem, simp add: f_direct_def f_indirect_def)+
  have "get32 (unat (get32 (f_indirect f) s), j) s' = get32 (unat (get32 (f_indirect f) s), j) s"
    if "get32 (f_indirect f) s \<noteq> 0" for j
    using that assms(2) by (intro get32_bmem) (simp add: file_ptr_def unat_eq_0)
  with d show ?thesis by (simp add: file_ptr_def)
qed

lemma bit_set_unchanged:
  "bmem s' (2 + i div 32768) = bmem s (2 + i div 32768) \<Longrightarrow> bit_set i s' = bit_set i s"
  by (simp add: bit_set_def get32_def bitmap_def div_mult2_eq [of i 32 1024, symmetric])

lemma bitmap_block_less: "i < s_nblocks s \<Longrightarrow> 2 + i div 32768 < data_start s"
proof -
  assume "i < s_nblocks s"
  then have "(i + 32768) div 32768 \<le> (s_nblocks s + 32767) div 32768" by (intro div_le_mono) simp
  then show ?thesis by (simp add: data_start_def)
qed

lemma data_start_eq: "s_nblocks s' = s_nblocks s \<Longrightarrow> data_start s' = data_start s"
  by (simp add: data_start_def)

lemma file_ok_ptr: "file_ok f s \<Longrightarrow> k \<le> 1034 \<Longrightarrow> file_ptr f k s \<noteq> 0 \<Longrightarrow> owned f s (file_ptr f k s)"
  by (simp add: file_ok_def)

lemma file_ok_inj:
  "file_ok f s \<Longrightarrow> j \<le> 1034 \<Longrightarrow> k \<le> 1034 \<Longrightarrow> file_ptr f j s = file_ptr f k s \<Longrightarrow> file_ptr f j s \<noteq> 0 \<Longrightarrow> j = k"
  unfolding file_ok_def by blast

lemma file_ok_place: "file_ok f s \<Longrightarrow> fst f = 1 \<and> 8 \<le> snd f \<or> data_start s \<le> fst f"
  by (auto simp: file_ok_def)

lemma data_start_gt: "2 \<le> data_start s"
  by (simp add: data_start_def)

lemma free_not_file: "file_ok f s \<Longrightarrow> n < s_nblocks s \<Longrightarrow> bit_set n s \<Longrightarrow> data_start s \<le> n \<and> n \<noteq> fst f"
  using data_start_gt [of s] by (auto simp: file_ok_def)

lemma nfree_remove:
  assumes "n < s_nblocks s" "bit_set n s" "s_nblocks s' = s_nblocks s"
    "\<And>j. j < s_nblocks s \<Longrightarrow> bit_set j s' \<longleftrightarrow> bit_set j s \<and> j \<noteq> n"
  shows "nfree s = Suc (nfree s')"
proof -
  have "{i. i < s_nblocks s \<and> bit_set i s} = insert n {i. i < s_nblocks s' \<and> bit_set i s'}"
    using assms by auto
  moreover have "n \<notin> {i. i < s_nblocks s' \<and> bit_set i s'}" using assms by auto
  ultimately show ?thesis by (simp add: nfree_def)
qed

lemma add_block:
  assumes ok: "file_ok f s" and k: "k \<le> 1034" and n: "n < s_nblocks s" "bit_set n s" and z: "file_ptr f k s = 0"
    and nb: "s_nblocks s' = s_nblocks s" and sz: "f_size f s' = f_size f s"
    and bits: "\<And>j. j < s_nblocks s \<Longrightarrow> bit_set j s' \<longleftrightarrow> bit_set j s \<and> j \<noteq> n"
    and ptr: "\<And>j. j \<le> 1034 \<Longrightarrow> file_ptr f j s' = (if j = k then n else file_ptr f j s)"
    and fr: "\<And>b. owned f s b \<Longrightarrow> b \<noteq> file_ptr f 1034 s \<Longrightarrow> bmem s' b = bmem s b"
  shows "wrote f pos [] s s'"
proof -
  note ds = data_start_eq [OF nb]
  have nf: "data_start s \<le> n" "n \<noteq> fst f" using free_not_file [OF ok n] by simp_all
  have own: "owned f s' b" if "owned f s b" for b
    using that bits [of b] by (auto simp: owned_def nb ds)
  have ownn: "owned f s' n" using n nf bits [of n] by (auto simp: owned_def nb ds)
  have nn: "file_ptr f j s \<noteq> n" if "j \<le> 1034" for j
    using file_ok_ptr [OF ok that] n(2) nf data_start_gt [of s] by (auto simp: owned_def)
  have "file_ok f s'"
    unfolding file_ok_def nb ds
  proof (intro conjI allI impI)
    show "s_nblocks s \<le> DISKBLOCKS" using ok by (simp add: file_ok_def)
    show "data_start s \<le> i" if "i < s_nblocks s" "bit_set i s'" for i
      using that bits ok by (auto simp: file_ok_def)
    show "fst f = 1 \<and> 8 \<le> snd f \<or> data_start s \<le> fst f \<and> fst f < s_nblocks s \<and> \<not> bit_set (fst f) s'"
      using ok bits by (auto simp: file_ok_def)
    show "owned f s' (file_ptr f j s')" if "j \<le> 1034" "file_ptr f j s' \<noteq> 0" for j
      using that ptr [of j] own ownn file_ok_ptr [OF ok, of j] by (auto split: if_splits)
    show "i = j" if "i \<le> 1034" "j \<le> 1034" "file_ptr f i s' = file_ptr f j s' \<and> file_ptr f i s' \<noteq> 0" for i j
      using that ptr [of i] ptr [of j] nn [of i] nn [of j] file_ok_inj [OF ok, of i j] by (auto split: if_splits)
  qed
  moreover have "fbyte f p s' = fbyte f p s" if p: "p < 1034 * 4096" "file_ptr f (p div 4096) s \<noteq> 0" for p
  proof -
    have d: "p div 4096 < 1034" using p(1) by (simp add: less_mult_imp_div_less)
    then have "owned f s (file_ptr f (p div 4096) s)" "file_ptr f (p div 4096) s \<noteq> file_ptr f 1034 s"
      using file_ok_ptr [OF ok, of "p div 4096"] file_ok_inj [OF ok, of "p div 4096" 1034] p(2) by auto
    from fr [OF this] ptr [of "p div 4096"] d p(2) z show ?thesis by (auto simp: fbyte_def)
  qed
  ultimately show ?thesis using nb sz ptr z by (auto simp: wrote_def)
qed

lemma alloc_fresh:
  assumes ok: "file_ok f s" and free: "nfree s > 0"
  obtains n t where "alloc_block s = Some (int n, t)" "n < s_nblocks s" "bit_set n s" "data_start s \<le> n" "n \<noteq> fst f"
    "n < 2 ^ 32" "s_nblocks t = s_nblocks s" "f_size f t = f_size f s"
    "\<And>j. bit_set j t \<longleftrightarrow> bit_set j s \<and> j \<noteq> n" "\<And>b. data_start s \<le> b \<Longrightarrow> bmem t b = bmem s b"
    "bmem t (fst f) = bmem s (fst f)" "\<And>j. file_ptr f j t = file_ptr f j s"
proof -
  have le: "s_nblocks s \<le> DISKBLOCKS" using ok by (simp add: file_ok_def)
  have "\<exists>i < s_nblocks s. bit_set i s"
  proof (rule ccontr)
    assume "\<not> ?thesis"
    then have "{i. i < s_nblocks s \<and> bit_set i s} = {}" by auto
    then show False using free unfolding nfree_def by (simp only: card.empty)
  qed
  then obtain n t where n: "n < s_nblocks s" "bit_set n s" "alloc_block s = Some (int n, t)" "s_nblocks t = s_nblocks s"
    and bits: "\<forall>j. bit_set j t \<longleftrightarrow> bit_set j s \<and> j \<noteq> n" and fr: "\<forall>b. b \<noteq> 2 + n div 32768 \<longrightarrow> bmem t b = bmem s b"
    using alloc_block_spec [OF le] by blast
  have lt: "2 + n div 32768 < data_start s" by (rule bitmap_block_less [OF n(1)])
  have m: "bmem t b = bmem s b" if "data_start s \<le> b" for b using fr lt that by auto
  have mf: "bmem t (fst f) = bmem s (fst f)" using fr lt file_ok_place [OF ok] by auto
  have "file_ptr f j t = file_ptr f j s" for j
    using mf m file_ok_ptr [OF ok, of 1034] by (intro file_ptr_unchanged) (auto simp: owned_def)
  moreover have "f_size f t = f_size f s" using mf by (simp add: f_size_def get32_def)
  moreover have "n < 2 ^ 32" using n(1) le by simp
  ultimately show thesis
    using that [OF n(3,1,2)] free_not_file [OF ok n(1,2)] n(4) bits m mf by blast
qed

text \<open>Where the number \<open>file_ptr f k s\<close> is stored.\<close>

definition slot_of :: "faddr \<Rightarrow> nat \<Rightarrow> fsmem \<Rightarrow> faddr" where
  "slot_of f k s = (if k < 10 then f_direct f k else if k = 1034 then f_indirect f
     else (file_ptr f 1034 s, 4 * (k - 10)))"

lemma file_ptr_slot:
  "k \<le> 1034 \<Longrightarrow> k < 10 \<or> k = 1034 \<or> file_ptr f 1034 s \<noteq> 0 \<Longrightarrow> file_ptr f k s = unat (get32 (slot_of f k s) s)"
  by (auto simp: file_ptr_def slot_of_def unat_eq_0)

lemma put_slot_frame:
  fixes w :: u32
  assumes ok: "file_ok f s" and k: "k < 10 \<or> k = 1034 \<or> file_ptr f 1034 s \<noteq> 0"
  defines "s' \<equiv> put32 (slot_of f k s) w s"
  shows "s_nblocks s' = s_nblocks s" "f_size f s' = f_size f s" "i < s_nblocks s \<Longrightarrow> bit_set i s' = bit_set i s"
    "b \<noteq> fst f \<Longrightarrow> b \<noteq> file_ptr f 1034 s \<Longrightarrow> bmem s' b = bmem s b"
proof -
  have pl: "fst f = 1 \<and> 8 \<le> snd f \<or> data_start s \<le> fst f" "2 \<le> data_start s"
    using file_ok_place [OF ok] data_start_gt by auto
  have ind: "file_ptr f 1034 s \<noteq> 0 \<Longrightarrow> data_start s \<le> file_ptr f 1034 s \<and> file_ptr f 1034 s \<noteq> fst f"
    using file_ok_ptr [OF ok, of 1034] by (auto simp: owned_def)
  show "s_nblocks s' = s_nblocks s"
    unfolding s_nblocks_def s'_def
    using pl k ind by (subst get32_put32_other) (auto simp: slot_of_def f_direct_def f_indirect_def)
  show "f_size f s' = f_size f s"
    unfolding f_size_def s'_def
    using pl k ind by (subst get32_put32_other) (auto simp: slot_of_def f_direct_def f_indirect_def)
  show b: "bmem s' b = bmem s b" if "b \<noteq> fst f" "b \<noteq> file_ptr f 1034 s" for b
    unfolding s'_def
    using that k by (intro bmem_put32) (auto simp: slot_of_def f_direct_def f_indirect_def)
  show "bit_set i s' = bit_set i s" if "i < s_nblocks s"
  proof (cases "k < 10 \<or> k = 1034")
    case True
    then have "bmem s' (2 + i div 32768) = bmem s (2 + i div 32768)"
      unfolding s'_def using bitmap_block_less [OF that] pl
      by (intro bmem_put32) (auto simp: slot_of_def f_direct_def f_indirect_def)
    then show ?thesis by (rule bit_set_unchanged)
  next
    case False
    then have "bmem s' (2 + i div 32768) = bmem s (2 + i div 32768)"
      unfolding s'_def using bitmap_block_less [OF that] ind k
      by (intro bmem_put32) (auto simp: slot_of_def)
    then show ?thesis by (rule bit_set_unchanged)
  qed
qed

lemma put_slot_ptr:
  assumes ok: "file_ok f s" and k: "k < 1034" "k < 10 \<or> file_ptr f 1034 s \<noteq> 0" and j: "j \<le> 1034"
  shows "file_ptr f j (put32 (slot_of f k s) w s) = (if j = k then unat w else file_ptr f j s)"
proof -
  let ?s' = "put32 (slot_of f k s) w s"
  have ind: "get32 (f_indirect f) s \<noteq> 0 \<Longrightarrow> unat (get32 (f_indirect f) s) \<noteq> fst f"
    using file_ok_ptr [OF ok, of 1034] by (auto simp: owned_def file_ptr_def unat_eq_0)
  have p: "file_ptr f 1034 s = unat (get32 (f_indirect f) s)" by (simp add: file_ptr_def)
  have i: "get32 (f_indirect f) ?s' = get32 (f_indirect f) s"
    using ind k by (intro get32_put32_other) (auto simp: slot_of_def f_direct_def f_indirect_def p unat_eq_0)
  have d: "get32 (f_direct f j) ?s' = (if j = k then w else get32 (f_direct f j) s)" if "j < 10"
  proof (cases "j = k")
    case False
    then show ?thesis
      using ind k that by (subst get32_put32_other) (auto simp: slot_of_def f_direct_def p unat_eq_0)
  qed (use that in \<open>simp add: slot_of_def\<close>)
  have m: "get32 (unat (get32 (f_indirect f) s), 4 * (j - 10)) ?s' =
      (if j = k then w else get32 (unat (get32 (f_indirect f) s), 4 * (j - 10)) s)"
    if "\<not> j < 10" "j \<noteq> 1034" "get32 (f_indirect f) s \<noteq> 0"
  proof (cases "j = k")
    case False
    then show ?thesis
      using ind k that by (subst get32_put32_other) (auto simp: slot_of_def f_direct_def p)
  qed (use that k in \<open>simp add: slot_of_def p\<close>)
  show ?thesis using d m i k by (auto simp: file_ptr_def p unat_eq_0)
qed

lemma diskaddr_owned: "owned f s b \<Longrightarrow> diskaddr b s = Some b"
  using data_start_gt [of s] by (auto simp: owned_def diskaddr_def)

lemma wrote_refl: "file_ok f s \<Longrightarrow> wrote f pos [] s s"
  by (simp add: wrote_def)

lemma wrote_keeps:
  "wrote f pos xs s s' \<Longrightarrow> p < 1034 * 4096 \<Longrightarrow> file_ptr f (p div 4096) s \<noteq> 0 \<Longrightarrow>
   \<not> (pos \<le> p \<and> p < pos + length xs) \<Longrightarrow> fbyte f p s' = fbyte f p s"
  unfolding wrote_def by blast

lemma wrote_append:
  assumes 1: "wrote f pos xs s s1" and 2: "wrote f (pos + length xs) ys s1 s2"
    and b: "pos + length xs + length ys \<le> 1034 * 4096"
  shows "wrote f pos (xs @ ys) s s2"
proof -
  have pt: "file_ptr f j s2 = file_ptr f j s" if "j \<le> 1034" "file_ptr f j s \<noteq> 0" for j
    using 1 2 that by (simp add: wrote_def)
  have old: "fbyte f p s2 = fbyte f p s"
    if "p < 1034 * 4096" "file_ptr f (p div 4096) s \<noteq> 0" "\<not> (pos \<le> p \<and> p < pos + length (xs @ ys))" for p
  proof -
    have d: "p div 4096 \<le> 1034" using that(1) by (simp add: less_mult_imp_div_less less_imp_le)
    have "fbyte f p s1 = fbyte f p s" "file_ptr f (p div 4096) s1 \<noteq> 0" using 1 that d by (auto simp: wrote_def)
    moreover from this have "fbyte f p s2 = fbyte f p s1" using 2 that by (auto simp: wrote_def)
    ultimately show ?thesis by simp
  qed
  have new: "file_ptr f ((pos + i) div 4096) s2 \<noteq> 0 \<and> fbyte f (pos + i) s2 = (xs @ ys) ! i" if i: "i < length (xs @ ys)" for i
  proof (cases "i < length xs")
    case True
    then have a: "file_ptr f ((pos + i) div 4096) s1 \<noteq> 0" "fbyte f (pos + i) s1 = xs ! i" using 1 by (simp_all add: wrote_def)
    have "(pos + i) div 4096 \<le> 1034" using b True by (simp add: less_mult_imp_div_less less_imp_le)
    with a 2 b True show ?thesis by (auto simp: wrote_def nth_append)
  next
    case False
    then have "i - length xs < length ys" "pos + length xs + (i - length xs) = pos + i" using i by auto
    with 2 False show ?thesis unfolding wrote_def by (metis nth_append)
  qed
  show ?thesis using 1 2 pt old new unfolding wrote_def by simp
qed

lemma unat_word_nat: "n < 2 ^ 32 \<Longrightarrow> unat (word_of_nat n :: u32) = n"
  by (simp add: unat_of_nat)

lemma walk_indirect_new:
  assumes ok: "file_ok f s" and k: "10 \<le> k" "k < 1034" and z: "file_ptr f 1034 s = 0" and free: "nfree s > 0"
  shows "\<exists>s1. file_block_walk f k True s = Some ((0, Some (slot_of f k s1)), s1) \<and> wrote f pos [] s s1 \<and>
     nfree s = Suc (nfree s1) \<and> file_ptr f 1034 s1 \<noteq> 0"
proof -
  obtain n t where n: "alloc_block s = Some (int n, t)" "n < s_nblocks s" "bit_set n s" "data_start s \<le> n" "n \<noteq> fst f"
    "n < 2 ^ 32" and t: "s_nblocks t = s_nblocks s" "f_size f t = f_size f s"
    "\<And>j. bit_set j t \<longleftrightarrow> bit_set j s \<and> j \<noteq> n" "\<And>b. data_start s \<le> b \<Longrightarrow> bmem t b = bmem s b"
    "bmem t (fst f) = bmem s (fst f)" "\<And>j. file_ptr f j t = file_ptr f j s"
    by (rule alloc_fresh [OF ok free], rule that, assumption+)
  have n2: "2 \<le> n" using n(4) data_start_gt [of s] by simp
  have un: "unat (word_of_nat n :: u32) = n" by (rule unat_word_nat [OF n(6)])
  have nz: "(word_of_nat n :: u32) \<noteq> 0" using un n2 by (metis not_numeral_le_zero unsigned_0)
  have z': "get32 (f_indirect f) s = 0" using z by (simp add: file_ptr_def unat_eq_0)
  define s2 where "s2 = put32 (f_indirect f) (word_of_int (int n)) t"
  define s3 where "s3 = s2\<lparr>bmem := (bmem s2)(n := (\<lambda>i. if i < BLKSIZE then 0 else bmem s2 n i))\<rparr>"
  have pl: "fst f = 1 \<and> 8 \<le> snd f \<or> data_start s \<le> fst f" "2 \<le> data_start s"
    using file_ok_place [OF ok] data_start_gt by auto
  have m3: "bmem s3 b = bmem t b" if "b \<noteq> n" "b \<noteq> fst f" for b
    using that by (simp add: s3_def s2_def bmem_put32 f_indirect_def)
  have g: "get32 a s3 = get32 a t" if "fst a = fst f" "snd a + 4 \<le> snd f + 176" for a
  proof -
    have "get32 a s3 = get32 a s2" using that n(5) by (intro get32_bmem) (simp add: s3_def)
    then show ?thesis unfolding s2_def using that by (simp add: get32_put32_other f_indirect_def)
  qed
  have gi: "get32 (f_indirect f) s3 = word_of_int (int n)"
    using n(5) by (simp add: s3_def s2_def get32_def f_indirect_def put32_def)
  have nb2: "s_nblocks s2 = s_nblocks t" unfolding s_nblocks_def s2_def
    using pl by (subst get32_put32_other) (auto simp: f_indirect_def)
  have nb: "s_nblocks s3 = s_nblocks s"
    using nb2 t(1) n2 by (simp add: s_nblocks_def s3_def get32_def)
  have sz: "f_size f s3 = f_size f s" using g [of "(fst f, snd f + 128)"] t(2) by (simp add: f_size_def)
  have ze: "get32 (n, 4 * (j - 10)) s3 = 0" if "j < 1034" for j
  proof -
    have "j - 10 < 1024" using that by simp
    then show ?thesis by (simp add: get32_def s3_def rd32_def)
  qed
  have bits: "bit_set j s3 \<longleftrightarrow> bit_set j s \<and> j \<noteq> n" if "j < s_nblocks s" for j
  proof -
    have "2 + j div 32768 \<noteq> n" "2 + j div 32768 \<noteq> fst f" using bitmap_block_less [OF that] n(4) pl by auto
    then have "bit_set j s3 = bit_set j t" by (intro bit_set_unchanged m3)
    with t(3) show ?thesis by simp
  qed
  have ptr: "file_ptr f j s3 = (if j = 1034 then n else file_ptr f j s)" if "j \<le> 1034" for j
  proof -
    have "file_ptr f j s3 = (if j = 1034 then n else file_ptr f j t)"
      using that ze g [of "f_direct f j"] z' t(6) [of 1034] z nz
      by (auto simp: file_ptr_def gi un f_direct_def unat_eq_0)
    with t(6) show ?thesis by simp
  qed
  have fr: "bmem s3 b = bmem s b" if "owned f s b" for b
    using that n(3) m3 [of b] t(4) [of b] by (auto simp: owned_def)
  have w: "wrote f pos [] s s3" using add_block [OF ok _ n(2,3) z nb sz bits ptr fr] by simp
  have d: "diskaddr n s2 = Some n" "diskaddr n s3 = Some n" using n2 n(2) nb nb2 t(1) by (simp_all add: diskaddr_def)
  have k': "k - 10 < 1024" using k by simp
  have "file_block_walk f k True s = Some ((0, Some (n, 4 * (k - 10))), s3)"
    using k k' z' n(1) d gi unfolding s3_def s2_def by (simp add: file_block_walk_def Let_def un)
  moreover have "slot_of f k s3 = (n, 4 * (k - 10))" using k ptr [of 1034] by (simp add: slot_of_def)
  ultimately show ?thesis
    using w nfree_remove [OF n(2,3) nb bits] ptr [of 1034] n2 by (intro exI [of _ s3]) simp
qed

lemma file_ok_same:
  assumes ok: "file_ok f s" and nb: "s_nblocks s' = s_nblocks s"
    and bits: "\<And>j. j < s_nblocks s \<Longrightarrow> bit_set j s' \<Longrightarrow> bit_set j s" and ptr: "\<And>j. j \<le> 1034 \<Longrightarrow> file_ptr f j s' = file_ptr f j s"
  shows "file_ok f s'"
proof -
  have own: "owned f s' b" if "owned f s b" for b
    using that bits [of b] by (auto simp: owned_def nb data_start_eq [OF nb])
  show ?thesis
    using ok bits own ptr unfolding file_ok_def nb data_start_eq [OF nb] by auto
qed

lemma walk_existing:
  assumes ok: "file_ok f s" and k: "k < 1034" "k < 10 \<or> file_ptr f 1034 s \<noteq> 0"
  shows "file_block_walk f k c s = Some ((0, Some (slot_of f k s)), s)"
proof (cases "k < 10")
  case False
  have k': "k - 10 < 1024" using k by simp
  have "diskaddr (file_ptr f 1034 s) s = Some (file_ptr f 1034 s)"
    using k False file_ok_ptr [OF ok, of 1034] by (intro diskaddr_owned) auto
  with False k k' show ?thesis by (auto simp: file_block_walk_def slot_of_def file_ptr_def unat_eq_0)
qed (simp add: file_block_walk_def slot_of_def)

lemma get_existing:
  assumes ok: "file_ok f s" and k: "k < 1034" "k \<le> s_nblocks s" and p: "file_ptr f k s \<noteq> 0"
  shows "file_get_block f k s = Some ((0, Some (file_ptr f k s)), s)"
proof -
  have i: "k < 10 \<or> file_ptr f 1034 s \<noteq> 0" using p k(1) by (auto simp: file_ptr_def unat_eq_0 split: if_splits)
  have s: "file_ptr f k s = unat (get32 (slot_of f k s) s)" using k i by (intro file_ptr_slot) auto
  have "diskaddr (file_ptr f k s) s = Some (file_ptr f k s)"
    using k p file_ok_ptr [OF ok, of k] by (intro diskaddr_owned) auto
  with s p k(2) show ?thesis by (simp add: file_get_block_def walk_existing [OF ok k(1) i] unat_eq_0)
qed

lemma get_new:
  assumes ok: "file_ok f s" and k: "k < 1034" "k < 10 \<or> file_ptr f 1034 s \<noteq> 0" and z: "file_ptr f k s = 0"
    and free: "nfree s > 0" and w: "file_block_walk f k True s0 = Some ((0, Some (slot_of f k s)), s)" "k \<le> s_nblocks s0"
  shows "\<exists>b s'. file_get_block f k s0 = Some ((0, Some b), s') \<and> wrote f pos [] s s' \<and> nfree s = Suc (nfree s') \<and>
     file_ptr f k s' = b \<and> b \<noteq> 0"
proof -
  obtain n t where n: "alloc_block s = Some (int n, t)" "n < s_nblocks s" "bit_set n s" "data_start s \<le> n" "n \<noteq> fst f"
    "n < 2 ^ 32" and t: "s_nblocks t = s_nblocks s" "f_size f t = f_size f s"
    "\<And>j. bit_set j t \<longleftrightarrow> bit_set j s \<and> j \<noteq> n" "\<And>b. data_start s \<le> b \<Longrightarrow> bmem t b = bmem s b"
    "bmem t (fst f) = bmem s (fst f)" "\<And>j. file_ptr f j t = file_ptr f j s"
    by (rule alloc_fresh [OF ok free], rule that, assumption+)
  have n0: "n \<noteq> 0" using n(4) data_start_gt [of s] by simp
  have un: "unat (word_of_nat n :: u32) = n" by (rule unat_word_nat [OF n(6)])
  have okt: "file_ok f t" using t(3,6) by (intro file_ok_same [OF ok t(1)]) simp_all
  have kt: "k < 10 \<or> file_ptr f 1034 t \<noteq> 0" "k < 10 \<or> k = 1034 \<or> file_ptr f 1034 t \<noteq> 0" using k t(6) by auto
  have sl: "slot_of f k s = slot_of f k t" by (simp add: slot_of_def t(6))
  define s' where "s' = put32 (slot_of f k t) (word_of_nat n) t"
  note fr = put_slot_frame [OF okt kt(2), where w = "word_of_nat n", folded s'_def]
  have nb: "s_nblocks s' = s_nblocks s" using fr(1) t(1) by simp
  have bits: "bit_set j s' \<longleftrightarrow> bit_set j s \<and> j \<noteq> n" if "j < s_nblocks s" for j using fr(3) [of j] that t(1,3) by simp
  have ptr: "file_ptr f j s' = (if j = k then n else file_ptr f j s)" if "j \<le> 1034" for j
    using put_slot_ptr [OF okt k(1) kt(1) that, of "word_of_nat n", folded s'_def] un t(6) by simp
  have own: "bmem s' b = bmem s b" if "owned f s b" "b \<noteq> file_ptr f 1034 s" for b
    using that fr(4) [of b] t(4) [of b] t(6) by (auto simp: owned_def)
  have wr: "wrote f pos [] s s'"
    using add_block [OF ok _ n(2,3) z nb _ bits ptr own] fr(2) t(2) k(1) by simp
  have g: "get32 (slot_of f k s) s = 0" using file_ptr_slot [of k f s] k z by (auto simp: unat_eq_0)
  have "diskaddr n s' = Some n" using n(2) n0 nb by (simp add: diskaddr_def)
  then have "file_get_block f k s0 = Some ((0, Some n), s')"
    using w g n(1) unfolding s'_def sl by (simp add: file_get_block_def un Let_def)
  then show ?thesis using wr nfree_remove [OF n(2,3) nb bits] ptr [of k] k n0 by (intro exI [of _ n] exI [of _ s']) simp
qed

lemma wrote_nil_append: "wrote f pos [] s s1 \<Longrightarrow> wrote f pos [] s1 s2 \<Longrightarrow> pos \<le> 1034 * 4096 \<Longrightarrow> wrote f pos [] s s2"
  using wrote_append [of f pos "[]" s s1 "[]" s2] by simp

lemma get_block_ok:
  assumes ok: "file_ok f s" and k: "k < 1034" "k \<le> s_nblocks s" and free: "nfree s \<ge> 2"
  shows "\<exists>b s'. file_get_block f k s = Some ((0, Some b), s') \<and> wrote f 0 [] s s' \<and> nfree s \<le> nfree s' + 2 \<and>
     file_ptr f k s' = b \<and> b \<noteq> 0"
proof (cases "file_ptr f k s = 0")
  case False
  then show ?thesis using get_existing [OF ok k False] wrote_refl [OF ok] by simp
next
  case z: True
  show ?thesis
  proof (cases "k < 10 \<or> file_ptr f 1034 s \<noteq> 0")
    case True
    show ?thesis using get_new [OF ok k(1) True z _ walk_existing [OF ok k(1) True] k(2), of 0] free by force
  next
    case False
    then obtain s1 where s1: "file_block_walk f k True s = Some ((0, Some (slot_of f k s1)), s1)" "wrote f 0 [] s s1"
      "nfree s = Suc (nfree s1)" "file_ptr f 1034 s1 \<noteq> 0"
      using walk_indirect_new [OF ok _ k(1), of 0] free by auto
    have ok1: "file_ok f s1" using s1(2) by (simp add: wrote_def)
    show ?thesis
    proof (cases "file_ptr f k s1 = 0")
      case True
      from get_new [OF ok1 k(1) _ True _ s1(1) k(2), of 0] s1 free
      show ?thesis using wrote_nil_append [OF s1(2)] by force
    next
      case False
      have "k < 10 \<or> k = 1034 \<or> file_ptr f 1034 s1 \<noteq> 0" using s1(4) by simp
      then have s: "file_ptr f k s1 = unat (get32 (slot_of f k s1) s1)" using k by (intro file_ptr_slot) auto
      have "diskaddr (file_ptr f k s1) s1 = Some (file_ptr f k s1)"
        using k False file_ok_ptr [OF ok1, of k] by (intro diskaddr_owned) auto
      moreover have "get32 (slot_of f k s1) s1 \<noteq> 0" using s False by auto
      ultimately show ?thesis using s False k(2) s1 by (simp add: file_get_block_def)
    qed
  qed
qed

section \<open>Reading back what was written\<close>

lemma store_frame:
  fixes c :: block
  assumes ok: "file_ok f s" and k: "k < 1034" and p: "file_ptr f k s \<noteq> 0"
  defines "s' \<equiv> s\<lparr>bmem := (bmem s)(file_ptr f k s := c)\<rparr>"
  shows "s_nblocks s' = s_nblocks s" "f_size f s' = f_size f s" "file_ptr f j s' = file_ptr f j s"
    "i < s_nblocks s \<Longrightarrow> bit_set i s' = bit_set i s"
proof -
  have b: "data_start s \<le> file_ptr f k s" "file_ptr f k s \<noteq> fst f" "file_ptr f k s \<noteq> 1"
    using file_ok_ptr [OF ok _ p] k data_start_gt [of s] by (auto simp: owned_def)
  show "s_nblocks s' = s_nblocks s" "f_size f s' = f_size f s"
    using b by (simp_all add: s'_def s_nblocks_def f_size_def get32_def)
  have "file_ptr f 1034 s = file_ptr f k s \<Longrightarrow> False" using file_ok_inj [OF ok _ _ _ p, of 1034] k by auto
  then show "file_ptr f j s' = file_ptr f j s" using b by (intro file_ptr_unchanged) (auto simp: s'_def)
  show "bit_set i s' = bit_set i s" if "i < s_nblocks s"
    using bitmap_block_less [OF that] b by (intro bit_set_unchanged) (auto simp: s'_def)
qed

lemma store_wrote:
  assumes ok: "file_ok f s" and k: "k < 1034" and p: "file_ptr f k s \<noteq> 0" and le: "off + length ys \<le> 4096"
  defines "s' \<equiv> s\<lparr>bmem := (bmem s)(file_ptr f k s := copy_in ys off (bmem s (file_ptr f k s)))\<rparr>"
  shows "wrote f (4096 * k + off) ys s s'"
proof -
  note fr = store_frame [OF ok k p, where c = "copy_in ys off (bmem s (file_ptr f k s))", folded s'_def]
  have ok': "file_ok f s'" using fr by (intro file_ok_same [OF ok fr(1)]) auto
  have old: "fbyte f q s' = fbyte f q s"
    if q: "q < 1034 * 4096" "file_ptr f (q div 4096) s \<noteq> 0" "\<not> (4096 * k + off \<le> q \<and> q < 4096 * k + off + length ys)" for q
  proof (cases "q div 4096 = k")
    case True
    then have "q = 4096 * k + q mod 4096" by auto
    then have "\<not> (off \<le> q mod 4096 \<and> q mod 4096 < off + length ys)" using q(3) by linarith
    then show ?thesis using True by (auto simp: fbyte_def fr(3)) (auto simp: s'_def copy_in_def)
  next
    case False
    have "q div 4096 \<le> 1034" using q(1) by (simp add: less_mult_imp_div_less less_imp_le)
    then have "file_ptr f (q div 4096) s \<noteq> file_ptr f k s" using file_ok_inj [OF ok, of "q div 4096" k] k q False by auto
    then show ?thesis by (simp add: fbyte_def fr(3)) (simp add: s'_def)
  qed
  have new: "file_ptr f ((4096 * k + off + i) div 4096) s' \<noteq> 0 \<and> fbyte f (4096 * k + off + i) s' = ys ! i"
    if "i < length ys" for i
  proof -
    have "(4096 * k + off + i) div 4096 = k" "(4096 * k + off + i) mod 4096 = off + i"
      using that le by (auto simp: div_eq_dividend_iff mod_eq_self_iff_div_eq_0 add.assoc)
    then show ?thesis using p that by (simp add: fbyte_def fr(3)) (simp add: s'_def copy_in_def)
  qed
  show ?thesis unfolding wrote_def using ok' fr(1-3) old new by simp
qed

declare file_write_loop.simps [simp del] file_read_loop.simps [simp del]

lemma write_loop_ok:
  assumes "file_ok f s" "pos + length xs \<le> 1034 * 4096" "(pos + length xs) div 4096 \<le> s_nblocks s"
    "xs \<noteq> [] \<longrightarrow> 2 * ((pos + length xs - 1) div 4096 - pos div 4096 + 1) \<le> nfree s"
  shows "\<exists>s'. file_write_loop f pos xs s = Some (0, s') \<and> wrote f pos xs s s'"
  using assms
proof (induction "length xs" arbitrary: pos xs s rule: less_induct)
  case less
  note ok = less.prems(1) and le = less.prems(2) and nb = less.prems(3) and fr = less.prems(4)
  show ?case
  proof (cases "xs = []")
    case True
    then show ?thesis using wrote_refl [OF ok] by (simp add: file_write_loop.simps)
  next
    case ne: False
    define k where "k = pos div 4096"
    define bn where "bn = min (BLKSIZE - pos mod BLKSIZE) (length xs)"
    have pos: "pos = 4096 * k + pos mod 4096" "pos mod 4096 < 4096" by (simp_all add: k_def)
    have len: "0 < length xs" using ne by simp
    have bn: "0 < bn" "bn \<le> length xs" "pos mod 4096 + bn \<le> 4096" using len by (auto simp: bn_def min_def)
    have k: "k < 1034" using pos(1) le len by linarith
    have "k \<le> (pos + length xs) div 4096" unfolding k_def by (intro div_le_mono) simp
    then have knb: "k \<le> s_nblocks s" using nb by simp
    have "2 \<le> nfree s" using fr ne by simp
    from get_block_ok [OF ok k knb this] obtain b s1 where
      g: "file_get_block f k s = Some ((0, Some b), s1)" "wrote f 0 [] s s1" "nfree s \<le> nfree s1 + 2" "file_ptr f k s1 = b" "b \<noteq> 0"
      by blast
    have ok1: "file_ok f s1" using g(2) by (simp add: wrote_def)
    define s2 where "s2 = s1\<lparr>bmem := (bmem s1)(b := copy_in (take bn xs) (pos mod 4096) (bmem s1 b))\<rparr>"
    have "wrote f (4096 * k + pos mod 4096) (take bn xs) s1 s2"
      using store_wrote [OF ok1 k, of "pos mod 4096" "take bn xs"] g(4,5) bn unfolding s2_def by simp
    then have w2: "wrote f pos (take bn xs) s1 s2" using pos(1) by simp
    have "{i. i < s_nblocks s2 \<and> bit_set i s2} = {i. i < s_nblocks s1 \<and> bit_set i s1}"
      using store_frame(1,4) [OF ok1 k, where c = "copy_in (take bn xs) (pos mod 4096) (bmem s1 b)"] g(4,5)
      by (auto simp: s2_def)
    then have "nfree s2 = nfree s1" by (simp add: nfree_def)
    then have nf: "nfree s \<le> nfree s2 + 2" using g(3) by simp
    have "wrote f pos [] s s1" using g(2) by (simp add: wrote_def)
    from wrote_append [OF this, of "take bn xs" s2] w2 bn le have w: "wrote f pos (take bn xs) s s2" by simp
    have "\<exists>s'. file_write_loop f (pos + bn) (drop bn xs) s2 = Some (0, s') \<and> wrote f (pos + bn) (drop bn xs) s2 s'"
    proof (rule less.hyps)
      show "length (drop bn xs) < length xs" using bn by simp
      show "file_ok f s2" using w by (simp add: wrote_def)
      show "pos + bn + length (drop bn xs) \<le> 1034 * 4096" using bn le by simp
      show "(pos + bn + length (drop bn xs)) div 4096 \<le> s_nblocks s2" using bn nb w by (simp add: wrote_def)
      show "drop bn xs \<noteq> [] \<longrightarrow>
          2 * ((pos + bn + length (drop bn xs) - 1) div 4096 - (pos + bn) div 4096 + 1) \<le> nfree s2"
      proof
        assume "drop bn xs \<noteq> []"
        then have l: "bn < length xs" by simp
        then have b: "pos + bn = 4096 * (k + 1)" using pos by (simp add: bn_def min_def split: if_splits)
        have d: "(pos + bn) div 4096 = k + 1" unfolding b by simp
        define e where "e = (pos + length xs - 1) div 4096"
        have "k + 1 \<le> e" unfolding e_def d [symmetric] using l by (intro div_le_mono) simp
        then obtain r where r: "e = k + 1 + r" using le_Suc_ex by blast
        have "2 * (e - k + 1) \<le> nfree s" using fr ne by (simp add: e_def k_def)
        then have "2 * (e - (k + 1) + 1) \<le> nfree s2" using nf by (simp add: r)
        then show "2 * ((pos + bn + length (drop bn xs) - 1) div 4096 - (pos + bn) div 4096 + 1) \<le> nfree s2"
          using d bn by (simp add: e_def)
      qed
    qed
    then obtain s' where s': "file_write_loop f (pos + bn) (drop bn xs) s2 = Some (0, s')" "wrote f (pos + bn) (drop bn xs) s2 s'"
      by blast
    have "wrote f pos xs s s'" using wrote_append [OF w, of "drop bn xs" s'] s'(2) bn le by simp
    moreover have "file_write_loop f pos xs s = Some (0, s')"
      using ne g(1) s'(1) by (simp add: file_write_loop.simps [of f pos xs s] k_def [symmetric] bn_def [symmetric] s2_def [symmetric] Let_def)
    ultimately show ?thesis by blast
  qed
qed

lemma read_loop_ok:
  assumes "file_ok f s" "fin \<le> 1034 * 4096" "fin div 4096 \<le> s_nblocks s"
    "\<And>p. pos \<le> p \<Longrightarrow> p < fin \<Longrightarrow> file_ptr f (p div 4096) s \<noteq> 0"
  shows "file_read_loop f pos fin s = Some (Inr (map (\<lambda>p. fbyte f p s) [pos..<fin]), s)"
  using assms
proof (induction "fin - pos" arbitrary: pos rule: less_induct)
  case less
  show ?case
  proof (cases "pos < fin")
    case lt: True
    define k where "k = pos div 4096"
    define bn where "bn = min (BLKSIZE - pos mod BLKSIZE) (fin - pos)"
    have pos: "pos = 4096 * k + pos mod 4096" "pos mod 4096 < 4096" by (simp_all add: k_def)
    have bn: "0 < bn" "pos + bn \<le> fin" "pos mod 4096 + bn \<le> 4096" using lt by (auto simp: bn_def min_def)
    have k: "k < 1034" using pos(1) less.prems(2) lt by linarith
    have "k \<le> fin div 4096" unfolding k_def using lt by (intro div_le_mono) simp
    then have knb: "k \<le> s_nblocks s" using less.prems(3) by simp
    have g: "file_get_block f k s = Some ((0, Some (file_ptr f k s)), s)"
      using less.prems(4) [of pos] lt by (intro get_existing [OF less.prems(1) k knb]) (simp add: k_def)
    have r: "file_read_loop f (pos + bn) fin s = Some (Inr (map (\<lambda>p. fbyte f p s) [pos + bn..<fin]), s)"
      using bn lt less.prems by (intro less.hyps) auto
    have "(pos + i) div 4096 = k" "(pos + i) mod 4096 = pos mod 4096 + i" if "i < bn" for i
    proof -
      define r where "r = pos mod 4096 + i"
      have e: "pos + i = r + k * 4096" "r < 4096" unfolding r_def using pos bn(3) that by linarith+
      show "(pos + i) div 4096 = k" "(pos + i) mod 4096 = pos mod 4096 + i"
        unfolding e(1) r_def [symmetric] using e(2) by simp_all
    qed
    then have "map (\<lambda>i. bmem s (file_ptr f k s) (pos mod 4096 + i)) [0..<bn] = map (\<lambda>p. fbyte f p s) [pos..<pos + bn]"
      by (intro nth_equalityI) (simp_all add: fbyte_def)
    moreover have "[pos..<fin] = [pos..<pos + bn] @ [pos + bn..<fin]" using bn upt_add_eq_append [of pos "pos + bn" "fin - (pos + bn)"] by simp
    ultimately show ?thesis
      using lt g r by (simp add: file_read_loop.simps [of f pos fin s] k_def [symmetric] bn_def [symmetric] Let_def)
  qed (simp add: file_read_loop.simps)
qed

lemma sint_word_nat: "n < 2 ^ 31 \<Longrightarrow> sint (word_of_nat n :: u32) = int n"
  by (simp add: signed_of_nat signed_take_bit_int_eq_self)

lemma set_size_grows:
  assumes ok: "file_ok f s" and n: "f_size f s \<le> n" "0 \<le> n" "n < 2 ^ 31"
  shows "\<exists>s1. file_set_size f n s = Some (0, s1) \<and> file_ok f s1 \<and> f_size f s1 = n \<and> s_nblocks s1 = s_nblocks s \<and>
     nfree s1 = nfree s \<and> (\<forall>j. file_ptr f j s1 = file_ptr f j s) \<and> (\<forall>b. b \<noteq> fst f \<longrightarrow> bmem s1 b = bmem s b)"
proof -
  define t where "t = set_f_size f n s"
  define s1 where "s1 = t\<lparr>fdisk := (fdisk t)(fst f := bmem t (fst f))\<rparr>"
  have pl: "fst f = 1 \<and> 8 \<le> snd f \<or> data_start s \<le> fst f" "2 \<le> data_start s" "fst f < DISKBLOCKS"
    using file_ok_place [OF ok] data_start_gt ok by (auto simp: file_ok_def)
  have g: "get32 a s1 = get32 a t" for a by (simp add: s1_def get32_def)
  have m: "bmem s1 b = bmem s b" if "b \<noteq> fst f" for b using that by (simp add: s1_def t_def set_f_size_def bmem_put32)
  have o: "get32 a s1 = get32 a s" if "snd f + 132 \<le> snd a" for a
    unfolding g t_def set_f_size_def using that by (intro get32_put32_other) simp
  have nb: "s_nblocks s1 = s_nblocks s" unfolding s_nblocks_def g t_def set_f_size_def
    using pl by (subst get32_put32_other) auto
  have ind: "get32 (f_indirect f) s \<noteq> 0 \<Longrightarrow> unat (get32 (f_indirect f) s) \<noteq> fst f"
    using file_ok_ptr [OF ok, of 1034] by (auto simp: owned_def file_ptr_def unat_eq_0)
  have ptr: "file_ptr f j s1 = file_ptr f j s" for j
  proof -
    have "get32 (f_direct f j) s1 = get32 (f_direct f j) s" "get32 (f_indirect f) s1 = get32 (f_indirect f) s"
      by (intro o, simp add: f_direct_def f_indirect_def)+
    moreover have "get32 (unat (get32 (f_indirect f) s), q) s1 = get32 (unat (get32 (f_indirect f) s), q) s"
      if "get32 (f_indirect f) s \<noteq> 0" for q
      using ind [OF that] by (intro get32_bmem m) simp
    ultimately show ?thesis by (simp add: file_ptr_def)
  qed
  have bits: "bit_set i s1 = bit_set i s" if "i < s_nblocks s" for i
    using bitmap_block_less [OF that] pl by (intro bit_set_unchanged m) auto
  then have "{i. i < s_nblocks s1 \<and> bit_set i s1} = {i. i < s_nblocks s \<and> bit_set i s}" using nb by auto
  then have "nfree s1 = nfree s" by (simp add: nfree_def)
  moreover have "f_size f s1 = n"
  proof -
    have "get32 (fst f, snd f + 128) s1 = word_of_int n" unfolding g t_def set_f_size_def by simp
    then show ?thesis using n by (simp add: f_size_def sint_sbintrunc' signed_take_bit_int_eq_self)
  qed
  moreover have "file_set_size f n s = Some (0, s1)"
    using n(1) pl(3) by (simp add: file_set_size_def flush_block_def t_def [symmetric] s1_def)
  moreover have "file_ok f s1" using bits ptr by (intro file_ok_same [OF ok nb]) simp_all
  ultimately show ?thesis using nb ptr m by auto
qed

text \<open>C29. Block allocation. When the bitmap marks no block as free, \<open>alloc_block\<close> returns
  \<open>-E_NO_DISK\<close> and changes nothing. Otherwise it returns the lowest free block, which is then no
  longer free while every other block is free exactly if it was; the only block of memory it
  changes is the bitmap block with the bit, which has been written to disk. Freeing the block
  makes it free again.\<close>

theorem alloc_block_correct:
  assumes "s_nblocks s \<le> DISKBLOCKS"
  shows "((\<exists>i. block_is_free i s) \<or> alloc_block s = Some (- E_NO_DISK, s)) \<and>
     ((\<exists>i. block_is_free i s) \<longrightarrow>
       (\<exists>n s'. alloc_block s = Some (int n, s') \<and> block_is_free n s \<and> (\<forall>j < n. \<not> block_is_free j s) \<and>
          (\<forall>j. block_is_free j s' \<longleftrightarrow> block_is_free j s \<and> j \<noteq> n) \<and>
          (\<forall>b. b \<noteq> 2 + n div 32768 \<longrightarrow> bmem s' b = bmem s b) \<and> fdisk s' (2 + n div 32768) = bmem s' (2 + n div 32768) \<and>
          (n \<noteq> 0 \<longrightarrow> (\<exists>s2. free_block n s' = Some s2 \<and> (\<forall>j. block_is_free j s2 \<longleftrightarrow> block_is_free j s)))))"
  using alloc_block_spec [OF assms]
proof (elim disjE exE conjE)
  assume "\<forall>i < s_nblocks s. \<not> bit_set i s" "alloc_block s = Some (- E_NO_DISK, s)"
  then show ?thesis by (simp add: block_is_free_bit)
next
  fix n s'
  assume n: "n < s_nblocks s" "bit_set n s" "\<forall>j < n. \<not> bit_set j s" "alloc_block s = Some (int n, s')"
    "\<forall>j. bit_set j s' \<longleftrightarrow> bit_set j s \<and> j \<noteq> n" "s_nblocks s' = s_nblocks s"
    "\<forall>b. b \<noteq> 2 + n div 32768 \<longrightarrow> bmem s' b = bmem s b" "fdisk s' (2 + n div 32768) = bmem s' (2 + n div 32768)"
  let ?s2 = "put32 (bitmap (n div 32)) (get32 (bitmap (n div 32)) s' OR push_bit (n mod 32) 1) s'"
  have "n \<noteq> 0 \<longrightarrow> free_block n s' = Some ?s2" by (simp add: free_block_def Let_def)
  moreover have "block_is_free j ?s2 \<longleftrightarrow> block_is_free j s" for j
    unfolding block_is_free_bit bit_set_marked nblocks_bitmap using n(1,2,5,6) by auto
  ultimately have "n \<noteq> 0 \<longrightarrow> (\<exists>s2. free_block n s' = Some s2 \<and> (\<forall>j. block_is_free j s2 \<longleftrightarrow> block_is_free j s))" by blast
  with n show ?thesis by (simp add: block_is_free_bit) blast
qed

lemma write_read_law:
  assumes ok: "file_ok f s" and sz: "0 \<le> f_size f s" and le: "off + length xs \<le> 1034 * 4096"
    and nb: "(off + length xs) div 4096 \<le> s_nblocks s" and free: "2 * (length xs div 4096 + 2) \<le> nfree s"
  shows "\<exists>s'. file_write f xs off s = Some (int (length xs), s') \<and> file_ok f s' \<and>
     file_read f (length xs) off s' = Some ((int (length xs), xs), s') \<and>
     (\<forall>p < 1034 * 4096. file_ptr f (p div 4096) s \<noteq> 0 \<and> \<not> (off \<le> p \<and> p < off + length xs) \<longrightarrow>
        fbyte f p s' = fbyte f p s) \<and>
     f_size f s' = max (f_size f s) (int (off + length xs))"
proof -
  let ?fin = "off + length xs"
  have fin: "int ?fin < 2 ^ 31" using le by simp
  have wfin: "sint (word_of_nat ?fin :: u32) = int ?fin"
    by (rule sint_word_nat) (use le in simp)
  have "\<exists>s1. (if f_size f s \<ge> 0 \<and> int ?fin > f_size f s then file_set_size f (sint (word_of_nat ?fin :: u32)) s else Some (0, s)) = Some (0, s1) \<and>
      file_ok f s1 \<and> f_size f s1 = max (f_size f s) (int ?fin) \<and> s_nblocks s1 = s_nblocks s \<and> nfree s1 = nfree s \<and>
      (\<forall>j. file_ptr f j s1 = file_ptr f j s) \<and> (\<forall>b. b \<noteq> fst f \<longrightarrow> bmem s1 b = bmem s b)"
  proof (cases "int ?fin > f_size f s")
    case True
    then show ?thesis using set_size_grows [OF ok _ _ fin] sz unfolding wfin by (simp add: max_def)
  qed (use ok in \<open>auto simp: max_def\<close>)
  then obtain s1 where s1: "(if f_size f s \<ge> 0 \<and> int ?fin > f_size f s then file_set_size f (sint (word_of_nat ?fin :: u32)) s else Some (0, s)) = Some (0, s1)"
    "file_ok f s1" "f_size f s1 = max (f_size f s) (int ?fin)" "s_nblocks s1 = s_nblocks s" "nfree s1 = nfree s"
    "\<And>j. file_ptr f j s1 = file_ptr f j s" "\<And>b. b \<noteq> fst f \<Longrightarrow> bmem s1 b = bmem s b" by blast
  have "2 * ((?fin - 1) div 4096 - off div 4096 + 1) \<le> nfree s1"
  proof -
    have "(?fin - 1) div 4096 \<le> off div 4096 + length xs div 4096 + 1" by linarith
    then have "(?fin - 1) div 4096 - off div 4096 + 1 \<le> length xs div 4096 + 2" by linarith
    from order_trans [OF mult_le_mono2 [OF this] free] show ?thesis unfolding s1(5) .
  qed
  then obtain s' where s': "file_write_loop f off xs s1 = Some (0, s')" "wrote f off xs s1 s'"
    using write_loop_ok [OF s1(2) le] nb s1(4) by auto
  have wr: "file_write f xs off s = Some (int (length xs), s')"
    using s1(1) s'(1) by (simp add: file_write_def Let_def)
  have keep: "fbyte f p s' = fbyte f p s" if p: "p < 1034 * 4096" "file_ptr f (p div 4096) s \<noteq> 0" "\<not> (off \<le> p \<and> p < ?fin)" for p
  proof -
    have "p div 4096 \<le> 1034" using p(1) by (simp add: less_mult_imp_div_less less_imp_le)
    then have "file_ptr f (p div 4096) s \<noteq> fst f" using file_ok_ptr [OF ok] p(2) by (auto simp: owned_def)
    then have "fbyte f p s1 = fbyte f p s" by (simp add: fbyte_def s1(6,7))
    moreover have "fbyte f p s' = fbyte f p s1"
      by (rule wrote_keeps [OF s'(2) p(1)]) (use p s1(6) in simp_all)
    ultimately show ?thesis by simp
  qed
  have sz': "f_size f s' = max (f_size f s) (int ?fin)" "file_ok f s'" "s_nblocks s' = s_nblocks s"
    using s'(2) s1(3,4) by (simp_all add: wrote_def)
  have ptr: "file_ptr f (p div 4096) s' \<noteq> 0" if "off \<le> p" "p < ?fin" for p
    using s'(2) that unfolding wrote_def by (metis add_diff_inverse_nat add_less_cancel_left not_less)
  have "map (\<lambda>p. fbyte f p s') [off..<?fin] = xs"
    using s'(2) by (intro nth_equalityI) (simp_all add: wrote_def)
  then have "file_read_loop f off ?fin s' = Some (Inr xs, s')"
    using read_loop_ok [OF sz'(2) le _ ptr] nb sz'(3) by simp
  moreover have "min (length xs) (nat (f_size f s' - int off)) = length xs" using sz'(1) by simp
  ultimately have "file_read f (length xs) off s' = Some ((int (length xs), xs), s')"
    using sz'(1) by (cases "xs = []") (auto simp: file_read_def Let_def)
  with wr sz' keep show ?thesis by (intro exI [of _ s']) auto
qed

text \<open>C9. What is written to a file is read back. For a file whose blocks are in order, in a range
  that its 1034 blocks can hold and with enough free blocks (two for each block the range touches:
  the block itself and the indirect block), \<open>file_write\<close> writes all bytes and keeps the file in
  order; \<open>file_read\<close> then returns exactly these bytes, every other byte of the file's blocks is
  unchanged, and the size grows to the end of the range if it was smaller.\<close>

theorem file_write_read:
  assumes ok: "file_ok f s" and sz: "0 \<le> f_size f s" and le: "off + length xs \<le> 1034 * 4096"
    and nb: "(off + length xs) div 4096 \<le> s_nblocks s" and free: "2 * (length xs div 4096 + 2) \<le> nfree s"
  shows "\<exists>s'. file_write f xs off s = Some (int (length xs), s') \<and> file_ok f s' \<and>
     file_read f (length xs) off s' = Some ((int (length xs), xs), s') \<and>
     (\<forall>p < 1034 * 4096. file_ptr f (p div 4096) s \<noteq> 0 \<and> \<not> (off \<le> p \<and> p < off + length xs) \<longrightarrow>
        fbyte f p s' = fbyte f p s) \<and>
     f_size f s' = max (f_size f s) (int (off + length xs))"
  by (rule write_read_law [OF assms])

text \<open>A disk of 40 blocks: the super block, one bitmap block with the blocks from 4 on free, and in
  block 3 a directory whose first file is empty.\<close>

definition demo_disk :: fsmem where
  "demo_disk = \<lparr>bmem = (\<lambda>b i. if b = 1 \<and> i = 4 then 40 else if b = 2 \<and> i = 0 then 0xF0
     else if b = 2 \<and> i < 5 then 0xFF else 0), fdisk = (\<lambda>_ _. 0)\<rparr>"

lemma demo_disk_facts:
  "s_nblocks demo_disk = 40" "f_size (3, 0) demo_disk = 0" "file_ptr (3, 0) k demo_disk = 0"
  by (simp_all add: s_nblocks_def f_size_def file_ptr_def get32_def rd32_def demo_disk_def f_direct_def f_indirect_def)

lemma demo_disk_bits: "i < 40 \<Longrightarrow> bit_set i demo_disk \<longleftrightarrow> 4 \<le> i"
proof -
  have "\<forall>i \<in> set [0..<40]. bit_set i demo_disk = (4 \<le> i)" by code_simp
  then show "i < 40 \<Longrightarrow> bit_set i demo_disk \<longleftrightarrow> 4 \<le> i" by simp
qed

lemma demo_disk_ok: "file_ok (3, 0) demo_disk" "nfree demo_disk = 36"
proof -
  show "file_ok (3, 0) demo_disk"
    using demo_disk_bits by (simp add: file_ok_def demo_disk_facts data_start_def)
  have "{i. i < 40 \<and> bit_set i demo_disk} = {4..<40}" using demo_disk_bits by auto
  then show "nfree demo_disk = 36" by (simp add: nfree_def demo_disk_facts)
qed

theorem alloc_block_correct_witness:
  "\<exists>n s'. alloc_block demo_disk = Some (int n, s') \<and> block_is_free n demo_disk \<and> (\<forall>j < n. \<not> block_is_free j demo_disk)"
proof -
  have "block_is_free 4 demo_disk" using demo_disk_bits [of 4] by (simp add: block_is_free_bit demo_disk_facts)
  with alloc_block_correct [of demo_disk] show ?thesis by (auto simp: demo_disk_facts)
qed

theorem file_write_read_witness:
  "\<exists>s'. file_write (3, 0) (replicate 6000 7) 5000 demo_disk = Some (6000, s') \<and>
     file_read (3, 0) 6000 5000 s' = Some ((6000, replicate 6000 7), s') \<and> f_size (3, 0) s' = 11000"
proof -
  have "2 * (length (replicate 6000 (7 :: u8)) div 4096 + 2) \<le> nfree demo_disk" by (simp add: demo_disk_ok)
  from file_write_read [OF demo_disk_ok(1) _ _ _ this, of 5000] show ?thesis
    by (auto simp: demo_disk_facts)
qed

text \<open>C40. A full disk corrupts the file. When no block is free and a file has no block at a direct
  position, the access fails with \<open>-E_NO_DISK\<close>; but the error code has been stored in the file's
  block slot, so the next access to the same position takes it for a block number and panics.\<close>

theorem file_get_block_full:
  assumes nb: "s_nblocks s \<le> DISKBLOCKS" and full: "\<forall>i. \<not> block_is_free i s" and k: "k < 10" "k \<le> s_nblocks s"
    and z: "get32 (f_direct f k) s = 0" and f: "fst f \<noteq> 1 \<or> 8 \<le> snd f"
  shows "\<exists>s'. file_get_block f k s = Some ((- E_NO_DISK, None), s') \<and> file_get_block f k s' = None"
proof -
  define s' where "s' = put32 (f_direct f k) (word_of_int (- E_NO_DISK)) s"
  have al: "alloc_block s = Some (- E_NO_DISK, s)"
    using alloc_block_spec [OF nb] full by (auto simp: block_is_free_bit)
  have 1: "file_get_block f k s = Some ((- E_NO_DISK, None), s')"
    using k z al by (simp add: file_get_block_def file_block_walk_def s'_def)
  have nb': "s_nblocks s' = s_nblocks s" unfolding s_nblocks_def s'_def
    using f by (subst get32_put32_other) (auto simp: f_direct_def)
  have "get32 (f_direct f k) s' = - 9" by (simp add: s'_def)
  moreover have "unat (- 9 :: u32) = 4294967287" by simp
  ultimately have "file_get_block f k s' = None"
    using k nb nb' by (simp add: file_get_block_def file_block_walk_def diskaddr_def)
  with 1 show ?thesis by blast
qed

definition full_disk :: fsmem where
  "full_disk = \<lparr>bmem = (\<lambda>b i. if b = 1 \<and> i = 4 then 40 else 0), fdisk = (\<lambda>_ _. 0)\<rparr>"

theorem file_get_block_full_witness:
  "\<exists>s'. file_get_block (3, 0) 2 full_disk = Some ((- E_NO_DISK, None), s') \<and> file_get_block (3, 0) 2 s' = None"
proof -
  have "s_nblocks full_disk = 40" "get32 (f_direct (3, 0) 2) full_disk = 0"
    by (simp_all add: s_nblocks_def get32_def rd32_def full_disk_def f_direct_def)
  moreover have "\<forall>i. \<not> block_is_free i full_disk"
    by (simp add: block_is_free_def get32_def rd32_def full_disk_def bitmap_def)
  ultimately show ?thesis using file_get_block_full [of full_disk 2 "(3, 0)"] by simp
qed

end
