(* ===== verification/Fs_Serv.thy ===== *)
theory Fs_Serv
  imports Fs_Props Handles
begin

unbundle bit_operations_syntax

text \<open>
  The file server, \<^verbatim>\<open>fs/serv.c\<close>. A request page is a value of type \<open>Fsipc\<close>. \<open>fdpage i\<close> is the
  \<^verbatim>\<open>struct Fd\<close> on the page at \<open>FILEVA + i * PGSIZE\<close>, which the server shares with the clients that
  have the file open; \<open>fdref i\<close> is the kernel's reference count of that page, which \<^verbatim>\<open>pageref\<close>
  reads, and \<open>page_ret\<close> the result of the kernel's \<^verbatim>\<open>sys_page_alloc\<close>. The seek position has
  type \<^verbatim>\<open>off_t\<close>. A request whose bytes do not fit the request page accesses memory outside of it and is \<open>None\<close>. A request at
  a negative position is outside of the model and also \<open>None\<close>: depending on the position and the count, the unsigned
  comparisons of the code skip the loop and report the count, return an error, or access memory outside of the block.
\<close>

abbreviation (input) MAXOPEN :: nat where "MAXOPEN \<equiv> 1024"

section \<open>State\<close>

record OpenFile =
  o_fileid :: u32
  o_file :: "faddr option"
  o_mode :: u32

record Fd =
  fd_dev_id :: int
  fd_offset :: u32
  fd_omode :: u32
  fd_file_id :: u32

record fserv =
  opentab :: "nat \<Rightarrow> OpenFile"
  fdpage :: "nat \<Rightarrow> Fd"
  fdref :: "nat \<Rightarrow> nat"
  page_ret :: int
  fsm :: fsmem

datatype Fsipc =
    Req_open "u8 list" u32
  | Req_set_size u32 u32
  | Req_read u32 nat
  | Req_write u32 "u8 list"
  | Req_stat u32
  | Req_flush u32
  | Req_sync
  | Req_other nat

text \<open>What is left on the request page for the client.\<close>

datatype Fsret =
    Ret_none
  | Ret_read "u8 list"
  | Ret_stat "u8 list" int bool

definition zero_fd :: Fd where
  "zero_fd = \<lparr>fd_dev_id = 0, fd_offset = 0, fd_omode = 0, fd_file_id = 0\<rparr>"

definition upd_fd :: "nat \<Rightarrow> (Fd \<Rightarrow> Fd) \<Rightarrow> fserv \<Rightarrow> fserv" where
  "upd_fd i f s = s\<lparr>fdpage := (fdpage s)(i := f (fdpage s i))\<rparr>"

definition upd_open :: "nat \<Rightarrow> (OpenFile \<Rightarrow> OpenFile) \<Rightarrow> fserv \<Rightarrow> fserv" where
  "upd_open i f s = s\<lparr>opentab := (opentab s)(i := f (opentab s i))\<rparr>"

section \<open>The table of open files\<close>

definition serve_init :: "fserv \<Rightarrow> fserv" where
  "serve_init s = fold (\<lambda>i. upd_open i (\<lambda>o'. o'\<lparr>o_fileid := of_nat i\<rparr>)) [0..<MAXOPEN] s"

definition openfile_alloc :: "fserv \<Rightarrow> (int \<times> nat option) \<times> fserv" where
  "openfile_alloc s =
     (case List.find (\<lambda>i. fdref s i = 0 \<or> fdref s i = 1) [0..<MAXOPEN] of
        None \<Rightarrow> ((- E_MAX_OPEN, None), s)
      | Some i \<Rightarrow>
          if fdref s i = 0 \<and> page_ret s < 0 then ((page_ret s, None), s)
          else
            (let s1 = s\<lparr>fdref := (fdref s)(i := 1)\<rparr>;
                 s2 = upd_open i (\<lambda>o'. o'\<lparr>o_fileid := o_fileid o' + of_nat MAXOPEN\<rparr>) s1;
                 s3 = upd_fd i (\<lambda>_. zero_fd) s2
             in ((sint (o_fileid (opentab s3 i)), Some i), s3)))"

definition openfile_lookup :: "u32 \<Rightarrow> fserv \<Rightarrow> int \<times> nat option" where
  "openfile_lookup fileid s =
     (let i = unat fileid mod MAXOPEN in
      if fdref s i \<le> 1 \<or> o_fileid (opentab s i) \<noteq> fileid then (- E_INVAL, None) else (0, Some i))"

section \<open>Requests\<close>

definition with_fs :: "('a \<times> fsmem) option \<Rightarrow> fserv \<Rightarrow> ('a \<times> fserv) option" where
  "with_fs r s = map_option (\<lambda>(x, m). (x, s\<lparr>fsm := m\<rparr>)) r"

text \<open>The part of \<open>serve_open\<close> that creates or opens the file.\<close>

definition open_or_create :: "u8 list \<Rightarrow> u32 \<Rightarrow> fsmem \<Rightarrow> ((int \<times> faddr option) \<times> fsmem) option" where
  "open_or_create path omode m =
     (if omode AND 0x100 \<noteq> 0 then do {
        ((r, f), m1) \<leftarrow> file_create path m;
        if r < 0 \<and> omode AND 0x400 = 0 \<and> r = - E_FILE_EXISTS then file_open path m1
        else Some ((r, f), m1) }
      else file_open path m)"

text \<open>Its end, which opens the file again and fills out the table entry and the \<open>Fd\<close> page.\<close>

definition open_finish :: "u8 list \<Rightarrow> u32 \<Rightarrow> nat \<Rightarrow> fserv \<Rightarrow> ((int \<times> nat option) \<times> fserv) option" where
  "open_finish path omode i s = do {
     ((r, f), s1) \<leftarrow> with_fs (file_open path (fsm s)) s;
     if r < 0 then Some ((r, None), s1)
     else do {
       let s2 = upd_open i (\<lambda>o'. o'\<lparr>o_file := f, o_mode := omode\<rparr>) s1;
       let s3 = upd_fd i (\<lambda>fd. fd\<lparr>fd_file_id := o_fileid (opentab s2 i), fd_omode := omode AND 3, fd_dev_id := 0x66\<rparr>) s2;
       Some ((0, Some i), s3) } }"

definition open_trunc :: "faddr \<Rightarrow> u32 \<Rightarrow> fserv \<Rightarrow> (int \<times> fserv) option" where
  "open_trunc f omode s = (if omode AND 0x200 \<noteq> 0 then with_fs (file_set_size f 0 (fsm s)) s else Some (0, s))"

definition serve_open :: "u8 list \<Rightarrow> u32 \<Rightarrow> fserv \<Rightarrow> ((int \<times> nat option) \<times> fserv) option" where
  "serve_open req_path omode s = do {
     let path = take 1023 (takeWhile (\<lambda>c. c \<noteq> 0) req_path);
     let ((r, slot), s1) = openfile_alloc s;
     if r < 0 then Some ((r, None), s1)
     else do {
       i \<leftarrow> slot;
       ((r, f), s2) \<leftarrow> with_fs (open_or_create path omode (fsm s1)) s1;
       if r < 0 then Some ((r, None), s2)
       else do {
         g \<leftarrow> f;
         (r, s3) \<leftarrow> open_trunc g omode s2;
         if r < 0 then Some ((r, None), s3) else open_finish path omode i s3 } } }"

definition serve_set_size :: "u32 \<Rightarrow> u32 \<Rightarrow> fserv \<Rightarrow> (int \<times> fserv) option" where
  "serve_set_size fileid sz s =
     (case openfile_lookup fileid s of
        (r, None) \<Rightarrow> Some (r, s)
      | (r, Some i) \<Rightarrow> do {
          f \<leftarrow> o_file (opentab s i);
          with_fs (file_set_size f (sint sz) (fsm s)) s })"

definition serve_read :: "u32 \<Rightarrow> nat \<Rightarrow> fserv \<Rightarrow> ((int \<times> Fsret) \<times> fserv) option" where
  "serve_read fileid n s =
     (case openfile_lookup fileid s of
        (r, None) \<Rightarrow> Some ((r, Ret_none), s)
      | (r, Some i) \<Rightarrow> do {
          f \<leftarrow> o_file (opentab s i);
          let off = fd_offset (fdpage s i);
          assert_that (0 \<le> sint off);
          ((r, xs), s1) \<leftarrow> with_fs (file_read f n (unat off) (fsm s)) s;
          assert_that (length xs \<le> 4096);
          Some ((r, Ret_read xs), upd_fd i (\<lambda>fd. fd\<lparr>fd_offset := off + word_of_int r\<rparr>) s1) })"

definition serve_write :: "u32 \<Rightarrow> u8 list \<Rightarrow> fserv \<Rightarrow> (int \<times> fserv) option" where
  "serve_write fileid xs s =
     (case openfile_lookup fileid s of
        (r, None) \<Rightarrow> Some (r, s)
      | (r, Some i) \<Rightarrow> do {
          f \<leftarrow> o_file (opentab s i);
          let off = fd_offset (fdpage s i);
          assert_that (0 \<le> sint off);
          assert_that (length xs \<le> 4084);
          (r, s1) \<leftarrow> with_fs (file_write f xs (unat off) (fsm s)) s;
          if r < 0 then Some (r, s1)
          else Some (r, upd_fd i (\<lambda>fd. fd\<lparr>fd_offset := off + word_of_int r\<rparr>) s1) })"

text \<open>The name of a file: the bytes of its \<^verbatim>\<open>f_name\<close> up to the null byte, which every name that
  \<open>file_create\<close> stores has.\<close>

definition f_name :: "faddr \<Rightarrow> fsmem \<Rightarrow> u8 list" where
  "f_name f m = takeWhile (\<lambda>c. c \<noteq> 0) (map (\<lambda>k. bmem m (fst f) (snd f + k)) [0..<MAXNAMELEN])"

definition serve_stat :: "u32 \<Rightarrow> fserv \<Rightarrow> ((int \<times> Fsret) \<times> fserv) option" where
  "serve_stat fileid s =
     (case openfile_lookup fileid s of
        (r, None) \<Rightarrow> Some ((r, Ret_none), s)
      | (r, Some i) \<Rightarrow> do {
          f \<leftarrow> o_file (opentab s i);
          Some ((0, Ret_stat (f_name f (fsm s)) (f_size f (fsm s)) (f_type f (fsm s) = 1)), s) })"

definition serve_flush :: "u32 \<Rightarrow> fserv \<Rightarrow> (int \<times> fserv) option" where
  "serve_flush fileid s =
     (case openfile_lookup fileid s of
        (r, None) \<Rightarrow> Some (r, s)
      | (r, Some i) \<Rightarrow> do {
          f \<leftarrow> o_file (opentab s i);
          m \<leftarrow> file_flush f (fsm s);
          Some (0, s\<lparr>fsm := m\<rparr>) })"

definition serve_sync :: "fserv \<Rightarrow> (int \<times> fserv) option" where
  "serve_sync s = do { m \<leftarrow> fs_sync (fsm s); Some (0, s\<lparr>fsm := m\<rparr>) }"

text \<open>One turn of the loop of \<open>serve\<close> on a request with an argument page: the result sent back, the
  page that goes with it and what the request page holds.\<close>

definition serve :: "Fsipc \<Rightarrow> fserv \<Rightarrow> ((int \<times> nat option \<times> Fsret) \<times> fserv) option" where
  "serve req s =
     (case req of
        Req_open path omode \<Rightarrow> map_option (\<lambda>((r, pg), t). ((r, pg, Ret_none), t)) (serve_open path omode s)
      | Req_set_size fileid sz \<Rightarrow> map_option (\<lambda>(r, t). ((r, None, Ret_none), t)) (serve_set_size fileid sz s)
      | Req_read fileid n \<Rightarrow> map_option (\<lambda>((r, d), t). ((r, None, d), t)) (serve_read fileid n s)
      | Req_write fileid xs \<Rightarrow> map_option (\<lambda>(r, t). ((r, None, Ret_none), t)) (serve_write fileid xs s)
      | Req_stat fileid \<Rightarrow> map_option (\<lambda>((r, d), t). ((r, None, d), t)) (serve_stat fileid s)
      | Req_flush fileid \<Rightarrow> map_option (\<lambda>(r, t). ((r, None, Ret_none), t)) (serve_flush fileid s)
      | Req_sync \<Rightarrow> map_option (\<lambda>(r, t). ((r, None, Ret_none), t)) (serve_sync s)
      | Req_other _ \<Rightarrow> Some ((- E_INVAL, None, Ret_none), s))"

section \<open>File identifiers\<close>

definition serv_ok :: "fserv \<Rightarrow> bool" where
  "serv_ok s \<longleftrightarrow> (\<forall>i < MAXOPEN. unat (o_fileid (opentab s i)) mod MAXOPEN = i)"

lemma fileid_next: "unat (h + 1024 :: u32) mod 1024 = unat h mod 1024"
proof -
  have "unat (h + 1024) = (unat h + 1024) mod 2 ^ 32" by (simp add: unat_word_ariths)
  moreover have "x mod 2 ^ 32 mod 1024 = x mod 1024" for x :: nat by (simp add: mod_mod_cancel)
  ultimately show ?thesis by simp
qed

interpretation fh: handle_table "\<lambda>h. unat (h :: u32) mod MAXOPEN" "\<lambda>h i. unat h mod MAXOPEN = i" "\<lambda>h _. h + of_nat MAXOPEN"
  by unfold_locales (simp_all add: fileid_next)

lemma serve_init_ok: "serv_ok (serve_init s)"
proof -
  have "o_fileid (opentab (fold (\<lambda>i. upd_open i (\<lambda>o'. o'\<lparr>o_fileid := of_nat i\<rparr>)) [0..<n] s) j) = of_nat j" if "j < n" for n j
    using that by (induction n) (auto simp: upd_open_def)
  then show ?thesis by (simp add: serv_ok_def serve_init_def unat_of_nat take_bit_nat_eq_self)
qed

lemma openfile_alloc_cases:
  "openfile_alloc s = ((- E_MAX_OPEN, None), s) \<and> (\<forall>i < MAXOPEN. 2 \<le> fdref s i) \<or>
   (\<exists>i < MAXOPEN. fdref s i \<le> 1 \<and> (\<forall>j < i. 2 \<le> fdref s j) \<and>
      (openfile_alloc s = ((page_ret s, None), s) \<and> fdref s i = 0 \<and> page_ret s < 0 \<or>
       (\<exists>s'. openfile_alloc s = ((sint (o_fileid (opentab s' i)), Some i), s') \<and>
          s' = upd_fd i (\<lambda>_. zero_fd) (upd_open i (\<lambda>o'. o'\<lparr>o_fileid := o_fileid o' + of_nat MAXOPEN\<rparr>)
                 (s\<lparr>fdref := (fdref s)(i := 1)\<rparr>)))))"
proof (cases "List.find (\<lambda>i. fdref s i = 0 \<or> fdref s i = 1) [0..<MAXOPEN]")
  case None
  then have "\<forall>i < MAXOPEN. 2 \<le> fdref s i" by (force simp: find_None_iff)
  with None show ?thesis by (simp add: openfile_alloc_def)
next
  case (Some i)
  have i: "i < MAXOPEN" "fdref s i \<le> 1" "\<forall>j < i. 2 \<le> fdref s j" using find_upt_Some [OF Some] by force+
  show ?thesis
  proof (cases "fdref s i = 0 \<and> page_ret s < 0")
    case True
    then have "openfile_alloc s = ((page_ret s, None), s)" using Some by (simp add: openfile_alloc_def)
    with i True show ?thesis by blast
  next
    case False
    define s' where "s' = upd_fd i (\<lambda>_. zero_fd) (upd_open i (\<lambda>o'. o'\<lparr>o_fileid := o_fileid o' + of_nat MAXOPEN\<rparr>)
        (s\<lparr>fdref := (fdref s)(i := 1)\<rparr>))"
    have "openfile_alloc s = ((sint (o_fileid (opentab s' i)), Some i), s')"
      using Some False unfolding openfile_alloc_def s'_def by (simp only: option.case if_False Let_def)
    with i s'_def show ?thesis by blast
  qed
qed

text \<open>C30. File identifiers do not survive the reuse of their slot. \<open>openfile_alloc\<close> takes the first
  slot whose page no client maps and clears the page. Once the client has mapped the page, the new
  identifier finds the slot, the identifier that the slot had before is rejected, and every
  identifier of another slot is found, or rejected, as before.\<close>

theorem openfile_reuse:
  assumes ok: "serv_ok s" and al: "openfile_alloc s = ((r, Some i), s')"
  defines "t \<equiv> s'\<lparr>fdref := (fdref s')(i := 2)\<rparr>"
  shows "serv_ok s' \<and> i < MAXOPEN \<and> fdref s i \<le> 1 \<and> (\<forall>j < i. 2 \<le> fdref s j) \<and> fdpage s' i = zero_fd \<and>
     openfile_lookup (o_fileid (opentab s' i)) t = (0, Some i) \<and>
     openfile_lookup (o_fileid (opentab s i)) t = (- E_INVAL, None) \<and>
     (\<forall>h. unat h mod MAXOPEN \<noteq> i \<longrightarrow> openfile_lookup h t = openfile_lookup h s)"
proof -
  from openfile_alloc_cases [of s] al have i: "i < MAXOPEN" "fdref s i \<le> 1" "\<forall>j < i. 2 \<le> fdref s j"
    and s': "s' = upd_fd i (\<lambda>_. zero_fd) (upd_open i (\<lambda>o'. o'\<lparr>o_fileid := o_fileid o' + of_nat MAXOPEN\<rparr>)
        (s\<lparr>fdref := (fdref s)(i := 1)\<rparr>))" by auto
  define tab where "tab = (\<lambda>j. o_fileid (opentab s j))"
  have v: "unat (tab i) mod MAXOPEN = i" using ok i(1) by (simp add: serv_ok_def tab_def)
  have tab': "o_fileid (opentab s' j) = (if j = i then tab i + of_nat MAXOPEN else tab j)" for j
    by (simp add: s' upd_fd_def upd_open_def tab_def)
  have ref: "fdref t j = (if j = i then 2 else fdref s j)" for j by (simp add: t_def s' upd_fd_def upd_open_def)
  have ot: "opentab t = opentab s'" by (simp add: t_def)
  have look: "openfile_lookup h t = (if fdref t (unat h mod MAXOPEN) \<le> 1 \<or> o_fileid (opentab s' (unat h mod MAXOPEN)) \<noteq> h
      then (- E_INVAL, None) else (0, Some (unat h mod MAXOPEN)))" for h by (simp add: openfile_lookup_def ot Let_def)
  have ok': "serv_ok s'" using ok v fh.fresh_index [OF v] by (auto simp: serv_ok_def tab' tab_def)
  have new: "openfile_lookup (o_fileid (opentab s' i)) t = (0, Some i)"
    unfolding look using fh.fresh_index [OF v] by (simp add: tab' ref)
  have old: "openfile_lookup (tab i) t = (- E_INVAL, None)" unfolding look using v fh.fresh_neq [OF v] by (simp add: tab')
  have oth: "openfile_lookup h t = openfile_lookup h s" if "unat h mod MAXOPEN \<noteq> i" for h
    unfolding look using that by (simp add: openfile_lookup_def tab' ref Let_def tab_def)
  have "fdpage s' i = zero_fd" by (simp add: s' upd_fd_def)
  with i ok' new old oth show ?thesis by (simp add: tab_def)
qed

text \<open>A server just started, on the disk of the file system's example, with no clients.\<close>

definition demo_serv :: fserv where
  "demo_serv = serve_init \<lparr>opentab = (\<lambda>_. \<lparr>o_fileid = 0, o_file = None, o_mode = 0\<rparr>), fdpage = (\<lambda>_. zero_fd),
     fdref = (\<lambda>i. if i < 3 then 2 else 0), page_ret = 0, fsm = demo_disk\<rparr>"

lemma serve_init_simps [simp]:
  "fdref (serve_init s) = fdref s" "page_ret (serve_init s) = page_ret s" "fsm (serve_init s) = fsm s" "fdpage (serve_init s) = fdpage s"
proof -
  have "fdref (fold (\<lambda>i. upd_open i (g i)) xs s) = fdref s \<and> page_ret (fold (\<lambda>i. upd_open i (g i)) xs s) = page_ret s \<and>
      fsm (fold (\<lambda>i. upd_open i (g i)) xs s) = fsm s \<and> fdpage (fold (\<lambda>i. upd_open i (g i)) xs s) = fdpage s" for g xs
    by (induction xs arbitrary: s) (simp_all add: upd_open_def)
  then show "fdref (serve_init s) = fdref s" "page_ret (serve_init s) = page_ret s" "fsm (serve_init s) = fsm s"
    "fdpage (serve_init s) = fdpage s" by (simp_all add: serve_init_def)
qed

lemma demo_serv_alloc: "\<exists>r s'. openfile_alloc demo_serv = ((r, Some 3), s')"
proof -
  have ref: "fdref demo_serv i = (if i < 3 then 2 else 0)" "page_ret demo_serv = 0" for i by (simp_all add: demo_serv_def)
  have "\<not> (\<forall>i < MAXOPEN. 2 \<le> fdref demo_serv i)" 
  proof -
    have "3 < MAXOPEN \<and> \<not> 2 \<le> fdref demo_serv 3" by (simp add: ref)
    then show ?thesis by blast
  qed
  with openfile_alloc_cases [of demo_serv] ref(2) obtain i s' where i: "fdref demo_serv i \<le> 1" "\<forall>j < i. 2 \<le> fdref demo_serv j"
    "openfile_alloc demo_serv = ((sint (o_fileid (opentab s' i)), Some i), s')" by auto
  have "\<not> i < 3" using i(1) ref(1) [of i] by auto
  moreover have "\<not> 3 < i" using i(2) ref(1) [of 3] by auto
  ultimately show ?thesis using i(3) by auto
qed

theorem openfile_reuse_witness:
  "\<exists>r s'. openfile_alloc demo_serv = ((r, Some 3), s') \<and>
     openfile_lookup (o_fileid (opentab s' 3)) (s'\<lparr>fdref := (fdref s')(3 := 2)\<rparr>) = (0, Some 3)"
proof -
  obtain r s' where s': "openfile_alloc demo_serv = ((r, Some 3), s')" using demo_serv_alloc by blast
  have "serv_ok demo_serv" unfolding demo_serv_def by (rule serve_init_ok)
  from openfile_reuse [OF this s'] s' show ?thesis by blast
qed

section \<open>Requests do not disturb each other\<close>

text \<open>The part of the state that says which identifiers are in use.\<close>

definition same_ids :: "fserv \<Rightarrow> fserv \<Rightarrow> bool" where
  "same_ids s s' \<longleftrightarrow> fdref s' = fdref s \<and> (\<forall>i. o_fileid (opentab s' i) = o_fileid (opentab s i))"

lemma same_ids_refl [simp]: "same_ids s s"
  by (simp add: same_ids_def)

lemma same_ids_trans: "same_ids s t \<Longrightarrow> same_ids t u \<Longrightarrow> same_ids s u"
  by (simp add: same_ids_def)

lemma same_ids_upd [simp]:
  "same_ids s (upd_fd i f t) = same_ids s t" "same_ids s (t\<lparr>fsm := m\<rparr>) = same_ids s t"
  "same_ids s (upd_open i (\<lambda>o'. o'\<lparr>o_file := f', o_mode := md\<rparr>) t) = same_ids s t"
  by (auto simp: same_ids_def upd_fd_def upd_open_def)

lemma same_ids_lookup: "same_ids s s' \<Longrightarrow> openfile_lookup h s' = openfile_lookup h s"
  by (simp add: same_ids_def openfile_lookup_def)

lemma same_ids_ok: "same_ids s s' \<Longrightarrow> serv_ok s' = serv_ok s"
  by (simp add: same_ids_def serv_ok_def)

lemma file_read_loop_length:
  "file_read_loop f pos fin m = Some (x, m') \<Longrightarrow> (\<forall>e. x = Inl e \<longrightarrow> e < 0) \<and> (\<forall>xs. x = Inr xs \<longrightarrow> length xs = fin - pos)"
proof (induction f pos fin m arbitrary: x m' rule: file_read_loop.induct)
  case (1 f pos fin m)
  show ?case
  proof (cases "pos < fin")
    case True
    with "1.prems" obtain r blk m1 where g: "file_get_block f (pos div 4096) m = Some ((r, blk), m1)"
      by (auto simp: file_read_loop.simps [of f pos fin m] Option.bind_eq_Some_conv)
    show ?thesis
    proof (cases "r < 0")
      case False
      let ?bn = "min (4096 - pos mod 4096) (fin - pos)"
      from True False g "1.prems" obtain b y where b: "blk = Some b" "file_read_loop f (pos + ?bn) fin m1 = Some (y, m')"
        "x = (case y of Inl e \<Rightarrow> Inl e | Inr xs \<Rightarrow> Inr (map (\<lambda>k. bmem m1 b (pos mod 4096 + k)) [0..<?bn] @ xs))"
        by (auto simp: file_read_loop.simps [of f pos fin m] Option.bind_eq_Some_conv Let_def)
      have "(\<forall>e. y = Inl e \<longrightarrow> e < 0) \<and> (\<forall>xs. y = Inr xs \<longrightarrow> length xs = fin - (pos + ?bn))"
        by (rule "1.IH" [OF True g refl refl False b(1) refl b(2)])
      moreover have "?bn + (fin - (pos + ?bn)) = fin - pos" using True by (simp add: min_def)
      ultimately show ?thesis using b(3) by (cases y) auto
    qed (use True g "1.prems" in \<open>auto simp: file_read_loop.simps [of f pos fin m]\<close>)
  qed (use "1.prems" in \<open>auto simp: file_read_loop.simps [of f pos fin m]\<close>)
qed

lemma file_read_length: "file_read f n off m = Some ((r, xs), m') \<Longrightarrow> length xs = nat r \<and> length xs \<le> n"
proof (cases "int off \<ge> f_size f m")
  case False
  assume "file_read f n off m = Some ((r, xs), m')"
  with False obtain x where x: "file_read_loop f off (off + min n (nat (f_size f m - int off))) m = Some (x, m')"
    "(r, xs) = (case x of Inl e \<Rightarrow> (e, []) | Inr ys \<Rightarrow> (int (min n (nat (f_size f m - int off))), ys))"
    by (auto simp: file_read_def Let_def Option.bind_eq_Some_conv)
  then show ?thesis using file_read_loop_length [OF x(1)] by (cases x) auto
qed (simp add: file_read_def)

declare walk_loop.simps [simp del]

lemma walk_loop_file: "walk_loop path dir f m = Some (w, m') \<Longrightarrow> 0 \<le> w_ret w \<Longrightarrow> w_file w \<noteq> None"
proof (induction path dir f m rule: walk_loop.induct)
  case (1 path dir f s)
  note w = "1.prems"(1) [unfolded walk_loop.simps [of path dir f s]]
  show ?case
  proof (cases "path = []")
    case True
    then show ?thesis using w by auto
  next
    case False
    let ?name = "takeWhile (\<lambda>c. c \<noteq> 0x2f) path" and ?path = "skip_slash (dropWhile (\<lambda>c. c \<noteq> 0x2f) path)"
    have n: "\<not> length ?name \<ge> MAXNAMELEN" "\<not> f_type f s \<noteq> 1"
      using w "1.prems"(2) False by (auto simp: Let_def split: if_splits)
    from this obtain r g s1 where l: "dir_lookup f ?name s = Some ((r, Some g), s1)" "\<not> r < 0" "walk_loop ?path (Some f) g s1 = Some (w, m')"
      using w "1.prems"(2) False by (auto simp: Let_def Option.bind_eq_Some_conv split: if_splits)
    show ?thesis by (rule "1.IH" [OF False refl refl refl refl n l(1) refl refl l(2) refl l(3) "1.prems"(2)])
  qed
qed

lemma file_open_file:
  assumes "file_open path m = Some ((r, f), m')" "0 \<le> r"
  shows "f \<noteq> None"
proof -
  obtain w where w: "walk_path path m = Some (w, m')" "r = w_ret w" "f = w_file w"
    using assms(1) by (auto simp: file_open_def Option.bind_eq_Some_conv)
  show ?thesis using walk_loop_file [OF w(1) [unfolded walk_path_def]] w(2,3) assms(2) by blast
qed

lemma with_fs_tab: "with_fs r t = Some (x, t') \<Longrightarrow> fdpage t' = fdpage t \<and> opentab t' = opentab t \<and> fdref t' = fdref t"
  by (auto simp: with_fs_def)

lemma open_trunc_tab:
  "open_trunc f omode t = Some (r, t') \<Longrightarrow> fdpage t' = fdpage t \<and> opentab t' = opentab t \<and> fdref t' = fdref t"
  by (auto simp: open_trunc_def with_fs_def split: if_splits)

text \<open>The slot whose seek position a request moves.\<close>

definition req_slot :: "Fsipc \<Rightarrow> nat option" where
  "req_slot req = (case req of
      Req_read fileid _ \<Rightarrow> Some (unat fileid mod MAXOPEN)
    | Req_write fileid _ \<Rightarrow> Some (unat fileid mod MAXOPEN)
    | _ \<Rightarrow> None)"

lemma serve_other_frame:
  assumes "serve req s = Some ((r, pg, d), s')" "\<forall>path omode. req \<noteq> Req_open path omode"
  shows "fdref s' = fdref s \<and> opentab s' = opentab s \<and> pg = None \<and>
    (\<forall>i. fdpage s' i = fdpage s i \<or> req_slot req = Some i \<and> (\<exists>off. fdpage s' i = (fdpage s i)\<lparr>fd_offset := off\<rparr>))"
  using assms
  by (cases req) (auto simp: serve_def serve_set_size_def serve_read_def serve_write_def serve_stat_def serve_flush_def
      serve_sync_def with_fs_def upd_fd_def req_slot_def openfile_lookup_def Option.bind_eq_Some_conv Let_def
      split: if_splits prod.splits option.splits)

text \<open>The table entry and the page of slot \<open>i\<close> after \<open>path\<close> has been opened there.\<close>

definition opened_as :: "u8 list \<Rightarrow> u32 \<Rightarrow> nat \<Rightarrow> fserv \<Rightarrow> fserv \<Rightarrow> bool" where
  "opened_as path omode i s s' \<longleftrightarrow>
     (let h = o_fileid (opentab s i) + of_nat MAXOPEN in
      (\<exists>m r f. file_open (take 1023 (takeWhile (\<lambda>c. c \<noteq> 0) path)) m = Some ((r, Some f), fsm s') \<and> 0 \<le> r \<and>
         opentab s' i = \<lparr>o_fileid = h, o_file = Some f, o_mode = omode\<rparr>) \<and>
      fdpage s' i = \<lparr>fd_dev_id = 0x66, fd_offset = 0, fd_omode = omode AND 3, fd_file_id = h\<rparr>)"

lemma file_open_found: "file_open path m = Some ((r, f), m') \<Longrightarrow> \<not> r < 0 \<Longrightarrow> \<exists>g. f = Some g"
  using file_open_file by auto

lemma open_finish_frame:
  assumes "open_finish p omode i s = Some ((r, pg), s')"
  shows "fdref s' = fdref s \<and> o_fileid (opentab s' i) = o_fileid (opentab s i) \<and>
    (\<forall>j. j \<noteq> i \<longrightarrow> opentab s' j = opentab s j \<and> fdpage s' j = fdpage s j) \<and>
    (\<forall>j. pg = Some j \<longrightarrow> j = i \<and> r = 0 \<and>
      (\<exists>r' f. file_open p (fsm s) = Some ((r', Some f), fsm s') \<and> 0 \<le> r' \<and> opentab s' i = (opentab s i)\<lparr>o_file := Some f, o_mode := omode\<rparr>) \<and>
      fdpage s' i = (fdpage s i)\<lparr>fd_file_id := o_fileid (opentab s i), fd_omode := omode AND 3, fd_dev_id := 0x66\<rparr>)"
proof -
  obtain r1 f m where o: "file_open p (fsm s) = Some ((r1, f), m)"
    using assms by (auto simp: open_finish_def with_fs_def Option.bind_eq_Some_conv)
  show ?thesis
  proof (cases "r1 < 0")
    case True
    then show ?thesis using assms o by (auto simp: open_finish_def with_fs_def)
  next
    case False
    then obtain g where "f = Some g" using file_open_found [OF o] by blast
    then show ?thesis using assms o False by (auto simp: open_finish_def with_fs_def upd_fd_def upd_open_def Let_def)
  qed
qed

lemma serve_open_frame:
  assumes "serve_open path omode s = Some ((r, pg), s')"
  shows "s' = s \<and> pg = None \<or> (\<exists>i < MAXOPEN. fdref s i \<le> 1 \<and> fdref s' = (fdref s)(i := 1) \<and>
      o_fileid (opentab s' i) = o_fileid (opentab s i) + of_nat MAXOPEN \<and>
      (\<forall>j. j \<noteq> i \<longrightarrow> opentab s' j = opentab s j \<and> fdpage s' j = fdpage s j) \<and>
      (\<forall>j. pg = Some j \<longrightarrow> j = i \<and> r = 0 \<and> opened_as path omode i s s'))"
proof -
  define p where "p = take 1023 (takeWhile (\<lambda>c. c \<noteq> 0) path)"
  obtain r1 slot s1 where a: "openfile_alloc s = ((r1, slot), s1)" by (metis prod.exhaust_sel)
  show ?thesis
  proof (cases slot)
    case None
    then show ?thesis using openfile_alloc_cases [of s] a assms by (auto simp: serve_open_def Let_def split: if_splits)
  next
    case (Some i)
    have i: "i < MAXOPEN" "fdref s i \<le> 1" and s1: "s1 = upd_fd i (\<lambda>_. zero_fd) (upd_open i (\<lambda>o'. o'\<lparr>o_fileid := o_fileid o' + of_nat MAXOPEN\<rparr>)
        (s\<lparr>fdref := (fdref s)(i := 1)\<rparr>))" using openfile_alloc_cases [of s] a Some by auto
    have f1: "fdref s1 = (fdref s)(i := 1)" "opentab s1 = (opentab s)(i := (opentab s i)\<lparr>o_fileid := o_fileid (opentab s i) + of_nat MAXOPEN\<rparr>)"
      "fdpage s1 = (fdpage s)(i := zero_fd)" by (simp_all add: s1 upd_fd_def upd_open_def)
    consider (early) "pg = None" "fdpage s' = fdpage s1" "opentab s' = opentab s1" "fdref s' = fdref s1"
      | (fin) s3 where "open_finish p omode i s3 = Some ((r, pg), s')" "fdpage s3 = fdpage s1" "opentab s3 = opentab s1" "fdref s3 = fdref s1"
      using assms a Some
      by (fastforce simp: serve_open_def p_def [symmetric] Let_def Option.bind_eq_Some_conv split: if_splits dest: with_fs_tab open_trunc_tab)
    then show ?thesis
    proof cases
      case early
      then show ?thesis using i f1 by auto
    next
      case fin
      note o = open_finish_frame [OF fin(1)]
      have "opened_as path omode i s s'" if "pg = Some j" for j
        using o that fin(2,3) f1 by (cases "opentab s i") (auto simp: opened_as_def p_def zero_fd_def Let_def)
      then show ?thesis using i f1 fin(2-4) o by (intro disjI2 exI [of _ i]) auto
    qed
  qed
qed

lemma serve_serv_ok:
  assumes "serv_ok s" "serve req s = Some ((r, pg, d), s')"
  shows "serv_ok s'"
proof (cases "\<exists>path omode. req = Req_open path omode")
  case True
  then obtain path omode where o: "serve_open path omode s = Some ((r, pg), s')" using assms(2) by (auto simp: serve_def)
  from serve_open_frame [OF o] show ?thesis
    using assms(1) by (auto simp: serv_ok_def fileid_next) (metis fileid_next)
next
  case False
  then show ?thesis using serve_other_frame [OF assms(2)] assms(1) by (auto simp: serv_ok_def)
qed

lemma serve_read_length: "serve req s = Some ((r, pg, Ret_read xs), s') \<Longrightarrow> length xs = nat r"
  by (cases req) (auto simp: serve_def serve_read_def serve_stat_def with_fs_def Option.bind_eq_Some_conv Let_def
      dest!: file_read_length split: if_splits prod.splits option.splits)

text \<open>C26. A request never takes an open file away from a client or disturbs it. Whatever the request and its
  arguments, when it is served the table stays well-formed; every file identifier that was in use still names the
  same slot, and the slot's entry (the file and its mode) is unchanged; so is its page, except that a read or write request
  moves the seek position of the file it names. A page is sent back only as the answer to a successful open. It is
  the page of a slot that no client was using, and the slot has a new identifier, the file that the path leads to
  and the requested mode, with the page saying so and the position 0. The answer to a read says how many bytes are on
  the page.\<close>

theorem serve_keeps_files:
  assumes ok: "serv_ok s" and sv: "serve req s = Some ((r, pg, d), s')"
  shows "serv_ok s' \<and>
     (\<forall>h i. openfile_lookup h s = (0, Some i) \<longrightarrow> openfile_lookup h s' = (0, Some i) \<and> opentab s' i = opentab s i \<and>
        (fdpage s' i = fdpage s i \<or> req_slot req = Some i \<and> (\<exists>off. fdpage s' i = (fdpage s i)\<lparr>fd_offset := off\<rparr>))) \<and>
     (\<forall>i. pg = Some i \<longrightarrow> r = 0 \<and> fdref s i \<le> 1 \<and> i < MAXOPEN \<and>
        (\<exists>path omode. req = Req_open path omode \<and> opened_as path omode i s s')) \<and>
     (\<forall>xs. d = Ret_read xs \<longrightarrow> length xs = nat r)"
proof (cases "\<exists>path omode. req = Req_open path omode")
  case True
  then obtain path omode where req: "req = Req_open path omode" by blast
  then have o: "serve_open path omode s = Some ((r, pg), s')" using sv by (auto simp: serve_def)
  note fr = serve_open_frame [OF o]
  have keep: "openfile_lookup h s' = (0, Some i) \<and> opentab s' i = opentab s i \<and> fdpage s' i = fdpage s i"
    if "openfile_lookup h s = (0, Some i)" for h i
  proof -
    have h: "\<not> fdref s i \<le> 1" "i = unat h mod MAXOPEN" using that by (auto simp: openfile_lookup_def Let_def split: if_splits)
    have "opentab s' i = opentab s i \<and> fdpage s' i = fdpage s i \<and> fdref s' i = fdref s i"
      using fr h(1) by (metis fun_upd_other)
    then show ?thesis using that h by (simp add: openfile_lookup_def)
  qed
  have new: "\<forall>i. pg = Some i \<longrightarrow> r = 0 \<and> fdref s i \<le> 1 \<and> i < MAXOPEN \<and> opened_as path omode i s s'" using fr by auto
  show ?thesis using serve_serv_ok [OF ok sv] keep new req serve_read_length [of req s r pg _ s'] sv by blast
next
  case False
  note fr = serve_other_frame [OF sv]
  have "openfile_lookup h s' = openfile_lookup h s" for h using fr False by (simp add: openfile_lookup_def)
  then show ?thesis using serve_serv_ok [OF ok sv] fr False serve_read_length [of req s r pg _ s'] sv by auto
qed

text \<open>A server with the empty file of the example disk open in slot 3, at position 5000.\<close>

definition demo_open :: fserv where
  "demo_open = upd_fd 3 (\<lambda>fd. fd\<lparr>fd_offset := 5000\<rparr>)
     (upd_open 3 (\<lambda>o'. o'\<lparr>o_file := Some (3, 0), o_mode := 1\<rparr>) (demo_serv\<lparr>fdref := (fdref demo_serv)(3 := 2)\<rparr>))"

lemma demo_open_facts:
  "serv_ok demo_open" "openfile_lookup 3 demo_open = (0, Some 3)" "o_file (opentab demo_open 3) = Some (3, 0)"
  "fd_offset (fdpage demo_open 3) = 5000" "fsm demo_open = demo_disk"
proof -
  have ok: "serv_ok demo_serv" unfolding demo_serv_def by (rule serve_init_ok)
  then show "serv_ok demo_open" by (simp add: serv_ok_def demo_open_def upd_fd_def upd_open_def)
  have "o_fileid (opentab (fold (\<lambda>i. upd_open i (\<lambda>o'. o'\<lparr>o_fileid := of_nat i\<rparr>)) [0..<n] s) 3) = 3" if "3 < n" for n and s
    using that by (induction n) (auto simp: upd_open_def less_Suc_eq)
  then have "o_fileid (opentab demo_serv 3) = 3" by (simp add: demo_serv_def serve_init_def)
  then show "openfile_lookup 3 demo_open = (0, Some 3)"
    by (simp add: openfile_lookup_def demo_open_def upd_fd_def upd_open_def)
  show "o_file (opentab demo_open 3) = Some (3, 0)" "fd_offset (fdpage demo_open 3) = 5000" "fsm demo_open = demo_disk"
    by (simp_all add: demo_open_def upd_fd_def upd_open_def demo_serv_def)
qed

section \<open>Writing and reading through the server\<close>

lemma unat_off: "off + n \<le> 1034 * 4096 \<Longrightarrow> unat (fo :: u32) = off \<Longrightarrow> 0 \<le> sint fo \<and> unat (fo + of_nat n) = off + n"
proof -
  assume h: "off + n \<le> 1034 * 4096" "unat fo = off"
  have "sint (word_of_nat off :: u32) = int off" using h by (intro sint_word_nat) simp
  moreover have "word_of_nat off = fo" using h(2) by auto
  moreover have "unat (fo + of_nat n) = off + n" using h by (simp add: unat_word_ariths unat_of_nat take_bit_nat_eq_self)
  ultimately show ?thesis by simp
qed

lemma serve_write_read_law:
  assumes look: "openfile_lookup h s = (0, Some i)" and ofile: "o_file (opentab s i) = Some f"
    and off: "unat (fd_offset (fdpage s i)) = off" and len: "length xs \<le> 4084" and le: "off + length xs \<le> 1034 * 4096"
    and ok: "file_ok f (fsm s)" "0 \<le> f_size f (fsm s)" "(off + length xs) div 4096 \<le> s_nblocks (fsm s)"
    and free: "2 * (length xs div 4096 + 2) \<le> nfree (fsm s)"
  shows "\<exists>s1 s2. serve (Req_write h xs) s = Some ((int (length xs), None, Ret_none), s1) \<and>
     unat (fd_offset (fdpage s1 i)) = off + length xs \<and>
     serve (Req_read h (length xs)) (upd_fd i (\<lambda>fd. fd\<lparr>fd_offset := of_nat off\<rparr>) s1) =
       Some ((int (length xs), None, Ret_read xs), s2) \<and>
     unat (fd_offset (fdpage s2 i)) = off + length xs \<and> file_ok f (fsm s2) \<and> openfile_lookup h s2 = (0, Some i)"
proof -
  obtain m where m: "file_write f xs off (fsm s) = Some (int (length xs), m)" "file_ok f m"
    "file_read f (length xs) off m = Some ((int (length xs), xs), m)"
    using write_read_law [OF ok(1,2) le ok(3) free] by blast
  note u = unat_off [OF le off]
  define s1 where "s1 = upd_fd i (\<lambda>fd. fd\<lparr>fd_offset := fd_offset (fdpage s i) + of_nat (length xs)\<rparr>) (s\<lparr>fsm := m\<rparr>)"
  have w: "serve (Req_write h xs) s = Some ((int (length xs), None, Ret_none), s1)"
    using look ofile off len u m(1) by (simp add: serve_def serve_write_def with_fs_def s1_def)
  have o1: "unat (fd_offset (fdpage s1 i)) = off + length xs" using u by (simp add: s1_def upd_fd_def)
  define t where "t = upd_fd i (\<lambda>fd. fd\<lparr>fd_offset := of_nat off\<rparr>) s1"
  have "same_ids s t" by (simp add: t_def s1_def)
  then have lt: "openfile_lookup h t = (0, Some i)" using look same_ids_lookup by metis
  have t: "o_file (opentab t i) = Some f" "fsm t = m" "fd_offset (fdpage t i) = of_nat off"
    using ofile by (simp_all add: t_def s1_def upd_fd_def)
  have ot: "unat (fd_offset (fdpage t i)) = off" using t(3) le by (simp add: unat_of_nat take_bit_nat_eq_self)
  note v = unat_off [OF le ot]
  define s2 where "s2 = upd_fd i (\<lambda>fd. fd\<lparr>fd_offset := fd_offset (fdpage t i) + of_nat (length xs)\<rparr>) t"
  have "serve (Req_read h (length xs)) t = Some ((int (length xs), None, Ret_read xs), upd_fd i (\<lambda>fd. fd\<lparr>fd_offset := fd_offset (fdpage t i) + of_nat (length xs)\<rparr>) (t\<lparr>fsm := m\<rparr>))"
    using lt t(1,2) ot len v m(3) by (simp add: serve_def serve_read_def with_fs_def)
  moreover have "t\<lparr>fsm := m\<rparr> = t" using t(2) by (metis fserv.surjective fserv.update_convs(5))
  ultimately have r: "serve (Req_read h (length xs)) t = Some ((int (length xs), None, Ret_read xs), s2)" by (simp add: s2_def)
  have "unat (fd_offset (fdpage s2 i)) = off + length xs" using v by (simp add: s2_def upd_fd_def)
  moreover have "openfile_lookup h s2 = (0, Some i)" using lt same_ids_lookup [of t s2] by (simp add: s2_def)
  moreover have "file_ok f (fsm s2)" using m(2) t(2) by (simp add: s2_def upd_fd_def)
  ultimately show ?thesis using w o1 r [unfolded t_def] by blast
qed

text \<open>C7. Writing through the server and reading back. A client that has a file open writes bytes
  with one request; the answer is their number and the shared seek position moves behind them. When
  it moves the position back, one read request returns exactly these bytes and moves the position
  again; the file stays in order and its identifier stays valid.\<close>

theorem serve_write_read:
  assumes look: "openfile_lookup h s = (0, Some i)" and ofile: "o_file (opentab s i) = Some f"
    and off: "unat (fd_offset (fdpage s i)) = off" and len: "length xs \<le> 4084" and le: "off + length xs \<le> 1034 * 4096"
    and ok: "file_ok f (fsm s)" "0 \<le> f_size f (fsm s)" "(off + length xs) div 4096 \<le> s_nblocks (fsm s)"
    and free: "2 * (length xs div 4096 + 2) \<le> nfree (fsm s)"
  shows "\<exists>s1 s2. serve (Req_write h xs) s = Some ((int (length xs), None, Ret_none), s1) \<and>
     unat (fd_offset (fdpage s1 i)) = off + length xs \<and>
     serve (Req_read h (length xs)) (upd_fd i (\<lambda>fd. fd\<lparr>fd_offset := of_nat off\<rparr>) s1) =
       Some ((int (length xs), None, Ret_read xs), s2) \<and>
     unat (fd_offset (fdpage s2 i)) = off + length xs \<and> file_ok f (fsm s2) \<and> openfile_lookup h s2 = (0, Some i)"
  by (rule serve_write_read_law [OF look ofile off len le ok free])

theorem serve_write_read_witness:
  "\<exists>s1 s2. serve (Req_write 3 [7, 8, 9]) demo_open = Some ((3, None, Ret_none), s1) \<and>
     serve (Req_read 3 3) (upd_fd 3 (\<lambda>fd. fd\<lparr>fd_offset := 5000\<rparr>) s1) = Some ((3, None, Ret_read [7, 8, 9]), s2)"
proof -
  have "unat (fd_offset (fdpage demo_open 3)) = 5000" "file_ok (3, 0) (fsm demo_open)" "0 \<le> f_size (3, 0) (fsm demo_open)"
    "(5000 + length [7, 8, 9 :: u8]) div 4096 \<le> s_nblocks (fsm demo_open)"
    "2 * (length [7, 8, 9 :: u8] div 4096 + 2) \<le> nfree (fsm demo_open)"
    by (simp_all add: demo_open_facts demo_disk_ok demo_disk_facts)
  from serve_write_read [OF demo_open_facts(2,3) this(1) _ _ this(2-5)] show ?thesis by (auto simp: numeral_3_eq_3)
qed

text \<open>A write request to the file that is open in slot 3 moves its position and keeps its entry.\<close>

theorem serve_keeps_files_witness:
  "\<exists>s1. serve (Req_write 3 [7, 8, 9]) demo_open = Some ((3, None, Ret_none), s1) \<and> openfile_lookup 3 s1 = (0, Some 3) \<and>
     o_file (opentab s1 3) = Some (3, 0)"
proof -
  have "unat (fd_offset (fdpage demo_open 3)) = 5000" "file_ok (3, 0) (fsm demo_open)" "0 \<le> f_size (3, 0) (fsm demo_open)"
    "(5000 + length [7, 8, 9 :: u8]) div 4096 \<le> s_nblocks (fsm demo_open)"
    "2 * (length [7, 8, 9 :: u8] div 4096 + 2) \<le> nfree (fsm demo_open)"
    by (simp_all add: demo_open_facts demo_disk_ok demo_disk_facts)
  from serve_write_read_law [OF demo_open_facts(2,3) this(1) _ _ this(2-5)] obtain s1
    where w: "serve (Req_write 3 [7, 8, 9]) demo_open = Some ((3, None, Ret_none), s1)" by (auto simp: numeral_3_eq_3)
  from serve_keeps_files [OF demo_open_facts(1) w] demo_open_facts(2,3) w show ?thesis by metis
qed

end
