(* ===== verification/Pipe.thy ===== *)
theory Pipe
  imports Fifo
begin

text \<open>
  Pipes, \<^verbatim>\<open>lib/riscv/pipe.c\<close>. The structure \<^verbatim>\<open>struct Pipe\<close> is on a page that the readers and the
  writers share, so a pipe is used by two loops that interleave: one turn of the loop of
  \<open>devpipe_read\<close> and of \<open>devpipe_write\<close> is one step. The positions have type \<^verbatim>\<open>off_t\<close>, a
  signed 32-bit integer; the step that would overflow a position or access the buffer at a negative
  index is \<open>None\<close>. \<open>rd_refs\<close> and \<open>wr_refs\<close> are the reference counts of the pages of the two file
  descriptors; the page of the pipe is mapped once for each of them. The loop of
  \<^verbatim>\<open>_pipeisclosed\<close>, which repeats the comparison of the counts until the environment was not
  scheduled in between, is one comparison.
\<close>

section \<open>The structure and the two loops\<close>

abbreviation (input) PIPEBUFSIZ :: nat where "PIPEBUFSIZ \<equiv> 32"

record pipe =
  p_rpos :: u32
  p_wpos :: u32
  p_buf :: "nat \<Rightarrow> u8"

definition pipe_index :: "u32 \<Rightarrow> nat option" where
  "pipe_index pos = (if sint pos < 0 then None else Some (unat pos mod PIPEBUFSIZ))"

definition pipe_incr :: "u32 \<Rightarrow> u32 option" where
  "pipe_incr pos = (if pos = 0x7FFFFFFF then None else Some (pos + 1))"

definition pipe_empty :: "pipe \<Rightarrow> bool" where
  "pipe_empty p \<longleftrightarrow> p_rpos p = p_wpos p"

definition pipe_full :: "pipe \<Rightarrow> bool" where
  "pipe_full p \<longleftrightarrow> (scast (p_wpos p) :: u64) \<ge> scast (p_rpos p) + 32"

definition pipe_get :: "pipe \<Rightarrow> (u8 \<times> pipe) option" where
  "pipe_get p = do {
     i \<leftarrow> pipe_index (p_rpos p);
     pos \<leftarrow> pipe_incr (p_rpos p);
     Some (p_buf p i, p\<lparr>p_rpos := pos\<rparr>) }"

definition pipe_put :: "u8 \<Rightarrow> pipe \<Rightarrow> pipe option" where
  "pipe_put x p = do {
     i \<leftarrow> pipe_index (p_wpos p);
     pos \<leftarrow> pipe_incr (p_wpos p);
     Some (p\<lparr>p_buf := (p_buf p)(i := x), p_wpos := pos\<rparr>) }"

definition pipeisclosed :: "nat \<Rightarrow> nat \<Rightarrow> bool" where
  "pipeisclosed fd_ref p_ref \<longleftrightarrow> fd_ref = p_ref"

text \<open>The pipe with one call of \<open>devpipe_read\<close> for \<open>rd_n\<close> bytes and one of \<open>devpipe_write\<close>: the
  bytes read so far, the bytes written and left to write, and the results once returned.\<close>

record pipe_sys =
  ppipe :: pipe
  rd_refs :: nat
  wr_refs :: nat
  rd_n :: nat
  rd_buf :: "u8 list"
  rd_ret :: "int option"
  wr_done :: "u8 list"
  wr_buf :: "u8 list"
  wr_ret :: "int option"

definition devpipe_read :: "pipe_sys \<Rightarrow> pipe_sys option" where
  "devpipe_read s =
     (if length (rd_buf s) < rd_n s then
        if pipe_empty (ppipe s) then
          if length (rd_buf s) > 0 then Some (s\<lparr>rd_ret := Some (int (length (rd_buf s)))\<rparr>)
          else if pipeisclosed (rd_refs s) (rd_refs s + wr_refs s) then Some (s\<lparr>rd_ret := Some 0\<rparr>)
          else Some s
        else do {
          (x, p) \<leftarrow> pipe_get (ppipe s);
          Some (s\<lparr>ppipe := p, rd_buf := rd_buf s @ [x]\<rparr>) }
      else Some (s\<lparr>rd_ret := Some (int (length (rd_buf s)))\<rparr>))"

definition devpipe_write :: "pipe_sys \<Rightarrow> pipe_sys option" where
  "devpipe_write s =
     (case wr_buf s of
        [] \<Rightarrow> Some (s\<lparr>wr_ret := Some (int (length (wr_done s)))\<rparr>)
      | x # xs \<Rightarrow>
          if pipe_full (ppipe s) then
            if pipeisclosed (wr_refs s) (rd_refs s + wr_refs s) then Some (s\<lparr>wr_ret := Some 0\<rparr>)
            else Some s
          else do {
            p \<leftarrow> pipe_put x (ppipe s);
            Some (s\<lparr>ppipe := p, wr_done := wr_done s @ [x], wr_buf := xs\<rparr>) })"

definition devpipe_stat_size :: "pipe \<Rightarrow> u32" where
  "devpipe_stat_size p = p_wpos p - p_rpos p"

text \<open>Steps of the two calls in any order, until they return.\<close>

inductive pipe_step :: "pipe_sys \<Rightarrow> pipe_sys \<Rightarrow> bool" where
  reader: "rd_ret s = None \<Longrightarrow> devpipe_read s = Some s' \<Longrightarrow> pipe_step s s'"
| writer: "wr_ret s = None \<Longrightarrow> devpipe_write s = Some s' \<Longrightarrow> pipe_step s s'"

inductive pipe_reach :: "pipe_sys \<Rightarrow> pipe_sys \<Rightarrow> bool" where
  start: "pipe_reach s s"
| step: "pipe_reach s t \<Longrightarrow> pipe_step t u \<Longrightarrow> pipe_reach s u"

section \<open>The buffer is a queue\<close>

definition pipe_inv :: "nat \<Rightarrow> pipe \<Rightarrow> bool" where
  "pipe_inv n p \<longleftrightarrow> unat (p_rpos p) \<le> unat (p_wpos p) \<and> unat (p_wpos p) \<le> unat (p_rpos p) + PIPEBUFSIZ \<and>
     unat (p_wpos p) + n < 2 ^ 31"

definition pipe_contents :: "pipe \<Rightarrow> u8 list" where
  "pipe_contents p = map (\<lambda>i. p_buf p (i mod PIPEBUFSIZ)) [unat (p_rpos p)..<unat (p_wpos p)]"

lemma pipe_pos:
  assumes "unat pos + 1 < 2 ^ 31"
  shows "pipe_index pos = Some (unat pos mod PIPEBUFSIZ)" "\<exists>pos'. pipe_incr pos = Some pos' \<and> unat pos' = unat pos + 1"
proof -
  show "pipe_index pos = Some (unat pos mod PIPEBUFSIZ)" using assms off_t_pos [of pos] by (simp add: pipe_index_def)
  have "pos \<noteq> 0x7FFFFFFF" using assms by auto
  moreover have "unat (pos + 1) = unat pos + 1" using assms by (simp add: unat_word_ariths)
  ultimately show "\<exists>pos'. pipe_incr pos = Some pos' \<and> unat pos' = unat pos + 1" by (simp add: pipe_incr_def)
qed

lemma mod_distinct: "i < j \<Longrightarrow> j < i + 32 \<Longrightarrow> i mod 32 \<noteq> j mod 32" for i j :: nat
  using mod_eq_dvd_iff_nat [of i j 32] nat_dvd_not_less [of "j - i" 32] by auto

interpretation pq: fifo pipe_inv pipe_contents pipe_put pipe_get PIPEBUFSIZ
proof unfold_locales
  fix n p x
  assume inv: "pipe_inv (Suc n) p" and len: "length (pipe_contents p) < PIPEBUFSIZ"
  let ?r = "unat (p_rpos p)" and ?w = "unat (p_wpos p)"
  have l: "?r \<le> ?w" "?w < ?r + 32" "?w + Suc n < 2 ^ 31" using inv len by (auto simp: pipe_inv_def pipe_contents_def)
  then obtain pos where pos: "pipe_incr (p_wpos p) = Some pos" "unat pos = ?w + 1" "pipe_index (p_wpos p) = Some (?w mod 32)"
    using pipe_pos [of "p_wpos p"] by auto
  define p' where "p' = p\<lparr>p_buf := (p_buf p)(?w mod 32 := x), p_wpos := pos\<rparr>"
  have "i mod 32 \<noteq> ?w mod 32" if "i \<in> set [?r..<?w]" for i using that l by (intro mod_distinct) auto
  then have "pipe_contents p' = pipe_contents p @ [x]" using l pos by (simp add: p'_def pipe_contents_def)
  moreover have "pipe_inv n p'" using l pos by (simp add: p'_def pipe_inv_def)
  moreover have "pipe_put x p = Some p'" using pos by (simp add: pipe_put_def p'_def)
  ultimately show "\<exists>q'. pipe_put x p = Some q' \<and> pipe_inv n q' \<and> pipe_contents q' = pipe_contents p @ [x]" by blast
next
  fix n p x xs
  assume inv: "pipe_inv n p" and c: "pipe_contents p = x # xs"
  let ?r = "unat (p_rpos p)" and ?w = "unat (p_wpos p)"
  have l: "?r < ?w" "?w \<le> ?r + 32" "?w + n < 2 ^ 31" using inv c by (auto simp: pipe_inv_def pipe_contents_def upt_eq_Nil_conv Cons_eq_map_conv upt_eq_Cons_conv)
  then obtain pos where pos: "pipe_incr (p_rpos p) = Some pos" "unat pos = ?r + 1" "pipe_index (p_rpos p) = Some (?r mod 32)"
    using pipe_pos [of "p_rpos p"] by auto
  have u: "[?r..<?w] = ?r # [?r + 1..<?w]" using l by (simp add: upt_conv_Cons)
  have "x = p_buf p (?r mod 32)" "pipe_contents (p\<lparr>p_rpos := pos\<rparr>) = xs" using c u pos by (simp_all add: pipe_contents_def)
  moreover have "pipe_inv n (p\<lparr>p_rpos := pos\<rparr>)" using l pos by (simp add: pipe_inv_def)
  ultimately show "\<exists>q'. pipe_get p = Some (x, q') \<and> pipe_inv n q' \<and> pipe_contents q' = xs" using pos by (simp add: pipe_get_def)
qed

section \<open>Readers and writers\<close>

lemma pipe_empty_contents: "pipe_inv n p \<Longrightarrow> pipe_empty p \<longleftrightarrow> pipe_contents p = []"
  by (auto simp: pipe_inv_def pipe_empty_def pipe_contents_def word_unat_eq_iff)

lemma pipe_full_contents: "pipe_inv n p \<Longrightarrow> pipe_full p \<longleftrightarrow> length (pipe_contents p) = PIPEBUFSIZ"
proof -
  assume inv: "pipe_inv n p"
  then have l: "unat (p_rpos p) < 2 ^ 31" "unat (p_wpos p) < 2 ^ 31" by (auto simp: pipe_inv_def)
  have "unat ((scast (p_rpos p) :: u64) + 32) = unat (p_rpos p) + 32"
    using scast_pos [OF l(1)] l by (simp add: unat_word_ariths)
  then show ?thesis using inv scast_pos [OF l(2)] by (auto simp: pipe_full_def word_le_nat_alt pipe_contents_def pipe_inv_def)
qed

lemma pipe_room: "pipe_inv n p \<Longrightarrow> \<not> pipe_full p \<Longrightarrow> length (pipe_contents p) < PIPEBUFSIZ"
  using pipe_full_contents [of n p] by (auto simp: pipe_inv_def pipe_contents_def)

definition pipe_sys_inv :: "u8 list \<Rightarrow> u8 list \<Rightarrow> pipe_sys \<Rightarrow> bool" where
  "pipe_sys_inv c xs s \<longleftrightarrow> pipe_inv (length (wr_buf s)) (ppipe s) \<and>
     rd_buf s @ pipe_contents (ppipe s) = c @ wr_done s \<and> wr_done s @ wr_buf s = xs \<and> length (rd_buf s) \<le> rd_n s \<and>
     (\<forall>r. rd_ret s = Some r \<longrightarrow> r = int (length (rd_buf s)) \<and> (rd_buf s = [] \<and> rd_n s > 0 \<longrightarrow> wr_refs s = 0)) \<and>
     (\<forall>r. wr_ret s = Some r \<longrightarrow> r = int (length xs) \<and> wr_buf s = [] \<or> r = 0 \<and> rd_refs s = 0)"

lemma pipe_sys_step:
  assumes "pipe_step s s'" "pipe_sys_inv c xs s"
  shows "pipe_sys_inv c xs s'"
  using assms
proof (cases rule: pipe_step.cases)
  case reader
  have inv: "pipe_inv (length (wr_buf s)) (ppipe s)" using assms(2) by (simp add: pipe_sys_inv_def)
  show ?thesis
  proof (cases "length (rd_buf s) < rd_n s \<and> \<not> pipe_empty (ppipe s)")
    case True
    then obtain x ys where ys: "pipe_contents (ppipe s) = x # ys"
      using pipe_empty_contents [OF inv] by (cases "pipe_contents (ppipe s)") auto
    from pq.get_law [OF inv ys] obtain q where q: "pipe_get (ppipe s) = Some (x, q)" "pipe_inv (length (wr_buf s)) q"
      "pipe_contents q = ys" by blast
    then show ?thesis using reader True assms(2) ys by (auto simp: devpipe_read_def pipe_sys_inv_def)
  next
    case False
    then show ?thesis using reader assms(2)
      by (auto simp: devpipe_read_def pipe_sys_inv_def pipeisclosed_def split: if_splits)
  qed
next
  case writer
  have inv: "pipe_inv (length (wr_buf s)) (ppipe s)" using assms(2) by (simp add: pipe_sys_inv_def)
  show ?thesis
  proof (cases "wr_buf s")
    case Nil
    then show ?thesis using writer assms(2) by (auto simp: devpipe_write_def pipe_sys_inv_def)
  next
    case (Cons x zs)
    show ?thesis
    proof (cases "pipe_full (ppipe s)")
      case True
      then show ?thesis using Cons writer assms(2)
        by (auto simp: devpipe_write_def pipe_sys_inv_def pipeisclosed_def split: if_splits)
    next
      case False
      have "length (pipe_contents (ppipe s)) < PIPEBUFSIZ"
        by (rule pipe_room [OF inv False])
      moreover have "pipe_inv (Suc (length zs)) (ppipe s)" using inv Cons by simp
      ultimately obtain q where "pipe_put x (ppipe s) = Some q" "pipe_inv (length zs) q"
        "pipe_contents q = pipe_contents (ppipe s) @ [x]" using pq.put_law by blast
      then show ?thesis using False Cons writer assms(2) by (auto simp: devpipe_write_def pipe_sys_inv_def)
    qed
  qed
qed

lemma pipe_sys_reach: "pipe_reach s s' \<Longrightarrow> pipe_sys_inv c xs s \<Longrightarrow> pipe_sys_inv c xs s'"
  by (induction rule: pipe_reach.induct) (auto intro: pipe_sys_step)

lemma devpipe_total:
  assumes "pipe_sys_inv c xs s"
  shows "devpipe_read s \<noteq> None" "devpipe_write s \<noteq> None"
proof -
  have inv: "pipe_inv (length (wr_buf s)) (ppipe s)" using assms by (simp add: pipe_sys_inv_def)
  show "devpipe_read s \<noteq> None"
    using pq.get_law [OF inv] pipe_empty_contents [OF inv]
    by (cases "pipe_contents (ppipe s)") (fastforce simp: devpipe_read_def)+
  have "\<not> pipe_full (ppipe s) \<Longrightarrow> wr_buf s = x # zs \<Longrightarrow> \<exists>q. pipe_put x (ppipe s) = Some q" for x zs
    using pq.put_law [of "length zs" "ppipe s" x] inv pipe_room [OF inv] by auto
  then show "devpipe_write s \<noteq> None" by (fastforce simp: devpipe_write_def split: list.splits)
qed

lemma pipe_progress:
  assumes inv: "pipe_sys_inv c xs s" and r: "rd_ret s = None" and w: "wr_ret s = None"
  shows "\<exists>s'. pipe_step s s' \<and> s' \<noteq> s"
proof -
  have pinv: "pipe_inv (length (wr_buf s)) (ppipe s)" using inv by (simp add: pipe_sys_inv_def)
  show ?thesis
  proof (cases "wr_buf s = [] \<or> \<not> pipe_full (ppipe s)")
    case True
    obtain s' where s': "devpipe_write s = Some s'" using devpipe_total(2) [OF inv] by auto
    then have "wr_ret s' \<noteq> wr_ret s \<or> length (wr_buf s') \<noteq> length (wr_buf s)"
      using True w by (auto simp: devpipe_write_def Option.bind_eq_Some_conv split: list.splits)
    with s' w show ?thesis by (metis pipe_step.writer)
  next
    case False
    obtain s' where s': "devpipe_read s = Some s'" using devpipe_total(1) [OF inv] by auto
    have "\<not> pipe_empty (ppipe s)" using False pipe_full_contents [OF pinv] pipe_empty_contents [OF pinv] by auto
    then have "rd_ret s' \<noteq> rd_ret s \<or> length (rd_buf s') \<noteq> length (rd_buf s)"
      using s' r by (auto simp: devpipe_read_def Option.bind_eq_Some_conv split: if_splits)
    with s' r show ?thesis by (metis pipe_step.reader)
  qed
qed

text \<open>C10. A pipe is a queue between its two ends. Let a reader and a writer call \<open>devpipe_read\<close> and
  \<open>devpipe_write\<close> on a pipe, and let their turns interleave in any order. At every moment the bytes
  read so far followed by those in the buffer are the bytes that were in the buffer followed by
  those written so far; the buffer never holds more than 32; no turn accesses the buffer outside
  its bounds; and while neither call has returned, one of them can go on. A read that returned has
  delivered as many bytes as it says, and no bytes only if there is no writer; a write that
  returned has written everything, or returned 0 because there is no reader.\<close>

theorem pipe_fifo:
  assumes reach: "pipe_reach s0 s" and inv: "pipe_inv (length (wr_buf s0)) (ppipe s0)"
    and new: "rd_buf s0 = []" "wr_done s0 = []" "rd_ret s0 = None" "wr_ret s0 = None"
  shows "rd_buf s @ pipe_contents (ppipe s) = pipe_contents (ppipe s0) @ wr_done s \<and>
     wr_done s @ wr_buf s = wr_buf s0 \<and> length (pipe_contents (ppipe s)) \<le> PIPEBUFSIZ \<and>
     devpipe_read s \<noteq> None \<and> devpipe_write s \<noteq> None \<and>
     (rd_ret s = None \<and> wr_ret s = None \<longrightarrow> (\<exists>s'. pipe_step s s' \<and> s' \<noteq> s)) \<and>
     (\<forall>r. rd_ret s = Some r \<longrightarrow> r = int (length (rd_buf s)) \<and> (rd_buf s = [] \<and> rd_n s > 0 \<longrightarrow> wr_refs s = 0)) \<and>
     (\<forall>r. wr_ret s = Some r \<longrightarrow> r = int (length (wr_buf s0)) \<and> wr_buf s = [] \<or> r = 0 \<and> rd_refs s = 0)"
proof -
  have "pipe_sys_inv (pipe_contents (ppipe s0)) (wr_buf s0) s0" using inv new by (simp add: pipe_sys_inv_def)
  note i = pipe_sys_reach [OF reach this]
  have "length (pipe_contents (ppipe s)) \<le> PIPEBUFSIZ" using i by (auto simp: pipe_sys_inv_def pipe_inv_def pipe_contents_def)
  with i devpipe_total [OF i] pipe_progress [OF i] show ?thesis unfolding pipe_sys_inv_def by blast
qed

definition demo_pipe :: pipe_sys where
  "demo_pipe = \<lparr>ppipe = \<lparr>p_rpos = 30, p_wpos = 30, p_buf = (\<lambda>_. 0)\<rparr>, rd_refs = 1, wr_refs = 1, rd_n = 2, rd_buf = [],
     rd_ret = None, wr_done = [], wr_buf = [7, 8, 9], wr_ret = None\<rparr>"

definition demo_pipe2 :: pipe_sys where
  "demo_pipe2 = demo_pipe\<lparr>ppipe := \<lparr>p_rpos = 31, p_wpos = 31, p_buf = (\<lambda>_. 0)(30 := 7)\<rparr>, rd_buf := [7],
     wr_done := [7], wr_buf := [8, 9]\<rparr>"

lemma demo_pipe_reach: "pipe_reach demo_pipe demo_pipe2"
proof -
  let ?t = "demo_pipe\<lparr>ppipe := \<lparr>p_rpos = 30, p_wpos = 31, p_buf = (\<lambda>_. 0)(30 := 7)\<rparr>, wr_done := [7], wr_buf := [8, 9]\<rparr>"
  have "devpipe_write demo_pipe = Some ?t"
    by (simp add: devpipe_write_def demo_pipe_def pipe_full_def pipe_put_def pipe_index_def pipe_incr_def)
  then have 1: "pipe_step demo_pipe ?t" by (intro pipe_step.writer) (simp_all add: demo_pipe_def)
  have "devpipe_read ?t = Some demo_pipe2"
    by (simp add: devpipe_read_def demo_pipe_def demo_pipe2_def pipe_empty_def pipe_get_def pipe_index_def pipe_incr_def)
  then have "pipe_step ?t demo_pipe2" by (intro pipe_step.reader) (simp_all add: demo_pipe_def)
  with 1 show ?thesis by (meson pipe_reach.intros)
qed

theorem pipe_fifo_witness:
  "rd_buf demo_pipe2 @ pipe_contents (ppipe demo_pipe2) = wr_done demo_pipe2 \<and> (\<exists>s'. pipe_step demo_pipe2 s' \<and> s' \<noteq> demo_pipe2)"
proof -
  have "pipe_inv (length (wr_buf demo_pipe)) (ppipe demo_pipe)" "pipe_contents (ppipe demo_pipe) = []"
    by (simp_all add: pipe_inv_def demo_pipe_def pipe_contents_def)
  moreover have "rd_ret demo_pipe2 = None" "wr_ret demo_pipe2 = None" by (simp_all add: demo_pipe2_def demo_pipe_def)
  ultimately show ?thesis using pipe_fifo [OF demo_pipe_reach] by (simp add: demo_pipe_def)
qed

end
