(* ===== verification/Fd.thy ===== *)
theory Fd
  imports Fs_Serv Pipe Console
begin

unbundle bit_operations_syntax

text \<open>
  File descriptors, \<^verbatim>\<open>lib/riscv/fd.c\<close>, with the devices of \<^verbatim>\<open>lib/riscv/file.c\<close>,
  \<^verbatim>\<open>lib/riscv/console.c\<close>, \<^verbatim>\<open>lib/riscv/pipe.c\<close> and \<^verbatim>\<open>lib/riscv/sockets.c\<close>, for one environment. \<open>fdmap k\<close> is the page mapped
  at \<^verbatim>\<open>INDEX2FD(k)\<close> and \<open>datamap k\<close> the one at \<^verbatim>\<open>INDEX2DATA(k)\<close>: a page of the file server's table
  of open files, or a page of the environment. Pages are shared with other environments; \<open>fdref\<close> of
  the server and \<open>oref\<close> are the kernel's reference counts.

  \<open>map_ret\<close> is 0, or the error of the system calls that map a page when the kernel has no page left for
  its tables. A request to the file server is served at once. The network server runs a TCP/IP stack
  that is not modelled; it is the parameter \<open>netsrv\<close>, which answers a request from all requests it got
  so far, \<open>nslog\<close>, the latest first. \<open>None\<close> stands for a panic or a fault and for a call that waits for
  input that does not come. A buffer that a call fills is returned as a list of bytes.

  This theory has the state, the table of descriptors and the four devices.
\<close>

abbreviation (input) MAXFD :: nat where "MAXFD \<equiv> 32"

section \<open>State\<close>

datatype upage = Srv nat | Own nat

text \<open>The requests of \<^verbatim>\<open>lib/riscv/nsipc.c\<close>; the answer is a result and what is on the request page.\<close>

datatype Nsipc =
    Ns_accept u32 u32
  | Ns_bind u32 "u8 list"
  | Ns_shutdown u32 u32
  | Ns_close u32
  | Ns_connect u32 "u8 list"
  | Ns_listen u32 u32
  | Ns_recv u32 nat u32
  | Ns_send u32 "u8 list" u32
  | Ns_socket u32 u32 u32

record nsret =
  ns_r :: u32
  ns_buf :: "nat \<Rightarrow> u8"
  ns_addrlen :: u32

record uproc =
  fdmap :: "nat \<Rightarrow> upage option"
  datamap :: "nat \<Rightarrow> nat option"
  ofd :: "nat \<Rightarrow> Fd"
  opipe :: "nat \<Rightarrow> pipe"
  oref :: "nat \<Rightarrow> nat"
  ofree :: "nat list"
  map_ret :: int
  srv :: fserv
  ucons :: console
  netsrv :: "Nsipc list \<Rightarrow> nsret"
  nslog :: "Nsipc list"

record Stat =
  st_name :: "u8 list"
  st_size :: int
  st_isdir :: bool
  st_dev :: int

text \<open>A device; a missing operation is a null pointer. The operations get the descriptor's index.\<close>

record Dev =
  dev_id :: int
  dev_read :: "(nat \<Rightarrow> nat \<Rightarrow> uproc \<Rightarrow> ((int \<times> u8 list) \<times> uproc) option) option"
  dev_write :: "(nat \<Rightarrow> u8 list \<Rightarrow> uproc \<Rightarrow> (int \<times> uproc) option) option"
  dev_close :: "(nat \<Rightarrow> uproc \<Rightarrow> (int \<times> uproc) option) option"
  dev_stat :: "(nat \<Rightarrow> Stat \<Rightarrow> uproc \<Rightarrow> ((int \<times> Stat) \<times> uproc) option) option"
  dev_trunc :: "(nat \<Rightarrow> u32 \<Rightarrow> uproc \<Rightarrow> (int \<times> uproc) option) option"

section \<open>Pages\<close>

definition zero_pipe :: pipe where
  "zero_pipe = \<lparr>p_rpos = 0, p_wpos = 0, p_buf = (\<lambda>_. 0)\<rparr>"

definition page_refs :: "upage \<Rightarrow> uproc \<Rightarrow> nat" where
  "page_refs p s = (case p of Srv i \<Rightarrow> fdref (srv s) i | Own n \<Rightarrow> oref s n)"

definition addref :: "upage \<Rightarrow> uproc \<Rightarrow> uproc" where
  "addref p s = (case p of
      Srv i \<Rightarrow> s\<lparr>srv := (srv s)\<lparr>fdref := (fdref (srv s))(i := fdref (srv s) i + 1)\<rparr>\<rparr>
    | Own n \<Rightarrow> s\<lparr>oref := (oref s)(n := oref s n + 1)\<rparr>)"

definition unref :: "upage \<Rightarrow> uproc \<Rightarrow> uproc" where
  "unref p s = (case p of
      Srv i \<Rightarrow> s\<lparr>srv := (srv s)\<lparr>fdref := (fdref (srv s))(i := fdref (srv s) i - 1)\<rparr>\<rparr>
    | Own n \<Rightarrow> s\<lparr>oref := (oref s)(n := oref s n - 1), ofree := (if oref s n = 1 then n # ofree s else ofree s)\<rparr>)"

definition unmap_fd :: "nat \<Rightarrow> uproc \<Rightarrow> uproc" where
  "unmap_fd k s = (case fdmap s k of None \<Rightarrow> s | Some p \<Rightarrow> unref p (s\<lparr>fdmap := (fdmap s)(k := None)\<rparr>))"

definition unmap_data :: "nat \<Rightarrow> uproc \<Rightarrow> uproc" where
  "unmap_data k s = (case datamap s k of None \<Rightarrow> s | Some n \<Rightarrow> unref (Own n) (s\<lparr>datamap := (datamap s)(k := None)\<rparr>))"

definition map_fd :: "nat \<Rightarrow> upage \<Rightarrow> uproc \<Rightarrow> uproc" where
  "map_fd k p s = (if fdmap s k = Some p then s
     else let s1 = unmap_fd k s in addref p (s1\<lparr>fdmap := (fdmap s1)(k := Some p)\<rparr>))"

definition map_data :: "nat \<Rightarrow> nat \<Rightarrow> uproc \<Rightarrow> uproc" where
  "map_data k n s = (if datamap s k = Some n then s
     else let s1 = unmap_data k s in addref (Own n) (s1\<lparr>datamap := (datamap s1)(k := Some n)\<rparr>))"

definition new_page :: "uproc \<Rightarrow> (int \<times> nat \<times> uproc) option" where
  "new_page s =
     (if map_ret s < 0 then Some (map_ret s, 0, s)
      else (case ofree s of
              [] \<Rightarrow> None
            | n # ns \<Rightarrow> Some (0, n, s\<lparr>ofree := ns, ofd := (ofd s)(n := zero_fd), opipe := (opipe s)(n := zero_pipe)\<rparr>)))"

definition alloc_fd :: "nat \<Rightarrow> uproc \<Rightarrow> (int \<times> uproc) option" where
  "alloc_fd k s = do { (r, n, s1) \<leftarrow> new_page s; Some (if r < 0 then (r, s1) else (0, map_fd k (Own n) s1)) }"

definition alloc_data :: "nat \<Rightarrow> uproc \<Rightarrow> (int \<times> uproc) option" where
  "alloc_data k s = do { (r, n, s1) \<leftarrow> new_page s; Some (if r < 0 then (r, s1) else (0, map_data k n s1)) }"

definition get_fd :: "nat \<Rightarrow> uproc \<Rightarrow> Fd" where
  "get_fd k s = (case fdmap s k of Some (Srv i) \<Rightarrow> fdpage (srv s) i | Some (Own n) \<Rightarrow> ofd s n | None \<Rightarrow> zero_fd)"

definition set_fd :: "nat \<Rightarrow> (Fd \<Rightarrow> Fd) \<Rightarrow> uproc \<Rightarrow> uproc" where
  "set_fd k f s = (case fdmap s k of
      Some (Srv i) \<Rightarrow> s\<lparr>srv := upd_fd i f (srv s)\<rparr>
    | Some (Own n) \<Rightarrow> s\<lparr>ofd := (ofd s)(n := f (ofd s n))\<rparr>
    | None \<Rightarrow> s)"

section \<open>Descriptors\<close>

definition fd_alloc :: "uproc \<Rightarrow> int \<times> nat option" where
  "fd_alloc s = (case List.find (\<lambda>i. fdmap s i = None) [0..<MAXFD] of
      Some i \<Rightarrow> (0, Some i)
    | None \<Rightarrow> (- E_MAX_OPEN, None))"

definition fd_lookup :: "int \<Rightarrow> uproc \<Rightarrow> int \<times> nat option" where
  "fd_lookup fdnum s =
     (if fdnum < 0 \<or> fdnum \<ge> int MAXFD then (- E_INVAL, None)
      else if fdmap s (nat fdnum) = None then (- E_INVAL, None)
      else (0, Some (nat fdnum)))"

section \<open>Files\<close>

text \<open>Only a successful open, which always has a destination, is answered with a page.\<close>

definition fsipc :: "Fsipc \<Rightarrow> nat option \<Rightarrow> uproc \<Rightarrow> ((int \<times> Fsret) \<times> uproc) option" where
  "fsipc req dst s = do {
     ((r, pg, d), t) \<leftarrow> serve req (srv s);
     let s1 = s\<lparr>srv := t\<rparr>;
     (case pg of
        None \<Rightarrow> Some ((r, d), s1)
      | Some i \<Rightarrow> do {
          k \<leftarrow> dst;
          assert_that (\<not> map_ret s < 0);
          Some ((r, d), map_fd k (Srv i) s1) }) }"

definition devfile_flush :: "nat \<Rightarrow> uproc \<Rightarrow> (int \<times> uproc) option" where
  "devfile_flush k s = do { ((r, _), s1) \<leftarrow> fsipc (Req_flush (fd_file_id (get_fd k s))) None s; Some (r, s1) }"

definition devfile_read :: "nat \<Rightarrow> nat \<Rightarrow> uproc \<Rightarrow> ((int \<times> u8 list) \<times> uproc) option" where
  "devfile_read k n s = do {
     ((r, d), s1) \<leftarrow> fsipc (Req_read (fd_file_id (get_fd k s)) n) None s;
     if r < 0 then Some ((r, []), s1)
     else do {
       assert_that (r \<le> int n);
       assert_that (r \<le> 4096);
       (case d of Ret_read xs \<Rightarrow> Some ((r, take (nat r) xs), s1) | _ \<Rightarrow> None) } }"

definition devfile_write :: "nat \<Rightarrow> u8 list \<Rightarrow> uproc \<Rightarrow> (int \<times> uproc) option" where
  "devfile_write k xs s = do {
     assert_that (length xs \<le> 4096 - 4 - 8);
     ((r, _), s1) \<leftarrow> fsipc (Req_write (fd_file_id (get_fd k s)) xs) None s;
     Some (r, s1) }"

definition devfile_stat :: "nat \<Rightarrow> Stat \<Rightarrow> uproc \<Rightarrow> ((int \<times> Stat) \<times> uproc) option" where
  "devfile_stat k st s = do {
     ((r, d), s1) \<leftarrow> fsipc (Req_stat (fd_file_id (get_fd k s))) None s;
     if r < 0 then Some ((r, st), s1)
     else (case d of
             Ret_stat name sz dir \<Rightarrow> Some ((0, st\<lparr>st_name := name, st_size := sz, st_isdir := dir\<rparr>), s1)
           | _ \<Rightarrow> None) }"

definition devfile_trunc :: "nat \<Rightarrow> u32 \<Rightarrow> uproc \<Rightarrow> (int \<times> uproc) option" where
  "devfile_trunc k newsize s = do {
     ((r, _), s1) \<leftarrow> fsipc (Req_set_size (fd_file_id (get_fd k s)) newsize) None s;
     Some (r, s1) }"

definition devfile :: Dev where
  "devfile = \<lparr>dev_id = 0x66, dev_read = Some devfile_read, dev_write = Some devfile_write, dev_close = Some devfile_flush,
     dev_stat = Some devfile_stat, dev_trunc = Some devfile_trunc\<rparr>"

definition sync_fs :: "uproc \<Rightarrow> (int \<times> uproc) option" where
  "sync_fs s = do { ((r, _), s1) \<leftarrow> fsipc Req_sync None s; Some (r, s1) }"

section \<open>The console\<close>

definition cputs :: "u8 list \<Rightarrow> uproc \<Rightarrow> uproc" where
  "cputs xs s = s\<lparr>ucons := fold cons_putc (map uint (takeWhile (\<lambda>x. x \<noteq> 0) xs)) (ucons s)\<rparr>"

definition devcons_read :: "nat \<Rightarrow> nat \<Rightarrow> uproc \<Rightarrow> ((int \<times> u8 list) \<times> uproc) option" where
  "devcons_read k n s =
     (if n = 0 then Some ((0, []), s)
      else do {
        (c, con) \<leftarrow> getchar (ucons s);
        let s1 = s\<lparr>ucons := con\<rparr>;
        Some (if c = 4 then ((0, []), s1) else ((1, [c]), s1)) })"

function devcons_write_loop :: "u8 list \<Rightarrow> uproc \<Rightarrow> uproc" where
  "devcons_write_loop xs s = (if xs = [] then s else devcons_write_loop (drop 127 xs) (cputs (take 127 xs) s))"
  by pat_completeness auto
termination by (relation "measure (\<lambda>(xs, _). length xs)") auto

declare devcons_write_loop.simps [simp del]

definition devcons_write :: "nat \<Rightarrow> u8 list \<Rightarrow> uproc \<Rightarrow> (int \<times> uproc) option" where
  "devcons_write k xs s = Some (int (length xs), devcons_write_loop xs s)"

definition devcons_close :: "nat \<Rightarrow> uproc \<Rightarrow> (int \<times> uproc) option" where
  "devcons_close k s = Some (0, s)"

definition devcons_stat :: "nat \<Rightarrow> Stat \<Rightarrow> uproc \<Rightarrow> ((int \<times> Stat) \<times> uproc) option" where
  "devcons_stat k st s = Some ((0, st\<lparr>st_name := [0x3c, 0x63, 0x6f, 0x6e, 0x73, 0x3e]\<rparr>), s)"

definition devcons :: Dev where
  "devcons = \<lparr>dev_id = 0x63, dev_read = Some devcons_read, dev_write = Some devcons_write, dev_close = Some devcons_close,
     dev_stat = Some devcons_stat, dev_trunc = None\<rparr>"

section \<open>Pipes\<close>

text \<open>The two loops when no other environment runs in between; \<open>closed\<close> is the comparison of the two
  reference counts.\<close>

primrec pipe_read_loop :: "nat \<Rightarrow> bool \<Rightarrow> u8 list \<Rightarrow> pipe \<Rightarrow> ((int \<times> u8 list) \<times> pipe) option" where
  "pipe_read_loop 0 closed acc p = Some ((int (length acc), acc), p)"
| "pipe_read_loop (Suc n) closed acc p =
     (if pipe_empty p then
        if acc \<noteq> [] then Some ((int (length acc), acc), p)
        else if closed then Some ((0, []), p)
        else None
      else do { (x, p1) \<leftarrow> pipe_get p; pipe_read_loop n closed (acc @ [x]) p1 })"

primrec pipe_write_loop :: "nat \<Rightarrow> bool \<Rightarrow> u8 list \<Rightarrow> pipe \<Rightarrow> (int \<times> pipe) option" where
  "pipe_write_loop i closed [] p = Some (int i, p)"
| "pipe_write_loop i closed (x # xs) p =
     (if pipe_full p then if closed then Some (0, p) else None
      else do { p1 \<leftarrow> pipe_put x p; pipe_write_loop (Suc i) closed xs p1 })"

definition pageref_fd :: "nat \<Rightarrow> uproc \<Rightarrow> nat" where
  "pageref_fd k s = (case fdmap s k of None \<Rightarrow> 0 | Some p \<Rightarrow> page_refs p s)"

definition pageref_data :: "nat \<Rightarrow> uproc \<Rightarrow> nat" where
  "pageref_data k s = (case datamap s k of None \<Rightarrow> 0 | Some n \<Rightarrow> oref s n)"

definition fd_isclosed :: "nat \<Rightarrow> uproc \<Rightarrow> bool" where
  "fd_isclosed k s = pipeisclosed (pageref_fd k s) (pageref_data k s)"

definition fd_pipe_read :: "nat \<Rightarrow> nat \<Rightarrow> uproc \<Rightarrow> ((int \<times> u8 list) \<times> uproc) option" where
  "fd_pipe_read k n s = do {
     pg \<leftarrow> datamap s k;
     (r, p) \<leftarrow> pipe_read_loop n (fd_isclosed k s) [] (opipe s pg);
     Some (r, s\<lparr>opipe := (opipe s)(pg := p)\<rparr>) }"

definition fd_pipe_write :: "nat \<Rightarrow> u8 list \<Rightarrow> uproc \<Rightarrow> (int \<times> uproc) option" where
  "fd_pipe_write k xs s = do {
     pg \<leftarrow> datamap s k;
     (r, p) \<leftarrow> pipe_write_loop 0 (fd_isclosed k s) xs (opipe s pg);
     Some (r, s\<lparr>opipe := (opipe s)(pg := p)\<rparr>) }"

definition devpipe_stat :: "nat \<Rightarrow> Stat \<Rightarrow> uproc \<Rightarrow> ((int \<times> Stat) \<times> uproc) option" where
  "devpipe_stat k st s = do {
     pg \<leftarrow> datamap s k;
     Some ((0, st\<lparr>st_name := [0x3c, 0x70, 0x69, 0x70, 0x65, 0x3e], st_size := sint (devpipe_stat_size (opipe s pg)),
       st_isdir := False, st_dev := 0x70\<rparr>), s) }"

definition devpipe_close :: "nat \<Rightarrow> uproc \<Rightarrow> (int \<times> uproc) option" where
  "devpipe_close k s = Some (0, unmap_data k (unmap_fd k s))"

definition devpipe :: Dev where
  "devpipe = \<lparr>dev_id = 0x70, dev_read = Some fd_pipe_read, dev_write = Some fd_pipe_write, dev_close = Some devpipe_close,
     dev_stat = Some devpipe_stat, dev_trunc = None\<rparr>"

section \<open>Sockets\<close>

definition nsipc :: "Nsipc \<Rightarrow> uproc \<Rightarrow> nsret \<times> uproc" where
  "nsipc req s = (netsrv s (req # nslog s), s\<lparr>nslog := req # nslog s\<rparr>)"

definition nsipc_ret :: "Nsipc \<Rightarrow> uproc \<Rightarrow> (int \<times> uproc) option" where
  "nsipc_ret req s = (let (a, s1) = nsipc req s in Some (sint (ns_r a), s1))"

definition nsipc_accept :: "u32 \<Rightarrow> u32 \<Rightarrow> uproc \<Rightarrow> ((int \<times> u8 list) \<times> uproc) option" where
  "nsipc_accept i addrlen s =
     (let (a, s1) = nsipc (Ns_accept i addrlen) s in
      if sint (ns_r a) \<ge> 0 then Some ((sint (ns_r a), map (ns_buf a) [0..<unat (ns_addrlen a)]), s1)
      else Some ((sint (ns_r a), []), s1))"

text \<open>An address or a message is copied behind the other fields of the request page.\<close>

definition nsipc_bind :: "u32 \<Rightarrow> u8 list \<Rightarrow> uproc \<Rightarrow> (int \<times> uproc) option" where
  "nsipc_bind i name s = do { assert_that (length name \<le> 4096 - 4); nsipc_ret (Ns_bind i name) s }"

definition nsipc_connect :: "u32 \<Rightarrow> u8 list \<Rightarrow> uproc \<Rightarrow> (int \<times> uproc) option" where
  "nsipc_connect i name s = do { assert_that (length name \<le> 4096 - 4); nsipc_ret (Ns_connect i name) s }"

definition nsipc_shutdown :: "u32 \<Rightarrow> u32 \<Rightarrow> uproc \<Rightarrow> (int \<times> uproc) option" where
  "nsipc_shutdown i how s = nsipc_ret (Ns_shutdown i how) s"

definition nsipc_close :: "u32 \<Rightarrow> uproc \<Rightarrow> (int \<times> uproc) option" where
  "nsipc_close i s = nsipc_ret (Ns_close i) s"

definition nsipc_listen :: "u32 \<Rightarrow> u32 \<Rightarrow> uproc \<Rightarrow> (int \<times> uproc) option" where
  "nsipc_listen i backlog s = nsipc_ret (Ns_listen i backlog) s"

definition nsipc_recv :: "u32 \<Rightarrow> nat \<Rightarrow> u32 \<Rightarrow> uproc \<Rightarrow> ((int \<times> u8 list) \<times> uproc) option" where
  "nsipc_recv i len flags s = do {
     let (a, s1) = nsipc (Ns_recv i len flags) s;
     let r = sint (ns_r a);
     if r \<ge> 0 then do {
       assert_that (r < 1600 \<and> r \<le> int len);
       Some ((r, map (ns_buf a) [0..<nat r]), s1) }
     else Some ((r, []), s1) }"

definition nsipc_send :: "u32 \<Rightarrow> u8 list \<Rightarrow> u32 \<Rightarrow> uproc \<Rightarrow> (int \<times> uproc) option" where
  "nsipc_send i xs flags s = do { assert_that (length xs < 1600); nsipc_ret (Ns_send i xs flags) s }"

definition nsipc_socket :: "u32 \<Rightarrow> u32 \<Rightarrow> u32 \<Rightarrow> uproc \<Rightarrow> (int \<times> uproc) option" where
  "nsipc_socket domain type protocol s = nsipc_ret (Ns_socket domain type protocol) s"

definition devsock_close :: "nat \<Rightarrow> uproc \<Rightarrow> (int \<times> uproc) option" where
  "devsock_close k s = (if pageref_fd k s = 1 then nsipc_close (fd_file_id (get_fd k s)) s else Some (0, s))"

definition devsock_read :: "nat \<Rightarrow> nat \<Rightarrow> uproc \<Rightarrow> ((int \<times> u8 list) \<times> uproc) option" where
  "devsock_read k n s = nsipc_recv (fd_file_id (get_fd k s)) n 0 s"

definition devsock_write :: "nat \<Rightarrow> u8 list \<Rightarrow> uproc \<Rightarrow> (int \<times> uproc) option" where
  "devsock_write k xs s = nsipc_send (fd_file_id (get_fd k s)) xs 0 s"

definition devsock_stat :: "nat \<Rightarrow> Stat \<Rightarrow> uproc \<Rightarrow> ((int \<times> Stat) \<times> uproc) option" where
  "devsock_stat k st s = Some ((0, st\<lparr>st_name := [0x3c, 0x73, 0x6f, 0x63, 0x6b, 0x3e]\<rparr>), s)"

definition devsock :: Dev where
  "devsock = \<lparr>dev_id = 0x73, dev_read = Some devsock_read, dev_write = Some devsock_write, dev_close = Some devsock_close,
     dev_stat = Some devsock_stat, dev_trunc = None\<rparr>"

end
