(* ===== verification/Fd_Ops.thy ===== *)
theory Fd_Ops
  imports Fd
begin

unbundle bit_operations_syntax

text \<open>
  The functions of \<^verbatim>\<open>lib/riscv/fd.c\<close> that work on any descriptor through the table of devices, and the
  functions of the other files that make and use descriptors: \<open>open\<close>, \<open>opencons\<close>, \<open>pipe\<close>, \<open>socket\<close>,
  \<open>accept\<close> and \<open>getchar\<close>. \<^verbatim>\<open>O_ACCMODE\<close> is 3, \<^verbatim>\<open>O_RDONLY\<close> 0, \<^verbatim>\<open>O_WRONLY\<close> 1 and \<^verbatim>\<open>O_RDWR\<close> 2.
\<close>

section \<open>The table of devices\<close>

definition devtab :: "Dev list" where
  "devtab = [devfile, devsock, devpipe, devcons]"

definition dev_lookup :: "int \<Rightarrow> int \<times> Dev option" where
  "dev_lookup i = (case List.find (\<lambda>d. dev_id d = i) devtab of
      Some d \<Rightarrow> (0, Some d)
    | None \<Rightarrow> (- E_INVAL, None))"

definition fd_close :: "nat \<Rightarrow> bool \<Rightarrow> uproc \<Rightarrow> (int \<times> uproc) option" where
  "fd_close k must_exist s =
     (case fd_lookup (int k) s of
        (r, None) \<Rightarrow> Some (if must_exist then r else 0, s)
      | (r, Some _) \<Rightarrow> do {
          (r, s1) \<leftarrow> (case dev_lookup (fd_dev_id (get_fd k s)) of
                        (r, None) \<Rightarrow> Some (r, s)
                      | (r, Some dev) \<Rightarrow> (case dev_close dev of Some f \<Rightarrow> f k s | None \<Rightarrow> Some (0, s)));
          Some (r, unmap_fd k s1) })"

definition close_fd :: "int \<Rightarrow> uproc \<Rightarrow> (int \<times> uproc) option" where
  "close_fd fdnum s = (case fd_lookup fdnum s of
      (r, None) \<Rightarrow> Some (r, s)
    | (r, Some k) \<Rightarrow> fd_close k True s)"

primrec close_list :: "nat list \<Rightarrow> uproc \<Rightarrow> uproc option" where
  "close_list [] s = Some s"
| "close_list (i # is) s = do { (_, s1) \<leftarrow> close_fd (int i) s; close_list is s1 }"

definition close_all :: "uproc \<Rightarrow> uproc option" where
  "close_all s = close_list [0..<MAXFD] s"

text \<open>\<^verbatim>\<open>dup\<close> does not check the range of the new number. With a number outside of the table it succeeds and maps
  the pages at \<^verbatim>\<open>INDEX2FD\<close> and \<^verbatim>\<open>INDEX2DATA\<close> of that number; for 32 to 63 the first is the data page
  of another descriptor. The model, which has a map for each of the two areas, covers the numbers of the table;
  \<open>None\<close> is the result for the others.\<close>

definition INDEX2FD :: "int \<Rightarrow> u64" where
  "INDEX2FD i = word_of_int (0xD0000000 + i * 4096)"

definition INDEX2DATA :: "int \<Rightarrow> u64" where
  "INDEX2DATA i = word_of_int (0xD0000000 + int MAXFD * 4096 + i * 4096)"

lemma INDEX2FD_data: "INDEX2FD (int MAXFD + i) = INDEX2DATA i"
  by (simp add: INDEX2FD_def INDEX2DATA_def algebra_simps)

definition dup_err :: "int \<Rightarrow> nat \<Rightarrow> uproc \<Rightarrow> (int \<times> uproc) option" where
  "dup_err r k s = Some (r, unmap_data k (unmap_fd k s))"

definition dup :: "int \<Rightarrow> int \<Rightarrow> uproc \<Rightarrow> (int \<times> uproc) option" where
  "dup oldfdnum newfdnum s =
     (case fd_lookup oldfdnum s of
        (r, None) \<Rightarrow> Some (r, s)
      | (r, Some ol) \<Rightarrow> do {
          (_, s1) \<leftarrow> close_fd newfdnum s;
          assert_that (0 \<le> newfdnum \<and> newfdnum < int MAXFD);
          let nfd = nat newfdnum;
          let (r, s2) = (case datamap s1 ol of
                           None \<Rightarrow> (0, s1)
                         | Some n \<Rightarrow> if map_ret s1 < 0 then (map_ret s1, s1) else (0, map_data nfd n s1));
          if r < 0 then dup_err r nfd s2
          else (case fdmap s2 ol of
                  None \<Rightarrow> dup_err (- E_INVAL) nfd s2
                | Some p \<Rightarrow> if map_ret s2 < 0 then dup_err (map_ret s2) nfd s2
                            else Some (newfdnum, map_fd nfd p s2)) })"

section \<open>Reading and writing\<close>

definition read_fd :: "int \<Rightarrow> nat \<Rightarrow> uproc \<Rightarrow> ((int \<times> u8 list) \<times> uproc) option" where
  "read_fd fdnum n s = (case fd_lookup fdnum s of
      (r, None) \<Rightarrow> Some ((r, []), s)
    | (r, Some k) \<Rightarrow> (case dev_lookup (fd_dev_id (get_fd k s)) of
        (r, None) \<Rightarrow> Some ((r, []), s)
      | (r, Some dev) \<Rightarrow>
          if fd_omode (get_fd k s) AND 3 = 1 then Some ((- E_INVAL, []), s)
          else (case dev_read dev of None \<Rightarrow> Some ((- E_NOT_SUPP, []), s) | Some f \<Rightarrow> f k n s)))"

text \<open>The loop of \<^verbatim>\<open>readn\<close>; no device delivers more than it was asked for, so the loop ends.\<close>

function readn_loop :: "int \<Rightarrow> nat \<Rightarrow> u8 list \<Rightarrow> uproc \<Rightarrow> ((int \<times> u8 list) \<times> uproc) option" where
  "readn_loop fdnum n acc s =
     (if n = 0 then Some ((int (length acc), acc), s)
      else do {
        ((m, xs), s1) \<leftarrow> read_fd fdnum n s;
        if m < 0 then Some ((m, acc), s1)
        else if m = 0 then Some ((int (length acc), acc), s1)
        else readn_loop fdnum (n - nat m) (acc @ xs) s1 })"
  by pat_completeness auto
termination by (relation "measure (\<lambda>(_, n, _, _). n)") auto

declare readn_loop.simps [simp del]

definition readn :: "int \<Rightarrow> nat \<Rightarrow> uproc \<Rightarrow> ((int \<times> u8 list) \<times> uproc) option" where
  "readn fdnum n s = readn_loop fdnum n [] s"

definition write_fd :: "int \<Rightarrow> u8 list \<Rightarrow> uproc \<Rightarrow> (int \<times> uproc) option" where
  "write_fd fdnum xs s = (case fd_lookup fdnum s of
      (r, None) \<Rightarrow> Some (r, s)
    | (r, Some k) \<Rightarrow> (case dev_lookup (fd_dev_id (get_fd k s)) of
        (r, None) \<Rightarrow> Some (r, s)
      | (r, Some dev) \<Rightarrow>
          if fd_omode (get_fd k s) AND 3 = 0 then Some (- E_INVAL, s)
          else (case dev_write dev of None \<Rightarrow> Some (- E_NOT_SUPP, s) | Some f \<Rightarrow> f k xs s)))"

definition seek :: "int \<Rightarrow> u32 \<Rightarrow> uproc \<Rightarrow> int \<times> uproc" where
  "seek fdnum offset s = (case fd_lookup fdnum s of
      (r, None) \<Rightarrow> (r, s)
    | (r, Some k) \<Rightarrow> (0, set_fd k (\<lambda>fd. fd\<lparr>fd_offset := offset\<rparr>) s))"

definition ftruncate :: "int \<Rightarrow> u32 \<Rightarrow> uproc \<Rightarrow> (int \<times> uproc) option" where
  "ftruncate fdnum newsize s = (case fd_lookup fdnum s of
      (r, None) \<Rightarrow> Some (r, s)
    | (r, Some k) \<Rightarrow> (case dev_lookup (fd_dev_id (get_fd k s)) of
        (r, None) \<Rightarrow> Some (r, s)
      | (r, Some dev) \<Rightarrow>
          if fd_omode (get_fd k s) AND 3 = 0 then Some (- E_INVAL, s)
          else (case dev_trunc dev of None \<Rightarrow> Some (- E_NOT_SUPP, s) | Some f \<Rightarrow> f k newsize s)))"

definition fstat :: "int \<Rightarrow> Stat \<Rightarrow> uproc \<Rightarrow> ((int \<times> Stat) \<times> uproc) option" where
  "fstat fdnum st s = (case fd_lookup fdnum s of
      (r, None) \<Rightarrow> Some ((r, st), s)
    | (r, Some k) \<Rightarrow> (case dev_lookup (fd_dev_id (get_fd k s)) of
        (r, None) \<Rightarrow> Some ((r, st), s)
      | (r, Some dev) \<Rightarrow> (case dev_stat dev of
          None \<Rightarrow> Some ((- E_NOT_SUPP, st), s)
        | Some f \<Rightarrow> f k \<lparr>st_name = [], st_size = 0, st_isdir = False, st_dev = dev_id dev\<rparr> s)))"

section \<open>Making descriptors\<close>

definition open_fd :: "u8 list \<Rightarrow> u32 \<Rightarrow> uproc \<Rightarrow> (int \<times> uproc) option" where
  "open_fd path mode s =
     (if length path \<ge> 1024 then Some (- E_BAD_PATH, s)
      else (case fd_alloc s of
              (r, None) \<Rightarrow> Some (r, s)
            | (r, Some k) \<Rightarrow> do {
                ((r, _), s1) \<leftarrow> fsipc (Req_open path mode) (Some k) s;
                if r < 0 then do { (_, s2) \<leftarrow> fd_close k False s1; Some (r, s2) }
                else Some (int k, s1) }))"

definition stat :: "u8 list \<Rightarrow> Stat \<Rightarrow> uproc \<Rightarrow> ((int \<times> Stat) \<times> uproc) option" where
  "stat path st s = do {
     (fd, s1) \<leftarrow> open_fd path 0 s;
     if fd < 0 then Some ((fd, st), s1)
     else do {
       (r, s2) \<leftarrow> fstat fd st s1;
       (_, s3) \<leftarrow> close_fd fd s2;
       Some (r, s3) } }"

definition iscons :: "int \<Rightarrow> uproc \<Rightarrow> int" where
  "iscons fdnum s = (case fd_lookup fdnum s of
      (r, None) \<Rightarrow> r
    | (r, Some k) \<Rightarrow> if fd_dev_id (get_fd k s) = dev_id devcons then 1 else 0)"

definition opencons :: "uproc \<Rightarrow> (int \<times> uproc) option" where
  "opencons s = (case fd_alloc s of
      (r, None) \<Rightarrow> Some (r, s)
    | (r, Some k) \<Rightarrow> do {
        (r, s1) \<leftarrow> alloc_fd k s;
        if r < 0 then Some (r, s1)
        else Some (int k, set_fd k (\<lambda>fd. fd\<lparr>fd_dev_id := dev_id devcons, fd_omode := 2\<rparr>) s1) })"

definition ugetchar :: "uproc \<Rightarrow> (int \<times> uproc) option" where
  "ugetchar s = do {
     ((r, xs), s1) \<leftarrow> read_fd 0 1 s;
     if r < 0 then Some (r, s1)
     else if r < 1 then Some (- E_EOF, s1)
     else Some (uint (hd xs), s1) }"

text \<open>\<open>pipe\<close> with its error exits; \<open>pipe_data\<close> is the part after both descriptors have a page.\<close>

definition pipe_data :: "nat \<Rightarrow> nat \<Rightarrow> uproc \<Rightarrow> ((int \<times> (nat \<times> nat) option) \<times> uproc) option" where
  "pipe_data fd0 fd1 s = do {
     (r, s1) \<leftarrow> alloc_data fd0 s;
     if r < 0 then Some ((r, None), unmap_fd fd0 (unmap_fd fd1 s1))
     else do {
       n \<leftarrow> datamap s1 fd0;
       if map_ret s1 < 0 then Some ((map_ret s1, None), unmap_fd fd0 (unmap_fd fd1 (unmap_data fd0 s1)))
       else do {
         let s2 = map_data fd1 n s1;
         let s3 = set_fd fd0 (\<lambda>fd. fd\<lparr>fd_dev_id := dev_id devpipe, fd_omode := 0\<rparr>) s2;
         let s4 = set_fd fd1 (\<lambda>fd. fd\<lparr>fd_dev_id := dev_id devpipe, fd_omode := 1\<rparr>) s3;
         Some ((0, Some (fd0, fd1)), s4) } } }"

definition pipe_fd :: "uproc \<Rightarrow> ((int \<times> (nat \<times> nat) option) \<times> uproc) option" where
  "pipe_fd s = (case fd_alloc s of
      (r, None) \<Rightarrow> Some ((r, None), s)
    | (r, Some fd0) \<Rightarrow> do {
        (r, s1) \<leftarrow> alloc_fd fd0 s;
        if r < 0 then Some ((r, None), s1)
        else (case fd_alloc s1 of
                (r, None) \<Rightarrow> Some ((r, None), unmap_fd fd0 s1)
              | (r, Some fd1) \<Rightarrow> do {
                  (r, s2) \<leftarrow> alloc_fd fd1 s1;
                  if r < 0 then Some ((r, None), unmap_fd fd0 s2)
                  else pipe_data fd0 fd1 s2 }) })"

definition fd_pipeisclosed :: "int \<Rightarrow> uproc \<Rightarrow> int" where
  "fd_pipeisclosed fdnum s = (case fd_lookup fdnum s of
      (r, None) \<Rightarrow> r
    | (r, Some k) \<Rightarrow> if fd_isclosed k s then 1 else 0)"

section \<open>Sockets\<close>

definition fd2sockid :: "int \<Rightarrow> uproc \<Rightarrow> int" where
  "fd2sockid fdnum s = (case fd_lookup fdnum s of
      (r, None) \<Rightarrow> r
    | (r, Some k) \<Rightarrow> if fd_dev_id (get_fd k s) \<noteq> dev_id devsock then - E_NOT_SUPP else sint (fd_file_id (get_fd k s)))"

definition alloc_sockfd :: "int \<Rightarrow> uproc \<Rightarrow> (int \<times> uproc) option" where
  "alloc_sockfd sockid s = (case fd_alloc s of
      (r, None) \<Rightarrow> do { (_, s1) \<leftarrow> nsipc_close (word_of_int sockid) s; Some (r, s1) }
    | (r, Some k) \<Rightarrow> do {
        (r, s1) \<leftarrow> alloc_fd k s;
        if r < 0 then do { (_, s2) \<leftarrow> nsipc_close (word_of_int sockid) s1; Some (r, s2) }
        else Some (int k, set_fd k (\<lambda>fd. fd\<lparr>fd_dev_id := dev_id devsock, fd_omode := 2, fd_file_id := word_of_int sockid\<rparr>) s1) })"

definition accept :: "int \<Rightarrow> u32 \<Rightarrow> uproc \<Rightarrow> ((int \<times> u8 list) \<times> uproc) option" where
  "accept fdnum addrlen s =
     (let i = fd2sockid fdnum s in
      if i < 0 then Some ((i, []), s)
      else do {
        ((r, addr), s1) \<leftarrow> nsipc_accept (word_of_int i) addrlen s;
        if r < 0 then Some ((r, []), s1)
        else do { (fd, s2) \<leftarrow> alloc_sockfd r s1; Some ((fd, addr), s2) } })"

definition with_sock :: "int \<Rightarrow> (u32 \<Rightarrow> uproc \<Rightarrow> (int \<times> uproc) option) \<Rightarrow> uproc \<Rightarrow> (int \<times> uproc) option" where
  "with_sock fdnum f s = (let i = fd2sockid fdnum s in if i < 0 then Some (i, s) else f (word_of_int i) s)"

definition bind_sock :: "int \<Rightarrow> u8 list \<Rightarrow> uproc \<Rightarrow> (int \<times> uproc) option" where
  "bind_sock fdnum name = with_sock fdnum (\<lambda>i. nsipc_bind i name)"

definition shutdown :: "int \<Rightarrow> u32 \<Rightarrow> uproc \<Rightarrow> (int \<times> uproc) option" where
  "shutdown fdnum how = with_sock fdnum (\<lambda>i. nsipc_shutdown i how)"

definition connect :: "int \<Rightarrow> u8 list \<Rightarrow> uproc \<Rightarrow> (int \<times> uproc) option" where
  "connect fdnum name = with_sock fdnum (\<lambda>i. nsipc_connect i name)"

definition listen :: "int \<Rightarrow> u32 \<Rightarrow> uproc \<Rightarrow> (int \<times> uproc) option" where
  "listen fdnum backlog = with_sock fdnum (\<lambda>i. nsipc_listen i backlog)"

definition socket :: "u32 \<Rightarrow> u32 \<Rightarrow> u32 \<Rightarrow> uproc \<Rightarrow> (int \<times> uproc) option" where
  "socket domain type protocol s = do {
     (r, s1) \<leftarrow> nsipc_socket domain type protocol s;
     if r < 0 then Some (r, s1) else alloc_sockfd r s1 }"

end
