(* ===== verification/Fd_Props.thy ===== *)
theory Fd_Props
  imports Fd_Ops
begin

unbundle bit_operations_syntax

text \<open>
  The descriptor table is well-typed in every state that an environment can get to with the calls of the
  library: every open descriptor has a device, a file descriptor names a file the server has
  open, a pipe has its data page, and every reference count is the number of mappings.
\<close>

section \<open>Counting mappings\<close>

definition mcount :: "(nat \<Rightarrow> 'a option) \<Rightarrow> 'a \<Rightarrow> nat" where
  "mcount f p = card {k. f k = Some p}"

lemma mcount_del:
  assumes "dom f \<subseteq> {..<MAXFD}" "f k = Some p"
  shows "mcount f p = Suc (mcount (f(k := None)) p)" "q \<noteq> p \<Longrightarrow> mcount (f(k := None)) q = mcount f q"
proof -
  have fin: "finite {j. f j = Some q}" for q using assms(1) by (auto intro: finite_subset [of _ "{..<MAXFD}"])
  have "{j. (f(k := None)) j = Some p} = {j. f j = Some p} - {k}" by auto
  then show "mcount f p = Suc (mcount (f(k := None)) p)"
    using card_Suc_Diff1 [OF fin [of p], of k] assms(2) by (simp add: mcount_def)
  show "q \<noteq> p \<Longrightarrow> mcount (f(k := None)) q = mcount f q"
    using assms(2) by (auto simp: mcount_def intro!: arg_cong [where f = card])
qed

lemma mcount_ins:
  assumes "dom f \<subseteq> {..<MAXFD}" "f k = None"
  shows "mcount (f(k \<mapsto> p)) p = Suc (mcount f p)" "q \<noteq> p \<Longrightarrow> mcount (f(k \<mapsto> p)) q = mcount f q"
proof -
  have fin: "finite {j. f j = Some p}" using assms(1) by (auto intro: finite_subset [of _ "{..<MAXFD}"])
  have "{j. (f(k \<mapsto> p)) j = Some p} = insert k {j. f j = Some p}" by auto
  then show "mcount (f(k \<mapsto> p)) p = Suc (mcount f p)" using assms(2) fin by (simp add: mcount_def)
  show "q \<noteq> p \<Longrightarrow> mcount (f(k \<mapsto> p)) q = mcount f q"
    using assms(2) by (auto simp: mcount_def intro!: arg_cong [where f = card])
qed

lemma mcount_pos: "dom f \<subseteq> {..<MAXFD} \<Longrightarrow> f k = Some p \<Longrightarrow> 0 < mcount f p"
  using mcount_del(1) [of f k p] by simp

section \<open>The invariant\<close>

text \<open>\<open>X n\<close> are the references to a page that other environments hold.\<close>

definition refs_ok :: "(nat \<Rightarrow> nat) \<Rightarrow> uproc \<Rightarrow> bool" where
  "refs_ok X s \<longleftrightarrow> dom (fdmap s) \<subseteq> {..<MAXFD} \<and> dom (datamap s) \<subseteq> {..<MAXFD} \<and>
     (\<forall>n. oref s n = mcount (fdmap s) (Own n) + mcount (datamap s) n + X n) \<and>
     (\<forall>k i. fdmap s k = Some (Srv i) \<longrightarrow> mcount (fdmap s) (Srv i) < fdref (srv s) i) \<and>
     distinct (ofree s) \<and> (\<forall>n \<in> set (ofree s). oref s n = 0)"

definition file_fd :: "nat \<Rightarrow> fserv \<Rightarrow> bool" where
  "file_fd i t \<longleftrightarrow> i < MAXOPEN \<and> fd_dev_id (fdpage t i) = dev_id devfile \<and>
     fd_file_id (fdpage t i) = o_fileid (opentab t i) \<and> o_file (opentab t i) \<noteq> None"

definition fd_typed :: "nat \<Rightarrow> uproc \<Rightarrow> bool" where
  "fd_typed k s = (case fdmap s k of
      None \<Rightarrow> datamap s k = None
    | Some (Srv i) \<Rightarrow> datamap s k = None \<and> file_fd i (srv s)
    | Some (Own n) \<Rightarrow>
        fd_dev_id (ofd s n) = dev_id devpipe \<and> datamap s k \<noteq> None \<or>
        fd_dev_id (ofd s n) \<in> {dev_id devcons, dev_id devsock} \<and> datamap s k = None)"

definition fds_ok :: "(nat \<Rightarrow> nat) \<Rightarrow> uproc \<Rightarrow> bool" where
  "fds_ok X s \<longleftrightarrow> refs_ok X s \<and> serv_ok (srv s) \<and> (\<forall>k. fd_typed k s) \<and>
     (\<forall>k j n. fdmap s k = Some (Own n) \<longrightarrow> datamap s j \<noteq> Some n) \<and>
     (\<forall>k j n. fdmap s k = Some (Own n) \<and> fdmap s j = Some (Own n) \<longrightarrow> datamap s k = datamap s j)"

section \<open>The file server keeps open files\<close>

text \<open>A request keeps the pages and the reference counts of all slots in use, and the page it sends back
  is that of an open file.\<close>

lemma file_fd_offset: "file_fd i (upd_fd j (\<lambda>fd. fd\<lparr>fd_offset := x\<rparr>) t) = file_fd i t"
  by (auto simp: file_fd_def upd_fd_def)

lemma file_fd_cong:
  "fdpage t' i = fdpage t i \<Longrightarrow> opentab t' i = opentab t i \<Longrightarrow> file_fd i t' = file_fd i t"
  by (simp add: file_fd_def)

lemma serve_other_tab:
  assumes "serve req t = Some ((r, pg, d), t')" "\<forall>path omode. req \<noteq> Req_open path omode"
  shows "fdref t' = fdref t \<and> pg = None \<and> (\<forall>i. file_fd i t' = file_fd i t)"
  using assms
  by (cases req) (auto simp: serve_def serve_set_size_def serve_read_def serve_write_def serve_stat_def serve_flush_def
      serve_sync_def with_fs_def file_fd_def upd_fd_def Option.bind_eq_Some_conv Let_def split: if_splits prod.splits option.splits)

lemma open_finish_tab:
  assumes "open_finish path omode i t = Some ((r, pg), t')" "i < MAXOPEN"
  shows "fdref t' = fdref t \<and> (\<forall>j. j \<noteq> i \<longrightarrow> file_fd j t' = file_fd j t) \<and> (\<forall>j. pg = Some j \<longrightarrow> j = i \<and> r = 0 \<and> file_fd i t')"
  using assms
  by (auto simp: open_finish_def with_fs_def upd_fd_def upd_open_def file_fd_def devfile_def Option.bind_eq_Some_conv Let_def
      dest: file_open_file split: if_splits)

lemma file_fd_tab: "fdpage t' = fdpage t \<Longrightarrow> opentab t' = opentab t \<Longrightarrow> file_fd i t' = file_fd i t"
  by (simp add: file_fd_def)

definition opened :: "nat \<Rightarrow> fserv \<Rightarrow> fserv \<Rightarrow> bool" where
  "opened i t t' \<longleftrightarrow> fdref t i \<le> 1 \<and> fdref t' i = 1 \<and> (\<forall>j. j \<noteq> i \<longrightarrow> fdref t' j = fdref t j \<and> file_fd j t' = file_fd j t)"

lemma serve_open_tab:
  assumes "serve_open path omode t = Some ((r, pg), t')"
  shows "t' = t \<and> pg = None \<or> (\<exists>i. opened i t t' \<and> (\<forall>j. pg = Some j \<longrightarrow> j = i \<and> r = 0 \<and> file_fd i t'))"
proof -
  define p where "p = take 1023 (takeWhile (\<lambda>c. c \<noteq> 0) path)"
  obtain r1 slot t1 where a: "openfile_alloc t = ((r1, slot), t1)" by (metis prod.exhaust_sel)
  show ?thesis
  proof (cases slot)
    case None
    then show ?thesis using openfile_alloc_cases [of t] a assms by (auto simp: serve_open_def Let_def split: if_splits)
  next
    case (Some i)
    have i: "i < MAXOPEN" "fdref t i \<le> 1" and t1: "t1 = upd_fd i (\<lambda>_. zero_fd) (upd_open i (\<lambda>o'. o'\<lparr>o_fileid := o_fileid o' + of_nat MAXOPEN\<rparr>)
        (t\<lparr>fdref := (fdref t)(i := 1)\<rparr>))" using openfile_alloc_cases [of t] a Some by auto
    have o1: "opened i t t1" using i by (simp add: opened_def t1 upd_fd_def upd_open_def file_fd_def)
    have keep: "opened i t t3" if "fdpage t3 = fdpage t1" "opentab t3 = opentab t1" "fdref t3 = fdref t1" for t3
      using o1 that file_fd_tab [OF that(1,2)] by (simp add: opened_def)
    consider (early) "pg = None" "fdpage t' = fdpage t1" "opentab t' = opentab t1" "fdref t' = fdref t1"
      | (fin) t3 where "open_finish p omode i t3 = Some ((r, pg), t')" "fdpage t3 = fdpage t1" "opentab t3 = opentab t1" "fdref t3 = fdref t1"
      using assms a Some
      by (fastforce simp: serve_open_def p_def [symmetric] Let_def Option.bind_eq_Some_conv split: if_splits dest: with_fs_tab open_trunc_tab)
    then show ?thesis
    proof cases
      case early
      then show ?thesis using keep by blast
    next
      case fin
      have "opened i t t'" using keep [OF fin(2-4)] open_finish_tab [OF fin(1) i(1)] by (simp add: opened_def)
      then show ?thesis using open_finish_tab [OF fin(1) i(1)] by blast
    qed
  qed
qed

lemma serve_frame:
  assumes "serve req t = Some ((r, pg, d), t')"
  shows "(\<forall>i. 2 \<le> fdref t i \<longrightarrow> fdref t' i = fdref t i \<and> file_fd i t' = file_fd i t) \<and>
    (\<forall>i. pg = Some i \<longrightarrow> r = 0 \<and> fdref t i \<le> 1 \<and> fdref t' i = 1 \<and> file_fd i t')"
proof (cases "\<exists>path omode. req = Req_open path omode")
  case True
  then obtain path omode where o: "serve_open path omode t = Some ((r, pg), t')" using assms by (auto simp: serve_def)
  from serve_open_tab [OF o] show ?thesis
  proof
    assume "\<exists>i. opened i t t' \<and> (\<forall>j. pg = Some j \<longrightarrow> j = i \<and> r = 0 \<and> file_fd i t')"
    then obtain i where i: "opened i t t'" "\<forall>j. pg = Some j \<longrightarrow> j = i \<and> r = 0 \<and> file_fd i t'" by blast
    have "2 \<le> fdref t j \<Longrightarrow> j \<noteq> i" for j using i(1) by (auto simp: opened_def)
    with i show ?thesis by (auto simp: opened_def)
  qed simp
next
  case False
  then show ?thesis using serve_other_tab [OF assms] by auto
qed

section \<open>Mapping and unmapping keep the counts\<close>

lemma unref_simps [simp]:
  "fdmap (unref p s) = fdmap s" "datamap (unref p s) = datamap s" "ofd (unref p s) = ofd s" "opipe (unref p s) = opipe s"
  "map_ret (unref p s) = map_ret s" "ucons (unref p s) = ucons s" "netsrv (unref p s) = netsrv s" "nslog (unref p s) = nslog s"
  "opentab (srv (unref p s)) = opentab (srv s)" "fdpage (srv (unref p s)) = fdpage (srv s)" "fsm (srv (unref p s)) = fsm (srv s)"
  by (cases p; simp add: unref_def)+

lemma addref_simps [simp]:
  "fdmap (addref p s) = fdmap s" "datamap (addref p s) = datamap s" "ofd (addref p s) = ofd s" "opipe (addref p s) = opipe s"
  "map_ret (addref p s) = map_ret s" "ucons (addref p s) = ucons s" "netsrv (addref p s) = netsrv s" "nslog (addref p s) = nslog s"
  "opentab (srv (addref p s)) = opentab (srv s)" "fdpage (srv (addref p s)) = fdpage (srv s)" "fsm (srv (addref p s)) = fsm (srv s)"
  "ofree (addref p s) = ofree s"
  by (cases p; simp add: addref_def)+

lemma unmap_fd_simps [simp]:
  "fdmap (unmap_fd k s) = (fdmap s)(k := None)" "datamap (unmap_fd k s) = datamap s" "ofd (unmap_fd k s) = ofd s" "opipe (unmap_fd k s) = opipe s"
  "map_ret (unmap_fd k s) = map_ret s" "ucons (unmap_fd k s) = ucons s" "netsrv (unmap_fd k s) = netsrv s" "nslog (unmap_fd k s) = nslog s"
  "opentab (srv (unmap_fd k s)) = opentab (srv s)" "fdpage (srv (unmap_fd k s)) = fdpage (srv s)" "fsm (srv (unmap_fd k s)) = fsm (srv s)"
  by (cases "fdmap s k"; simp add: unmap_fd_def fun_upd_idem)+

lemma unmap_data_simps [simp]:
  "fdmap (unmap_data k s) = fdmap s" "datamap (unmap_data k s) = (datamap s)(k := None)" "ofd (unmap_data k s) = ofd s"
  "opipe (unmap_data k s) = opipe s" "map_ret (unmap_data k s) = map_ret s" "ucons (unmap_data k s) = ucons s"
  "netsrv (unmap_data k s) = netsrv s" "nslog (unmap_data k s) = nslog s" "srv (unmap_data k s) = srv s"
  by (cases "datamap s k"; simp add: unmap_data_def unref_def fun_upd_idem)+

lemma unmap_data_None [simp]: "datamap s k = None \<Longrightarrow> unmap_data k s = s"
  by (simp add: unmap_data_def)

lemma map_fd_new:
  assumes "fdmap s k = None"
  shows "map_fd k p s = addref p (s\<lparr>fdmap := (fdmap s)(k \<mapsto> p)\<rparr>)"
  using assms by (simp add: map_fd_def unmap_fd_def)

lemma map_data_new:
  assumes "datamap s k = None"
  shows "map_data k n s = addref (Own n) (s\<lparr>datamap := (datamap s)(k \<mapsto> n)\<rparr>)"
  using assms by (simp add: map_data_def unmap_data_def)

lemma unmap_fd_refs:
  assumes r: "refs_ok X s"
  shows "refs_ok X (unmap_fd k s)"
proof (cases "fdmap s k")
  case None
  then show ?thesis using r by (simp add: unmap_fd_def)
next
  case (Some p)
  have d: "dom (fdmap s) \<subseteq> {..<MAXFD}" "\<forall>n. oref s n = mcount (fdmap s) (Own n) + mcount (datamap s) n + X n"
    "\<forall>j i. fdmap s j = Some (Srv i) \<longrightarrow> mcount (fdmap s) (Srv i) < fdref (srv s) i" using r by (auto simp: refs_ok_def)
  note del = mcount_del [OF d(1) Some]
  let ?f = "(fdmap s)(k := None)"
  have dom: "dom ?f \<subseteq> {..<MAXFD}" using d(1) by auto
  show ?thesis
  proof (cases p)
    case (Srv i)
    have "mcount ?f (Own n) = mcount (fdmap s) (Own n)" for n using del(2) Srv by simp
    moreover have "mcount ?f (Srv i) < fdref (srv s) i - 1" using del(1) d(3) Some Srv by fastforce
    moreover have "mcount ?f (Srv j) = mcount (fdmap s) (Srv j)" if "j \<noteq> i" for j using del(2) Srv that by simp
    ultimately show ?thesis using r dom Some Srv by (auto simp: refs_ok_def unmap_fd_def unref_def)
  next
    case (Own n)
    have "mcount ?f (Srv j) = mcount (fdmap s) (Srv j)" for j using del(2) Own by simp
    moreover have "mcount ?f (Own m) = mcount (fdmap s) (Own m)" if "m \<noteq> n" for m using del(2) Own that by simp
    moreover have "n \<notin> set (ofree s)" using r del(1) Own by (fastforce simp: refs_ok_def)
    ultimately show ?thesis using r dom del(1) Some Own by (auto simp: refs_ok_def unmap_fd_def unref_def)
  qed
qed

lemma unmap_data_refs:
  assumes r: "refs_ok X s"
  shows "refs_ok X (unmap_data k s)"
proof (cases "datamap s k")
  case (Some n)
  have d: "dom (datamap s) \<subseteq> {..<MAXFD}" using r by (simp add: refs_ok_def)
  note del = mcount_del [OF d Some]
  have "dom ((datamap s)(k := None)) \<subseteq> {..<MAXFD}" using d by auto
  moreover have "n \<notin> set (ofree s)" using r del(1) by (fastforce simp: refs_ok_def)
  ultimately show ?thesis using r del Some by (auto simp: refs_ok_def unmap_data_def unref_def)
qed (use r in simp)

lemma map_fd_own_refs:
  assumes r: "refs_ok X s" and k: "fdmap s k = None" "k < MAXFD" and n: "n \<notin> set (ofree s)"
  shows "refs_ok X (map_fd k (Own n) s)"
proof -
  have d: "dom (fdmap s) \<subseteq> {..<MAXFD}" using r by (simp add: refs_ok_def)
  note ins = mcount_ins [OF d k(1), where p = "Own n"]
  have "dom ((fdmap s)(k \<mapsto> Own n)) \<subseteq> {..<MAXFD}" using d k(2) by auto
  moreover have "mcount ((fdmap s)(k \<mapsto> Own n)) (Srv i) = mcount (fdmap s) (Srv i)" for i using ins(2) by simp
  moreover have "mcount ((fdmap s)(k \<mapsto> Own n)) (Own m) = mcount (fdmap s) (Own m)" if "m \<noteq> n" for m using ins(2) that by simp
  ultimately show ?thesis using r ins(1) n by (auto simp: refs_ok_def map_fd_new [OF k(1)] addref_def)
qed

lemma map_fd_srv_refs:
  assumes r: "refs_ok X s" and k: "fdmap s k = None" "k < MAXFD" and i: "mcount (fdmap s) (Srv i) < fdref (srv s) i"
  shows "refs_ok X (map_fd k (Srv i) s)"
proof -
  have d: "dom (fdmap s) \<subseteq> {..<MAXFD}" using r by (simp add: refs_ok_def)
  note ins = mcount_ins [OF d k(1), where p = "Srv i"]
  have "dom ((fdmap s)(k \<mapsto> Srv i)) \<subseteq> {..<MAXFD}" using d k(2) by auto
  moreover have "mcount ((fdmap s)(k \<mapsto> Srv i)) (Own n) = mcount (fdmap s) (Own n)" for n using ins(2) by simp
  moreover have "mcount ((fdmap s)(k \<mapsto> Srv i)) (Srv j) = mcount (fdmap s) (Srv j)" if "j \<noteq> i" for j using ins(2) that by simp
  ultimately show ?thesis using r ins(1) i by (auto simp: refs_ok_def map_fd_new [OF k(1)] addref_def)
qed

lemma map_data_refs:
  assumes r: "refs_ok X s" and k: "datamap s k = None" "k < MAXFD" and n: "n \<notin> set (ofree s)"
  shows "refs_ok X (map_data k n s)"
proof -
  have d: "dom (datamap s) \<subseteq> {..<MAXFD}" using r by (simp add: refs_ok_def)
  note ins = mcount_ins [OF d k(1), where p = n]
  have "dom ((datamap s)(k \<mapsto> n)) \<subseteq> {..<MAXFD}" using d k(2) by auto
  moreover have "mcount ((datamap s)(k \<mapsto> n)) m = mcount (datamap s) m" if "m \<noteq> n" for m using ins(2) that by simp
  ultimately show ?thesis using r ins(1) n by (auto simp: refs_ok_def map_data_new [OF k(1)] addref_def)
qed

lemma new_page_ok:
  assumes r: "refs_ok X s" and n: "new_page s = Some (r, n, s1)"
  shows "r < 0 \<Longrightarrow> s1 = s" "\<not> r < 0 \<Longrightarrow> refs_ok X s1 \<and> n \<notin> set (ofree s1) \<and> fdmap s j \<noteq> Some (Own n) \<and> datamap s j \<noteq> Some n \<and>
    s1 = s\<lparr>ofree := tl (ofree s), ofd := (ofd s)(n := zero_fd), opipe := (opipe s)(n := zero_pipe)\<rparr>"
proof -
  show "r < 0 \<Longrightarrow> s1 = s" using n by (auto simp: new_page_def split: if_splits list.splits)
  assume "\<not> r < 0"
  then obtain ns where ns: "ofree s = n # ns" "s1 = s\<lparr>ofree := ns, ofd := (ofd s)(n := zero_fd), opipe := (opipe s)(n := zero_pipe)\<rparr>"
    using n by (auto simp: new_page_def split: if_splits list.splits)
  have d: "dom (fdmap s) \<subseteq> {..<MAXFD}" "dom (datamap s) \<subseteq> {..<MAXFD}" "oref s n = mcount (fdmap s) (Own n) + mcount (datamap s) n + X n"
    "oref s n = 0" using r ns(1) by (auto simp: refs_ok_def)
  have "fdmap s j \<noteq> Some (Own n)" "datamap s j \<noteq> Some n" using mcount_pos [OF d(1), of j "Own n"] mcount_pos [OF d(2), of j n] d(3,4) by auto
  then show "refs_ok X s1 \<and> n \<notin> set (ofree s1) \<and> fdmap s j \<noteq> Some (Own n) \<and> datamap s j \<noteq> Some n \<and>
      s1 = s\<lparr>ofree := tl (ofree s), ofd := (ofd s)(n := zero_fd), opipe := (opipe s)(n := zero_pipe)\<rparr>"
    using r ns by (auto simp: refs_ok_def)
qed

section \<open>Calls that leave the table alone\<close>

definition same_fds :: "uproc \<Rightarrow> uproc \<Rightarrow> bool" where
  "same_fds s s' \<longleftrightarrow> fdmap s' = fdmap s \<and> datamap s' = datamap s \<and> oref s' = oref s \<and> ofree s' = ofree s \<and>
     serv_ok (srv s') \<and> (\<forall>n. fd_dev_id (ofd s' n) = fd_dev_id (ofd s n) \<and> fd_file_id (ofd s' n) = fd_file_id (ofd s n)) \<and>
     (\<forall>k i. fdmap s k = Some (Srv i) \<longrightarrow> fdref (srv s') i = fdref (srv s) i \<and> file_fd i (srv s'))"

lemma fds_okD:
  assumes "fds_ok X s"
  shows "refs_ok X s" "serv_ok (srv s)" "fd_typed k s" "fdmap s k = Some (Own n) \<Longrightarrow> datamap s j \<noteq> Some n"
    "fdmap s k = Some (Own n) \<Longrightarrow> fdmap s j = Some (Own n) \<Longrightarrow> datamap s k = datamap s j"
    "fdmap s k = Some (Srv i) \<Longrightarrow> file_fd i (srv s)" "fdmap s k = Some (Srv i) \<Longrightarrow> 2 \<le> fdref (srv s) i"
    "fdmap s k = Some p \<Longrightarrow> k < MAXFD"
proof -
  show r: "refs_ok X s" "serv_ok (srv s)" "fd_typed k s" and "fdmap s k = Some (Own n) \<Longrightarrow> datamap s j \<noteq> Some n"
    and "fdmap s k = Some (Own n) \<Longrightarrow> fdmap s j = Some (Own n) \<Longrightarrow> datamap s k = datamap s j"
    using assms unfolding fds_ok_def by blast+
  show "fdmap s k = Some (Srv i) \<Longrightarrow> file_fd i (srv s)" using r(3) by (simp add: fd_typed_def)
  have d: "dom (fdmap s) \<subseteq> {..<MAXFD}" using r(1) by (simp add: refs_ok_def)
  show "fdmap s k = Some p \<Longrightarrow> k < MAXFD" using d by auto
  show "fdmap s k = Some (Srv i) \<Longrightarrow> 2 \<le> fdref (srv s) i"
    using r(1) mcount_pos [OF d, of k "Srv i"] by (fastforce simp: refs_ok_def)
qed

lemma same_fds_refl: "fds_ok X s \<Longrightarrow> same_fds s s"
  using fds_okD [of X s] by (simp add: same_fds_def)

lemma same_fds_ok:
  assumes ok: "fds_ok X s" and same: "same_fds s s'"
  shows "fds_ok X s'"
proof -
  have eq: "fdmap s' = fdmap s" "datamap s' = datamap s" "oref s' = oref s" "ofree s' = ofree s" "serv_ok (srv s')"
    using same by (simp_all add: same_fds_def)
  have "refs_ok X s'" using fds_okD(1) [OF ok] same by (auto simp: refs_ok_def eq same_fds_def)
  moreover have "fd_typed k s'" for k
    using fds_okD(3) [OF ok, of k] same by (auto simp: fd_typed_def eq same_fds_def split: option.splits upage.splits)
  moreover have "\<forall>k j n. fdmap s k = Some (Own n) \<longrightarrow> datamap s j \<noteq> Some n" using fds_okD(4) [OF ok] by blast
  moreover have "\<forall>k j n. fdmap s k = Some (Own n) \<and> fdmap s j = Some (Own n) \<longrightarrow> datamap s k = datamap s j" using fds_okD(5) [OF ok] by blast
  ultimately show ?thesis unfolding fds_ok_def eq(1,2) using eq(5) by blast
qed

lemma serve_same_fds:
  assumes ok: "fds_ok X s" and sv: "serve req (srv s) = Some ((r, pg, d), t)"
  shows "same_fds s (s\<lparr>srv := t\<rparr>)"
  using serve_frame [OF sv] serve_serv_ok [OF fds_okD(2) [OF ok] sv] fds_okD(6,7) [OF ok] by (simp add: same_fds_def)

lemma fsipc_same:
  assumes ok: "fds_ok X s" and f: "fsipc req None s = Some (x, s')"
  shows "same_fds s s'"
proof -
  obtain r pg d t where sv: "serve req (srv s) = Some ((r, pg, d), t)" using f by (auto simp: fsipc_def Option.bind_eq_Some_conv)
  then have "s' = s\<lparr>srv := t\<rparr>" using f by (auto simp: fsipc_def Let_def Option.bind_eq_Some_conv split: option.splits)
  then show ?thesis using serve_same_fds [OF ok sv] by simp
qed

lemma same_fds_upd [simp]:
  "same_fds s (s'\<lparr>ucons := c\<rparr>) = same_fds s s'" "same_fds s (s'\<lparr>opipe := q\<rparr>) = same_fds s s'" "same_fds s (s'\<lparr>nslog := l\<rparr>) = same_fds s s'"
  by (simp_all add: same_fds_def)

lemma devcons_write_loop_same: "same_fds s0 (devcons_write_loop xs s) = same_fds s0 s"
proof (induction xs s rule: devcons_write_loop.induct)
  case (1 xs s)
  then show ?case by (subst devcons_write_loop.simps) (simp add: cputs_def)
qed

lemma set_fd_same: "fds_ok X s \<Longrightarrow> same_fds s (set_fd k (\<lambda>fd. fd\<lparr>fd_offset := x\<rparr>) s)"
proof -
  assume ok: "fds_ok X s"
  have "serv_ok (upd_fd i f (srv s))" for i f using fds_okD(2) [OF ok] by (simp add: serv_ok_def upd_fd_def)
  moreover have "fdref (upd_fd i f t) = fdref t" for i f t by (simp add: upd_fd_def)
  ultimately show ?thesis using same_fds_refl [OF ok] fds_okD(6) [OF ok]
    by (auto simp: set_fd_def same_fds_def file_fd_offset split: option.splits upage.splits)
qed

lemma in_devtab: "d \<in> set devtab \<longleftrightarrow> d \<in> {devfile, devsock, devpipe, devcons}"
  by (auto simp: devtab_def)

lemmas dev_ops = devfile_read_def devfile_write_def devfile_stat_def devfile_trunc_def devfile_flush_def devcons_read_def devcons_write_def
  devcons_stat_def devcons_close_def fd_pipe_read_def fd_pipe_write_def devpipe_stat_def devsock_read_def devsock_write_def devsock_stat_def
  devsock_close_def nsipc_recv_def nsipc_send_def nsipc_close_def nsipc_ret_def nsipc_def

lemma dev_read_same: "fds_ok X s \<Longrightarrow> dev \<in> set devtab \<Longrightarrow> dev_read dev = Some f \<Longrightarrow> f k n s = Some (x, s') \<Longrightarrow> same_fds s s'"
  unfolding in_devtab
  by (auto simp: devfile_def devpipe_def devcons_def devsock_def dev_ops Option.bind_eq_Some_conv Let_def same_fds_refl
      intro: fsipc_same split: if_splits Fsret.splits)

lemma dev_write_same: "fds_ok X s \<Longrightarrow> dev \<in> set devtab \<Longrightarrow> dev_write dev = Some f \<Longrightarrow> f k xs s = Some (x, s') \<Longrightarrow> same_fds s s'"
  unfolding in_devtab
  by (auto simp: devfile_def devpipe_def devcons_def devsock_def dev_ops Option.bind_eq_Some_conv Let_def same_fds_refl
      devcons_write_loop_same intro: fsipc_same split: if_splits)

lemma dev_stat_same: "fds_ok X s \<Longrightarrow> dev \<in> set devtab \<Longrightarrow> dev_stat dev = Some f \<Longrightarrow> f k st s = Some (x, s') \<Longrightarrow> same_fds s s'"
  unfolding in_devtab
  by (auto simp: devfile_def devpipe_def devcons_def devsock_def dev_ops Option.bind_eq_Some_conv Let_def same_fds_refl
      intro: fsipc_same split: if_splits Fsret.splits)

lemma dev_trunc_same: "fds_ok X s \<Longrightarrow> dev \<in> set devtab \<Longrightarrow> dev_trunc dev = Some f \<Longrightarrow> f k sz s = Some (x, s') \<Longrightarrow> same_fds s s'"
  unfolding in_devtab
  by (auto simp: devfile_def devpipe_def devcons_def devsock_def dev_ops Option.bind_eq_Some_conv intro: fsipc_same)

lemma dev_lookup_in: "dev_lookup i = (r, Some dev) \<Longrightarrow> dev \<in> set devtab"
  by (auto simp: dev_lookup_def find_Some_iff in_set_conv_nth split: option.splits)

section \<open>Closing and duplicating\<close>

lemma unmap_fds_ok:
  assumes ok: "fds_ok X s"
  shows "fds_ok X (unmap_data k (unmap_fd k s))"
proof -
  have "fd_typed j (unmap_data k (unmap_fd k s))" for j
    using fds_okD(3) [OF ok, of j] by (auto simp: fd_typed_def file_fd_def split: option.splits upage.splits)
  moreover have "serv_ok (srv (unmap_data k (unmap_fd k s)))" using fds_okD(2) [OF ok] by (simp add: serv_ok_def)
  moreover have "refs_ok X (unmap_data k (unmap_fd k s))" using fds_okD(1) [OF ok] unmap_fd_refs unmap_data_refs by blast
  moreover have "\<forall>j i n. fdmap s j = Some (Own n) \<longrightarrow> datamap s i \<noteq> Some n" using fds_okD(4) [OF ok] by blast
  moreover have "\<forall>j i n. fdmap s j = Some (Own n) \<and> fdmap s i = Some (Own n) \<longrightarrow> datamap s j = datamap s i" using fds_okD(5) [OF ok] by blast
  ultimately show ?thesis by (auto simp: fds_ok_def)
qed

lemma fd_lookup_Some: "fd_lookup i s = (r, Some k) \<longleftrightarrow> r = 0 \<and> i = int k \<and> k < MAXFD \<and> fdmap s k \<noteq> None"
  by (auto simp: fd_lookup_def)

lemma dev_lookup_simps:
  "dev_lookup (dev_id devfile) = (0, Some devfile)" "dev_lookup (dev_id devpipe) = (0, Some devpipe)"
  "dev_lookup (dev_id devcons) = (0, Some devcons)" "dev_lookup (dev_id devsock) = (0, Some devsock)"
  by (simp_all add: dev_lookup_def devtab_def devfile_def devpipe_def devcons_def devsock_def)

lemma fd_device:
  assumes ok: "fds_ok X s" and k: "fdmap s k = Some p"
  obtains (a_file) i where "p = Srv i" "file_fd i (srv s)" "datamap s k = None" "fd_dev_id (get_fd k s) = dev_id devfile"
  | (a_pipe) n d where "p = Own n" "datamap s k = Some d" "fd_dev_id (get_fd k s) = dev_id devpipe"
  | (a_cons) n where "p = Own n" "datamap s k = None" "fd_dev_id (get_fd k s) = dev_id devcons"
  | (a_sock) n where "p = Own n" "datamap s k = None" "fd_dev_id (get_fd k s) = dev_id devsock"
  using fds_okD(3) [OF ok, of k] k by (cases p) (auto simp: fd_typed_def get_fd_def file_fd_def)

lemma unmap_fd_again: "fdmap s k = None \<Longrightarrow> unmap_fd k s = s"
  by (simp add: unmap_fd_def)

lemma fd_close_Some:
  assumes ok: "fds_ok X s" and k: "fdmap s k = Some p" and c: "fd_close k b s = Some (r, s')"
  obtains s1 where "same_fds s s1" "s' = unmap_data k (unmap_fd k s1)" "netsrv s1 = netsrv s"
    "nslog s1 = (if fd_dev_id (get_fd k s) = dev_id devsock \<and> pageref_fd k s = 1 then Ns_close (fd_file_id (get_fd k s)) # nslog s else nslog s)"
proof -
  have ids: "dev_id devfile \<noteq> dev_id devsock" "dev_id devpipe \<noteq> dev_id devsock" "dev_id devcons \<noteq> dev_id devsock"
    by (simp_all add: devfile_def devpipe_def devcons_def devsock_def)
  have look: "fd_lookup (int k) s = (0, Some k)" using fds_okD(8) [OF ok k] k by (simp add: fd_lookup_Some)
  show thesis using ok k
  proof (cases rule: fd_device)
    case (a_file i)
    obtain s1 where s1: "devfile_flush k s = Some (r, s1)" "s' = unmap_fd k s1"
      using c look a_file(4) by (auto simp: fd_close_def dev_lookup_simps Option.bind_eq_Some_conv) (auto simp: devfile_def)
    have same: "same_fds s s1" using s1(1) fsipc_same [OF ok] by (auto simp: devfile_flush_def Option.bind_eq_Some_conv)
    then have "s' = unmap_data k (unmap_fd k s1)" using a_file(3) s1(2) by (simp add: same_fds_def)
    moreover have "netsrv s1 = netsrv s" "nslog s1 = nslog s"
      using s1(1) by (auto simp: devfile_flush_def fsipc_def Let_def Option.bind_eq_Some_conv split: option.splits)
    ultimately show ?thesis using that [OF same] a_file(4) ids by simp
  next
    case (a_pipe n d)
    then have "s' = unmap_fd k (unmap_data k (unmap_fd k s))"
      using c look by (auto simp: fd_close_def dev_lookup_simps) (auto simp: devpipe_def devpipe_close_def)
    then show ?thesis using that [OF same_fds_refl [OF ok]] a_pipe(3) ids by (simp add: unmap_fd_again)
  next
    case (a_cons n)
    then have "s' = unmap_fd k s" using c look by (auto simp: fd_close_def dev_lookup_simps) (auto simp: devcons_def devcons_close_def)
    then show ?thesis using that [OF same_fds_refl [OF ok]] a_cons(2,3) ids by simp
  next
    case (a_sock n)
    obtain s1 where s1: "devsock_close k s = Some (r, s1)" "s' = unmap_fd k s1"
      using c look a_sock(3) by (auto simp: fd_close_def dev_lookup_simps Option.bind_eq_Some_conv) (auto simp: devsock_def)
    have same: "same_fds s s1" using s1(1) same_fds_refl [OF ok] by (auto simp: dev_ops Let_def split: if_splits)
    then have "s' = unmap_data k (unmap_fd k s1)" using a_sock(2) s1(2) by (simp add: same_fds_def)
    moreover have "netsrv s1 = netsrv s" "nslog s1 = (if pageref_fd k s = 1 then Ns_close (fd_file_id (get_fd k s)) # nslog s else nslog s)"
      using s1(1) by (auto simp: dev_ops Let_def split: if_splits)
    ultimately show ?thesis using that [OF same] a_sock(3) by simp
  qed
qed

lemma close_fd_ok:
  assumes ok: "fds_ok X s" and c: "close_fd i s = Some (r, s')"
  shows "fds_ok X s'" "0 \<le> i \<Longrightarrow> i < int MAXFD \<Longrightarrow> fdmap s' (nat i) = None \<and> datamap s' (nat i) = None"
    "j \<noteq> nat i \<Longrightarrow> fdmap s' j = fdmap s j \<and> datamap s' j = datamap s j"
proof -
  have *: "fds_ok X s' \<and> (0 \<le> i \<longrightarrow> i < int MAXFD \<longrightarrow> fdmap s' (nat i) = None \<and> datamap s' (nat i) = None) \<and>
    (j \<noteq> nat i \<longrightarrow> fdmap s' j = fdmap s j \<and> datamap s' j = datamap s j)"
  proof (cases "snd (fd_lookup i s)")
    case None
    then have "s' = s" "0 \<le> i \<Longrightarrow> i < int MAXFD \<Longrightarrow> fdmap s (nat i) = None"
      using c by (auto simp: close_fd_def fd_lookup_def split: if_splits)
    then show ?thesis using ok fds_okD(3) [OF ok, of "nat i"] by (auto simp: fd_typed_def)
  next
    case (Some k)
    then have k: "i = int k" "k < MAXFD" "fdmap s k \<noteq> None" using fd_lookup_Some [of i s _ k] by (metis prod.collapse)+
    obtain p where p: "fdmap s k = Some p" using k(3) by auto
    have "fd_close k True s = Some (r, s')" using c k by (auto simp: close_fd_def fd_lookup_def)
    then obtain s1 where s1: "same_fds s s1" "s' = unmap_data k (unmap_fd k s1)" by (rule fd_close_Some [OF ok p])
    then show ?thesis using unmap_fds_ok [OF same_fds_ok [OF ok s1(1)], of k] k(1) by (auto simp: same_fds_def)
  qed
  then show "fds_ok X s'" "0 \<le> i \<Longrightarrow> i < int MAXFD \<Longrightarrow> fdmap s' (nat i) = None \<and> datamap s' (nat i) = None"
    "j \<noteq> nat i \<Longrightarrow> fdmap s' j = fdmap s j \<and> datamap s' j = datamap s j" by blast+
qed

lemma close_list_ok: "fds_ok X s \<Longrightarrow> close_list is s = Some s' \<Longrightarrow> fds_ok X s'"
  by (induction "is" arbitrary: s) (auto simp: Option.bind_eq_Some_conv dest: close_fd_ok(1))

lemma in_use_not_free:
  assumes "refs_ok X s"
  shows "fdmap s k = Some (Own n) \<Longrightarrow> n \<notin> set (ofree s)" "datamap s k = Some n \<Longrightarrow> n \<notin> set (ofree s)"
proof -
  have d: "dom (fdmap s) \<subseteq> {..<MAXFD}" "dom (datamap s) \<subseteq> {..<MAXFD}" "oref s n = mcount (fdmap s) (Own n) + mcount (datamap s) n + X n"
    using assms by (auto simp: refs_ok_def)
  show "fdmap s k = Some (Own n) \<Longrightarrow> n \<notin> set (ofree s)" using mcount_pos [OF d(1), of k "Own n"] d(3) assms by (auto simp: refs_ok_def)
  show "datamap s k = Some n \<Longrightarrow> n \<notin> set (ofree s)" using mcount_pos [OF d(2), of k n] d(3) assms by (auto simp: refs_ok_def)
qed

definition dup_maps :: "nat \<Rightarrow> nat \<Rightarrow> upage \<Rightarrow> uproc \<Rightarrow> uproc" where
  "dup_maps k n p s = map_fd n p (case datamap s k of None \<Rightarrow> s | Some d \<Rightarrow> map_data n d s)"

lemma dup_maps_simps:
  assumes "fdmap s n = None" "datamap s n = None"
  shows "fdmap (dup_maps k n p s) = (fdmap s)(n \<mapsto> p)" "datamap (dup_maps k n p s) = (datamap s)(n := datamap s k)"
    "ofd (dup_maps k n p s) = ofd s" "opipe (dup_maps k n p s) = opipe s" "fdpage (srv (dup_maps k n p s)) = fdpage (srv s)"
    "opentab (srv (dup_maps k n p s)) = opentab (srv s)" "fsm (srv (dup_maps k n p s)) = fsm (srv s)" "ucons (dup_maps k n p s) = ucons s"
  using assms by (auto simp: dup_maps_def map_fd_new map_data_new addref_def fun_upd_idem split: option.splits upage.splits)

lemma dup_maps_ok:
  assumes ok: "fds_ok X s" and k: "fdmap s k = Some p" and n: "fdmap s n = None" "n < MAXFD"
  shows "fds_ok X (dup_maps k n p s)"
proof -
  let ?s = "dup_maps k n p s" and ?t = "case datamap s k of None \<Rightarrow> s | Some d \<Rightarrow> map_data n d s"
  have d: "datamap s n = None" using fds_okD(3) [OF ok, of n] n(1) by (simp add: fd_typed_def)
  note simps = dup_maps_simps [OF n(1) d, of k p]
  have r: "refs_ok X s" "refs_ok X ?t"
    using fds_okD(1) [OF ok] in_use_not_free(2) [OF fds_okD(1) [OF ok]] map_data_refs [OF _ d n(2)] by (auto split: option.splits)
  have t: "fdmap ?t = fdmap s" "ofree ?t = ofree s" "srv ?t = srv s" by (simp_all add: map_data_new [OF d] addref_def split: option.splits)
  have "refs_ok X ?s"
  proof (cases p)
    case (Srv i)
    have "mcount (fdmap s) (Srv i) < fdref (srv s) i" using r(1) k Srv by (auto simp: refs_ok_def)
    then show ?thesis using map_fd_srv_refs [OF r(2), of n i] t n Srv by (simp add: dup_maps_def)
  next
    case (Own m)
    then show ?thesis using map_fd_own_refs [OF r(2), of n m] in_use_not_free(1) [OF r(1), of k m] t n k by (simp add: dup_maps_def)
  qed
  moreover have "serv_ok (srv ?s)" using fds_okD(2) [OF ok] by (simp add: serv_ok_def simps)
  moreover have "fd_typed j ?s" for j
    using fds_okD(3) [OF ok, of j] fds_okD(3) [OF ok, of k] k
    unfolding fd_typed_def file_fd_def simps by (cases "j = n") (simp_all split: option.splits upage.splits)
  moreover have "\<forall>i j m. fdmap ?s i = Some (Own m) \<longrightarrow> datamap ?s j \<noteq> Some m"
    using fds_okD(4) [OF ok] k unfolding simps by auto
  moreover have "\<forall>i j m. fdmap ?s i = Some (Own m) \<and> fdmap ?s j = Some (Own m) \<longrightarrow> datamap ?s i = datamap ?s j"
    using fds_okD(5) [OF ok] k unfolding simps by auto
  ultimately show ?thesis unfolding fds_ok_def by blast
qed

lemma dup_Some:
  assumes ok: "fds_ok X s" and c: "dup i j s = Some (r, s')"
  obtains (bad) "s' = s" "r < 0" "snd (fd_lookup i s) = None"
  | (failed) q s1 where "close_fd j s = Some (q, s1)" "0 \<le> j" "j < int MAXFD" "s' = unmap_data (nat j) (unmap_fd (nat j) s1)" "r < 0"
  | (dupped) q s1 k p where "close_fd j s = Some (q, s1)" "i = int k" "k < MAXFD" "fdmap s1 k = Some p" "0 \<le> j" "j < int MAXFD" "r = j"
      "s' = dup_maps k (nat j) p s1"
proof (cases "snd (fd_lookup i s)")
  case None
  then have "s' = s" "r < 0" using c by (auto simp: dup_def fd_lookup_def split: if_splits)
  then show ?thesis using bad None by blast
next
  case (Some k)
  then have look: "fd_lookup i s = (0, Some k)" "i = int k" "k < MAXFD" using fd_lookup_Some [of i s _ k] by (metis prod.collapse)+
  obtain q s1 where s1: "close_fd j s = Some (q, s1)" "0 \<le> j" "j < int MAXFD"
    using c look(1) by (auto simp: dup_def Option.bind_eq_Some_conv assert_that_def split: if_splits)
  note ok1 = close_fd_ok(1) [OF ok s1(1)]
  have typed: "fdmap s1 k = None \<Longrightarrow> datamap s1 k = None" using fds_okD(3) [OF ok1, of k] by (simp add: fd_typed_def)
  have d: "datamap s1 (nat j) = None" using close_fd_ok(2) [OF ok s1(1)] s1(2,3) by blast
  have c1: "(let (r, s2) = (case datamap s1 k of None \<Rightarrow> (0, s1) | Some n \<Rightarrow> if map_ret s1 < 0 then (map_ret s1, s1) else (0, map_data (nat j) n s1))
      in if r < 0 then dup_err r (nat j) s2
         else (case fdmap s2 k of None \<Rightarrow> dup_err (- E_INVAL) (nat j) s2
               | Some p \<Rightarrow> if map_ret s2 < 0 then dup_err (map_ret s2) (nat j) s2 else Some (j, map_fd (nat j) p s2))) = Some (r, s')"
    using c look(1) s1 by (simp add: dup_def Let_def)
  show ?thesis
  proof (cases "map_ret s1 < 0 \<or> fdmap s1 k = None")
    case True
    then have "s' = unmap_data (nat j) (unmap_fd (nat j) s1)" "r < 0"
      using c1 typed by (auto simp: dup_err_def split: option.splits if_splits)
    then show ?thesis using failed s1 by blast
  next
    case False
    then obtain p where p: "fdmap s1 k = Some p" by auto
    then have "s' = dup_maps k (nat j) p s1" "r = j"
      using False c1 by (auto simp: dup_maps_def map_data_new [OF d] split: option.splits)
    then show ?thesis using dupped s1 look(2,3) p by blast
  qed
qed

lemma dup_ok:
  assumes ok: "fds_ok X s" and c: "dup i j s = Some (r, s')"
  shows "fds_ok X s'"
  using ok c
proof (cases rule: dup_Some)
  case bad
  then show ?thesis using ok by simp
next
  case (failed q s1)
  then show ?thesis using unmap_fds_ok [OF close_fd_ok(1) [OF ok failed(1)]] by simp
next
  case (dupped q s1 k p)
  then show ?thesis using dup_maps_ok [OF close_fd_ok(1) [OF ok dupped(1)]] close_fd_ok(2) [OF ok dupped(1)] by simp
qed

section \<open>Making descriptors\<close>

lemma fd_alloc_Some: "fd_alloc s = (r, Some k) \<Longrightarrow> r = 0 \<and> k < MAXFD \<and> fdmap s k = None \<and> (\<forall>j < k. fdmap s j \<noteq> None)"
  using find_upt_Some [of "\<lambda>i. fdmap s i = None" MAXFD k] by (auto simp: fd_alloc_def split: option.splits)

lemma fd_alloc_None: "fd_alloc s = (r, None) \<Longrightarrow> r = - E_MAX_OPEN \<and> (\<forall>j < MAXFD. fdmap s j \<noteq> None)"
  by (auto simp: fd_alloc_def find_None_iff split: option.splits)

lemma serve_open_err: "serve_open path omode t = Some ((r, None), t') \<Longrightarrow> r < 0"
  using openfile_alloc_cases [of t]
  by (auto simp: serve_open_def open_finish_def Let_def Option.bind_eq_Some_conv split: if_splits)

lemma open_fd_Some:
  assumes ok: "fds_ok X s" and c: "open_fd path mode s = Some (r, s')"
  obtains (failed) "r < 0" "same_fds s s'" "nslog s' = nslog s" "netsrv s' = netsrv s"
  | (opened) k i d t where "r = int k" "k < MAXFD" "fdmap s k = None" "serve (Req_open path mode) (srv s) = Some ((0, Some i, d), t)"
      "s' = map_fd k (Srv i) (s\<lparr>srv := t\<rparr>)"
proof (cases "length path \<ge> 1024 \<or> snd (fd_alloc s) = None")
  case True
  then have "r < 0 \<and> s' = s" using c fd_alloc_None [of s] by (cases "fd_alloc s") (auto simp: open_fd_def split: if_splits)
  then show ?thesis using failed same_fds_refl [OF ok] by simp
next
  case False
  then obtain k where k: "fd_alloc s = (0, Some k)" "k < MAXFD" "fdmap s k = None" using fd_alloc_Some [of s] by (cases "fd_alloc s") auto
  then obtain q d s1 where q: "fsipc (Req_open path mode) (Some k) s = Some ((q, d), s1)"
    using c False by (auto simp: open_fd_def Option.bind_eq_Some_conv)
  then obtain pg t where sv: "serve (Req_open path mode) (srv s) = Some ((q, pg, d), t)"
    by (auto simp: fsipc_def Option.bind_eq_Some_conv Let_def split: option.splits)
  show ?thesis
  proof (cases pg)
    case None
    have "q < 0" using sv None serve_open_err [of path mode "srv s"] by (auto simp: serve_def)
    moreover have s1: "s1 = s\<lparr>srv := t\<rparr>" using q sv None by (simp add: fsipc_def)
    moreover have "fd_close k False s1 = Some (0, s1)" using k by (simp add: fd_close_def fd_lookup_def s1)
    ultimately have "r < 0" "s' = s\<lparr>srv := t\<rparr>" using c False k(1) q by (auto simp: open_fd_def)
    then show ?thesis using failed serve_same_fds [OF ok sv] by simp
  next
    case (Some i)
    have q0: "q = 0" using serve_frame [OF sv] Some by blast
    have "s1 = map_fd k (Srv i) (s\<lparr>srv := t\<rparr>)" using q sv Some by (auto simp: fsipc_def Option.bind_eq_Some_conv assert_that_def split: if_splits)
    then have "r = int k" "s' = map_fd k (Srv i) (s\<lparr>srv := t\<rparr>)" using c False k(1) q q0 by (auto simp: open_fd_def)
    then show ?thesis using opened k(2,3) sv Some q0 by blast
  qed
qed

lemma add_fd_ok:
  assumes ok: "fds_ok X s" and k: "fdmap s k = None" and s': "refs_ok X s'" "srv s' = srv s \<or> (serv_ok (srv s') \<and> (\<forall>i. file_fd i (srv s') = file_fd i (srv s)))"
    "fdmap s' = (fdmap s)(k \<mapsto> p)" "datamap s' = datamap s" "fd_typed k s'" "\<forall>m. p \<noteq> Own m \<longrightarrow> ofd s' m = ofd s m"
    and new: "\<forall>n. p = Own n \<longrightarrow> (\<forall>j. fdmap s j \<noteq> Some p \<and> datamap s j \<noteq> Some n)"
  shows "fds_ok X s'"
proof -
  have "fd_typed j s'" for j
  proof (cases "j = k")
    case False
    have "\<forall>m. fdmap s j = Some (Own m) \<longrightarrow> p \<noteq> Own m" using new by auto
    then show ?thesis using fds_okD(3) [OF ok, of j] False s'(2,6)
      by (auto simp: fd_typed_def s'(3,4) split: option.splits upage.splits)
  qed (use s'(5) in simp)
  moreover have "\<forall>i j m. fdmap s' i = Some (Own m) \<longrightarrow> datamap s' j \<noteq> Some m"
    using fds_okD(4) [OF ok] new by (auto simp: s'(3,4))
  moreover have "\<forall>i j m. fdmap s' i = Some (Own m) \<and> fdmap s' j = Some (Own m) \<longrightarrow> datamap s' i = datamap s' j"
    using fds_okD(5) [OF ok] new by (auto simp: s'(3,4))
  ultimately show ?thesis using s'(1,2) fds_okD(2) [OF ok] unfolding fds_ok_def by metis
qed

lemma open_fd_ok:
  assumes ok: "fds_ok X s" and c: "open_fd path mode s = Some (r, s')"
  shows "fds_ok X s'"
  using ok c
proof (cases rule: open_fd_Some)
  case failed
  then show ?thesis using same_fds_ok [OF ok] by simp
next
  case (opened k i d t)
  let ?s = "s\<lparr>srv := t\<rparr>"
  have ok1: "fds_ok X ?s" using same_fds_ok [OF ok serve_same_fds [OF ok opened(4)]] .
  have i: "fdref (srv s) i \<le> 1" "fdref t i = 1" "file_fd i t" using serve_frame [OF opened(4)] by simp_all
  have "fdmap s j \<noteq> Some (Srv i)" for j using fds_okD(7) [OF ok, of j i] i(1) by auto
  then have "mcount (fdmap s) (Srv i) = 0" by (simp add: mcount_def)
  then have r: "refs_ok X s'" using map_fd_srv_refs [OF fds_okD(1) [OF ok1], of k i] opened i(2) by simp
  have s': "s' = addref (Srv i) (?s\<lparr>fdmap := (fdmap s)(k \<mapsto> Srv i)\<rparr>)" using opened(3,5) map_fd_new [of ?s k] by simp
  have f: "file_fd j (srv s') = file_fd j t" for j by (simp add: s' file_fd_def)
  have d: "datamap s k = None" using fds_okD(3) [OF ok, of k] opened(3) by (simp add: fd_typed_def)
  show ?thesis
  proof (rule add_fd_ok [where p = "Srv i", OF ok1 _ r])
    show "srv s' = srv ?s \<or> serv_ok (srv s') \<and> (\<forall>i. file_fd i (srv s') = file_fd i (srv ?s))"
      using fds_okD(2) [OF ok1] f by (simp add: s' serv_ok_def)
    show "fd_typed k s'" using f i(3) d by (simp add: s' fd_typed_def)
  qed (use opened(3) in \<open>simp_all add: s'\<close>)
qed

text \<open>A new page at a free place of one of the two areas.\<close>

definition new_at :: "(nat \<Rightarrow> nat) \<Rightarrow> uproc \<Rightarrow> nat \<Rightarrow> uproc \<Rightarrow> bool" where
  "new_at X s n s1 \<longleftrightarrow> refs_ok X s1 \<and> n \<notin> set (ofree s1) \<and> ofree s = n # ofree s1 \<and> (\<forall>j. fdmap s j \<noteq> Some (Own n) \<and> datamap s j \<noteq> Some n) \<and>
     ofd s1 = (ofd s)(n := zero_fd) \<and> opipe s1 = (opipe s)(n := zero_pipe) \<and> srv s1 = srv s \<and> map_ret s1 = map_ret s \<and>
     ucons s1 = ucons s \<and> netsrv s1 = netsrv s \<and> nslog s1 = nslog s \<and> oref s1 = (oref s)(n := 1) \<and> oref s n = 0"

lemma new_page_at:
  assumes r: "refs_ok X s" and n: "new_page s = Some (r, n, s1)" "\<not> r < 0"
  obtains ns where "refs_ok X s1" "n \<notin> set ns" "ofree s = n # ns" "\<forall>j. fdmap s j \<noteq> Some (Own n) \<and> datamap s j \<noteq> Some n" "oref s n = 0"
    "s1 = s\<lparr>ofree := ns, ofd := (ofd s)(n := zero_fd), opipe := (opipe s)(n := zero_pipe)\<rparr>"
proof -
  obtain ns where ns: "ofree s = n # ns" using n by (auto simp: new_page_def split: if_splits list.splits)
  then have "n \<in> set (ofree s)" by simp
  then have "oref s n = 0" using r unfolding refs_ok_def by blast
  moreover have s1: "s1 = s\<lparr>ofree := ns, ofd := (ofd s)(n := zero_fd), opipe := (opipe s)(n := zero_pipe)\<rparr>"
    using ns new_page_ok(2) [OF r n(1,2), of 0] by simp
  moreover have "refs_ok X s1" using new_page_ok(2) [OF r n(1,2), of 0] by blast
  moreover have "distinct (ofree s)" using r by (simp add: refs_ok_def)
  then have "n \<notin> set ns" using ns by simp
  moreover have "\<forall>j. fdmap s j \<noteq> Some (Own n) \<and> datamap s j \<noteq> Some n" using new_page_ok(2) [OF r n(1,2)] by blast
  ultimately show ?thesis using that [of ns] ns by blast
qed

lemma alloc_fd_spec:
  assumes r: "refs_ok X s" and k: "fdmap s k = None" "k < MAXFD" and a: "alloc_fd k s = Some (r, s1)"
  shows "r < 0 \<and> s1 = s \<or> r = 0 \<and> (\<exists>n. new_at X s n s1 \<and> fdmap s1 = (fdmap s)(k \<mapsto> Own n) \<and> datamap s1 = datamap s)"
proof -
  obtain q n s0 where q: "new_page s = Some (q, n, s0)" "(r, s1) = (if q < 0 then (q, s0) else (0, map_fd k (Own n) s0))"
    using a by (auto simp: alloc_fd_def Option.bind_eq_Some_conv)
  show ?thesis
  proof (cases "q < 0")
    case True
    then show ?thesis using q new_page_ok(1) [OF r q(1)] by simp
  next
    case False
    obtain ns where p: "refs_ok X s0" "n \<notin> set ns" "ofree s = n # ns" "\<forall>j. fdmap s j \<noteq> Some (Own n) \<and> datamap s j \<noteq> Some n" "oref s n = 0"
      "s0 = s\<lparr>ofree := ns, ofd := (ofd s)(n := zero_fd), opipe := (opipe s)(n := zero_pipe)\<rparr>" by (rule new_page_at [OF r q(1) False])
    have fr: "n \<notin> set (ofree s0)" using p(2,6) by simp
    have s1: "s1 = map_fd k (Own n) s0" "r = 0" "fdmap s0 k = None" using q(2) False k(1) p(6) by simp_all
    have "refs_ok X s1" using map_fd_own_refs [OF p(1) s1(3) k(2) fr] s1(1) by simp
    then have "new_at X s n s1 \<and> fdmap s1 = (fdmap s)(k \<mapsto> Own n) \<and> datamap s1 = datamap s"
      using p s1 by (auto simp: new_at_def map_fd_new addref_def)
    then show ?thesis using s1(2) by blast
  qed
qed

lemma alloc_data_spec:
  assumes r: "refs_ok X s" and k: "datamap s k = None" "k < MAXFD" and a: "alloc_data k s = Some (r, s1)"
  shows "r < 0 \<and> s1 = s \<or> r = 0 \<and> (\<exists>n. new_at X s n s1 \<and> fdmap s1 = fdmap s \<and> datamap s1 = (datamap s)(k \<mapsto> n))"
proof -
  obtain q n s0 where q: "new_page s = Some (q, n, s0)" "(r, s1) = (if q < 0 then (q, s0) else (0, map_data k n s0))"
    using a by (auto simp: alloc_data_def Option.bind_eq_Some_conv)
  show ?thesis
  proof (cases "q < 0")
    case True
    then show ?thesis using q new_page_ok(1) [OF r q(1)] by simp
  next
    case False
    obtain ns where p: "refs_ok X s0" "n \<notin> set ns" "ofree s = n # ns" "\<forall>j. fdmap s j \<noteq> Some (Own n) \<and> datamap s j \<noteq> Some n" "oref s n = 0"
      "s0 = s\<lparr>ofree := ns, ofd := (ofd s)(n := zero_fd), opipe := (opipe s)(n := zero_pipe)\<rparr>" by (rule new_page_at [OF r q(1) False])
    have fr: "n \<notin> set (ofree s0)" using p(2,6) by simp
    have s1: "s1 = map_data k n s0" "r = 0" "datamap s0 k = None" using q(2) False k(1) p(6) by simp_all
    have "refs_ok X s1" using map_data_refs [OF p(1) s1(3) k(2) fr] s1(1) by simp
    then have "new_at X s n s1 \<and> fdmap s1 = fdmap s \<and> datamap s1 = (datamap s)(k \<mapsto> n)"
      using p s1 by (auto simp: new_at_def map_data_new addref_def)
    then show ?thesis using s1(2) by blast
  qed
qed

lemma back_ok:
  assumes ok: "fds_ok X s" and s': "refs_ok X s'" "fdmap s' = fdmap s" "datamap s' = datamap s" "srv s' = srv s"
    and keep: "\<And>k n. fdmap s k = Some (Own n) \<Longrightarrow> ofd s' n = ofd s n"
  shows "fds_ok X s'"
proof -
  have "fd_typed j s'" for j
    using fds_okD(3) [OF ok, of j] keep by (auto simp: fd_typed_def s'(2-4) split: option.splits upage.splits)
  then show ?thesis using ok s'(1) unfolding fds_ok_def s'(2-4) by blast
qed

lemma set_fd_refs [simp]: "refs_ok X (set_fd k f s) = refs_ok X s"
  by (auto simp: refs_ok_def set_fd_def upd_fd_def split: option.splits upage.splits)

lemma set_fd_simps [simp]:
  "fdmap (set_fd k f s) = fdmap s" "datamap (set_fd k f s) = datamap s" "oref (set_fd k f s) = oref s" "ofree (set_fd k f s) = ofree s"
  "opipe (set_fd k f s) = opipe s" "nslog (set_fd k f s) = nslog s" "netsrv (set_fd k f s) = netsrv s" "map_ret (set_fd k f s) = map_ret s"
  by (auto simp: set_fd_def split: option.splits upage.splits)

lemma set_fd_own: "fdmap s k = Some (Own n) \<Longrightarrow> set_fd k f s = s\<lparr>ofd := (ofd s)(n := f (ofd s n))\<rparr>"
  by (simp add: set_fd_def)

lemma alloc_dev_ok:
  assumes ok: "fds_ok X s" and k: "fdmap s k = None" "k < MAXFD" and a: "alloc_fd k s = Some (r, s1)" "\<not> r < 0"
    and f: "\<And>fd. fd_dev_id (f fd) \<in> {dev_id devcons, dev_id devsock}"
  shows "fds_ok X (set_fd k f s1)"
proof -
  obtain n where n: "new_at X s n s1" "fdmap s1 = (fdmap s)(k \<mapsto> Own n)" "datamap s1 = datamap s"
    using alloc_fd_spec [OF fds_okD(1) [OF ok] k a(1)] a(2) by auto
  have d: "datamap s k = None" using fds_okD(3) [OF ok, of k] k(1) by (simp add: fd_typed_def)
  show ?thesis
  proof (rule add_fd_ok [where p = "Own n", OF ok k(1)])
    show "refs_ok X (set_fd k f s1)" using n(1) by (simp add: new_at_def)
    show "fd_typed k (set_fd k f s1)" using n(2,3) d f by (auto simp: fd_typed_def set_fd_own)
  qed (use n in \<open>auto simp: new_at_def set_fd_own\<close>)
qed

lemma opencons_ok:
  assumes ok: "fds_ok X s" and c: "opencons s = Some (r, s')"
  shows "fds_ok X s'"
proof (cases "fd_alloc s")
  case (Pair q o')
  show ?thesis
  proof (cases o')
    case (Some k)
    note k = fd_alloc_Some [OF Pair [unfolded Some]]
    obtain r1 s1 where a: "alloc_fd k s = Some (r1, s1)" using c Pair Some by (auto simp: opencons_def Option.bind_eq_Some_conv)
    show ?thesis
    proof (cases "r1 < 0")
      case True
      then show ?thesis using alloc_fd_spec [OF fds_okD(1) [OF ok] _ _ a] k c Pair Some a ok by (auto simp: opencons_def)
    next
      case False
      then have s': "s' = set_fd k (\<lambda>fd. fd\<lparr>fd_dev_id := dev_id devcons, fd_omode := 2\<rparr>) s1" using c Pair Some a by (simp add: opencons_def)
      show ?thesis unfolding s' using k by (intro alloc_dev_ok [OF ok _ _ a False]) simp_all
    qed
  qed (use c Pair ok in \<open>simp add: opencons_def\<close>)
qed

lemma nslog_ok [simp]: "fds_ok X (s\<lparr>nslog := l\<rparr>) = fds_ok X s"
  by (simp add: fds_ok_def refs_ok_def fd_typed_def cong: option.case_cong upage.case_cong)

lemma nsipc_ret_eq: "nsipc_ret q s = Some (sint (ns_r (netsrv s (q # nslog s))), s\<lparr>nslog := q # nslog s\<rparr>)"
  by (simp add: nsipc_ret_def nsipc_def)

lemma alloc_sockfd_Some:
  assumes ok: "fds_ok X s" and c: "alloc_sockfd i s = Some (r, s')"
  obtains (failed) "r < 0" "s' = s\<lparr>nslog := Ns_close (word_of_int i) # nslog s\<rparr>"
  | (made) k n s1 where "r = int k" "k < MAXFD" "fdmap s k = None" "new_at X s n s1" "fdmap s1 = (fdmap s)(k \<mapsto> Own n)"
      "datamap s1 = datamap s" "fds_ok X s'"
      "s' = s1\<lparr>ofd := (ofd s1)(n := zero_fd\<lparr>fd_dev_id := dev_id devsock, fd_omode := 2, fd_file_id := word_of_int i\<rparr>)\<rparr>"
proof (cases "fd_alloc s")
  case (Pair q o')
  show ?thesis
  proof (cases o')
    case None
    then show ?thesis using failed c Pair fd_alloc_None [of s q] by (simp add: alloc_sockfd_def nsipc_close_def nsipc_ret_eq)
  next
    case (Some k)
    note k = fd_alloc_Some [OF Pair [unfolded Some]]
    obtain r1 s1 where a: "alloc_fd k s = Some (r1, s1)" using c Pair Some by (auto simp: alloc_sockfd_def Option.bind_eq_Some_conv)
    have spec: "r1 < 0 \<and> s1 = s \<or> r1 = 0 \<and> (\<exists>n. new_at X s n s1 \<and> fdmap s1 = (fdmap s)(k \<mapsto> Own n) \<and> datamap s1 = datamap s)"
      using k by (intro alloc_fd_spec [OF fds_okD(1) [OF ok] _ _ a]) simp_all
    show ?thesis
    proof (cases "r1 < 0")
      case True
      then show ?thesis using failed spec c Pair Some a by (simp add: alloc_sockfd_def nsipc_close_def nsipc_ret_eq)
    next
      case False
      then obtain n where n: "new_at X s n s1" "fdmap s1 = (fdmap s)(k \<mapsto> Own n)" "datamap s1 = datamap s" using spec by auto
      let ?f = "\<lambda>fd. fd\<lparr>fd_dev_id := dev_id devsock, fd_omode := 2, fd_file_id := word_of_int i\<rparr>"
      have s': "s' = set_fd k ?f s1" "r = int k" using False c Pair Some a by (simp_all add: alloc_sockfd_def)
      have 1: "fds_ok X s'" unfolding s' using k by (intro alloc_dev_ok [OF ok _ _ a False]) simp_all
      have 2: "s' = s1\<lparr>ofd := (ofd s1)(n := ?f zero_fd)\<rparr>" using n(1,2) s'(1) by (simp add: set_fd_own new_at_def)
      show ?thesis using k by (intro made [OF s'(2) _ _ n 1 2]) simp_all
    qed
  qed
qed

lemma alloc_sockfd_ok:
  assumes ok: "fds_ok X s" and c: "alloc_sockfd i s = Some (r, s')"
  shows "fds_ok X s'"
  using ok c
proof (cases rule: alloc_sockfd_Some)
  case failed
  show ?thesis unfolding failed(2) using ok by simp
qed

lemma nsipc_accept_eq: "nsipc_accept i l s = Some (x, s') \<Longrightarrow> s' = s\<lparr>nslog := Ns_accept i l # nslog s\<rparr>"
  by (auto simp: nsipc_accept_def nsipc_def split: if_splits)

lemma socket_ok: "fds_ok X s \<Longrightarrow> socket d ty pr s = Some (r, s') \<Longrightarrow> fds_ok X s'"
  by (auto simp: socket_def nsipc_socket_def nsipc_ret_eq split: if_splits dest: alloc_sockfd_ok [rotated])

lemma accept_ok:
  assumes ok: "fds_ok X s" and c: "accept i l s = Some (x, s')"
  shows "fds_ok X s'"
proof -
  have "alloc_sockfd q s1 = Some (z, s') \<Longrightarrow> fds_ok X s1 \<Longrightarrow> fds_ok X s'" for q s1 z using alloc_sockfd_ok by blast
  then show ?thesis using ok c by (auto simp: accept_def Let_def Option.bind_eq_Some_conv dest!: nsipc_accept_eq split: if_splits)
qed

lemma with_sock_ok:
  assumes ok: "fds_ok X s" and c: "with_sock i f s = Some (r, s')" and f: "\<And>j r t. f j s = Some (r, t) \<Longrightarrow> \<exists>q. t = s\<lparr>nslog := q # nslog s\<rparr>"
  shows "fds_ok X s'"
  using ok c f by (fastforce simp: with_sock_def Let_def split: if_splits)

lemma sock_calls_ok:
  assumes "fds_ok X s"
  shows "bind_sock i name s = Some (r, s') \<Longrightarrow> fds_ok X s'" "connect i name s = Some (r, s') \<Longrightarrow> fds_ok X s'"
    "listen i b s = Some (r, s') \<Longrightarrow> fds_ok X s'" "shutdown i h s = Some (r, s') \<Longrightarrow> fds_ok X s'"
  unfolding bind_sock_def connect_def listen_def shutdown_def
  by (erule with_sock_ok [OF assms], auto simp: nsipc_bind_def nsipc_connect_def nsipc_listen_def nsipc_shutdown_def
      nsipc_ret_eq Option.bind_eq_Some_conv)+

lemma alloc_map_ret:
  "alloc_fd k s = Some (r, s1) \<Longrightarrow> r < 0 \<longleftrightarrow> map_ret s < 0" "alloc_data k s = Some (r, s1) \<Longrightarrow> r < 0 \<longleftrightarrow> map_ret s < 0"
  by (auto simp: alloc_fd_def alloc_data_def new_page_def Option.bind_eq_Some_conv split: if_splits list.splits)

lemma undo_fd:
  assumes ok: "fds_ok X s" and k: "fdmap s k = None" and n: "new_at X s n s1" "fdmap s1 = (fdmap s)(k \<mapsto> Own n)" "datamap s1 = datamap s"
  shows "fds_ok X (unmap_fd k s1)"
proof (rule back_ok [OF ok])
  show "refs_ok X (unmap_fd k s1)" using n(1) by (simp add: new_at_def unmap_fd_refs)
  show "srv (unmap_fd k s1) = srv s" using n by (simp add: unmap_fd_def unref_def new_at_def)
  show "ofd (unmap_fd k s1) m = ofd s m" if "fdmap s j = Some (Own m)" for j m using n(1) that by (auto simp: new_at_def)
  show "fdmap (unmap_fd k s1) = fdmap s" using n(2) k by (simp add: fun_upd_idem)
qed (use n(3) in simp)

lemma pipe_fd_Some:
  assumes ok: "fds_ok X s" and c: "pipe_fd s = Some ((r, res), s')"
  obtains (failed) "r < 0" "res = None" "fds_ok X s'" "fdmap s' = fdmap s" "datamap s' = datamap s" "nslog s' = nslog s"
      "s' = s \<or> (\<exists>a n s1. new_at X s n s1 \<and> fdmap s1 = (fdmap s)(a \<mapsto> Own n) \<and> s' = unmap_fd a s1)"
  | (made) a b s1 s2 s3 n0 n1 d where "r = 0" "res = Some (a, b)" "a < MAXFD" "b < MAXFD" "a \<noteq> b" "fdmap s a = None" "fdmap s b = None"
      "new_at X s n0 s1" "new_at X s1 n1 s2" "new_at X s2 d s3"
      "fdmap s1 = (fdmap s)(a \<mapsto> Own n0)" "datamap s1 = datamap s" "fdmap s2 = (fdmap s1)(b \<mapsto> Own n1)" "datamap s2 = datamap s"
      "fdmap s3 = fdmap s2" "datamap s3 = (datamap s)(a \<mapsto> d)" "refs_ok X (map_data b d s3)"
      "s' = set_fd b (\<lambda>fd. fd\<lparr>fd_dev_id := dev_id devpipe, fd_omode := 1\<rparr>)
         (set_fd a (\<lambda>fd. fd\<lparr>fd_dev_id := dev_id devpipe, fd_omode := 0\<rparr>) (map_data b d s3))"
proof (cases "fd_alloc s")
  case (Pair q o')
  show ?thesis
  proof (cases o')
    case None
    then show ?thesis using failed ok c Pair fd_alloc_None [of s q] by (simp add: pipe_fd_def)
  next
    case (Some a)
    have a: "a < MAXFD" "fdmap s a = None" using fd_alloc_Some [OF Pair [unfolded Some]] by blast+
    have da: "datamap s a = None" using fds_okD(3) [OF ok, of a] a(2) by (simp add: fd_typed_def)
    obtain r1 s1 where a1: "alloc_fd a s = Some (r1, s1)" using c Pair Some by (auto simp: pipe_fd_def Option.bind_eq_Some_conv)
    note spec1 = alloc_fd_spec [OF fds_okD(1) [OF ok] a(2,1) a1]
    show ?thesis
    proof (cases "r1 < 0")
      case True
      then show ?thesis using failed spec1 ok c Pair Some a1 by (simp add: pipe_fd_def)
    next
      case r1: False
      then obtain n0 where n0: "new_at X s n0 s1" "fdmap s1 = (fdmap s)(a \<mapsto> Own n0)" "datamap s1 = datamap s" using spec1 by auto
      have ref1: "refs_ok X s1" using n0(1) by (simp add: new_at_def)
      have mr: "\<not> map_ret s < 0" "map_ret s1 = map_ret s" using r1 alloc_map_ret(1) [OF a1] n0(1) by (simp_all add: new_at_def)
      show ?thesis
      proof (cases "fd_alloc s1")
        case pair1: (Pair q1 o1)
        show ?thesis
        proof (cases o1)
          case None
          then have "r < 0" "res = None" "s' = unmap_fd a s1"
            using c Pair Some a1 r1 pair1 fd_alloc_None [of s1 q1] by (simp_all add: pipe_fd_def)
          moreover have "s' = s \<or> (\<exists>a n s1. new_at X s n s1 \<and> fdmap s1 = (fdmap s)(a \<mapsto> Own n) \<and> s' = unmap_fd a s1)"
            using n0(1,2) calculation(3) by blast
          ultimately show ?thesis using failed undo_fd [OF ok a(2) n0] n0 a(2) by (simp add: fun_upd_idem new_at_def)
        next
          case b': (Some b)
          have b: "b < MAXFD" "fdmap s1 b = None" using fd_alloc_Some [OF pair1 [unfolded b']] by blast+
          have ab: "a \<noteq> b" "fdmap s b = None" using b(2) n0(2) by (auto split: if_splits)
          have db: "datamap s b = None" using fds_okD(3) [OF ok, of b] ab(2) by (simp add: fd_typed_def)
          obtain r2 s2 where a2: "alloc_fd b s1 = Some (r2, s2)"
            using c Pair Some a1 r1 pair1 b' by (auto simp: pipe_fd_def Option.bind_eq_Some_conv)
          have r2: "\<not> r2 < 0" using alloc_map_ret(1) [OF a2] mr by simp
          obtain n1 where n1: "new_at X s1 n1 s2" "fdmap s2 = (fdmap s1)(b \<mapsto> Own n1)" "datamap s2 = datamap s"
            using alloc_fd_spec [OF ref1 b(2,1) a2] r2 n0(3) by auto
          have pd: "pipe_data a b s2 = Some ((r, res), s')" using c Pair Some a1 r1 pair1 b' a2 r2 by (simp add: pipe_fd_def)
          then obtain r3 s3 where a3: "alloc_data a s2 = Some (r3, s3)" by (auto simp: pipe_data_def Option.bind_eq_Some_conv)
          have mr2: "\<not> map_ret s2 < 0" using mr n1(1) by (simp add: new_at_def)
          have r3: "\<not> r3 < 0" using alloc_map_ret(2) [OF a3] mr2 by simp
          have ref2: "refs_ok X s2" "datamap s2 a = None" using n1 da by (simp_all add: new_at_def)
          obtain d where d: "new_at X s2 d s3" "fdmap s3 = fdmap s2" "datamap s3 = (datamap s)(a \<mapsto> d)"
            using alloc_data_spec [OF ref2 a(1) a3] r3 n1(3) by auto
          have ref3: "refs_ok X s3" "datamap s3 b = None" "d \<notin> set (ofree s3)" "\<not> map_ret s3 < 0" using d db ab(1) mr2 by (simp_all add: new_at_def)
          have s': "r = 0" "res = Some (a, b)" "s' = set_fd b (\<lambda>fd. fd\<lparr>fd_dev_id := dev_id devpipe, fd_omode := 1\<rparr>)
              (set_fd a (\<lambda>fd. fd\<lparr>fd_dev_id := dev_id devpipe, fd_omode := 0\<rparr>) (map_data b d s3))"
            using pd a3 r3 d(3) ref3(4) by (simp_all add: pipe_data_def)
          show ?thesis
            by (rule made [OF s'(1,2) a(1) b(1) ab(1) a(2) ab(2) n0(1) n1(1) d(1) n0(2,3) n1(2,3) d(2,3)
                  map_data_refs [OF ref3(1,2) b(1) ref3(3)] s'(3)])
        qed
      qed
    qed
  qed
qed

definition pipe_fd_page :: "u32 \<Rightarrow> Fd" where
  "pipe_fd_page m = zero_fd\<lparr>fd_dev_id := dev_id devpipe, fd_omode := m\<rparr>"

text \<open>The state after a successful \<open>pipe\<close>.\<close>

definition piped :: "uproc \<Rightarrow> nat \<Rightarrow> nat \<Rightarrow> nat \<Rightarrow> nat \<Rightarrow> nat \<Rightarrow> uproc \<Rightarrow> bool" where
  "piped s a b n0 n1 d s' \<longleftrightarrow> a < MAXFD \<and> b < MAXFD \<and> a \<noteq> b \<and> fdmap s a = None \<and> fdmap s b = None \<and>
     n0 \<noteq> n1 \<and> d \<noteq> n0 \<and> d \<noteq> n1 \<and> (\<forall>n \<in> {n0, n1, d}. oref s n = 0 \<and> (\<forall>j. fdmap s j \<noteq> Some (Own n) \<and> datamap s j \<noteq> Some n)) \<and>
     fdmap s' = (fdmap s)(a \<mapsto> Own n0, b \<mapsto> Own n1) \<and> datamap s' = (datamap s)(a \<mapsto> d, b \<mapsto> d) \<and>
     ofd s' = (ofd s)(n0 := pipe_fd_page 0, n1 := pipe_fd_page 1, d := zero_fd) \<and> opipe s' d = zero_pipe \<and> srv s' = srv s \<and>
     oref s' = (oref s)(n0 := 1, n1 := 1, d := 2) \<and> nslog s' = nslog s \<and> netsrv s' = netsrv s \<and> map_ret s' = map_ret s"

lemma pipe_fd_cases:
  assumes ok: "fds_ok X s" and c: "pipe_fd s = Some ((r, res), s')"
  obtains (failed) "r < 0" "res = None" "fds_ok X s'" "fdmap s' = fdmap s" "datamap s' = datamap s" "nslog s' = nslog s"
      "s' = s \<or> (\<exists>a n s1. new_at X s n s1 \<and> fdmap s1 = (fdmap s)(a \<mapsto> Own n) \<and> s' = unmap_fd a s1)"
  | (made) a b n0 n1 d where "r = 0" "res = Some (a, b)" "piped s a b n0 n1 d s'" "refs_ok X s'"
  using ok c
proof (cases rule: pipe_fd_Some)
  case (made a b s1 s2 s3 n0 n1 d)
  note m = made
  have s1: "\<forall>j. fdmap s j \<noteq> Some (Own n0) \<and> datamap s j \<noteq> Some n0" "ofd s1 = (ofd s)(n0 := zero_fd)" "srv s1 = srv s" "oref s1 = (oref s)(n0 := 1)" "oref s n0 = 0"
    using m(8) by (auto simp: new_at_def)
  have s2: "\<forall>j. fdmap s1 j \<noteq> Some (Own n1) \<and> datamap s1 j \<noteq> Some n1" "ofd s2 = (ofd s1)(n1 := zero_fd)" "srv s2 = srv s1" "oref s2 = (oref s1)(n1 := 1)" "oref s1 n1 = 0"
    using m(9) by (auto simp: new_at_def)
  have s3: "\<forall>j. fdmap s2 j \<noteq> Some (Own d) \<and> datamap s2 j \<noteq> Some d" "ofd s3 = (ofd s2)(d := zero_fd)" "opipe s3 d = zero_pipe" "srv s3 = srv s2" "oref s3 = (oref s2)(d := 1)" "oref s2 d = 0"
    using m(10) by (auto simp: new_at_def)
  have ne: "n0 \<noteq> n1" "d \<noteq> n0" "d \<noteq> n1" using s2(1) s3(1) m(5,11,13) by (auto split: if_splits)
  have f1: "fdmap s j \<noteq> Some (Own n1) \<and> datamap s j \<noteq> Some n1" for j
    using s2(1) [rule_format, of j] m(6,11,12) by (auto split: if_splits)
  have f2: "fdmap s j \<noteq> Some (Own d) \<and> datamap s j \<noteq> Some d" for j
    using s3(1) [rule_format, of j] m(6,7,11,13,14) by (auto split: if_splits)
  have db: "datamap s b = None" using fds_okD(3) [OF ok, of b] m(7) by (simp add: fd_typed_def)
  have "datamap s3 b = None" using m(5,16) db by simp
  note md = map_data_new [OF this, of d]
  have maps: "fdmap (map_data b d s3) a = Some (Own n0)" "fdmap (map_data b d s3) b = Some (Own n1)"
    using m(5,11,13,15) by (simp_all add: md)
  have s': "s' = (map_data b d s3)\<lparr>ofd := (ofd s3)(n0 := pipe_fd_page 0, n1 := pipe_fd_page 1)\<rparr>"
    using m(18) maps ne s1(2) s2(2) s3(2) by (simp add: set_fd_def pipe_fd_page_def md)
  have "ofd s' = (ofd s)(n0 := pipe_fd_page 0, n1 := pipe_fd_page 1, d := zero_fd)" using s' s1(2) s2(2) s3(2) ne by (auto simp: fun_eq_iff)
  moreover have "oref s' = (oref s)(n0 := 1, n1 := 1, d := 2)" using s' s1(4) s2(4) s3(5) ne by (auto simp: fun_eq_iff md addref_def)
  moreover have "nslog s' = nslog s" "netsrv s' = netsrv s" "map_ret s' = map_ret s" "srv s' = srv s" "opipe s' d = zero_pipe"
    using s' m(8-10) s1(3) s2(3) s3(3,4) by (simp_all add: md addref_def new_at_def)
  moreover have "fdmap s' = (fdmap s)(a \<mapsto> Own n0, b \<mapsto> Own n1)" "datamap s' = (datamap s)(a \<mapsto> d, b \<mapsto> d)"
    using s' m(11,13,15,16) by (simp_all add: md)
  moreover have "oref s n0 = 0" "oref s n1 = 0" "oref s d = 0" using s1(4,5) s2(4,5) s3(6) ne by auto
  ultimately have "piped s a b n0 n1 d s'" using m(3-7) ne s1(1) f1 f2 by (simp add: piped_def)
  moreover have "refs_ok X s'" using m(17) by (simp add: m(18))
  ultimately show ?thesis using that(2) m(1,2) by blast
qed (use that(1) in blast)

lemma piped_ok:
  assumes ok: "fds_ok X s" and p: "piped s a b n0 n1 d s'" and r: "refs_ok X s'"
  shows "fds_ok X s'"
proof -
  have p': "a < MAXFD" "b < MAXFD" "a \<noteq> b" "fdmap s a = None" "fdmap s b = None" "n0 \<noteq> n1" "d \<noteq> n0" "d \<noteq> n1"
    "\<forall>n \<in> {n0, n1, d}. \<forall>j. fdmap s j \<noteq> Some (Own n) \<and> datamap s j \<noteq> Some n" "srv s' = srv s" using p by (simp_all add: piped_def)
  have q: "fdmap s' = (fdmap s)(a \<mapsto> Own n0, b \<mapsto> Own n1)" "datamap s' = (datamap s)(a \<mapsto> d, b \<mapsto> d)"
     "ofd s' = (ofd s)(n0 := pipe_fd_page 0, n1 := pipe_fd_page 1, d := zero_fd)" using p by (simp_all add: piped_def)
  have "fd_typed j s'" for j
  proof (cases "j = a \<or> j = b")
    case True
    then show ?thesis using p'(3,6-8) by (auto simp: fd_typed_def q pipe_fd_page_def)
  next
    case False
    have "ofd s' m = ofd s m" if "fdmap s j = Some (Own m)" for m using that p'(9) by (auto simp: q)
    then show ?thesis using fds_okD(3) [OF ok, of j] False by (auto simp: fd_typed_def q(1,2) p'(10) split: option.splits upage.splits)
  qed
  moreover have "datamap s' j \<noteq> Some m" if "fdmap s' i = Some (Own m)" for i j m
    using that fds_okD(4) [OF ok, of i m j] p'(7-9) by (auto simp: q split: if_splits)
  moreover have "datamap s' i = datamap s' j" if "fdmap s' i = Some (Own m)" "fdmap s' j = Some (Own m)" for i j m
    using that fds_okD(5) [OF ok, of i m j] p'(3-9) by (auto simp: q split: if_splits)
  ultimately show ?thesis using r fds_okD(2) [OF ok] p'(10) unfolding fds_ok_def by metis
qed

lemma pipe_fd_ok:
  assumes ok: "fds_ok X s" and c: "pipe_fd s = Some (x, s')"
  shows "fds_ok X s'"
proof (cases x)
  case (Pair r res)
  show ?thesis using ok c [unfolded Pair]
  proof (cases rule: pipe_fd_cases)
    case (made a b n0 n1 d)
    then show ?thesis using piped_ok [OF ok] by blast
  qed
qed

end
