(* ===== verification/Fd_Calls.thy ===== *)
theory Fd_Calls
  imports Fd_Props
begin

unbundle bit_operations_syntax

text \<open>
  Sequences of calls on descriptors, and what they show for files, pipes and sockets.
\<close>

section \<open>Sequences of calls\<close>

datatype ucall =
    C_open "u8 list" u32
  | C_close int
  | C_close_all
  | C_dup int int
  | C_read int nat
  | C_readn int nat
  | C_write int "u8 list"
  | C_seek int u32
  | C_ftruncate int u32
  | C_fstat int Stat
  | C_stat "u8 list" Stat
  | C_sync
  | C_opencons
  | C_getchar
  | C_pipe
  | C_socket u32 u32 u32
  | C_accept int u32
  | C_bind int "u8 list"
  | C_connect int "u8 list"
  | C_listen int u32
  | C_shutdown int u32

definition ucall_exec :: "ucall \<Rightarrow> uproc \<Rightarrow> uproc option" where
  "ucall_exec c s = (case c of
      C_open path mode \<Rightarrow> map_option snd (open_fd path mode s)
    | C_close i \<Rightarrow> map_option snd (close_fd i s)
    | C_close_all \<Rightarrow> close_all s
    | C_dup i j \<Rightarrow> map_option snd (dup i j s)
    | C_read i n \<Rightarrow> map_option snd (read_fd i n s)
    | C_readn i n \<Rightarrow> map_option snd (readn i n s)
    | C_write i xs \<Rightarrow> map_option snd (write_fd i xs s)
    | C_seek i x \<Rightarrow> Some (snd (seek i x s))
    | C_ftruncate i x \<Rightarrow> map_option snd (ftruncate i x s)
    | C_fstat i st \<Rightarrow> map_option snd (fstat i st s)
    | C_stat path st \<Rightarrow> map_option snd (stat path st s)
    | C_sync \<Rightarrow> map_option snd (sync_fs s)
    | C_opencons \<Rightarrow> map_option snd (opencons s)
    | C_getchar \<Rightarrow> map_option snd (ugetchar s)
    | C_pipe \<Rightarrow> map_option snd (pipe_fd s)
    | C_socket d ty p \<Rightarrow> map_option snd (socket d ty p s)
    | C_accept i l \<Rightarrow> map_option snd (accept i l s)
    | C_bind i a \<Rightarrow> map_option snd (bind_sock i a s)
    | C_connect i a \<Rightarrow> map_option snd (connect i a s)
    | C_listen i b \<Rightarrow> map_option snd (listen i b s)
    | C_shutdown i h \<Rightarrow> map_option snd (shutdown i h s))"

text \<open>\<open>dup\<close> with a number outside of the table is not a call of these sequences: it maps pages over the data
  pages of other descriptors (lemma \<open>INDEX2FD_data\<close>).\<close>

definition dup_in_range :: "ucall \<Rightarrow> bool" where
  "dup_in_range c \<longleftrightarrow> (case c of C_dup _ newfdnum \<Rightarrow> 0 \<le> newfdnum \<and> newfdnum < int MAXFD | _ \<Rightarrow> True)"

inductive uruns :: "uproc \<Rightarrow> uproc \<Rightarrow> bool" where
  init: "uruns s s"
| call: "uruns s t \<Longrightarrow> dup_in_range c \<Longrightarrow> ucall_exec c t = Some u \<Longrightarrow> uruns s u"

lemma uruns_one: "ucall_exec c s = Some t \<Longrightarrow> dup_in_range c \<Longrightarrow> uruns s t"
  using uruns.intros by blast

lemma read_fd_same:
  assumes ok: "fds_ok X s" and c: "read_fd i n s = Some (x, s')"
  shows "same_fds s s'"
  using c same_fds_refl [OF ok]
  by (auto simp: read_fd_def split: prod.splits option.splits if_splits intro: dev_read_same [OF ok dev_lookup_in])

lemma write_fd_same:
  assumes ok: "fds_ok X s" and c: "write_fd i xs s = Some (x, s')"
  shows "same_fds s s'"
  using c same_fds_refl [OF ok]
  by (auto simp: write_fd_def split: prod.splits option.splits if_splits intro: dev_write_same [OF ok dev_lookup_in])

lemma ftruncate_same:
  assumes ok: "fds_ok X s" and c: "ftruncate i n s = Some (x, s')"
  shows "same_fds s s'"
  using c same_fds_refl [OF ok]
  by (auto simp: ftruncate_def split: prod.splits option.splits if_splits intro: dev_trunc_same [OF ok dev_lookup_in])

lemma fstat_same:
  assumes ok: "fds_ok X s" and c: "fstat i st s = Some (x, s')"
  shows "same_fds s s'"
  using c same_fds_refl [OF ok]
  by (auto simp: fstat_def split: prod.splits option.splits if_splits intro: dev_stat_same [OF ok dev_lookup_in])

lemma seek_same: "fds_ok X s \<Longrightarrow> same_fds s (snd (seek i x s))"
  by (auto simp: seek_def set_fd_same same_fds_refl split: prod.splits option.splits)

lemma readn_loop_ok: "readn_loop i n acc s = Some (x, s') \<Longrightarrow> fds_ok X s \<Longrightarrow> fds_ok X s'"
proof (induction i n acc s rule: readn_loop.induct)
  case (1 i n acc s)
  note c = "1.prems"(1) [unfolded readn_loop.simps [of i n acc s]]
  show ?case
  proof (cases "n = 0")
    case False
    then obtain m xs s1 where r: "read_fd i n s = Some ((m, xs), s1)" using c by (auto simp: Option.bind_eq_Some_conv)
    note ok1 = same_fds_ok [OF "1.prems"(2) read_fd_same [OF "1.prems"(2) r]]
    show ?thesis using "1.IH" [OF False r refl refl] c False r ok1 by (auto split: if_splits)
  qed (use c "1.prems"(2) in simp)
qed

lemma stat_ok:
  assumes ok: "fds_ok X s" and c: "stat path st s = Some (x, s')"
  shows "fds_ok X s'"
proof -
  obtain fd s1 where o: "open_fd path 0 s = Some (fd, s1)" using c by (auto simp: stat_def Option.bind_eq_Some_conv)
  note ok1 = open_fd_ok [OF ok o]
  show ?thesis
  proof (cases "fd < 0")
    case False
    then obtain r s2 where f: "fstat fd st s1 = Some (r, s2)" using c o by (auto simp: stat_def Option.bind_eq_Some_conv)
    note ok2 = same_fds_ok [OF ok1 fstat_same [OF ok1 f]]
    show ?thesis using c o f False close_fd_ok(1) [OF ok2] by (auto simp: stat_def Option.bind_eq_Some_conv)
  qed (use c o ok1 in \<open>simp add: stat_def\<close>)
qed

lemma ugetchar_same: "fds_ok X s \<Longrightarrow> ugetchar s = Some (x, s') \<Longrightarrow> same_fds s s'"
  by (auto simp: ugetchar_def Option.bind_eq_Some_conv split: if_splits dest: read_fd_same)

lemma sync_same: "fds_ok X s \<Longrightarrow> sync_fs s = Some (x, s') \<Longrightarrow> same_fds s s'"
  by (auto simp: sync_fs_def Option.bind_eq_Some_conv intro: fsipc_same)

lemma ucall_exec_ok:
  assumes ok: "fds_ok X s" and c: "ucall_exec c s = Some s'"
  shows "fds_ok X s'"
proof (cases c)
  case (C_seek i x)
  then show ?thesis using c same_fds_ok [OF ok seek_same [OF ok]] by (auto simp: ucall_exec_def)
qed (use c ok in \<open>auto simp: ucall_exec_def close_all_def readn_def
    intro: open_fd_ok close_fd_ok(1) close_list_ok dup_ok stat_ok opencons_ok pipe_fd_ok socket_ok accept_ok sock_calls_ok readn_loop_ok
      same_fds_ok [OF _ read_fd_same] same_fds_ok [OF _ write_fd_same] same_fds_ok [OF _ ftruncate_same] same_fds_ok [OF _ fstat_same]
      same_fds_ok [OF _ ugetchar_same] same_fds_ok [OF _ sync_same]\<close>)

lemma uruns_ok: "uruns s s' \<Longrightarrow> fds_ok X s \<Longrightarrow> fds_ok X s'"
  by (induction rule: uruns.induct) (auto intro: ucall_exec_ok)

section \<open>Descriptors are well-typed\<close>

lemma file_slot:
  assumes ok: "fds_ok X s" and k: "fdmap s k = Some (Srv i)"
  shows "k < MAXFD" "datamap s k = None" "fd_dev_id (fdpage (srv s) i) = dev_id devfile" "o_file (opentab (srv s) i) \<noteq> None"
    "openfile_lookup (fd_file_id (fdpage (srv s) i)) (srv s) = (0, Some i)"
proof -
  show "k < MAXFD" "datamap s k = None" using fds_okD(3,8) [OF ok, of k] k by (simp_all add: fd_typed_def)
  have f: "file_fd i (srv s)" using fds_okD(6) [OF ok k] .
  then show "fd_dev_id (fdpage (srv s) i) = dev_id devfile" "o_file (opentab (srv s) i) \<noteq> None" by (simp_all add: file_fd_def)
  have "unat (o_fileid (opentab (srv s) i)) mod MAXOPEN = i" using fds_okD(2) [OF ok] f by (simp add: serv_ok_def file_fd_def)
  then show "openfile_lookup (fd_file_id (fdpage (srv s) i)) (srv s) = (0, Some i)"
    using f fds_okD(7) [OF ok k] by (simp add: openfile_lookup_def file_fd_def)
qed

text \<open>C3. The table of descriptors is well-typed after every sequence of calls in which \<^verbatim>\<open>dup\<close> names a descriptor of
  the table (0 to 31). Whatever calls on files, the console, pipes and sockets an environment makes, with whatever
  other arguments and whether they
  succeed or not: the type invariant of the table holds, with the references that other environments
  hold unchanged; every open descriptor has a device in the table of devices; a file descriptor
  names a file that the server has open, in the very slot whose page the descriptor maps; and exactly
  the pipes have a data page. The reference count of each page of the environment is the number of its mappings plus
  the references of other environments, and that of a page of the server is larger than the number of its mappings
  here.\<close>

theorem descriptors_typed:
  assumes run: "uruns s0 s" and ok: "fds_ok X s0"
  shows "fds_ok X s \<and> (\<forall>k p. fdmap s k = Some p \<longrightarrow> k < MAXFD \<and>
     (\<exists>dev. dev_lookup (fd_dev_id (get_fd k s)) = (0, Some dev) \<and> (dev_id dev = dev_id devpipe \<longleftrightarrow> datamap s k \<noteq> None) \<and>
        (dev_id dev = dev_id devfile \<longrightarrow> (\<exists>i. p = Srv i \<and> openfile_lookup (fd_file_id (get_fd k s)) (srv s) = (0, Some i) \<and>
           o_file (opentab (srv s) i) \<noteq> None))))"
proof -
  note ok' = uruns_ok [OF run ok]
  have ids: "dev_id devfile \<noteq> dev_id devpipe" "dev_id devcons \<noteq> dev_id devpipe" "dev_id devsock \<noteq> dev_id devpipe"
    "dev_id devpipe \<noteq> dev_id devfile" "dev_id devcons \<noteq> dev_id devfile" "dev_id devsock \<noteq> dev_id devfile"
    by (simp_all add: devfile_def devpipe_def devcons_def devsock_def)
  have "\<exists>dev. dev_lookup (fd_dev_id (get_fd k s)) = (0, Some dev) \<and> (dev_id dev = dev_id devpipe \<longleftrightarrow> datamap s k \<noteq> None) \<and>
        (dev_id dev = dev_id devfile \<longrightarrow> (\<exists>i. p = Srv i \<and> openfile_lookup (fd_file_id (get_fd k s)) (srv s) = (0, Some i) \<and>
           o_file (opentab (srv s) i) \<noteq> None))" if k: "fdmap s k = Some p" for k p
    using ok' k
  proof (cases rule: fd_device)
    case (a_file i)
    then show ?thesis using file_slot [OF ok', of k i] k ids by (auto simp: dev_lookup_simps get_fd_def)
  qed (auto simp: dev_lookup_simps ids)
  then show ?thesis using ok' fds_okD(8) [OF ok'] by blast
qed

text \<open>An environment with no descriptors, the pages 5 to 8, and the example file server.\<close>

definition demo_proc :: uproc where
  "demo_proc = \<lparr>fdmap = (\<lambda>_. None), datamap = (\<lambda>_. None), ofd = (\<lambda>_. zero_fd), opipe = (\<lambda>_. zero_pipe), oref = (\<lambda>_. 0), ofree = [5, 6, 7, 8],
     map_ret = 0, srv = demo_open,
     ucons = \<lparr>buf = \<lambda>_. 0, rpos = 0, wpos = 0, serial_exists = False, uart_in = [], uart_out = []\<rparr>,
     netsrv = (\<lambda>_. \<lparr>ns_r = 4, ns_buf = \<lambda>_. 0, ns_addrlen = 0\<rparr>), nslog = []\<rparr>"

lemma demo_proc_ok: "fds_ok (\<lambda>_. 0) demo_proc"
  using demo_open_facts(1) by (simp add: fds_ok_def refs_ok_def demo_proc_def mcount_def fd_typed_def)

lemma find_upt_first: "0 < n \<Longrightarrow> P 0 \<Longrightarrow> List.find P [0..<n] = Some 0"
  by (simp add: upt_conv_Cons)

lemma demo_socket: "socket 1 2 3 demo_proc = Some (0, demo_proc\<lparr>fdmap := [0 \<mapsto> Own 5], oref := (\<lambda>_. 0)(5 := 1), ofree := [6, 7, 8],
   ofd := (\<lambda>_. zero_fd)(5 := \<lparr>fd_dev_id = 0x73, fd_offset = 0, fd_omode = 2, fd_file_id = 4\<rparr>), nslog := [Ns_socket 1 2 3]\<rparr>)"
  by (simp add: socket_def nsipc_socket_def nsipc_ret_def nsipc_def alloc_sockfd_def fd_alloc_def find_upt_first alloc_fd_def new_page_def
      map_fd_def unmap_fd_def addref_def set_fd_def demo_proc_def zero_fd_def devsock_def fun_upd_idem)

theorem descriptors_typed_witness:
  "\<exists>s. uruns demo_proc s \<and> fdmap s 0 = Some (Own 5) \<and> fds_ok (\<lambda>_. 0) s \<and> (\<exists>dev. dev_lookup (fd_dev_id (get_fd 0 s)) = (0, Some dev))"
proof -
  obtain s where s: "socket 1 2 3 demo_proc = Some (0, s)" "fdmap s 0 = Some (Own 5)" using demo_socket by simp
  have "ucall_exec (C_socket 1 2 3) demo_proc = Some s" using s(1) by (simp add: ucall_exec_def)
  then have "uruns demo_proc s" by (rule uruns_one) (simp add: dup_in_range_def)
  from descriptors_typed [OF this demo_proc_ok] this s(2) show ?thesis by blast
qed

section \<open>Pipes\<close>

lemma fd_isclosed_iff:
  assumes ok: "fds_ok X s" and k: "fdmap s k = Some (Own n)" "datamap s k = Some d" and X: "X n \<le> X d"
  shows "fd_isclosed k s \<longleftrightarrow> X n = X d \<and> (\<forall>j. datamap s j = Some d \<longrightarrow> fdmap s j = Some (Own n))"
proof -
  let ?N = "{j. fdmap s j = Some (Own n)}" and ?D = "{j. datamap s j = Some d}"
  have r: "dom (datamap s) \<subseteq> {..<MAXFD}" "oref s n = mcount (fdmap s) (Own n) + mcount (datamap s) n + X n"
    "oref s d = mcount (fdmap s) (Own d) + mcount (datamap s) d + X d" using fds_okD(1) [OF ok] by (auto simp: refs_ok_def)
  have "mcount (datamap s) n = 0" using fds_okD(4) [OF ok k(1)] by (simp add: mcount_def)
  moreover have none: "fdmap s j \<noteq> Some (Own d)" for j using fds_okD(4) [OF ok, of j d k] k(2) by blast
  then have "mcount (fdmap s) (Own d) = 0" by (simp add: mcount_def)
  ultimately have "fd_isclosed k s \<longleftrightarrow> card ?N + X n = card ?D + X d"
    using r(2,3) k by (simp add: fd_isclosed_def pipeisclosed_def pageref_fd_def pageref_data_def page_refs_def mcount_def)
  moreover have fin: "finite ?D" using r(1) by (auto intro: finite_subset [of _ "{..<MAXFD}"])
  moreover have sub: "?N \<subseteq> ?D" using fds_okD(5) [OF ok k(1)] k(2) by auto
  moreover have "card ?N = card ?D \<longleftrightarrow> ?N = ?D" using card_subset_eq [OF fin sub] by auto
  ultimately have "fd_isclosed k s \<longleftrightarrow> X n = X d \<and> ?N = ?D" using X card_mono [OF fin sub] by auto
  then show ?thesis using sub by auto
qed

text \<open>C13. The test for a closed pipe is exact. The test compares the reference counts of the page of a
  descriptor and of the data page of its pipe. After every sequence of calls, in which \<^verbatim>\<open>dup\<close> names a descriptor of
  the table (0 to 31), it says closed just if
  the other end is open nowhere: every descriptor of this environment on that pipe is one for the
  same end, and every reference that other environments hold to the data page goes with one to the
  page of this end.\<close>

theorem pipe_closed_exact:
  assumes run: "uruns s0 s" and ok: "fds_ok X s0" and k: "fdmap s k = Some (Own n)" "datamap s k = Some d" and X: "X n \<le> X d"
  shows "fd_pipeisclosed (int k) s = (if X n = X d \<and> (\<forall>j. datamap s j = Some d \<longrightarrow> fdmap s j = Some (Own n)) then 1 else 0)"
  using fd_isclosed_iff [OF uruns_ok [OF run ok] k X] fds_okD(8) [OF uruns_ok [OF run ok] k(1)] k(1)
  by (simp add: fd_pipeisclosed_def fd_lookup_def)

lemma demo_pipe_fd: "\<exists>s. pipe_fd demo_proc = Some ((0, Some (0, 1)), s) \<and> fdmap s = [0 \<mapsto> Own 5, 1 \<mapsto> Own 6] \<and> datamap s = [0 \<mapsto> 7, 1 \<mapsto> 7]"
  by (simp add: pipe_fd_def fd_alloc_def upt_conv_Cons alloc_fd_def new_page_def map_fd_def unmap_fd_def addref_def demo_proc_def
      pipe_data_def alloc_data_def map_data_def unmap_data_def fun_upd_idem)

theorem pipe_closed_exact_witness:
  "\<exists>s. uruns demo_proc s \<and> fdmap s 0 = Some (Own 5) \<and> datamap s 0 = Some 7 \<and> fd_pipeisclosed 0 s = 0"
proof -
  obtain s where s: "pipe_fd demo_proc = Some ((0, Some (0, 1)), s)" "fdmap s = [0 \<mapsto> Own 5, 1 \<mapsto> Own 6]" "datamap s = [0 \<mapsto> 7, 1 \<mapsto> 7]"
    using demo_pipe_fd by blast
  have "ucall_exec C_pipe demo_proc = Some s" using s(1) by (simp add: ucall_exec_def)
  then have r: "uruns demo_proc s" by (rule uruns_one) (simp add: dup_in_range_def)
  have "fd_pipeisclosed (int 0) s = (if \<forall>j. datamap s j = Some 7 \<longrightarrow> fdmap s j = Some (Own 5) then 1 else 0)"
    using pipe_closed_exact [OF r demo_proc_ok, of 0 5 7] s by simp
  moreover have "\<not> (\<forall>j. datamap s j = Some 7 \<longrightarrow> fdmap s j = Some (Own 5))" using s by (auto intro!: exI [of _ 1])
  ultimately have "fd_pipeisclosed 0 s = 0" by (simp del: not_all)
  moreover have "fdmap s 0 = Some (Own 5)" "datamap s 0 = Some 7" using s by simp_all
  ultimately show ?thesis using r by blast
qed

lemma pipe_write_loop_ok:
  "pipe_inv (length xs + m) p \<Longrightarrow> length (pipe_contents p) + length xs \<le> PIPEBUFSIZ \<Longrightarrow>
    \<exists>p'. pipe_write_loop i closed xs p = Some (int (i + length xs), p') \<and> pipe_inv m p' \<and> pipe_contents p' = pipe_contents p @ xs"
proof (induction xs arbitrary: i p)
  case (Cons x xs)
  have inv: "pipe_inv (Suc (length xs + m)) p" "length (pipe_contents p) < PIPEBUFSIZ" using Cons.prems by simp_all
  obtain q where q: "pipe_put x p = Some q" "pipe_inv (length xs + m) q" "pipe_contents q = pipe_contents p @ [x]" using pq.put_law [OF inv] by blast
  have "\<not> pipe_full p" using pipe_full_contents [OF inv(1)] inv(2) by simp
  moreover have "length (pipe_contents q) + length xs \<le> PIPEBUFSIZ" using q(3) Cons.prems(2) by simp
  ultimately show ?case using Cons.IH [OF q(2), of "Suc i"] q(1,3) by simp
qed simp

lemma pipe_read_loop_ok:
  "pipe_inv m p \<Longrightarrow> length (pipe_contents p) \<le> n \<Longrightarrow> closed \<Longrightarrow>
    \<exists>p'. pipe_read_loop n closed acc p = Some ((int (length acc + length (pipe_contents p)), acc @ pipe_contents p), p') \<and>
      pipe_inv m p' \<and> pipe_contents p' = []"
proof (induction n arbitrary: acc p)
  case (Suc n)
  show ?case
  proof (cases "pipe_contents p")
    case Nil
    then show ?thesis using Suc.prems pipe_empty_contents [OF Suc.prems(1)] by auto
  next
    case (Cons x xs)
    obtain q where q: "pipe_get p = Some (x, q)" "pipe_inv m q" "pipe_contents q = xs" using pq.get_law [OF Suc.prems(1) Cons] by blast
    have "\<not> pipe_empty p" using Cons pipe_empty_contents [OF Suc.prems(1)] by simp
    then show ?thesis using Suc.IH [OF q(2), of "acc @ [x]"] q(1,3) Cons Suc.prems(2,3) by simp
  qed
qed simp

lemma zero_pipe_facts: "m < 2 ^ 31 \<Longrightarrow> pipe_inv m zero_pipe" "pipe_contents zero_pipe = []" "pipe_empty zero_pipe"
  by (simp_all add: pipe_inv_def pipe_contents_def pipe_empty_def zero_pipe_def)

lemma pipe_ends:
  assumes "fdmap s k = Some (Own n)" "k < MAXFD" "datamap s k = Some d" "ofd s n = pipe_fd_page m"
  shows "m AND 3 \<noteq> 1 \<Longrightarrow> read_fd (int k) i s = fd_pipe_read k i s" "m AND 3 \<noteq> 0 \<Longrightarrow> write_fd (int k) xs s = fd_pipe_write k xs s"
proof -
  have l: "fd_lookup (int k) s = (0, Some k)" "get_fd k s = pipe_fd_page m" using assms by (simp_all add: fd_lookup_def get_fd_def)
  have d: "dev_lookup (fd_dev_id (pipe_fd_page m)) = (0, Some devpipe)" "fd_omode (pipe_fd_page m) = m"
    by (simp_all add: pipe_fd_page_def dev_lookup_simps)
  show "m AND 3 \<noteq> 1 \<Longrightarrow> read_fd (int k) i s = fd_pipe_read k i s" by (simp add: read_fd_def l d) (simp add: devpipe_def)
  show "m AND 3 \<noteq> 0 \<Longrightarrow> write_fd (int k) xs s = fd_pipe_write k xs s" by (simp add: write_fd_def l d) (simp add: devpipe_def)
qed

text \<open>Right after \<open>pipe\<close>, with the references of other environments to the three new pages.\<close>

lemma piped_X:
  assumes r: "refs_ok X s'" and p: "piped s a b n0 n1 d s'"
  shows "X n0 = 0" "X d = 0"
proof -
  have q: "a \<noteq> b" "fdmap s' a = Some (Own n0)" "datamap s' a = Some d" "datamap s' b = Some d" "oref s' n0 = 1" "oref s' d = 2" "dom (datamap s') \<subseteq> {..<MAXFD}"
    "dom (fdmap s') \<subseteq> {..<MAXFD}" using p r by (auto simp: piped_def refs_ok_def)
  have c: "oref s' n0 = mcount (fdmap s') (Own n0) + mcount (datamap s') n0 + X n0"
    "oref s' d = mcount (fdmap s') (Own d) + mcount (datamap s') d + X d" using r by (auto simp: refs_ok_def)
  show "X n0 = 0" using mcount_pos [OF q(8) q(2)] q(5) c(1) by simp
  have "finite {j. datamap s' j = Some d}" using q(7) by (auto intro: finite_subset [of _ "{..<MAXFD}"])
  then have "card {a, b} \<le> mcount (datamap s') d" unfolding mcount_def using q(3,4) by (intro card_mono) auto
  then show "X d = 0" using q(1,6) c(2) by simp
qed

text \<open>C16. From the creation of a pipe to the end of the file. A read of a pipe just made by \<open>pipe\<close> waits
  for a writer. Bytes written to its second descriptor, as many as the buffer takes, are read at the
  first one in order, also after the second one has been closed; and then every further read
  returns 0, the end of the file.\<close>

theorem pipe_write_close_read:
  assumes ok: "fds_ok X s" and p: "pipe_fd s = Some ((0, Some (a, b)), s1)" and xs: "length xs \<le> PIPEBUFSIZ" "length xs \<le> n" and m: "0 < m"
  shows "read_fd (int a) m s1 = None \<and>
    (\<exists>s2 s3 s4. write_fd (int b) xs s1 = Some (int (length xs), s2) \<and> close_fd (int b) s2 = Some (0, s3) \<and>
       read_fd (int a) n s3 = Some ((int (length xs), xs), s4) \<and> read_fd (int a) m s4 = Some ((0, []), s4))"
proof -
  obtain n0 n1 d where pd: "piped s a b n0 n1 d s1" "refs_ok X s1" using ok p by (cases rule: pipe_fd_cases) auto
  note ok1 = piped_ok [OF ok pd]
  have q: "a < MAXFD" "b < MAXFD" "a \<noteq> b" "fdmap s1 = (fdmap s)(a \<mapsto> Own n0, b \<mapsto> Own n1)" "datamap s1 = (datamap s)(a \<mapsto> d, b \<mapsto> d)"
    "ofd s1 n0 = pipe_fd_page 0" "ofd s1 n1 = pipe_fd_page 1" "n0 \<noteq> n1" "d \<noteq> n0" "d \<noteq> n1" "opipe s1 d = zero_pipe"
    using pd(1) by (auto simp: piped_def)
  have fresh: "datamap s j \<noteq> Some d" for j using pd(1) by (simp add: piped_def)
  have X: "X n0 = 0" "X d = 0" using piped_X [OF pd(2,1)] .
  have a1: "fdmap s1 a = Some (Own n0)" "datamap s1 a = Some d" and b1: "fdmap s1 b = Some (Own n1)" "datamap s1 b = Some d"
    using q(3-5) by simp_all
  have read: "read_fd (int a) i t = fd_pipe_read a i t" if "fdmap t a = Some (Own n0)" "datamap t a = Some d" "ofd t n0 = pipe_fd_page 0" for i t
    using pipe_ends(1) [OF that(1) q(1) that(2,3)] by simp
  have "\<not> fd_isclosed a s1"
    using fd_isclosed_iff [OF ok1 a1] X b1 q(8) by auto
  then have wait: "read_fd (int a) m s1 = None"
    using read [OF a1 q(6)] m a1(2) q(11) zero_pipe_facts(3) by (cases m) (auto simp: fd_pipe_read_def)
  obtain pp where pp: "pipe_write_loop 0 (fd_isclosed b s1) xs zero_pipe = Some (int (length xs), pp)" "pipe_inv 0 pp" "pipe_contents pp = xs"
    using pipe_write_loop_ok [of xs 0 zero_pipe 0 "fd_isclosed b s1"] zero_pipe_facts xs(1) by auto
  define s2 where "s2 = s1\<lparr>opipe := (opipe s1)(d := pp)\<rparr>"
  have w: "write_fd (int b) xs s1 = Some (int (length xs), s2)"
    using pipe_ends(2) [OF b1(1) q(2) b1(2) q(7)] b1(2) pp(1) q(11) by (simp add: fd_pipe_write_def s2_def)
  note ok2 = same_fds_ok [OF ok1 write_fd_same [OF ok1 w]]
  define s3 where "s3 = unmap_data b (unmap_fd b s2)"
  have "fd_lookup (int b) s2 = (0, Some b)" "get_fd b s2 = pipe_fd_page 1" using b1 q(2,7) by (simp_all add: fd_lookup_def get_fd_def s2_def)
  then have c: "close_fd (int b) s2 = Some (0, s3)"
    by (simp add: close_fd_def fd_close_def pipe_fd_page_def dev_lookup_simps)
      (simp add: devpipe_def devpipe_close_def s3_def unmap_fd_again)
  note ok3 = close_fd_ok(1) [OF ok2 c]
  have a3: "fdmap s3 a = Some (Own n0)" "datamap s3 a = Some d" "ofd s3 n0 = pipe_fd_page 0" "opipe s3 d = pp"
    using a1 q(3,6) by (simp_all add: s3_def s2_def)
  have one: "datamap s3 j = Some d \<Longrightarrow> j = a" for j using fresh q(5) by (auto simp: s3_def s2_def split: if_splits)
  have cl: "fd_isclosed a s3" using fd_isclosed_iff [OF ok3 a3(1,2)] X one a3(1) by auto
  obtain p4 where p4: "pipe_read_loop n True [] pp = Some ((int (length xs), xs), p4)" "pipe_inv 0 p4" "pipe_contents p4 = []"
    using pipe_read_loop_ok [OF pp(2), of n True "[]"] pp(3) xs(2) by auto
  define s4 where "s4 = s3\<lparr>opipe := (opipe s3)(d := p4)\<rparr>"
  have r3: "read_fd (int a) n s3 = Some ((int (length xs), xs), s4)" using read [OF a3(1-3)] a3 cl p4(1) by (simp add: fd_pipe_read_def s4_def)
  have "pipe_read_loop m True [] p4 = Some ((0, []), p4)" using m p4 pipe_empty_contents [OF p4(2)] by (cases m) auto
  moreover have "fd_isclosed a s4 = fd_isclosed a s3"
    by (simp add: fd_isclosed_def pageref_fd_def pageref_data_def page_refs_def s4_def split: option.splits upage.splits)
  ultimately have "read_fd (int a) m s4 = Some ((0, []), s4)"
    using read [of s4 m] a3 cl by (simp add: fd_pipe_read_def s4_def)
  with wait w c r3 show ?thesis by blast
qed

theorem pipe_write_close_read_witness:
  "\<exists>s1 s2 s3 s4. pipe_fd demo_proc = Some ((0, Some (0, 1)), s1) \<and> read_fd 0 1 s1 = None \<and> write_fd 1 [7, 8, 9] s1 = Some (3, s2) \<and>
     close_fd 1 s2 = Some (0, s3) \<and> read_fd 0 5 s3 = Some ((3, [7, 8, 9]), s4) \<and> read_fd 0 1 s4 = Some ((0, []), s4)"
proof -
  obtain s1 where s1: "pipe_fd demo_proc = Some ((0, Some (0, 1)), s1)" using demo_pipe_fd by blast
  from pipe_write_close_read [OF demo_proc_ok s1, of "[7, 8, 9]" 5 1] s1 show ?thesis by auto
qed

section \<open>Files\<close>

lemma serve_other_page:
  assumes "serve req t = Some ((r, pg, d), t')" "\<forall>path omode. req \<noteq> Req_open path omode"
  shows "fd_omode (fdpage t' i) = fd_omode (fdpage t i)" "fd_file_id (fdpage t' i) = fd_file_id (fdpage t i)"
    "fd_dev_id (fdpage t' i) = fd_dev_id (fdpage t i)" "pg = None"
  using assms
  by (cases req; auto simp: serve_def serve_set_size_def serve_read_def serve_write_def serve_stat_def serve_flush_def
      serve_sync_def with_fs_def upd_fd_def Option.bind_eq_Some_conv Let_def split: if_splits prod.splits option.splits)+

lemma file_ends:
  assumes "fdmap s k = Some (Srv i)" "k < MAXFD" "fd_dev_id (fdpage (srv s) i) = dev_id devfile" "fd_omode (fdpage (srv s) i) AND 3 = 2"
  shows "read_fd (int k) n s = devfile_read k n s" "write_fd (int k) xs s = devfile_write k xs s"
proof -
  have l: "fd_lookup (int k) s = (0, Some k)" "get_fd k s = fdpage (srv s) i" using assms by (simp_all add: fd_lookup_def get_fd_def)
  show "read_fd (int k) n s = devfile_read k n s" by (simp add: read_fd_def l assms(3,4) dev_lookup_simps) (simp add: devfile_def)
  show "write_fd (int k) xs s = devfile_write k xs s" by (simp add: write_fd_def l assms(3,4) dev_lookup_simps) (simp add: devfile_def)
qed

lemma fsipc_plain: "serve req (srv s) = Some ((r, None, d), t) \<Longrightarrow> fsipc req dst s = Some ((r, d), s\<lparr>srv := t\<rparr>)"
  by (simp add: fsipc_def)

lemma dup_free:
  assumes "fdmap s k = Some p" "k < MAXFD" "datamap s k = None" "fdmap s j = None" "j < MAXFD" "\<not> map_ret s < 0"
  shows "dup (int k) (int j) s = Some (int j, map_fd j p s)"
proof -
  have "fd_lookup (int k) s = (0, Some k)" "close_fd (int j) s = Some (- E_INVAL, s)" using assms by (simp_all add: fd_lookup_def close_fd_def)
  then show ?thesis using assms by (simp add: dup_def)
qed

text \<open>C15. A duplicate shares the file and its position. Let an environment have a file open for reading and
  writing, and duplicate the descriptor. Bytes written through the first descriptor move the
  position that the second one shows; after a seek through the second descriptor, a read through
  the first one returns exactly these bytes, and both are at the position behind them. The calls go
  through the descriptor layer, the file server and the file system.\<close>

theorem dup_write_seek_read:
  assumes ok: "fds_ok X s" and k: "fdmap s k = Some (Srv i)" and j: "fdmap s j = None" "j < MAXFD" and mr: "\<not> map_ret s < 0"
    and mode: "fd_omode (get_fd k s) AND 3 = 2" and off: "unat (fd_offset (get_fd k s)) = off"
    and f: "o_file (opentab (srv s) i) = Some f" "file_ok f (fsm (srv s))" "0 \<le> f_size f (fsm (srv s))"
    and len: "length xs \<le> 4084" "off + length xs \<le> 1034 * 4096" "(off + length xs) div 4096 \<le> s_nblocks (fsm (srv s))"
      "2 * (length xs div 4096 + 2) \<le> nfree (fsm (srv s))"
  shows "\<exists>s0 s1 s2 s3. dup (int k) (int j) s = Some (int j, s0) \<and> write_fd (int k) xs s0 = Some (int (length xs), s1) \<and>
     unat (fd_offset (get_fd j s1)) = off + length xs \<and> seek (int j) (of_nat off) s1 = (0, s2) \<and>
     read_fd (int k) (length xs) s2 = Some ((int (length xs), xs), s3) \<and>
     get_fd k s3 = get_fd j s3 \<and> unat (fd_offset (get_fd j s3)) = off + length xs \<and> fds_ok X s3"
proof -
  define h where "h = fd_file_id (fdpage (srv s) i)"
  note kk = file_slot [OF ok k]
  define s0 where "s0 = map_fd j (Srv i) s"
  have d: "dup (int k) (int j) s = Some (int j, s0)" unfolding s0_def by (rule dup_free [OF k kk(1,2) j mr])
  note ok0 = dup_ok [OF ok d]
  have "k \<noteq> j" using k j(1) by auto
  then have s0: "fdmap s0 k = Some (Srv i)" "fdmap s0 j = Some (Srv i)" "fdpage (srv s0) = fdpage (srv s)" "opentab (srv s0) = opentab (srv s)"
    "fsm (srv s0) = fsm (srv s)" using k by (simp_all add: s0_def map_fd_new [OF j(1)])
  have g: "get_fd k s = fdpage (srv s) i" using k by (simp add: get_fd_def)
  have look: "openfile_lookup h (srv s0) = (0, Some i)" using file_slot(5) [OF ok0 s0(1)] by (simp add: s0(3) h_def)
  obtain t1 t2 where w: "serve (Req_write h xs) (srv s0) = Some ((int (length xs), None, Ret_none), t1)" "unat (fd_offset (fdpage t1 i)) = off + length xs"
    and r: "serve (Req_read h (length xs)) (upd_fd i (\<lambda>fd. fd\<lparr>fd_offset := of_nat off\<rparr>) t1) = Some ((int (length xs), None, Ret_read xs), t2)"
      "unat (fd_offset (fdpage t2 i)) = off + length xs"
    using serve_write_read_law [OF look, of f off xs] s0 off g f len by auto
  define s1 where "s1 = s0\<lparr>srv := t1\<rparr>"
  define s2 where "s2 = s1\<lparr>srv := upd_fd i (\<lambda>fd. fd\<lparr>fd_offset := of_nat off\<rparr>) t1\<rparr>"
  define s3 where "s3 = s2\<lparr>srv := t2\<rparr>"
  have maps: "fdmap t k = Some (Srv i) \<and> fdmap t j = Some (Srv i)" if "t \<in> {s0, s1, s2, s3}" for t
    using that s0(1,2) by (auto simp: s1_def s2_def s3_def)
  have pg1: "fd_omode (fdpage t1 i) = fd_omode (fdpage (srv s) i)" "fd_file_id (fdpage t1 i) = h" "fd_dev_id (fdpage t1 i) = dev_id devfile"
    using serve_other_page [OF w(1)] kk(3) s0(3) by (simp_all add: h_def)
  have 1: "write_fd (int k) xs s0 = Some (int (length xs), s1)"
    using file_ends(2) [OF s0(1) kk(1)] s0(1,3) kk(3) mode g len(1) fsipc_plain [OF w(1)] by (simp add: devfile_write_def get_fd_def s1_def h_def)
  have 2: "seek (int j) (of_nat off) s1 = (0, s2)" using maps [of s1] j(2) by (simp add: seek_def fd_lookup_def set_fd_def s2_def) (simp add: s1_def)
  have fp: "fdpage (srv s2) i = (fdpage t1 i)\<lparr>fd_offset := of_nat off\<rparr>" by (simp add: s2_def upd_fd_def)
  have r2: "fsipc (Req_read h (length xs)) None s2 = Some ((int (length xs), Ret_read xs), s3)"
    unfolding s3_def by (rule fsipc_plain) (simp add: r(1) s2_def)
  have 3: "read_fd (int k) (length xs) s2 = Some ((int (length xs), xs), s3)"
    using file_ends(1) [of s2 k i] maps [of s2] kk(1) fp pg1 mode g len(1) r2 by (simp add: devfile_read_def get_fd_def)
  note ok1 = same_fds_ok [OF ok0 write_fd_same [OF ok0 1]]
  have ok2: "fds_ok X s2" using same_fds_ok [OF ok1 seek_same [OF ok1, of "int j" "of_nat off"]] 2 by simp
  have "fds_ok X s3" using same_fds_ok [OF ok2 read_fd_same [OF ok2 3]] .
  moreover have "get_fd j s1 = fdpage t1 i" "get_fd j s3 = fdpage t2 i" "get_fd k s3 = fdpage t2 i"
    using maps [of s1] maps [of s3] by (simp_all add: get_fd_def s1_def s3_def)
  ultimately show ?thesis using d 1 2 3 w(2) r(2) by auto
qed

text \<open>The example environment with the file of the example server open for reading and writing.\<close>

definition demo_file_proc :: uproc where
  "demo_file_proc = demo_proc\<lparr>fdmap := [0 \<mapsto> Srv 3],
     srv := upd_fd 3 (\<lambda>fd. fd\<lparr>fd_dev_id := 0x66, fd_omode := 2, fd_file_id := 3\<rparr>) demo_open\<rparr>"

lemma demo_file_proc_ok: "fds_ok (\<lambda>_. 0) demo_file_proc"
proof -
  have "fdref demo_open 3 = 2" by (simp add: demo_open_def upd_fd_def upd_open_def)
  moreover have "o_fileid (opentab demo_open 3) = 3" using demo_open_facts(2) by (auto simp: openfile_lookup_def split: if_splits)
  moreover have "mcount [0 \<mapsto> Srv 3] (Srv 3) = Suc 0" "mcount [0 \<mapsto> Srv 3] (Own n) = 0" for n by (simp_all add: mcount_def)
  moreover have "mcount (\<lambda>_. None) n = 0" for n :: nat by (simp add: mcount_def)
  ultimately show ?thesis using demo_open_facts(1,3)
    by (auto simp: fds_ok_def refs_ok_def demo_file_proc_def demo_proc_def fd_typed_def file_fd_def upd_fd_def serv_ok_def devfile_def split: if_splits)
qed

theorem dup_write_seek_read_witness:
  "\<exists>s0 s1 s2 s3. dup 0 1 demo_file_proc = Some (1, s0) \<and> write_fd 0 [7, 8, 9] s0 = Some (3, s1) \<and> seek 1 5000 s1 = (0, s2) \<and>
     read_fd 0 3 s2 = Some ((3, [7, 8, 9]), s3)"
proof -
  let ?t = "srv demo_file_proc"
  have t: "fsm ?t = demo_disk" "o_file (opentab ?t 3) = Some (3, 0)" "fd_omode (get_fd 0 demo_file_proc) AND 3 = 2"
    "unat (fd_offset (get_fd 0 demo_file_proc)) = 5000"
    using demo_open_facts by (simp_all add: demo_file_proc_def upd_fd_def get_fd_def)
  have m: "fdmap demo_file_proc 0 = Some (Srv 3)" "fdmap demo_file_proc 1 = None" "\<not> map_ret demo_file_proc < 0"
    by (simp_all add: demo_file_proc_def demo_proc_def)
  have "file_ok (3, 0) (fsm ?t)" "0 \<le> f_size (3, 0) (fsm ?t)" "(5000 + length [7, 8, 9 :: u8]) div 4096 \<le> s_nblocks (fsm ?t)"
    "2 * (length [7, 8, 9 :: u8] div 4096 + 2) \<le> nfree (fsm ?t)" by (simp_all add: t(1) demo_disk_ok demo_disk_facts)
  from dup_write_seek_read [OF demo_file_proc_ok m(1,2) _ m(3) t(3,4,2) this(1,2) _ _ this(3,4)]
  show ?thesis by (auto simp: numeral_3_eq_3)
qed

end
