(* ===== verification/Fd_Sockets.thy ===== *)
theory Fd_Sockets
  imports Fd_Calls
begin

text \<open>
  Sockets do not leak: the network server has a socket open just as long as there is a descriptor for it.
\<close>

section \<open>What the server was told\<close>

definition makes_sock :: "Nsipc \<Rightarrow> bool" where
  "makes_sock q = (case q of Ns_socket _ _ _ \<Rightarrow> True | Ns_accept _ _ \<Rightarrow> True | _ \<Rightarrow> False)"

text \<open>How many sockets with a given number the server handed out, and how often it was told to close it.\<close>

primrec socks_made :: "(Nsipc list \<Rightarrow> nsret) \<Rightarrow> u32 \<Rightarrow> Nsipc list \<Rightarrow> nat" where
  "socks_made sv i [] = 0"
| "socks_made sv i (q # qs) =
     (if makes_sock q \<and> 0 \<le> sint (ns_r (sv (q # qs))) \<and> ns_r (sv (q # qs)) = i then 1 else 0) + socks_made sv i qs"

primrec socks_closed :: "u32 \<Rightarrow> Nsipc list \<Rightarrow> nat" where
  "socks_closed i [] = 0"
| "socks_closed i (q # qs) = (if q = Ns_close i then 1 else 0) + socks_closed i qs"

definition sock_page :: "uproc \<Rightarrow> u32 \<Rightarrow> nat \<Rightarrow> bool" where
  "sock_page s i n \<longleftrightarrow> 0 < oref s n \<and> fd_dev_id (ofd s n) = dev_id devsock \<and> fd_file_id (ofd s n) = i"

definition no_sock_data :: "uproc \<Rightarrow> bool" where
  "no_sock_data s \<longleftrightarrow> finite {n. 0 < oref s n} \<and> (\<forall>k d. datamap s k = Some d \<longrightarrow> fd_dev_id (ofd s d) \<noteq> dev_id devsock)"

definition socks_ok :: "uproc \<Rightarrow> bool" where
  "socks_ok s \<longleftrightarrow> no_sock_data s \<and>
     (\<forall>i. socks_made (netsrv s) i (nslog s) = socks_closed i (nslog s) + card {n. sock_page s i n})"

section \<open>Calls that neither make nor close a socket\<close>

definition log_quiet :: "uproc \<Rightarrow> uproc \<Rightarrow> bool" where
  "log_quiet s s' \<longleftrightarrow> netsrv s' = netsrv s \<and>
     (\<forall>i. socks_made (netsrv s) i (nslog s') = socks_made (netsrv s) i (nslog s) \<and> socks_closed i (nslog s') = socks_closed i (nslog s))"

definition quiet :: "uproc \<Rightarrow> uproc \<Rightarrow> bool" where
  "quiet s s' \<longleftrightarrow> log_quiet s s' \<and> (no_sock_data s \<longrightarrow> no_sock_data s') \<and> (\<forall>i n. sock_page s' i n = sock_page s i n)"

lemma log_quiet_simps [simp]: "log_quiet s s"
  "log_quiet s (s\<lparr>nslog := q # nslog s\<rparr>) \<longleftrightarrow> (\<forall>i. (makes_sock q \<longrightarrow> \<not> (0 \<le> sint (ns_r (netsrv s (q # nslog s))) \<and> ns_r (netsrv s (q # nslog s)) = i)) \<and> q \<noteq> Ns_close i)"
  by (auto simp: log_quiet_def)

lemma log_quiet_eq: "nslog s' = nslog s \<Longrightarrow> netsrv s' = netsrv s \<Longrightarrow> log_quiet s s'"
  by (simp add: log_quiet_def)

lemma quiet_ok: "socks_ok s \<Longrightarrow> quiet s s' \<Longrightarrow> socks_ok s'"
  by (simp add: socks_ok_def quiet_def log_quiet_def)

lemma quiet_refl [simp]: "quiet s s"
  by (simp add: quiet_def)

lemma quiet_trans: "quiet s t \<Longrightarrow> quiet t u \<Longrightarrow> quiet s u"
  by (simp add: quiet_def log_quiet_def)

lemma same_quiet: "same_fds s s' \<Longrightarrow> log_quiet s s' \<Longrightarrow> quiet s s'"
  by (simp add: quiet_def same_fds_def sock_page_def no_sock_data_def)

lemma fsipc_log: "fsipc req None s = Some (x, s') \<Longrightarrow> log_quiet s s'"
  by (auto simp: fsipc_def Let_def Option.bind_eq_Some_conv log_quiet_def split: option.splits)

lemma log_quiet_upd [simp]: "log_quiet s (t\<lparr>ucons := c\<rparr>) = log_quiet s t" "log_quiet s (t\<lparr>opipe := q\<rparr>) = log_quiet s t"
  by (simp_all add: log_quiet_def)

lemma devcons_write_loop_log: "log_quiet s0 (devcons_write_loop xs s) = log_quiet s0 s"
proof (induction xs s rule: devcons_write_loop.induct)
  case (1 xs s)
  then show ?case by (subst devcons_write_loop.simps) (simp add: cputs_def)
qed

lemma dev_log:
  assumes "dev \<in> set devtab"
  shows "dev_read dev = Some f \<Longrightarrow> f k n s = Some (x, s') \<Longrightarrow> log_quiet s s'"
    "dev_write dev = Some g \<Longrightarrow> g k xs s = Some (y, s') \<Longrightarrow> log_quiet s s'"
    "dev_stat dev = Some h \<Longrightarrow> h k st s = Some (z, s') \<Longrightarrow> log_quiet s s'"
    "dev_trunc dev = Some e \<Longrightarrow> e k sz s = Some (w, s') \<Longrightarrow> log_quiet s s'"
  using assms unfolding in_devtab
  by (auto simp: devfile_def devpipe_def devcons_def devsock_def dev_ops Option.bind_eq_Some_conv Let_def makes_sock_def devcons_write_loop_log
      intro: fsipc_log split: if_splits Fsret.splits)

lemma read_fd_quiet: "fds_ok X s \<Longrightarrow> read_fd i n s = Some (x, s') \<Longrightarrow> quiet s s'"
  by (rule same_quiet [OF read_fd_same])
    (auto simp: read_fd_def split: prod.splits option.splits if_splits intro: dev_log(1) [OF dev_lookup_in])

lemma write_fd_quiet: "fds_ok X s \<Longrightarrow> write_fd i xs s = Some (x, s') \<Longrightarrow> quiet s s'"
  by (rule same_quiet [OF write_fd_same])
    (auto simp: write_fd_def split: prod.splits option.splits if_splits intro: dev_log(2) [OF dev_lookup_in])

lemma fstat_quiet: "fds_ok X s \<Longrightarrow> fstat i st s = Some (x, s') \<Longrightarrow> quiet s s'"
  by (rule same_quiet [OF fstat_same])
    (auto simp: fstat_def split: prod.splits option.splits if_splits intro: dev_log(3) [OF dev_lookup_in])

lemma ftruncate_quiet: "fds_ok X s \<Longrightarrow> ftruncate i sz s = Some (x, s') \<Longrightarrow> quiet s s'"
  by (rule same_quiet [OF ftruncate_same])
    (auto simp: ftruncate_def split: prod.splits option.splits if_splits intro: dev_log(4) [OF dev_lookup_in])

lemma seek_quiet: "fds_ok X s \<Longrightarrow> quiet s (snd (seek i x s))"
  by (rule same_quiet [OF seek_same])
    (auto simp: seek_def set_fd_def intro: log_quiet_eq split: prod.splits option.splits upage.splits)

lemma ugetchar_quiet: "fds_ok X s \<Longrightarrow> ugetchar s = Some (x, s') \<Longrightarrow> quiet s s'"
  by (auto simp: ugetchar_def Option.bind_eq_Some_conv split: if_splits dest: read_fd_quiet)

lemma sync_quiet: "fds_ok X s \<Longrightarrow> sync_fs s = Some (x, s') \<Longrightarrow> quiet s s'"
  by (rule same_quiet [OF sync_same]) (auto simp: sync_fs_def Option.bind_eq_Some_conv intro: fsipc_log)

lemma readn_loop_quiet: "readn_loop i n acc s = Some (x, s') \<Longrightarrow> fds_ok X s \<Longrightarrow> quiet s s'"
proof (induction i n acc s rule: readn_loop.induct)
  case (1 i n acc s)
  note c = "1.prems"(1) [unfolded readn_loop.simps [of i n acc s]]
  show ?case
  proof (cases "n = 0")
    case False
    then obtain m xs s1 where r: "read_fd i n s = Some ((m, xs), s1)" using c by (auto simp: Option.bind_eq_Some_conv)
    note ok1 = same_fds_ok [OF "1.prems"(2) read_fd_same [OF "1.prems"(2) r]]
    show ?thesis using "1.IH" [OF False r refl refl] c False r ok1 read_fd_quiet [OF "1.prems"(2) r]
      by (auto split: if_splits intro: quiet_trans)
  qed (use c in simp)
qed

section \<open>Mappings\<close>

lemma unmap_oref:
  "oref (unmap_fd k s) m = oref s m - (if fdmap s k = Some (Own m) then 1 else 0)"
  "oref (unmap_data k s) m = oref s m - (if datamap s k = Some m then 1 else 0)"
  by (auto simp: unmap_fd_def unmap_data_def unref_def split: option.splits upage.splits)

lemma finite_less_refs: "finite {n. 0 < f n} \<Longrightarrow> (\<And>n. g n \<le> f n) \<Longrightarrow> finite {n :: nat. 0 < (g n :: nat)}"
proof -
  assume f: "finite {n. 0 < f n}" and g: "\<And>n. g n \<le> f n"
  have "{n. 0 < g n} \<subseteq> {n. 0 < f n}" using g by (auto intro: less_le_trans)
  then show ?thesis using f finite_subset by blast
qed

lemma sock_page_unmap:
  "sock_page (unmap_fd k s) i m \<longleftrightarrow> sock_page s i m \<and> \<not> (fdmap s k = Some (Own m) \<and> oref s m = 1)"
  by (auto simp: sock_page_def unmap_oref)

lemma unmap_no_sock: "no_sock_data s \<Longrightarrow> no_sock_data (unmap_data k (unmap_fd k s))"
proof -
  assume n: "no_sock_data s"
  let ?s = "unmap_data k (unmap_fd k s)"
  have le: "oref ?s m \<le> oref s m" for m by (simp add: unmap_oref)
  have fin: "finite {m. 0 < oref s m}" using n by (simp add: no_sock_data_def)
  have "finite {m. 0 < oref ?s m}" by (rule finite_less_refs [OF fin le])
  moreover have "\<forall>j d. datamap ?s j = Some d \<longrightarrow> fd_dev_id (ofd ?s d) \<noteq> dev_id devsock" using n by (simp add: no_sock_data_def)
  ultimately show ?thesis by (simp only: no_sock_data_def)
qed

text \<open>Closing a descriptor: a socket page goes with the last reference, and only then the server is told.\<close>

lemma fd_close_socks:
  assumes ok: "fds_ok X s" and so: "socks_ok s" and k: "fdmap s k = Some p" and c: "fd_close k b s = Some (r, s')"
  shows "socks_ok s'"
proof -
  obtain s1 where s1: "same_fds s s1" "s' = unmap_data k (unmap_fd k s1)" "netsrv s1 = netsrv s"
    "nslog s1 = (if fd_dev_id (get_fd k s) = dev_id devsock \<and> pageref_fd k s = 1 then Ns_close (fd_file_id (get_fd k s)) # nslog s else nslog s)"
    by (rule fd_close_Some [OF ok k c])
  have eq: "fdmap s1 = fdmap s" "datamap s1 = datamap s" "oref s1 = oref s" "sock_page s1 = sock_page s"
    and q: "quiet s (s1\<lparr>nslog := nslog s\<rparr>)"
    using s1(1,3) by (auto simp: same_fds_def sock_page_def fun_eq_iff quiet_def log_quiet_def no_sock_data_def)
  have nd: "no_sock_data s1" using q so by (simp add: quiet_def socks_ok_def no_sock_data_def)
  have pg: "sock_page s' i m \<longleftrightarrow> sock_page s i m \<and> \<not> (fdmap s k = Some (Own m) \<and> oref s m = 1)" for i m
  proof -
    have "sock_page s' i m = sock_page (unmap_fd k s1) i m"
      using nd by (cases "datamap s1 k = Some m") (auto simp: s1(2) sock_page_def unmap_oref no_sock_data_def)
    then show ?thesis by (simp add: sock_page_unmap eq)
  qed
  have bal: "socks_made (netsrv s) i (nslog s) = socks_closed i (nslog s) + card {n. sock_page s i n}" for i using so by (simp add: socks_ok_def)
  have s': "netsrv s' = netsrv s" "nslog s' = nslog s1" "no_sock_data s'" using s1(2,3) unmap_no_sock [OF nd] by simp_all
  show ?thesis
  proof (cases "fd_dev_id (get_fd k s) = dev_id devsock \<and> pageref_fd k s = 1")
    case True
    obtain n where n: "p = Own n" using True fds_okD(3) [OF ok, of k] k
      by (cases p) (auto simp: fd_typed_def get_fd_def file_fd_def devfile_def devsock_def)
    let ?h = "fd_file_id (get_fd k s)"
    have r: "oref s n = 1" "get_fd k s = ofd s n" using True k n by (simp_all add: pageref_fd_def page_refs_def get_fd_def)
    have set: "{m. sock_page s' i m} = {m. sock_page s i m} - {n}" for i using pg k n r(1) by auto
    have fin: "finite {m. sock_page s i m}" for i using so by (auto simp: socks_ok_def no_sock_data_def sock_page_def elim!: finite_subset [rotated])
    have "sock_page s ?h n" "i \<noteq> ?h \<Longrightarrow> \<not> sock_page s i n" for i using r True by (auto simp: sock_page_def)
    then have "card {m. sock_page s i m} = (if i = ?h then 1 else 0) + card {m. sock_page s' i m}" for i
      unfolding set using card_Suc_Diff1 [OF fin [of i], of n] by auto
    then show ?thesis using bal s' s1(4) True by (auto simp: socks_ok_def makes_sock_def)
  next
    case False
    have "\<not> (fdmap s k = Some (Own m) \<and> oref s m = 1)" if "sock_page s i m" for i m
      using that False by (auto simp: sock_page_def pageref_fd_def page_refs_def get_fd_def)
    then have "sock_page s' i m = sock_page s i m" for i m using pg by blast
    then show ?thesis using bal s' s1(4) False by (auto simp: socks_ok_def)
  qed
qed

lemma close_fd_socks:
  assumes ok: "fds_ok X s" and so: "socks_ok s" and c: "close_fd i s = Some (r, s')"
  shows "socks_ok s'"
  using c so fd_close_socks [OF ok so]
  by (auto simp: close_fd_def fd_lookup_def split: if_splits)

lemma close_list_socks: "fds_ok X s \<Longrightarrow> socks_ok s \<Longrightarrow> close_list is s = Some s' \<Longrightarrow> socks_ok s'"
proof (induction "is" arbitrary: s)
  case (Cons i "is")
  then obtain r s1 where c: "close_fd (int i) s = Some (r, s1)" "close_list is s1 = Some s'" by (auto simp: Option.bind_eq_Some_conv)
  show ?case by (rule Cons.IH [OF close_fd_ok(1) [OF Cons.prems(1) c(1)] close_fd_socks [OF Cons.prems(1,2) c(1)] c(2)])
qed simp

lemma in_use_refs:
  assumes "fds_ok X s"
  shows "fdmap s k = Some (Own n) \<Longrightarrow> 0 < oref s n" "datamap s k = Some n \<Longrightarrow> 0 < oref s n"
proof -
  have d: "dom (fdmap s) \<subseteq> {..<MAXFD}" "dom (datamap s) \<subseteq> {..<MAXFD}" "oref s n = mcount (fdmap s) (Own n) + mcount (datamap s) n + X n"
    using fds_okD(1) [OF assms] by (auto simp: refs_ok_def)
  show "fdmap s k = Some (Own n) \<Longrightarrow> 0 < oref s n" "datamap s k = Some n \<Longrightarrow> 0 < oref s n"
    using mcount_pos [OF d(1), of k "Own n"] mcount_pos [OF d(2), of k n] d(3) by auto
qed

lemma dup_maps_quiet:
  assumes ok: "fds_ok X s" and k: "fdmap s k = Some p" and n: "fdmap s n = None"
  shows "quiet s (dup_maps k n p s)"
proof -
  let ?s = "dup_maps k n p s"
  have d: "datamap s n = None" using fds_okD(3) [OF ok, of n] n by (simp add: fd_typed_def)
  have "netsrv ?s = netsrv s" "nslog ?s = nslog s" using n d
    by (auto simp: dup_maps_def map_fd_new map_data_new addref_def split: option.splits upage.splits)
  moreover have pos: "0 < oref ?s m \<longleftrightarrow> 0 < oref s m" for m
    using n d in_use_refs [OF ok, of k] k by (auto simp: dup_maps_def map_fd_new map_data_new addref_def split: option.splits upage.splits)
  ultimately show ?thesis
    by (auto simp: quiet_def log_quiet_eq sock_page_def no_sock_data_def dup_maps_simps [OF n d] split: if_splits)
qed

section \<open>All calls\<close>

lemma dup_socks:
  assumes ok: "fds_ok X s" and so: "socks_ok s" and c: "dup i j s = Some (r, s')"
  shows "socks_ok s'"
  using ok c
proof (cases rule: dup_Some)
  case (failed q s1)
  have "fdmap s1 (nat j) = None" "datamap s1 (nat j) = None" using close_fd_ok(2) [OF ok failed(1)] failed(2,3) by simp_all
  then show ?thesis using close_fd_socks [OF ok so failed(1)] failed(4) by (simp add: unmap_fd_again)
next
  case (dupped q s1 k p)
  have "quiet s1 s'" unfolding dupped(8)
    using close_fd_ok(2) [OF ok dupped(1)] dupped(5,6) by (intro dup_maps_quiet [OF close_fd_ok(1) [OF ok dupped(1)] dupped(4)]) simp
  then show ?thesis using quiet_ok [OF close_fd_socks [OF ok so dupped(1)]] by simp
qed (use so in simp)

lemma open_fd_quiet:
  assumes ok: "fds_ok X s" and c: "open_fd path mode s = Some (r, s')"
  shows "quiet s s'"
  using ok c
proof (cases rule: open_fd_Some)
  case failed
  then show ?thesis by (intro same_quiet log_quiet_eq) simp_all
next
  case (opened k i d t)
  then have "s' = addref (Srv i) (s\<lparr>srv := t, fdmap := (fdmap s)(k \<mapsto> Srv i)\<rparr>)" using map_fd_new [of "s\<lparr>srv := t\<rparr>" k] by simp
  then show ?thesis by (simp add: quiet_def log_quiet_def sock_page_def no_sock_data_def addref_def)
qed

lemma stat_socks:
  assumes ok: "fds_ok X s" and so: "socks_ok s" and c: "stat path st s = Some (x, s')"
  shows "socks_ok s'"
proof -
  obtain fd s1 where o: "open_fd path 0 s = Some (fd, s1)" using c by (auto simp: stat_def Option.bind_eq_Some_conv)
  note ok1 = open_fd_ok [OF ok o] and so1 = quiet_ok [OF so open_fd_quiet [OF ok o]]
  show ?thesis
  proof (cases "fd < 0")
    case False
    then obtain r s2 where f: "fstat fd st s1 = Some (r, s2)" using c o by (auto simp: stat_def Option.bind_eq_Some_conv)
    note ok2 = same_fds_ok [OF ok1 fstat_same [OF ok1 f]] and so2 = quiet_ok [OF so1 fstat_quiet [OF ok1 f]]
    show ?thesis using c o f False close_fd_socks [OF ok2 so2] by (auto simp: stat_def Option.bind_eq_Some_conv)
  qed (use c o so1 in \<open>simp add: stat_def\<close>)
qed

lemma new_at_pages:
  assumes n: "new_at X s n s1" and no: "no_sock_data s" and d: "datamap s1 = datamap s"
  shows "sock_page (s1\<lparr>ofd := (ofd s1)(n := fd)\<rparr>) i m \<longleftrightarrow> (if m = n then fd_dev_id fd = dev_id devsock \<and> fd_file_id fd = i else sock_page s i m)"
    "no_sock_data (s1\<lparr>ofd := (ofd s1)(n := fd)\<rparr>)" "\<not> sock_page s i n"
proof -
  show "sock_page (s1\<lparr>ofd := (ofd s1)(n := fd)\<rparr>) i m \<longleftrightarrow> (if m = n then fd_dev_id fd = dev_id devsock \<and> fd_file_id fd = i else sock_page s i m)"
    "\<not> sock_page s i n" using n by (auto simp: sock_page_def new_at_def)
  have "{m. 0 < oref s1 m} = insert n {m. 0 < oref s m}" using n by (auto simp: new_at_def)
  then show "no_sock_data (s1\<lparr>ofd := (ofd s1)(n := fd)\<rparr>)" using no n d by (auto simp: no_sock_data_def new_at_def)
qed

lemma opencons_quiet:
  assumes ok: "fds_ok X s" and so: "socks_ok s" and c: "opencons s = Some (r, s')"
  shows "quiet s s'"
proof (cases "snd (fd_alloc s)")
  case None
  then show ?thesis using c by (cases "fd_alloc s") (simp add: opencons_def)
next
  case (Some k)
  then have a: "fd_alloc s = (0, Some k)" "k < MAXFD" "fdmap s k = None" using fd_alloc_Some [of s _ k] by (cases "fd_alloc s"; simp)+
  obtain r1 s1 where al: "alloc_fd k s = Some (r1, s1)" using c a by (auto simp: opencons_def Option.bind_eq_Some_conv)
  from alloc_fd_spec [OF fds_okD(1) [OF ok] a(3,2) al] show ?thesis
  proof
    assume "r1 = 0 \<and> (\<exists>n. new_at X s n s1 \<and> fdmap s1 = (fdmap s)(k \<mapsto> Own n) \<and> datamap s1 = datamap s)"
    then obtain n where n: "new_at X s n s1" "fdmap s1 = (fdmap s)(k \<mapsto> Own n)" "datamap s1 = datamap s" "r1 = 0" by blast
    have s': "s' = s1\<lparr>ofd := (ofd s1)(n := (ofd s1 n)\<lparr>fd_dev_id := dev_id devcons, fd_omode := 2\<rparr>)\<rparr>"
      using c a al n by (simp add: opencons_def set_fd_own)
    have no: "no_sock_data s" using so by (simp add: socks_ok_def)
    have "nslog s' = nslog s" "netsrv s' = netsrv s" using s' n(1) by (simp_all add: new_at_def)
    then show ?thesis using new_at_pages [OF n(1) no n(3)] unfolding s'
      by (auto simp: quiet_def log_quiet_eq) (auto simp: devcons_def devsock_def)
  qed (use c a al in \<open>simp add: opencons_def\<close>)
qed

lemma pipe_fd_quiet:
  assumes ok: "fds_ok X s" and so: "socks_ok s" and c: "pipe_fd s = Some ((r, res), s')"
  shows "quiet s s'"
  using ok c
proof (cases rule: pipe_fd_cases)
  case failed
  from failed(7) show ?thesis
  proof
    assume "\<exists>a n s1. new_at X s n s1 \<and> fdmap s1 = (fdmap s)(a \<mapsto> Own n) \<and> s' = unmap_fd a s1"
    then obtain a n s1 where n: "new_at X s n s1" "fdmap s1 = (fdmap s)(a \<mapsto> Own n)" "s' = unmap_fd a s1" by blast
    have "oref s' = oref s" using n by (auto simp: fun_eq_iff unmap_oref new_at_def)
    then show ?thesis using n failed(5) by (auto simp: quiet_def log_quiet_def sock_page_def no_sock_data_def new_at_def zero_fd_def devsock_def)
  qed simp
next
  case (made a b n0 n1 d)
  have m: "oref s n0 = 0" "oref s n1 = 0" "oref s d = 0" "datamap s' = (datamap s)(a \<mapsto> d, b \<mapsto> d)"
     "ofd s' = (ofd s)(n0 := pipe_fd_page 0, n1 := pipe_fd_page 1, d := zero_fd)" "oref s' = (oref s)(n0 := 1, n1 := 1, d := 2)"
     "nslog s' = nslog s" "netsrv s' = netsrv s" using made(3) by (simp_all add: piped_def)
  have ty: "fd_dev_id (pipe_fd_page x) \<noteq> dev_id devsock" "fd_dev_id zero_fd \<noteq> dev_id devsock" for x
    by (simp_all add: pipe_fd_page_def devpipe_def devsock_def zero_fd_def)
  have "{n. 0 < oref s' n} = insert n0 (insert n1 (insert d {n. 0 < oref s n}))" using m(6) by auto
  then have "finite {n. 0 < oref s n} \<Longrightarrow> finite {n. 0 < oref s' n}" by simp
  moreover have "\<forall>k d. datamap s k = Some d \<longrightarrow> fd_dev_id (ofd s d) \<noteq> dev_id devsock \<Longrightarrow>
      \<forall>k d. datamap s' k = Some d \<longrightarrow> fd_dev_id (ofd s' d) \<noteq> dev_id devsock" using m(4,5) ty by auto
  ultimately have "no_sock_data s \<Longrightarrow> no_sock_data s'" unfolding no_sock_data_def by blast
  then show ?thesis using m ty by (auto simp: quiet_def log_quiet_eq sock_page_def)
qed

lemma alloc_sockfd_socks:
  assumes ok: "fds_ok X s" and c: "alloc_sockfd i s = Some (r, s')" and no: "no_sock_data s"
    and bal: "\<And>j. socks_made (netsrv s) j (nslog s) = socks_closed j (nslog s) + card {n. sock_page s j n} + (if j = word_of_int i then 1 else 0)"
  shows "socks_ok s'"
  using ok c
proof (cases rule: alloc_sockfd_Some)
  case failed
  then show ?thesis using no bal by (auto simp: socks_ok_def no_sock_data_def sock_page_def makes_sock_def)
next
  case (made k n s1)
  have log: "netsrv s' = netsrv s" "nslog s' = nslog s" using made(4,8) by (simp_all add: new_at_def)
  note pg = new_at_pages [OF made(4) no made(6)]
  have "{m. sock_page s' j m} = (if j = word_of_int i then insert n {m. sock_page s j m} else {m. sock_page s j m})" for j
    unfolding made(8) pg(1) using pg(3) by (auto simp: zero_fd_def)
  moreover have "finite {m. sock_page s j m}" for j using no by (auto simp: no_sock_data_def sock_page_def elim!: finite_subset [rotated])
  ultimately have "card {m. sock_page s' j m} = card {m. sock_page s j m} + (if j = word_of_int i then 1 else 0)" for j
    using pg(3) [of "word_of_int i"] by (cases "j = word_of_int i") (simp_all add: card_insert_disjoint)
  then show ?thesis using bal pg(2) log made(8) by (simp add: socks_ok_def)
qed

lemma new_sock_bal:
  assumes so: "socks_ok s" and q: "makes_sock q" and r: "a = ns_r (netsrv s (q # nslog s))"
  defines "s1 \<equiv> s\<lparr>nslog := q # nslog s\<rparr>"
  shows "no_sock_data s1" "sint a < 0 \<Longrightarrow> socks_ok s1"
    "\<not> sint a < 0 \<Longrightarrow> socks_made (netsrv s1) j (nslog s1) = socks_closed j (nslog s1) + card {n. sock_page s1 j n} + (if j = word_of_int (sint a) then 1 else 0)"
proof -
  have nq: "q \<noteq> Ns_close j" for j using q by (auto simp: makes_sock_def)
  have pg: "sock_page s1 = sock_page s" by (simp add: s1_def sock_page_def fun_eq_iff)
  show "no_sock_data s1" using so by (simp add: s1_def socks_ok_def no_sock_data_def)
  then show "sint a < 0 \<Longrightarrow> socks_ok s1" using so nq r pg by (auto simp: socks_ok_def s1_def)
  show "\<not> sint a < 0 \<Longrightarrow> socks_made (netsrv s1) j (nslog s1) = socks_closed j (nslog s1) + card {n. sock_page s1 j n} + (if j = word_of_int (sint a) then 1 else 0)"
    using so nq q r pg by (auto simp: socks_ok_def s1_def)
qed

lemma socket_socks:
  assumes ok: "fds_ok X s" and so: "socks_ok s" and c: "socket d ty pr s = Some (r, s')"
  shows "socks_ok s'"
proof -
  let ?q = "Ns_socket d ty pr"
  let ?s1 = "s\<lparr>nslog := ?q # nslog s\<rparr>" and ?a = "ns_r (netsrv s (?q # nslog s))"
  have mk: "makes_sock ?q" by (simp add: makes_sock_def)
  note b = new_sock_bal [OF so mk refl]
  show ?thesis
  proof (cases "sint ?a < 0")
    case True
    then show ?thesis using c b(2) by (simp add: socket_def nsipc_socket_def nsipc_ret_eq)
  next
    case False
    then have al: "alloc_sockfd (sint ?a) ?s1 = Some (r, s')" using c by (simp add: socket_def nsipc_socket_def nsipc_ret_eq)
    have "fds_ok X ?s1" using ok by simp
    then show ?thesis by (rule alloc_sockfd_socks [OF _ al b(1) b(3) [OF False]])
  qed
qed

lemma accept_socks:
  assumes ok: "fds_ok X s" and so: "socks_ok s" and c: "accept i l s = Some (x, s')"
  shows "socks_ok s'"
proof (cases "fd2sockid i s < 0")
  case False
  let ?q = "Ns_accept (word_of_int (fd2sockid i s)) l"
  let ?s1 = "s\<lparr>nslog := ?q # nslog s\<rparr>" and ?a = "ns_r (netsrv s (?q # nslog s))"
  have mk: "makes_sock ?q" by (simp add: makes_sock_def)
  note b = new_sock_bal [OF so mk refl]
  show ?thesis
  proof (cases "sint ?a < 0")
    case True
    then show ?thesis using c b(2) False by (simp add: accept_def nsipc_accept_def nsipc_def Let_def)
  next
    case a: False
    then obtain fd where al: "alloc_sockfd (sint ?a) ?s1 = Some (fd, s')"
      using c False by (auto simp: accept_def nsipc_accept_def nsipc_def Let_def Option.bind_eq_Some_conv)
    have "fds_ok X ?s1" using ok by simp
    then show ?thesis by (rule alloc_sockfd_socks [OF _ al b(1) b(3) [OF a]])
  qed
qed (use c so in \<open>simp add: accept_def Let_def\<close>)

lemma with_sock_quiet:
  assumes c: "with_sock i f s = Some (r, s')"
    and f: "\<And>j r t. f j s = Some (r, t) \<Longrightarrow> \<exists>q. t = s\<lparr>nslog := q # nslog s\<rparr> \<and> \<not> makes_sock q \<and> (\<forall>j. q \<noteq> Ns_close j)"
  shows "quiet s s'"
proof (cases "fd2sockid i s < 0")
  case False
  then have "f (word_of_int (fd2sockid i s)) s = Some (r, s')" using c by (simp add: with_sock_def)
  from f [OF this] obtain q where "s' = s\<lparr>nslog := q # nslog s\<rparr>" "\<not> makes_sock q" "\<forall>j. q \<noteq> Ns_close j" by blast
  then show ?thesis by (auto simp: quiet_def no_sock_data_def sock_page_def)
qed (use c in \<open>simp add: with_sock_def\<close>)

lemma sock_calls_quiet:
  "bind_sock i name s = Some (r, s') \<Longrightarrow> quiet s s'" "connect i name s = Some (r, s') \<Longrightarrow> quiet s s'"
  "listen i b s = Some (r, s') \<Longrightarrow> quiet s s'" "shutdown i h s = Some (r, s') \<Longrightarrow> quiet s s'"
  unfolding bind_sock_def connect_def listen_def shutdown_def
  by (erule with_sock_quiet, auto simp: nsipc_bind_def nsipc_connect_def nsipc_listen_def nsipc_shutdown_def
      nsipc_ret_eq Option.bind_eq_Some_conv makes_sock_def)+

lemma ucall_exec_socks:
  assumes ok: "fds_ok X s" and so: "socks_ok s" and c: "ucall_exec c s = Some s'"
  shows "socks_ok s'"
proof (cases c)
  case (C_seek i x)
  then show ?thesis using c quiet_ok [OF so seek_quiet [OF ok]] by (auto simp: ucall_exec_def)
qed (use c ok so in \<open>auto simp: ucall_exec_def close_all_def readn_def
    intro: close_fd_socks close_list_socks dup_socks stat_socks socket_socks accept_socks
      quiet_ok [OF _ open_fd_quiet] quiet_ok [OF _ opencons_quiet] quiet_ok [OF _ pipe_fd_quiet] quiet_ok [OF _ readn_loop_quiet]
      quiet_ok [OF _ read_fd_quiet] quiet_ok [OF _ write_fd_quiet] quiet_ok [OF _ ftruncate_quiet] quiet_ok [OF _ fstat_quiet]
      quiet_ok [OF _ ugetchar_quiet] quiet_ok [OF _ sync_quiet] quiet_ok [OF _ sock_calls_quiet(1)] quiet_ok [OF _ sock_calls_quiet(2)]
      quiet_ok [OF _ sock_calls_quiet(3)] quiet_ok [OF _ sock_calls_quiet(4)]\<close>)

text \<open>C14. Sockets do not leak. Let an environment make any sequence of calls, in which \<^verbatim>\<open>dup\<close> names a descriptor of
  the table (0 to 31) and calls may fail for lack of descriptors or memory, and let the network server answer as it likes. Then for every socket
  number, the server handed it out as often as it was told to close it, plus the number of
  pages in use that are descriptors of that socket: a socket is closed exactly when its last
  descriptor goes away, and a socket for which no descriptor could be made is closed at once.\<close>

theorem sockets_balanced:
  assumes run: "uruns s0 s" and ok: "fds_ok X s0" and new: "nslog s0 = []" "\<forall>n. oref s0 n = 0"
  shows "socks_made (netsrv s) i (nslog s) =
     socks_closed i (nslog s) + card {n. 0 < oref s n \<and> fd_dev_id (ofd s n) = dev_id devsock \<and> fd_file_id (ofd s n) = i}"
proof -
  have "datamap s0 k \<noteq> Some d" for k d using in_use_refs(2) [OF ok, of k d] new(2) by auto
  then have init: "socks_ok s0" using new by (simp add: socks_ok_def no_sock_data_def sock_page_def)
  from run ok init have "socks_ok s" by (induction rule: uruns.induct) (auto intro: ucall_exec_socks uruns_ok)
  then show ?thesis by (simp add: socks_ok_def sock_page_def)
qed

theorem sockets_balanced_witness:
  "\<exists>s. uruns demo_proc s \<and> nslog s = [Ns_socket 1 2 3] \<and>
     card {n. 0 < oref s n \<and> fd_dev_id (ofd s n) = dev_id devsock \<and> fd_file_id (ofd s n) = 4} = 1"
proof -
  obtain s where s: "socket 1 2 3 demo_proc = Some (0, s)" "nslog s = [Ns_socket 1 2 3]" "netsrv s = netsrv demo_proc"
    using demo_socket by simp
  have "ucall_exec (C_socket 1 2 3) demo_proc = Some s" using s(1) by (simp add: ucall_exec_def)
  then have r: "uruns demo_proc s" by (rule uruns_one) (simp add: dup_in_range_def)
  have "nslog demo_proc = []" "\<forall>n. oref demo_proc n = 0" by (simp_all add: demo_proc_def)
  from sockets_balanced [OF r demo_proc_ok this, of 4] s(2,3)
  have "card {n. 0 < oref s n \<and> fd_dev_id (ofd s n) = dev_id devsock \<and> fd_file_id (ofd s n) = 4} = 1"
    by (simp add: demo_proc_def makes_sock_def)
  then show ?thesis using r s(2) by blast
qed

end
