(* ===== verification/Spinlock.thy ===== *)
theory Spinlock
  imports Kernel_Prelude
begin

text \<open>
  The spin lock of \<^verbatim>\<open>kern/riscv/spinlock.c\<close>. Processors run concurrently: \<open>smp_step\<close> interleaves single memory
  operations of all of them. A processor calls \<open>spin_lock\<close>, performs a list of actions, its section, on
  data of type \<open>'k\<close> that the lock protects, and calls \<open>spin_unlock\<close>; \<open>act\<close> says what an action does.
  \<open>klog\<close> records the sections in the order in which they released the lock. What a processor does between
  sections does not touch the data and is not shown. The debugging fields of the lock, which are compiled
  out, are not modelled.

  The theorem is about code that follows this discipline, for every lock and every data. Whether all code of
  the kernel does for the big kernel lock is not claimed: \<^verbatim>\<open>trap\<close> takes the lock only for traps from user mode and on
  leaving the halted state, \<^verbatim>\<open>mp_main\<close> enables the timer before it takes the lock, and \<^verbatim>\<open>env_pop_tf\<close> reads the saved
  registers of an environment after it was released.
\<close>

section \<open>The lock\<close>

record spinlock =
  locked :: u32

definition atomic_raw_xchg :: "u32 \<Rightarrow> spinlock \<Rightarrow> u32 \<times> spinlock" where
  "atomic_raw_xchg newval lk = (locked lk, lk\<lparr>locked := newval\<rparr>)"

definition spin_initlock :: "spinlock \<Rightarrow> spinlock" where
  "spin_initlock lk = lk\<lparr>locked := 0\<rparr>"

text \<open>One turn of the loop of \<open>spin_lock\<close>: whether the lock was acquired, and the lock.\<close>

definition spin_turn :: "spinlock \<Rightarrow> bool \<times> spinlock" where
  "spin_turn lk = (let (old, lk1) = atomic_raw_xchg 1 lk in (old = 0, lk1))"

text \<open>The loop run by one processor alone: it ends only if the lock is free.\<close>

partial_function (option) spin_lock :: "spinlock \<Rightarrow> spinlock option" where
  "spin_lock lk = (let (got, lk1) = spin_turn lk in if got then Some lk1 else spin_lock lk1)"

definition spin_unlock :: "spinlock \<Rightarrow> spinlock" where
  "spin_unlock lk = snd (atomic_raw_xchg 0 lk)"

section \<open>Processors\<close>

datatype 'a cpu_pc =
    Outside
  | Spinning "'a list"
  | Critical "'a list" "'a list"

record ('a, 'k) smp =
  klock :: spinlock
  cpus :: "nat \<Rightarrow> 'a cpu_pc"
  kern :: 'k
  klog :: "'a list list"

text \<open>\<open>Critical d r\<close> is a processor that holds the lock, has performed the actions \<open>d\<close> of its section and has \<open>r\<close>
  left. The steps of processor \<open>i\<close>: it calls \<open>spin_lock\<close>, it makes one turn of the loop, it
  performs an action, and it calls \<open>spin_unlock\<close>.\<close>

inductive smp_step :: "('a \<Rightarrow> 'k \<Rightarrow> 'k) \<Rightarrow> ('a, 'k) smp \<Rightarrow> ('a, 'k) smp \<Rightarrow> bool" for act where
  enter: "cpus s i = Outside \<Longrightarrow> smp_step act s (s\<lparr>cpus := (cpus s)(i := Spinning body)\<rparr>)"
| spin: "cpus s i = Spinning body \<Longrightarrow> spin_turn (klock s) = (got, lk) \<Longrightarrow>
    smp_step act s (s\<lparr>klock := lk, cpus := (cpus s)(i := if got then Critical [] body else Spinning body)\<rparr>)"
| work: "cpus s i = Critical d (a # r) \<Longrightarrow>
    smp_step act s (s\<lparr>kern := act a (kern s), cpus := (cpus s)(i := Critical (d @ [a]) r)\<rparr>)"
| leave: "cpus s i = Critical d [] \<Longrightarrow>
    smp_step act s (s\<lparr>klock := spin_unlock (klock s), cpus := (cpus s)(i := Outside), klog := klog s @ [d]\<rparr>)"

inductive_cases smp_stepE: "smp_step act s s'"

inductive smp_reach :: "('a \<Rightarrow> 'k \<Rightarrow> 'k) \<Rightarrow> ('a, 'k) smp \<Rightarrow> ('a, 'k) smp \<Rightarrow> bool" for act where
  start: "smp_reach act s s"
| step: "smp_reach act s t \<Longrightarrow> smp_step act t u \<Longrightarrow> smp_reach act s u"

definition smp_init :: "'k \<Rightarrow> ('a, 'k) smp" where
  "smp_init k = \<lparr>klock = \<lparr>locked = 0\<rparr>, cpus = (\<lambda>_. Outside), kern = k, klog = []\<rparr>"

primrec in_section :: "'a cpu_pc \<Rightarrow> bool" where
  "in_section Outside = False"
| "in_section (Spinning _) = False"
| "in_section (Critical _ _) = True"

primrec actions_done :: "'a cpu_pc \<Rightarrow> 'a list" where
  "actions_done Outside = []"
| "actions_done (Spinning _) = []"
| "actions_done (Critical d _) = d"

text \<open>The data after complete sections have run one after the other.\<close>

definition run_log :: "('a \<Rightarrow> 'k \<Rightarrow> 'k) \<Rightarrow> 'a list list \<Rightarrow> 'k \<Rightarrow> 'k" where
  "run_log act bodies k = fold (fold act) bodies k"

section \<open>Mutual exclusion\<close>

definition smp_inv :: "('a \<Rightarrow> 'k \<Rightarrow> 'k) \<Rightarrow> 'k \<Rightarrow> ('a, 'k) smp \<Rightarrow> bool" where
  "smp_inv act k s \<longleftrightarrow>
     (\<forall>i j. in_section (cpus s i) \<and> in_section (cpus s j) \<longrightarrow> i = j) \<and>
     (locked (klock s) = 0 \<longleftrightarrow> (\<forall>i. \<not> in_section (cpus s i))) \<and>
     ((\<forall>i. \<not> in_section (cpus s i)) \<longrightarrow> kern s = run_log act (klog s) k) \<and>
     (\<forall>i. in_section (cpus s i) \<longrightarrow> kern s = fold act (actions_done (cpus s i)) (run_log act (klog s) k))"

lemma spin_turn_simps [simp]: "spin_turn lk = (locked lk = 0, lk\<lparr>locked := 1\<rparr>)"
  by (simp add: spin_turn_def atomic_raw_xchg_def)

lemma spin_unlock_locked [simp]: "locked (spin_unlock lk) = 0"
  by (simp add: spin_unlock_def atomic_raw_xchg_def)

lemma smp_inv_step:
  assumes "smp_step act s s'" "smp_inv act k s"
  shows "smp_inv act k s'"
  using assms
proof (cases rule: smp_step.cases)
  case (enter i body)
  have "in_section (((cpus s)(i := Spinning body)) j) = in_section (cpus s j)"
    "in_section (cpus s j) \<Longrightarrow> actions_done (((cpus s)(i := Spinning body)) j) = actions_done (cpus s j)" for j
    using enter by auto
  then show ?thesis using assms(2) enter(1) by (simp add: smp_inv_def)
next
  case (spin i body got lk)
  show ?thesis
  proof (cases "locked (klock s) = 0")
    case True
    then have "\<forall>j. \<not> in_section (cpus s j)" "kern s = run_log act (klog s) k" using assms(2) by (simp_all add: smp_inv_def)
    then show ?thesis using spin True by (auto simp: smp_inv_def)
  next
    case False
    then have "cpus s' = cpus s" using spin by (auto simp: fun_eq_iff)
    moreover have "(locked (klock s') = 0) = (locked (klock s) = 0)" "kern s' = kern s" "klog s' = klog s"
      using spin False by auto
    ultimately show ?thesis using assms(2) by (simp add: smp_inv_def)
  qed
next
  case (work i d a r)
  then have i: "in_section (cpus s i)" by simp
  have ex: "in_section (cpus s j) \<longleftrightarrow> j = i" for j using assms(2) i unfolding smp_inv_def by blast
  have "kern s = fold act d (run_log act (klog s) k)" using assms(2) i work(2) unfolding smp_inv_def by (metis actions_done.simps(3))
  moreover have "locked (klock s) \<noteq> 0" using assms(2) i unfolding smp_inv_def by blast
  ultimately show ?thesis using ex work(1) by (auto simp: smp_inv_def)
next
  case (leave i d)
  then have i: "in_section (cpus s i)" by simp
  have ex: "in_section (cpus s j) \<longleftrightarrow> j = i" for j using assms(2) i unfolding smp_inv_def by blast
  have "kern s = fold act d (run_log act (klog s) k)" using assms(2) i leave(2) unfolding smp_inv_def by (metis actions_done.simps(3))
  then show ?thesis using ex leave(1) by (auto simp: smp_inv_def run_log_def)
qed

lemma smp_inv_reach: "smp_reach act s s' \<Longrightarrow> smp_inv act k s \<Longrightarrow> smp_inv act k s'"
  by (induction rule: smp_reach.induct) (auto intro: smp_inv_step)

lemma smp_inv_init: "smp_inv act k (smp_init k)"
  by (simp add: smp_inv_def smp_init_def run_log_def)

text \<open>\<open>spin_lock\<close> returns, with the lock held, exactly when the lock is free; on a lock that nobody
  releases it spins forever. After \<open>spin_unlock\<close> it returns.\<close>

theorem spin_lock_returns:
  "((\<exists>lk'. spin_lock lk = Some lk') \<longleftrightarrow> locked lk = 0) \<and>
   (\<forall>lk'. spin_lock lk = Some lk' \<longleftrightarrow> locked lk = 0 \<and> lk' = lk\<lparr>locked := 1\<rparr>) \<and>
   spin_lock (spin_unlock lk) = Some (lk\<lparr>locked := 1\<rparr>)"
proof -
  have "locked l = 0 \<and> r = l\<lparr>locked := 1\<rparr>" if "spin_lock l = Some r" for l r :: spinlock
  proof (rule spin_lock.raw_induct [where P = "\<lambda>l r. locked l = 0 \<and> r = l\<lparr>locked := 1\<rparr>", OF _ that])
    fix f l r
    assume f: "\<And>l r. f l = Some r \<Longrightarrow> locked l = 0 \<and> r = l\<lparr>locked := 1\<rparr>"
      and e: "(let (got, lk1) = spin_turn l in if got then Some lk1 else f lk1) = Some r"
    show "locked l = 0 \<and> r = l\<lparr>locked := 1\<rparr>"
      using e f [of "l\<lparr>locked := 1\<rparr>" r] by (cases "locked l = 0") simp_all
  qed
  moreover have "spin_lock l = Some (l\<lparr>locked := 1\<rparr>)" if "locked l = 0" for l
    using that by (subst spin_lock.simps) simp
  moreover have "(spin_unlock lk)\<lparr>locked := 1\<rparr> = lk\<lparr>locked := 1\<rparr>" by (simp add: spin_unlock_def atomic_raw_xchg_def)
  ultimately show ?thesis by (metis spin_unlock_locked)
qed

text \<open>C8. The spin lock gives mutual exclusion and atomicity to the sections between \<open>spin_lock\<close> and
  \<open>spin_unlock\<close>. However the steps of the processors interleave, at most one
  processor is in its section, and a processor that asks for the lock
  gets it in its next turn exactly when no processor is. The data that is used only in the sections behaves as if sections were
  executed whole, one after the other: it is the result of the complete sections in
  the order in which they released the lock, followed by the actions that the processor now holding the lock
  has performed.\<close>

theorem spin_lock_serializes:
  assumes "smp_reach act (smp_init k) s"
  shows "(\<forall>i j. in_section (cpus s i) \<and> in_section (cpus s j) \<longrightarrow> i = j) \<and>
     (fst (spin_turn (klock s)) \<longleftrightarrow> (\<forall>i. \<not> in_section (cpus s i))) \<and>
     ((\<forall>i. \<not> in_section (cpus s i)) \<longrightarrow> kern s = run_log act (klog s) k) \<and>
     (\<forall>i. in_section (cpus s i) \<longrightarrow> kern s = fold act (actions_done (cpus s i)) (run_log act (klog s) k))"
  using smp_inv_reach [OF assms smp_inv_init] unfolding smp_inv_def by simp

text \<open>Two processors that add to a counter: the first one holds the lock while the second spins.\<close>

definition demo_smp :: "(nat, nat) smp" where
  "demo_smp = \<lparr>klock = \<lparr>locked = 1\<rparr>, cpus = (\<lambda>_. Outside)(0 := Critical [5] [6], 1 := Spinning [7]), kern = 15, klog = []\<rparr>"

lemma demo_smp_reach: "smp_reach (+) (smp_init 10) demo_smp"
proof -
  let ?s0 = "smp_init 10 :: (nat, nat) smp"
  let ?s1 = "?s0\<lparr>cpus := (cpus ?s0)(0 := Spinning [5, 6])\<rparr>"
  let ?s2 = "?s1\<lparr>cpus := (cpus ?s1)(1 := Spinning [7])\<rparr>"
  let ?s3 = "?s2\<lparr>klock := \<lparr>locked = 1\<rparr>, cpus := (cpus ?s2)(0 := Critical [] [5, 6])\<rparr>"
  let ?s4 = "?s3\<lparr>kern := 5 + kern ?s3, cpus := (cpus ?s3)(0 := Critical ([] @ [5]) [6])\<rparr>"
  have 1: "smp_step (+) ?s0 ?s1" by (rule smp_step.enter) (simp add: smp_init_def)
  have 2: "smp_step (+) ?s1 ?s2" by (rule smp_step.enter) (simp add: smp_init_def)
  have 3: "smp_step (+) ?s2 ?s3"
    using smp_step.spin [of ?s2 0 "[5, 6]" True "\<lparr>locked = 1\<rparr>" "(+)"] by (simp add: smp_init_def)
  have 4: "smp_step (+) ?s3 ?s4" by (rule smp_step.work) simp
  have 5: "smp_step (+) ?s4 (?s4\<lparr>klock := \<lparr>locked = 1\<rparr>, cpus := (cpus ?s4)(1 := Spinning [7])\<rparr>)"
    using smp_step.spin [of ?s4 1 "[7]" False "\<lparr>locked = 1\<rparr>" "(+)"] by simp
  have "?s4\<lparr>klock := \<lparr>locked = 1\<rparr>, cpus := (cpus ?s4)(1 := Spinning [7])\<rparr> = demo_smp"
    by (simp add: demo_smp_def smp_init_def fun_eq_iff)
  with 5 have "smp_step (+) ?s4 demo_smp" by simp
  with 1 2 3 4 show ?thesis by (meson smp_reach.intros)
qed

theorem spin_lock_serializes_witness:
  "in_section (cpus demo_smp 0) \<and> \<not> in_section (cpus demo_smp 1) \<and> \<not> fst (spin_turn (klock demo_smp)) \<and>
   kern demo_smp = fold (+) [5] (run_log (+) (klog demo_smp) 10)"
proof -
  have c: "in_section (cpus demo_smp 0)" "actions_done (cpus demo_smp 0) = [5]" by (simp_all add: demo_smp_def)
  with spin_lock_serializes [OF demo_smp_reach] show ?thesis by (metis zero_neq_one)
qed

end
