(* ===== verification/Args.thy ===== *)
theory Args
  imports Kernel_Prelude
begin

text \<open>
  Command line arguments, \<^verbatim>\<open>lib/riscv/args.c\<close>. The counter \<^verbatim>\<open>argc\<close> and the array \<^verbatim>\<open>argv\<close> are the
  list of the arguments, strings are lists of bytes without the null byte, and a null pointer is
  \<open>None\<close>. Flag characters are returned as integers.
\<close>

section \<open>The parser\<close>

record Argstate =
  argv :: "u8 list list"
  curarg :: "u8 list option"
  argvalue_ptr :: "u8 list option"

definition argstart :: "u8 list list \<Rightarrow> Argstate" where
  "argstart av = \<lparr>argv = av, curarg = (if length av > 1 then Some [] else None), argvalue_ptr = None\<rparr>"

text \<open>The move that removes the argument after the program name.\<close>

definition shift_args :: "Argstate \<Rightarrow> Argstate" where
  "shift_args a = a\<lparr>argv := take 1 (argv a) @ drop 2 (argv a)\<rparr>"

definition endofargs :: "Argstate \<Rightarrow> int \<times> Argstate" where
  "endofargs a = (-1, a\<lparr>curarg := None\<rparr>)"

text \<open>The end of \<open>argnext\<close>: the next character of the current argument.\<close>

definition take_flag :: "Argstate \<Rightarrow> int \<times> Argstate" where
  "take_flag a =
     (case curarg a of
        Some (c # cs) \<Rightarrow> (uint c, a\<lparr>curarg := Some cs\<rparr>)
      | _ \<Rightarrow> (-1, a))"

definition is_flag :: "u8 list \<Rightarrow> bool" where
  "is_flag s \<longleftrightarrow> length s > 1 \<and> hd s = 0x2d"

definition argnext :: "Argstate \<Rightarrow> int \<times> Argstate" where
  "argnext a0 =
     (let a = a0\<lparr>argvalue_ptr := None\<rparr> in
      case curarg a of
        None \<Rightarrow> (-1, a)
      | Some [] \<Rightarrow>
          if length (argv a) = 1 \<or> \<not> is_flag (argv a ! 1) then endofargs a
          else
            (let cur = tl (argv a ! 1);
                 a1 = shift_args (a\<lparr>curarg := Some cur\<rparr>)
             in if cur = [0x2d] then endofargs a1 else take_flag a1)
      | Some (c # cs) \<Rightarrow> take_flag a)"

definition argnextvalue :: "Argstate \<Rightarrow> u8 list option \<times> Argstate" where
  "argnextvalue a =
     (case curarg a of
        None \<Rightarrow> (None, a)
      | Some (c # cs) \<Rightarrow> (Some (c # cs), a\<lparr>argvalue_ptr := Some (c # cs), curarg := Some []\<rparr>)
      | Some [] \<Rightarrow>
          if length (argv a) > 1 then (Some (argv a ! 1), shift_args (a\<lparr>argvalue_ptr := Some (argv a ! 1)\<rparr>))
          else (None, a\<lparr>argvalue_ptr := None, curarg := None\<rparr>))"

definition argvalue :: "Argstate \<Rightarrow> u8 list option \<times> Argstate" where
  "argvalue a = (case argvalue_ptr a of Some v \<Rightarrow> (Some v, a) | None \<Rightarrow> argnextvalue a)"

text \<open>The loop of a program that takes all flags: it calls \<open>argnext\<close> until the result is negative.\<close>

partial_function (option) all_flags :: "Argstate \<Rightarrow> (int list \<times> Argstate) option" where
  "all_flags a =
     (case argnext a of (f, a1) \<Rightarrow>
        if f < 0 then Some ([], a1)
        else do { (fs, a2) \<leftarrow> all_flags a1; Some (f # fs, a2) })"

section \<open>What the flags are\<close>

text \<open>The flags of the arguments after the program name, and the arguments that remain: leading
  arguments of at least two characters that start with a dash give the characters after it;
  \<^verbatim>\<open>--\<close> is removed and ends the flags.\<close>

fun flags_of :: "u8 list list \<Rightarrow> u8 list \<times> u8 list list" where
  "flags_of [] = ([], [])"
| "flags_of (a # rest) =
     (if is_flag a then
        if tl a = [0x2d] then ([], rest) else (tl a @ fst (flags_of rest), snd (flags_of rest))
      else ([], a # rest))"

lemma all_flags_chars:
  assumes "curarg a = Some cs" "argvalue_ptr a = None"
    and "all_flags (a\<lparr>curarg := Some []\<rparr>) = Some (fs, b)"
  shows "all_flags a = Some (map uint cs @ fs, b)"
  using assms
proof (induction cs arbitrary: a)
  case Nil
  then have "a\<lparr>curarg := Some []\<rparr> = a" by simp
  with Nil show ?case by simp
next
  case (Cons c cs)
  let ?a = "a\<lparr>curarg := Some cs\<rparr>"
  have "a\<lparr>argvalue_ptr := None\<rparr> = a" using Cons.prems(2) by simp
  then have n: "argnext a = (uint c, ?a)" using Cons.prems(1) by (simp add: argnext_def take_flag_def Let_def)
  have "all_flags ?a = Some (map uint cs @ fs, b)" by (rule Cons.IH) (use Cons.prems in simp_all)
  then show ?case using n by (subst all_flags.simps) simp
qed

lemma all_flags_rest:
  assumes "curarg a = Some []" "argvalue_ptr a = None" "argv a = p # rest"
  shows "all_flags a = Some (map uint (fst (flags_of rest)), a\<lparr>argv := p # snd (flags_of rest), curarg := None\<rparr>)"
  using assms
proof (induction "length rest" arbitrary: a rest rule: less_induct)
  case less
  have av: "a\<lparr>argvalue_ptr := None\<rparr> = a" using less.prems(2) by simp
  show ?case
  proof (cases "rest \<noteq> [] \<and> is_flag (hd rest)")
    case False
    have "a\<lparr>argv := p # rest, curarg := None\<rparr> = a\<lparr>curarg := None\<rparr>" using less.prems by simp
    moreover have "argnext a = (-1, a\<lparr>curarg := None\<rparr>)" "flags_of rest = ([], rest)"
      using less.prems False av by (cases rest; simp add: argnext_def endofargs_def Let_def)+
    ultimately show ?thesis by (subst all_flags.simps) simp
  next
    case True
    then obtain s r where r: "rest = s # r" "is_flag s" by (cases rest) auto
    show ?thesis
    proof (cases "tl s = [0x2d]")
      case True
      then have "argnext a = (-1, a\<lparr>argv := p # r, curarg := None\<rparr>)"
        using less.prems r av by (simp add: argnext_def endofargs_def shift_args_def Let_def)
      then show ?thesis using True r by (subst all_flags.simps) simp
    next
      case False
      obtain c cs where s: "tl s = c # cs" using r(2) by (cases "tl s"; cases s) (auto simp: is_flag_def)
      let ?a = "a\<lparr>argv := p # r, curarg := Some cs\<rparr>"
      have n: "argnext a = (uint c, ?a)"
        using False less.prems r s av by (auto simp: argnext_def take_flag_def shift_args_def Let_def)
      have "all_flags (?a\<lparr>curarg := Some []\<rparr>) =
          Some (map uint (fst (flags_of r)), (?a\<lparr>curarg := Some []\<rparr>)\<lparr>argv := p # snd (flags_of r), curarg := None\<rparr>)"
        by (rule less.hyps) (use r less.prems in simp_all)
      then have "all_flags ?a = Some (map uint cs @ map uint (fst (flags_of r)), a\<lparr>argv := p # snd (flags_of r), curarg := None\<rparr>)"
        using all_flags_chars [of ?a cs] less.prems(2) by simp
      then show ?thesis using n False r s by (subst all_flags.simps) auto
    qed
  qed
qed

text \<open>A program that calls \<open>argnext\<close> until it returns a negative value gets, after finitely many
  calls, exactly the flags of its command line in order, and is left with its name and the
  arguments that are not flags, as the header file promises; without arguments it gets none.\<close>

theorem argnext_flags:
  "all_flags (argstart (p # rest)) =
     Some (map uint (fst (flags_of rest)), \<lparr>argv = p # snd (flags_of rest), curarg = None, argvalue_ptr = None\<rparr>)"
proof (cases "rest = []")
  case True
  then show ?thesis by (subst all_flags.simps) (simp add: argstart_def argnext_def Let_def)
next
  case False
  then show ?thesis using all_flags_rest [of "argstart (p # rest)" p rest] by (simp add: argstart_def)
qed

text \<open>The value of a flag: the rest of its argument, or else the next argument; asking again with
  \<open>argvalue\<close> gives the same value.\<close>

lemma argvalue_again: "argvalue a = (Some v, b) \<Longrightarrow> argvalue b = (Some v, b)"
  by (auto simp: argvalue_def argnextvalue_def shift_args_def split: option.splits list.splits if_splits)

end
