(* ===== verification/Malloc.thy ===== *)
theory Malloc
  imports Mmu
begin

unbundle bit_operations_syntax

text \<open>
  The memory allocator of the user library, \<^verbatim>\<open>lib/riscv/malloc.c\<close>.

  The state is the pages between \<^verbatim>\<open>mbegin\<close> and \<^verbatim>\<open>mend\<close> as the allocator sees them through its system
  calls: the permission bits of each page (\<open>mpte\<close>, 0 when the page is not mapped), the reference count in the
  page's last word (\<open>mref\<close>), and the number of pages for which \<^verbatim>\<open>sys_page_alloc\<close> still succeeds
  (\<open>mquota\<close>); the next call returns \<^verbatim>\<open>-E_NO_MEM\<close>, as it does when the kernel has no page for a page table. A page is
  named by its number, the address divided by the page size. \<open>None\<close> is a failed assertion or an access to
  an unmapped page.

  The allocator is correct for blocks that fit a page (\<open>heap_safe\<close>). For larger blocks it is not:
  \<open>isfree\<close> only looks at the last page of the range, and two blocks of a page size are enough for
  \<open>free\<close> to unmap a block in use (\<open>free_unmaps_live_block\<close>).
\<close>

section \<open>The system calls\<close>

abbreviation (input) mbegin :: u64 where "mbegin \<equiv> 0x08000000"
abbreviation (input) mend :: u64 where "mend \<equiv> 0x10000000"
abbreviation (input) PTE_CONTINUED :: u64 where "PTE_CONTINUED \<equiv> 0x100"

record heap =
  mptr :: u64
  mpte :: "nat \<Rightarrow> u64"
  mref :: "nat \<Rightarrow> u32"
  mquota :: nat

definition heap_uvpt_pte :: "u64 \<Rightarrow> heap \<Rightarrow> u64" where
  "heap_uvpt_pte va s = mpte s (unat va div 4096)"

definition heap_page_alloc :: "u64 \<Rightarrow> u64 \<Rightarrow> heap \<Rightarrow> int \<times> heap" where
  "heap_page_alloc va perm s =
     (let p = unat va div 4096 in
      if mquota s = 0 then (- E_NO_MEM, s)
      else (0, s\<lparr>mpte := (mpte s)(p := perm), mref := (mref s)(p := 0),
                 mquota := (if mpte s p = 0 then mquota s - 1 else mquota s)\<rparr>))"

definition heap_page_unmap :: "u64 \<Rightarrow> heap \<Rightarrow> heap" where
  "heap_page_unmap va s =
     (let p = unat va div 4096 in
      if mpte s p = 0 then s else s\<lparr>mpte := (mpte s)(p := 0), mquota := mquota s + 1\<rparr>)"

text \<open>The reference count at an address, which is always the last word of a page.\<close>

definition get_ref :: "u64 \<Rightarrow> heap \<Rightarrow> u32 option" where
  "get_ref a s = (if mpte s (unat a div 4096) = 0 then None else Some (mref s (unat a div 4096)))"

definition set_ref :: "u64 \<Rightarrow> u32 \<Rightarrow> heap \<Rightarrow> heap option" where
  "set_ref a v s =
     (if mpte s (unat a div 4096) = 0 then None
      else Some (s\<lparr>mref := (mref s)(unat a div 4096 := v)\<rparr>))"

section \<open>The allocator\<close>

text \<open>The body of the loop of \<^verbatim>\<open>isfree\<close> is only the assignment to \<^verbatim>\<open>pte\<close>; the test follows the
  loop.\<close>

primrec isfree_loop :: "nat \<Rightarrow> u64 \<Rightarrow> u64 \<Rightarrow> heap \<Rightarrow> u64 \<times> u64" where
  "isfree_loop 0 va pte s = (va, pte)"
| "isfree_loop (Suc k) va pte s = isfree_loop k (va + PGSIZE) (heap_uvpt_pte va s) s"

definition isfree :: "u64 \<Rightarrow> u64 \<Rightarrow> heap \<Rightarrow> bool" where
  "isfree v n s =
     (let (va, pte) = isfree_loop ((unat n + 4095) div 4096) v 0 s in
      \<not> (mend \<le> va \<or> pte AND PTE_V \<noteq> 0))"

partial_function (option) free_walk :: "u64 \<Rightarrow> heap \<Rightarrow> (u64 \<times> heap) option" where
  "free_walk c s =
     (if heap_uvpt_pte c s AND PTE_CONTINUED \<noteq> 0 then
        if mbegin \<le> c + PGSIZE \<and> c + PGSIZE < mend then free_walk (c + PGSIZE) (heap_page_unmap c s)
        else None
      else Some (c, s))"

definition free :: "u64 \<Rightarrow> heap \<Rightarrow> heap option" where
  "free v s =
     (if v = 0 then Some s
      else do {
        assert_that (mbegin \<le> v \<and> v < mend);
        (c, s1) \<leftarrow> free_walk (ROUNDDOWN v PGSIZE) s;
        r \<leftarrow> get_ref (c + PGSIZE - 4) s1;
        s2 \<leftarrow> set_ref (c + PGSIZE - 4) (r - 1) s1;
        Some (if r - 1 = 0 then heap_page_unmap c s2 else s2) })"

partial_function (option) malloc_search :: "u64 \<Rightarrow> nat \<Rightarrow> heap \<Rightarrow> (bool \<times> heap) option" where
  "malloc_search n nwrap s =
     (if isfree (mptr s) (n + 4) s then Some (True, s)
      else if mptr s + PGSIZE = mend then
        (if nwrap + 1 = 2 then Some (False, s\<lparr>mptr := mbegin\<rparr>)
         else malloc_search n (nwrap + 1) (s\<lparr>mptr := mbegin\<rparr>))
      else malloc_search n nwrap (s\<lparr>mptr := mptr s + PGSIZE\<rparr>))"

primrec unmap_down :: "nat \<Rightarrow> heap \<Rightarrow> heap" where
  "unmap_down 0 s = heap_page_unmap (mptr s) s"
| "unmap_down (Suc i) s = unmap_down i (heap_page_unmap (mptr s + of_nat (Suc i) * PGSIZE) s)"

text \<open>The loop that allocates the pages: \<open>k\<close> pages are left, \<open>i\<close> is the number of the next.\<close>

primrec malloc_pages :: "nat \<Rightarrow> nat \<Rightarrow> u64 \<Rightarrow> heap \<Rightarrow> bool \<times> heap" where
  "malloc_pages 0 i n s = (True, s)"
| "malloc_pages (Suc k) i n s =
     (let off = of_nat i * PGSIZE;
          cont = (if off + PGSIZE < n + 4 then PTE_CONTINUED else 0);
          (r, s1) = heap_page_alloc (mptr s + off) (PTE_V OR PTE_U OR PTE_W OR PTE_R OR cont) s
      in if r < 0 then (False, unmap_down i s1) else malloc_pages k (Suc i) n s1)"

definition malloc :: "u64 \<Rightarrow> heap \<Rightarrow> (u64 \<times> heap) option" where
  "malloc n0 s0 = do {
     let s = (if mptr s0 = 0 then s0\<lparr>mptr := mbegin\<rparr> else s0);
     let n = ROUNDUP n0 8;
     if 1024 * 1024 \<le> n then Some (0, s)
     else if mptr s mod PGSIZE \<noteq> 0 \<and> mptr s div PGSIZE = (mptr s + n - 1 + 4) div PGSIZE then do {
       let ref = ROUNDUP (mptr s) PGSIZE - 4;
       r \<leftarrow> get_ref ref s;
       s1 \<leftarrow> set_ref ref (r + 1) s;
       Some (mptr s, s1\<lparr>mptr := mptr s + n\<rparr>) }
     else do {
       s1 \<leftarrow> (if mptr s mod PGSIZE \<noteq> 0 then do {
                t \<leftarrow> free (mptr s) s;
                Some (t\<lparr>mptr := ROUNDDOWN (mptr t + PGSIZE) PGSIZE\<rparr>) }
              else Some s);
       (found, s2) \<leftarrow> malloc_search n 0 s1;
       if \<not> found then Some (0, s2)
       else do {
         let k = (unat (n + 4) + 4095) div 4096;
         let (ok, s3) = malloc_pages k 0 n s2;
         if \<not> ok then Some (0, s3)
         else do {
           s4 \<leftarrow> set_ref (mptr s3 + of_nat k * PGSIZE - 4) 2 s3;
           Some (mptr s4, s4\<lparr>mptr := mptr s4 + n\<rparr>) } } } }"

text \<open>The calls of a program.\<close>

datatype hcall = Malloc u64 | Free u64

primrec hcall_exec :: "hcall \<Rightarrow> heap \<Rightarrow> (u64 \<times> heap) option" where
  "hcall_exec (Malloc n) s = malloc n s"
| "hcall_exec (Free v) s = do { s1 \<leftarrow> free v s; Some (0, s1) }"

section \<open>Two blocks of a page size\<close>

lemma two_pages:
  "isfree_loop 2 va pte s = (va + PGSIZE + PGSIZE, heap_uvpt_pte (va + PGSIZE) s)"
  "malloc_pages 2 i n s = malloc_pages (Suc (Suc 0)) i n s"
  by (simp_all add: numeral_2_eq_2)

lemma ROUND_4096: "ROUNDUP 4096 8 = 4096" "ROUNDDOWN mbegin PGSIZE = mbegin"
  by (simp_all add: ROUNDUP_def ROUNDDOWN_def)

text \<open>C36. \<open>free\<close> can unmap a block in use. From an empty heap two calls of \<^verbatim>\<open>malloc(4096)\<close> return
  neighbouring blocks. The first block has two pages, the second holding only its reference count, and \<open>isfree\<close>
  does not see that this page is in use; so the second call maps a fresh page over it. Freeing
  the first block then follows the marks of the second block and unmaps its memory.\<close>

theorem free_unmaps_live_block:
  assumes "mptr s = 0" "\<forall>p. mpte s p = 0" "3 \<le> mquota s"
  shows "\<exists>s1 s2 s3. malloc 4096 s = Some (mbegin, s1) \<and> malloc 4096 s1 = Some (mbegin + 4096, s2) \<and>
     heap_uvpt_pte (mbegin + 4096) s2 AND PTE_V \<noteq> 0 \<and>
     free mbegin s2 = Some s3 \<and> heap_uvpt_pte (mbegin + 4096) s3 = 0"
proof -
  let ?s1 = "s\<lparr>mptr := mbegin + 4096, mpte := (mpte s)(0x8000 := 0x117, 0x8001 := 0x17),
    mref := (mref s)(0x8000 := 0, 0x8001 := 2), mquota := mquota s - 2\<rparr>"
  let ?s2 = "?s1\<lparr>mptr := mbegin + 8192, mpte := (mpte ?s1)(0x8001 := 0x117, 0x8002 := 0x17),
    mref := (mref ?s1)(0x8001 := 0, 0x8002 := 2), mquota := mquota s - 3\<rparr>"
  have m1: "malloc 4096 s = Some (mbegin, ?s1)"
    using assms by (simp add: malloc_def ROUND_4096 malloc_search.simps [of 4096] isfree_def two_pages
      heap_uvpt_pte_def heap_page_alloc_def set_ref_def)
  have m2: "malloc 4096 ?s1 = Some (mbegin + 4096, ?s2)"
    using assms by (simp add: malloc_def ROUND_4096 malloc_search.simps [of 4096] isfree_def two_pages
      heap_uvpt_pte_def heap_page_alloc_def set_ref_def)
  have w: "free_walk mbegin ?s2 = Some (mbegin + 8192, heap_page_unmap (mbegin + 4096) (heap_page_unmap mbegin ?s2))"
    by (simp add: free_walk.simps [of mbegin] free_walk.simps [of "0x08001000"] free_walk.simps [of "0x08002000"]
      heap_uvpt_pte_def heap_page_unmap_def)
  have f: "\<exists>s3. free mbegin ?s2 = Some s3 \<and> heap_uvpt_pte (mbegin + 4096) s3 = 0"
    using w by (simp add: free_def ROUND_4096 get_ref_def set_ref_def heap_uvpt_pte_def heap_page_unmap_def)
  have "heap_uvpt_pte (mbegin + 4096) ?s2 AND PTE_V \<noteq> 0" by (simp add: heap_uvpt_pte_def)
  then show ?thesis using m1 m2 f by blast
qed

theorem free_unmaps_live_block_witness:
  "\<exists>s1 s2 s3. malloc 4096 \<lparr>mptr = 0, mpte = \<lambda>_. 0, mref = \<lambda>_. 0, mquota = 3\<rparr> = Some (mbegin, s1) \<and>
     malloc 4096 s1 = Some (mbegin + 4096, s2) \<and> heap_uvpt_pte (mbegin + 4096) s2 AND PTE_V \<noteq> 0 \<and>
     free mbegin s2 = Some s3 \<and> heap_uvpt_pte (mbegin + 4096) s3 = 0"
  by (rule free_unmaps_live_block) simp_all

section \<open>Blocks of at most a page\<close>

text \<open>\<open>B\<close> holds the blocks in use, from address to size. The reference count of a page is the number of
  its blocks, and one for the page the next block may be added to.\<close>

definition page_blocks :: "(nat \<rightharpoonup> nat) \<Rightarrow> nat \<Rightarrow> nat set" where
  "page_blocks B p = {a \<in> dom B. a div 4096 = p}"

definition live_refs :: "u64 \<Rightarrow> (nat \<rightharpoonup> nat) \<Rightarrow> nat \<Rightarrow> nat" where
  "live_refs q B p = card (page_blocks B p) + (if unat q mod 4096 \<noteq> 0 \<and> unat q div 4096 = p then 1 else 0)"

definition block_ok :: "u64 \<Rightarrow> nat \<Rightarrow> nat \<Rightarrow> bool" where
  "block_ok q a n \<longleftrightarrow> 0x8000 \<le> a div 4096 \<and> a div 4096 < 0xFFFF \<and> a mod 8 = 0 \<and> 0 < n \<and>
     a mod 4096 + n + 4 \<le> 4096 \<and> (unat q mod 4096 \<noteq> 0 \<longrightarrow> a div 4096 = unat q div 4096 \<longrightarrow> a + n \<le> unat q)"

definition apart :: "(nat \<rightharpoonup> nat) \<Rightarrow> bool" where
  "apart B \<longleftrightarrow> (\<forall>a n b m. B a = Some n \<longrightarrow> B b = Some m \<longrightarrow> a \<noteq> b \<longrightarrow> a + n \<le> b \<or> b + m \<le> a)"

definition mptr_ok :: "u64 \<Rightarrow> bool" where
  "mptr_ok q \<longleftrightarrow> unat q mod 8 = 0 \<and> (unat q = 0 \<or> 0x8000 \<le> unat q div 4096 \<and> unat q div 4096 < 0x10000) \<and>
     (unat q mod 4096 \<noteq> 0 \<longrightarrow> unat q div 4096 < 0xFFFF)"

definition pages_ok :: "heap \<Rightarrow> (nat \<rightharpoonup> nat) \<Rightarrow> bool" where
  "pages_ok s B \<longleftrightarrow> (\<forall>p. 0x8000 \<le> p \<longrightarrow> p < 0x10000 \<longrightarrow>
     mpte s p = (if live_refs (mptr s) B p = 0 then 0 else 0x17) \<and>
     (live_refs (mptr s) B p \<noteq> 0 \<longrightarrow> unat (mref s p) = live_refs (mptr s) B p))"

definition heap_inv :: "heap \<Rightarrow> (nat \<rightharpoonup> nat) \<Rightarrow> bool" where
  "heap_inv s B \<longleftrightarrow> mptr_ok (mptr s) \<and> (\<forall>a n. B a = Some n \<longrightarrow> block_ok (mptr s) a n) \<and> apart B \<and> pages_ok s B"

lemma heap_invD:
  assumes "heap_inv s B"
  shows "mptr_ok (mptr s)" "B a = Some n \<Longrightarrow> block_ok (mptr s) a n" "apart B" "pages_ok s B"
  using assms by (auto simp: heap_inv_def)

lemma finite_page_blocks [simp]: "finite (page_blocks B p)"
proof (rule finite_subset)
  show "page_blocks B p \<subseteq> {..<4096 * (p + 1)}" by (auto simp: page_blocks_def)
qed simp

lemma page_blocks_upd:
  "page_blocks (B(a \<mapsto> n)) p = (if a div 4096 = p then insert a (page_blocks B p) else page_blocks B p)"
  "page_blocks (B(a := None)) p = page_blocks B p - {a}"
  by (auto simp: page_blocks_def)

lemma page_blocks_le:
  assumes "heap_inv s B"
  shows "card (page_blocks B p) \<le> 512"
proof -
  have "inj_on (\<lambda>a. a mod 4096 div 8) (page_blocks B p)"
  proof (rule inj_onI)
    fix a b assume h: "a \<in> page_blocks B p" "b \<in> page_blocks B p" "a mod 4096 div 8 = b mod 4096 div 8"
    have m: "x mod 4096 mod 8 = 0" if "x \<in> page_blocks B p" for x
      using that heap_invD(2) [OF assms, of x] by (auto simp: page_blocks_def block_ok_def mod_mod_cancel)
    have "a mod 4096 = b mod 4096" using h(3) m [OF h(1)] m [OF h(2)] by (metis mult_div_mod_eq)
    moreover have "a div 4096 = b div 4096" using h(1,2) by (simp add: page_blocks_def)
    ultimately show "a = b" by (metis mult_div_mod_eq)
  qed
  moreover have "(\<lambda>a. a mod 4096 div 8) ` page_blocks B p \<subseteq> {..<512}" by auto
  ultimately show ?thesis using card_inj_on_le [of "\<lambda>a. a mod 4096 div 8" "page_blocks B p" "{..<512 :: nat}"] by simp
qed

text \<open>Moving an aligned pointer changes nothing.\<close>

lemma heap_inv_mptr:
  assumes "heap_inv s B" "unat (mptr s) mod 4096 = 0" "unat q mod 4096 = 0" "mptr_ok q"
  shows "heap_inv (s\<lparr>mptr := q\<rparr>) B"
  using assms by (auto simp: heap_inv_def block_ok_def pages_ok_def live_refs_def)

lemma page_apart: "(a :: nat) div 4096 < b div 4096 \<Longrightarrow> a mod 4096 + n \<le> 4096 \<Longrightarrow> a + n \<le> b"
proof -
  assume h: "a div 4096 < b div 4096" "a mod 4096 + n \<le> 4096"
  have "a + n = 4096 * (a div 4096) + (a mod 4096 + n)" by simp
  also have "\<dots> \<le> 4096 * (a div 4096) + 4096" using h(2) by (rule add_left_mono)
  also have "\<dots> \<le> 4096 * (b div 4096)" using h(1) by simp
  also have "\<dots> \<le> b" by simp
  finally show ?thesis .
qed

lemma heap_offset: "(a :: nat) mod 4096 + m < 4096 \<Longrightarrow> (a + m) div 4096 = a div 4096 \<and> (a + m) mod 4096 = a mod 4096 + m"
proof -
  assume h: "a mod 4096 + m < 4096"
  have "a + m = 4096 * (a div 4096) + (a mod 4096 + m)" by simp
  then show ?thesis using h by (metis add.commute div_mult_self2 div_less mod_less mod_mult_self2 add_0 zero_neq_numeral)
qed

lemma page_carry: "((a :: nat) + k) div 4096 = a div 4096 + (a mod 4096 + k) div 4096"
proof -
  define p r where "p = a div 4096" and "r = a mod 4096"
  have "a = 4096 * p + r" by (simp add: p_def r_def)
  then have "(a + k) div 4096 = p + (r + k) div 4096" by (simp add: add.assoc)
  then show ?thesis by (simp add: p_def r_def)
qed

lemma page_offset_conv: "(a :: nat) div 4096 = (a + k) div 4096 \<Longrightarrow> a mod 4096 + k < 4096"
  using page_carry [of a k] by (simp add: div_eq_0_iff)

text \<open>Adding a block at the pointer.\<close>

lemma heap_inv_add:
  assumes inv: "heap_inv s B" and m: "0 < m" "m mod 8 = 0" "unat (mptr s) mod 4096 + m + 4 \<le> 4096"
    and p: "p = unat (mptr s) div 4096" "0x8000 \<le> p" "p < 0xFFFF"
    and q: "unat q = unat (mptr s) + m" and fresh: "unat (mptr s) mod 4096 = 0 \<longrightarrow> page_blocks B p = {}"
    and s': "s' = s\<lparr>mptr := q, mpte := (mpte s)(p := 0x17), mref := (mref s)(p := r), mquota := k\<rparr>"
      "unat r = card (page_blocks B p) + 2"
  shows "B (unat (mptr s)) = None \<and> heap_inv s' (B(unat (mptr s) \<mapsto> m))"
proof -
  let ?a = "unat (mptr s)"
  have qm: "unat q mod 4096 = ?a mod 4096 + m" "unat q div 4096 = p"
    using heap_offset [of ?a m] m(3) p(1) q by simp_all
  have q8: "unat q mod 8 = 0" using heap_invD(1) [OF inv] m(2) q by (simp add: mptr_ok_def mod_add_eq [of ?a, symmetric])
  have below: "b + n \<le> ?a" if "B b = Some n" "b div 4096 = p" for b n
    using heap_invD(2) [OF inv that(1)] that fresh p(1) by (auto simp: block_ok_def page_blocks_def)
  have nb: "B ?a = None" using below [of ?a] heap_invD(2) [OF inv, of ?a] p(1) by (cases "B ?a") (auto simp: block_ok_def)
  have other: "b + n \<le> ?a \<or> ?a + m \<le> b" if h: "B b = Some n" for b n
  proof (cases "b div 4096" p rule: linorder_cases)
    case less
    then show ?thesis using page_apart [of b ?a n] heap_invD(2) [OF inv h] p(1) by (simp add: block_ok_def)
  next
    case equal
    then show ?thesis using below [OF h] by simp
  next
    case greater
    then show ?thesis using page_apart [of ?a b m] m(3) p(1) by simp
  qed
  have "mptr_ok q" using q8 qm p m(1) by (simp add: mptr_ok_def)
  moreover have "block_ok q b n" if "(B(?a \<mapsto> m)) b = Some n" for b n
    using that heap_invD(1,2) [OF inv] below [of b n] m p q qm
    by (auto simp: block_ok_def mptr_ok_def split: if_splits)
  moreover have "apart (B(?a \<mapsto> m))"
    using heap_invD(3) [OF inv] unfolding apart_def by (auto split: if_splits dest: other)
  moreover have "pages_ok s' (B(?a \<mapsto> m))"
  proof -
    have "?a \<notin> page_blocks B p" using nb by (auto simp: page_blocks_def)
    then have "live_refs q (B(?a \<mapsto> m)) p = card (page_blocks B p) + 2"
      using qm m(1) p(1) by (simp add: live_refs_def page_blocks_upd)
    moreover have "live_refs q (B(?a \<mapsto> m)) x = live_refs (mptr s) B x" if "x \<noteq> p" for x
      using that qm p(1) by (auto simp: live_refs_def page_blocks_upd)
    ultimately show ?thesis using heap_invD(4) [OF inv] s' by (auto simp: pages_ok_def)
  qed
  ultimately show ?thesis using nb s'(1) by (simp add: heap_inv_def)
qed

text \<open>Removing a reference: of a block, or of the pointer.\<close>

lemma free_page:
  assumes v: "0x8000 \<le> unat v div 4096" "unat v div 4096 < 0x10000" and p: "p = unat v div 4096"
    and s: "mpte s p = 0x17"
  shows "free v s = Some (if mref s p = 1 then s\<lparr>mpte := (mpte s)(p := 0), mref := (mref s)(p := 0), mquota := mquota s + 1\<rparr>
     else s\<lparr>mref := (mref s)(p := mref s p - 1)\<rparr>)"
proof -
  have vv: "0x8000000 \<le> unat v" "unat v < 0x10000000" using v by (simp_all add: less_eq_div_iff_mult_less_eq div_less_iff_less_mult)
  then have a: "v \<noteq> 0" "mbegin \<le> v" "v < mend" by (auto simp: word_le_nat_alt word_less_nat_alt)
  have c: "unat (ROUNDDOWN v PGSIZE) = 4096 * p" by (simp add: unat_ROUNDDOWN p minus_mod_eq_mult_div)
  then have cp: "unat (ROUNDDOWN v PGSIZE) div 4096 = p" by simp
  have "unat (4092 + ROUNDDOWN v PGSIZE) = 4096 * p + 4092" using c v p by (simp add: unat_word_ariths)
  then have r: "unat (4092 + ROUNDDOWN v PGSIZE) div 4096 = p" by simp
  have "free_walk (ROUNDDOWN v PGSIZE) s = Some (ROUNDDOWN v PGSIZE, s)"
    by (simp add: free_walk.simps [of "ROUNDDOWN v PGSIZE"] heap_uvpt_pte_def cp s)
  then show ?thesis
    using a r cp s by (auto simp: free_def get_ref_def set_ref_def heap_page_unmap_def)
qed

lemma pages_ok_free:
  assumes ok: "pages_ok s B" and v: "0x8000 \<le> p" "p < 0x10000" "p = unat v div 4096"
    and l: "live_refs (mptr s) B p = Suc c" "live_refs q B' p = c" "\<forall>x. x \<noteq> p \<longrightarrow> live_refs q B' x = live_refs (mptr s) B x"
  shows "\<exists>t. free v s = Some t \<and> mptr t = mptr s \<and> pages_ok (t\<lparr>mptr := q\<rparr>) B'"
proof -
  have s: "mpte s p = 0x17" "unat (mref s p) = Suc c" using ok v l(1) by (auto simp: pages_ok_def)
  have "mref s p = 1 \<longleftrightarrow> c = 0" using s(2) by (simp add: word_unat_eq_iff)
  moreover have "unat (mref s p - 1) = c" using s(2) by (simp add: unat_minus_one word_unat_eq_iff)
  ultimately show ?thesis
    using free_page [of v p s] v s ok l by (auto simp: pages_ok_def)
qed

lemma free_live_block:
  assumes inv: "heap_inv s B" and a: "B (unat v) = Some n"
  shows "\<exists>t. free v s = Some t \<and> heap_inv t (B(unat v := None))"
proof -
  let ?p = "unat v div 4096"
  have b: "block_ok (mptr s) (unat v) n" by (rule heap_invD(2) [OF inv a])
  have "unat v \<in> page_blocks B ?p" using a by (auto simp: page_blocks_def)
  then obtain c where "card (page_blocks B ?p) = Suc c" "card (page_blocks B ?p - {unat v}) = c"
    by (metis card_Diff_singleton card_Suc_Diff1 diff_Suc_1 finite_page_blocks)
  then have l: "live_refs (mptr s) B ?p = Suc (live_refs (mptr s) (B(unat v := None)) ?p)"
    by (simp add: live_refs_def page_blocks_upd)
  have o: "live_refs (mptr s) (B(unat v := None)) x = live_refs (mptr s) B x" if "x \<noteq> ?p" for x
  proof -
    have "unat v \<notin> page_blocks B x" using that by (simp add: page_blocks_def)
    then show ?thesis by (simp add: live_refs_def page_blocks_upd)
  qed
  obtain t where t: "free v s = Some t" "mptr t = mptr s" "pages_ok (t\<lparr>mptr := mptr s\<rparr>) (B(unat v := None))"
    using pages_ok_free [OF heap_invD(4) [OF inv] _ _ refl l refl] b o by (auto simp: block_ok_def)
  have e: "t\<lparr>mptr := mptr s\<rparr> = t" using t(2) by simp
  have "heap_inv t (B(unat v := None))" using t(2) t(3) [unfolded e] heap_invD(1-3) [OF inv] by (auto simp: heap_inv_def apart_def)
  then show ?thesis using t(1) by blast
qed

lemma drop_pointer:
  assumes inv: "heap_inv s B" and m: "unat (mptr s) mod 4096 \<noteq> 0"
  shows "\<exists>t. free (mptr s) s = Some t \<and> mptr t = mptr s \<and>
     heap_inv (t\<lparr>mptr := ROUNDDOWN (mptr s + PGSIZE) PGSIZE\<rparr>) B \<and> unat (ROUNDDOWN (mptr s + PGSIZE) PGSIZE) mod 4096 = 0 \<and>
     unat (ROUNDDOWN (mptr s + PGSIZE) PGSIZE) \<noteq> 0"
proof -
  let ?p = "unat (mptr s) div 4096" and ?q = "ROUNDDOWN (mptr s + PGSIZE) PGSIZE"
  have pb: "0x8000 \<le> ?p" "?p < 0xFFFF" using heap_invD(1) [OF inv] m by (auto simp: mptr_ok_def)
  have "unat (mptr s) < 0x10000000" using pb by (simp add: div_less_iff_less_mult)
  then have "unat (mptr s + PGSIZE) = unat (mptr s) + 4096" by (simp add: unat_word_ariths)
  then have "unat (mptr s + PGSIZE) div 4096 = ?p + 1" by simp
  moreover have "unat ?q = 4096 * (unat (mptr s + PGSIZE) div 4096)"
    using minus_mod_eq_mult_div [of "unat (mptr s + PGSIZE)" 4096] by (simp only: unat_ROUNDDOWN) simp
  ultimately have "unat ?q = 4096 * (?p + 1)" by (simp only:)
  then have q: "unat ?q mod 4096 = 0" "unat ?q div 4096 = ?p + 1" "unat ?q mod 8 = 0" "unat ?q \<noteq> 0"
    by (simp_all add: mod_mult_left_eq [symmetric] del: mult_Suc_right add_Suc_right)
  have l: "live_refs (mptr s) B ?p = Suc (live_refs ?q B ?p)" "\<forall>x. x \<noteq> ?p \<longrightarrow> live_refs ?q B x = live_refs (mptr s) B x"
    using m q(1) by (auto simp: live_refs_def)
  obtain t where t: "free (mptr s) s = Some t" "mptr t = mptr s" "pages_ok (t\<lparr>mptr := ?q\<rparr>) B"
    using pages_ok_free [OF heap_invD(4) [OF inv] pb(1) _ refl l(1) refl l(2)] pb(2) by auto
  have "mptr_ok ?q" using q pb by (simp add: mptr_ok_def)
  then have "heap_inv (t\<lparr>mptr := ?q\<rparr>) B"
    using t(3) q(1) heap_invD(2,3) [OF inv] by (auto simp: heap_inv_def block_ok_def)
  then show ?thesis using t q by auto
qed

text \<open>The search for a free page.\<close>

lemma page_address:
  assumes "p < 0x10000"
  shows "unat (of_nat p * PGSIZE) = p * 4096" "unat (of_nat p * PGSIZE) div 4096 = p" "unat (of_nat p * PGSIZE) mod 4096 = 0"
    "unat (of_nat p * PGSIZE + PGSIZE) = p * 4096 + 4096"
proof -
  show "unat (of_nat p * PGSIZE) = p * 4096" using assms by (simp add: unat_word_ariths unat_of_nat)
  then show "unat (of_nat p * PGSIZE) div 4096 = p" "unat (of_nat p * PGSIZE) mod 4096 = 0" by simp_all
  show "unat (of_nat p * PGSIZE + PGSIZE) = p * 4096 + 4096" using assms by (simp add: unat_word_ariths unat_of_nat)
qed

lemma isfree_page:
  assumes "p < 0x10000" "unat n \<le> 4088" "\<forall>p. 0x8000 \<le> p \<longrightarrow> p < 0x10000 \<longrightarrow> mpte s p = 0 \<or> mpte s p = 0x17" "0x8000 \<le> p"
  shows "isfree (of_nat p * PGSIZE) (n + 4) s \<longleftrightarrow> p + 1 < 0x10000 \<and> mpte s p = 0"
proof -
  have u: "unat (n + 4) = unat n + 4" using assms(2) by (simp add: unat_word_ariths)
  have "(unat n + 4 + 4095) div 4096 = Suc 0" using assms(2) by (intro div_nat_eqI) simp_all
  then show ?thesis using assms(1,3,4)
    by (auto simp: isfree_def u heap_uvpt_pte_def page_address word_le_nat_alt)
qed

lemma malloc_search_step:
  assumes p: "mptr s = of_nat p * PGSIZE" "0x8000 \<le> p" "p < 0x10000" and n: "unat n \<le> 4088"
    and pt: "\<forall>p. 0x8000 \<le> p \<longrightarrow> p < 0x10000 \<longrightarrow> mpte s p = 0 \<or> mpte s p = 0x17"
  shows "malloc_search n w s =
     (if p < 0xFFFF \<and> mpte s p = 0 then Some (True, s)
      else if p = 0xFFFF then (if w = 1 then Some (False, s\<lparr>mptr := mbegin\<rparr>) else malloc_search n (w + 1) (s\<lparr>mptr := mbegin\<rparr>))
      else malloc_search n w (s\<lparr>mptr := of_nat (p + 1) * PGSIZE\<rparr>))"
proof -
  have "of_nat p * PGSIZE + PGSIZE = mend \<longleftrightarrow> p = 0xFFFF" using page_address(4) [OF p(3)] by (auto simp: word_unat_eq_iff)
  moreover have e: "of_nat (p + 1) * PGSIZE = of_nat p * PGSIZE + PGSIZE" by (simp add: algebra_simps)
  ultimately show ?thesis unfolding e
    using isfree_page [OF p(3) n pt p(2)] malloc_search.simps [of n w s] p by auto
qed

text \<open>The search ends at a free page, or all pages from \<open>p\<close> on are in use; the last page is never
  used.\<close>

definition search_ok :: "heap \<Rightarrow> nat \<Rightarrow> (bool \<times> heap) option \<Rightarrow> bool" where
  "search_ok s p r \<longleftrightarrow> (\<exists>b q. r = Some (b, s\<lparr>mptr := of_nat q * PGSIZE\<rparr>) \<and> 0x8000 \<le> q \<and> q < 0x10000 \<and>
     (b \<longrightarrow> q < 0xFFFF \<and> mpte s q = 0) \<and> (\<not> b \<longrightarrow> (\<forall>x. p \<le> x \<longrightarrow> x < 0xFFFF \<longrightarrow> mpte s x \<noteq> 0)))"

lemma search_ok_here: "0x8000 \<le> p \<Longrightarrow> p < 0xFFFF \<Longrightarrow> mpte s p = 0 \<Longrightarrow> search_ok s x (Some (True, s\<lparr>mptr := of_nat p * PGSIZE\<rparr>))"
  unfolding search_ok_def by (intro exI [of _ True] exI [of _ p]) simp

lemma search_ok_later: "mpte s p \<noteq> 0 \<Longrightarrow> search_ok s (p + 1) r \<Longrightarrow> search_ok s p r"
proof -
  assume p: "mpte s p \<noteq> 0" and "search_ok s (p + 1) r"
  then obtain b q where r: "r = Some (b, s\<lparr>mptr := of_nat q * PGSIZE\<rparr>)" "0x8000 \<le> q" "q < 0x10000" "b \<longrightarrow> q < 0xFFFF \<and> mpte s q = 0"
    and f: "\<not> b \<longrightarrow> (\<forall>x. p + 1 \<le> x \<longrightarrow> x < 0xFFFF \<longrightarrow> mpte s x \<noteq> 0)" unfolding search_ok_def by blast
  have "\<not> b \<longrightarrow> mpte s x \<noteq> 0" if "p \<le> x" "x < 0xFFFF" for x
    using that p f by (cases "x = p") auto
  then show ?thesis unfolding search_ok_def using r by blast
qed

lemma malloc_search_next:
  assumes n: "unat n \<le> 4088" and pt: "\<forall>p. 0x8000 \<le> p \<longrightarrow> p < 0x10000 \<longrightarrow> mpte s p = 0 \<or> mpte s p = 0x17"
    and p: "0x8000 \<le> p" "p < 0xFFFF"
  shows "malloc_search n w (s\<lparr>mptr := of_nat p * PGSIZE\<rparr>) = (if mpte s p = 0 then Some (True, s\<lparr>mptr := of_nat p * PGSIZE\<rparr>)
      else malloc_search n w (s\<lparr>mptr := of_nat (p + 1) * PGSIZE\<rparr>))"
  using malloc_search_step [of "s\<lparr>mptr := of_nat p * PGSIZE\<rparr>" p n w] n pt p by (simp del: of_nat_add of_nat_Suc)

lemma malloc_search_end:
  assumes n: "unat n \<le> 4088" and pt: "\<forall>p. 0x8000 \<le> p \<longrightarrow> p < 0x10000 \<longrightarrow> mpte s p = 0 \<or> mpte s p = 0x17"
  shows "malloc_search n w (s\<lparr>mptr := of_nat 0xFFFF * PGSIZE\<rparr>) =
     (if w = 1 then Some (False, s\<lparr>mptr := of_nat 0x8000 * PGSIZE\<rparr>) else malloc_search n (w + 1) (s\<lparr>mptr := of_nat 0x8000 * PGSIZE\<rparr>))"
  using malloc_search_step [of "s\<lparr>mptr := of_nat 0xFFFF * PGSIZE\<rparr>" "0xFFFF" n w] n pt by simp

lemma malloc_search_last:
  assumes n: "unat n \<le> 4088" and pt: "\<forall>p. 0x8000 \<le> p \<longrightarrow> p < 0x10000 \<longrightarrow> mpte s p = 0 \<or> mpte s p = 0x17"
  shows "0x8000 \<le> p \<Longrightarrow> p \<le> 0xFFFF \<Longrightarrow> search_ok s p (malloc_search n 1 (s\<lparr>mptr := of_nat p * PGSIZE\<rparr>))"
proof (induction "0xFFFF - p" arbitrary: p)
  case 0
  then have p: "p = 0xFFFF" by simp
  show ?case unfolding p malloc_search_end [OF n pt] search_ok_def
    by (intro exI [of _ False] exI [of _ "0x8000"]) simp
next
  case (Suc k)
  then have p: "p < 0xFFFF" "k = 0xFFFF - (p + 1)" "0x8000 \<le> p + 1" "p + 1 \<le> 0xFFFF" by simp_all
  show ?case
  proof (cases "mpte s p = 0")
    case True
    then show ?thesis unfolding malloc_search_next [OF n pt Suc.prems(1) p(1)]
      using search_ok_here [OF Suc.prems(1) p(1) True] by simp
  next
    case False
    have "search_ok s p (malloc_search n 1 (s\<lparr>mptr := of_nat (p + 1) * PGSIZE\<rparr>))"
      by (rule search_ok_later [OF False Suc.hyps(1) [OF p(2-4)]])
    then show ?thesis unfolding malloc_search_next [OF n pt Suc.prems(1) p(1)] using False by (simp only: if_False)
  qed
qed

lemma malloc_search_first:
  assumes n: "unat n \<le> 4088" and pt: "\<forall>p. 0x8000 \<le> p \<longrightarrow> p < 0x10000 \<longrightarrow> mpte s p = 0 \<or> mpte s p = 0x17"
  shows "0x8000 \<le> p \<Longrightarrow> p \<le> 0xFFFF \<Longrightarrow> search_ok s 0x8000 (malloc_search n 0 (s\<lparr>mptr := of_nat p * PGSIZE\<rparr>))"
proof (induction "0xFFFF - p" arbitrary: p)
  case 0
  then have p: "p = 0xFFFF" by simp
  show ?case unfolding p malloc_search_end [OF n pt] using malloc_search_last [OF n pt, of "0x8000"] by simp
next
  case (Suc k)
  then have p: "p < 0xFFFF" "k = 0xFFFF - (p + 1)" "0x8000 \<le> p + 1" "p + 1 \<le> 0xFFFF" by simp_all
  show ?case
  proof (cases "mpte s p = 0")
    case True
    then show ?thesis unfolding malloc_search_next [OF n pt Suc.prems(1) p(1)]
      using search_ok_here [OF Suc.prems(1) p(1) True] by simp
  next
    case False
    then show ?thesis unfolding malloc_search_next [OF n pt Suc.prems(1) p(1)]
      using Suc.hyps(1) [OF p(2-4)] by (simp only: if_False)
  qed
qed

section \<open>The calls\<close>

lemma malloc_size:
  assumes "0 < unat n0" "unat n0 \<le> 4088"
  shows "0 < unat (ROUNDUP n0 8)" "unat (ROUNDUP n0 8) \<le> 4088" "unat (ROUNDUP n0 8) mod 8 = 0" "\<not> 1024 * 1024 \<le> ROUNDUP n0 8"
    "unat n0 \<le> unat (ROUNDUP n0 8)"
proof -
  have u: "unat (ROUNDUP n0 8) = 8 * ((unat n0 + 7) div 8)" using unat_ROUNDUP [of 8 n0] assms by simp
  have "(unat n0 + 7) div 8 \<le> (4088 + 7) div 8" using assms(2) by (intro div_le_mono) simp
  then show b: "unat (ROUNDUP n0 8) \<le> 4088" unfolding u by simp
  show "unat (ROUNDUP n0 8) mod 8 = 0" unfolding u by simp
  have "unat n0 + 7 = 8 * ((unat n0 + 7) div 8) + (unat n0 + 7) mod 8" by simp
  moreover have "(unat n0 + 7) mod 8 < 8" by simp
  ultimately show "unat n0 \<le> unat (ROUNDUP n0 8)" unfolding u by linarith
  then show "0 < unat (ROUNDUP n0 8)" using assms(1) by simp
  show "\<not> 1024 * 1024 \<le> ROUNDUP n0 8" using b by (simp add: word_le_nat_alt)
qed

lemma heap_inv_ptes: "heap_inv s B \<Longrightarrow> \<forall>p. 0x8000 \<le> p \<longrightarrow> p < 0x10000 \<longrightarrow> mpte s p = 0 \<or> mpte s p = 0x17"
  using heap_invD(4) [of s B] by (auto simp: pages_ok_def)

lemma malloc_search_heap:
  assumes inv: "heap_inv s B" and al: "unat (mptr s) mod 4096 = 0" "unat (mptr s) \<noteq> 0" and n: "unat n \<le> 4088"
  shows "search_ok s 0x8000 (malloc_search n 0 s)"
proof -
  let ?p = "unat (mptr s) div 4096"
  have p: "0x8000 \<le> ?p" "?p < 0x10000" using heap_invD(1) [OF inv] al(2) by (auto simp: mptr_ok_def)
  have "unat (of_nat ?p * PGSIZE :: u64) = unat (mptr s)" using page_address(1) [OF p(2)] al(1) by auto
  then have "s\<lparr>mptr := of_nat ?p * PGSIZE\<rparr> = s" by (simp add: word_unat_eq_iff)
  then show ?thesis using malloc_search_first [OF n heap_inv_ptes [OF inv] p(1)] p(2) by simp
qed

text \<open>A block at a fresh page.\<close>

lemma malloc_fresh:
  assumes inv: "heap_inv s B" and q: "mptr s = of_nat q * PGSIZE" "0x8000 \<le> q" "q < 0xFFFF" "mpte s q = 0" and k: "mquota s \<noteq> 0"
    and n: "0 < unat n" "unat n \<le> 4088" "unat n mod 8 = 0"
  shows "\<exists>s3 s4. malloc_pages ((unat (n + 4) + 4095) div 4096) 0 n s = (True, s3) \<and>
     set_ref (mptr s3 + of_nat ((unat (n + 4) + 4095) div 4096) * PGSIZE - 4) 2 s3 = Some s4 \<and> mptr s4 \<noteq> 0 \<and> B (unat (mptr s4)) = None \<and>
     heap_inv (s4\<lparr>mptr := mptr s4 + n\<rparr>) (B(unat (mptr s4) \<mapsto> unat n))"
proof -
  have u: "unat (n + 4) = unat n + 4" using n(2) by (simp add: unat_word_ariths)
  have one: "(unat n + 4 + 4095) div 4096 = Suc 0" using n(2) by (intro div_nat_eqI) simp_all
  have a: "unat (mptr s) = q * 4096" "unat (mptr s) div 4096 = q" "unat (mptr s) mod 4096 = 0"
    using page_address [of q] q by simp_all
  have "unat (4092 + mptr s) = q * 4096 + 4092" using a(1) q(3) by (simp add: unat_word_ariths)
  then have r: "unat (4092 + mptr s) div 4096 = q" by simp
  have c: "\<not> PGSIZE < n + 4" using u n(2) by (simp add: word_less_nat_alt)
  let ?s3 = "s\<lparr>mpte := (mpte s)(q := 0x17), mref := (mref s)(q := 0), mquota := mquota s - 1\<rparr>"
  let ?s4 = "?s3\<lparr>mref := (mref ?s3)(q := 2)\<rparr>"
  have "malloc_pages (Suc 0) 0 n s = (True, ?s3)" using c k q(4) a(2) by (simp add: heap_page_alloc_def)
  moreover have "set_ref (mptr ?s3 + of_nat (Suc 0) * PGSIZE - 4) 2 ?s3 = Some ?s4" using r by (simp add: set_ref_def)
  moreover have "mptr ?s4 \<noteq> 0" using a(1) q(2) by (auto simp: unat_eq_zero [symmetric])
  moreover have "B (unat (mptr s)) = None \<and> heap_inv (?s4\<lparr>mptr := mptr s + n\<rparr>) (B(unat (mptr s) \<mapsto> unat n))"
  proof (rule heap_inv_add [where k = "mquota s - 1", OF inv n(1,3)])
    have "live_refs (mptr s) B q = 0" using heap_invD(4) [OF inv] q by (auto simp: pages_ok_def split: if_splits)
    then have e: "page_blocks B q = {}" by (simp add: live_refs_def)
    then show "unat (mptr s) mod 4096 = 0 \<longrightarrow> page_blocks B q = {}" by simp
    show "unat (2 :: u32) = card (page_blocks B q) + 2" using e by simp
    show "unat (mptr s + n) = unat (mptr s) + unat n" using a(1) q(3) n(2) by (simp add: unat_word_ariths)
  qed (use a q n in simp_all)
  ultimately show ?thesis unfolding u one by auto
qed

text \<open>A block in the page in use.\<close>

lemma malloc_same_page:
  assumes inv: "heap_inv s B" and al: "unat (mptr s) mod 4096 \<noteq> 0" and n: "0 < unat n" "unat n \<le> 4088" "unat n mod 8 = 0"
    and fit: "mptr s div PGSIZE = (mptr s + n - 1 + 4) div PGSIZE"
  shows "\<exists>r s1. get_ref (ROUNDUP (mptr s) PGSIZE - 4) s = Some r \<and> set_ref (ROUNDUP (mptr s) PGSIZE - 4) (r + 1) s = Some s1 \<and>
     mptr s \<noteq> 0 \<and> B (unat (mptr s)) = None \<and> heap_inv (s1\<lparr>mptr := mptr s + n\<rparr>) (B(unat (mptr s) \<mapsto> unat n))"
proof -
  let ?a = "unat (mptr s)" and ?p = "unat (mptr s) div 4096"
  have p: "0x8000 \<le> ?p" "?p < 0xFFFF" using heap_invD(1) [OF inv] al by (auto simp: mptr_ok_def)
  have lt: "?a < 0x10000000" using p by (simp add: div_less_iff_less_mult)
  have "unat (3 + (mptr s + n)) = ?a + unat n + 3" using lt n(2) by (simp add: unat_word_ariths)
  then have dv: "?p = (?a + unat n + 3) div 4096" using arg_cong [OF fit, of unat] by (simp add: unat_div_distrib)
  have fits: "?a mod 4096 + unat n + 4 \<le> 4096" using page_offset_conv [of ?a "unat n + 3"] dv by (simp add: add.assoc)
  have "unat (ROUNDUP (mptr s) PGSIZE) = 4096 * (?p + 1)"
  proof -
    have "(?a mod 4096 + 4095) div 4096 = 1" using al by (intro div_nat_eqI) simp_all
    then have "(4095 + ?a) div 4096 = ?p + 1" by (simp only: page_carry [of ?a 4095] add.commute [of 4095])
    then show ?thesis using unat_ROUNDUP [of PGSIZE "mptr s"] lt by simp
  qed
  then have "unat (ROUNDUP (mptr s) PGSIZE - 4) = 4096 * ?p + 4092"
    by (subst unat_sub) (simp_all add: word_le_nat_alt)
  then have r: "unat (ROUNDUP (mptr s) PGSIZE - 4) div 4096 = ?p" by simp
  have m: "mpte s ?p = 0x17" "unat (mref s ?p) = card (page_blocks B ?p) + 1"
    using heap_invD(4) [OF inv] p al by (auto simp: pages_ok_def live_refs_def)
  have r2: "unat (mref s ?p + 1) = card (page_blocks B ?p) + 2"
    using m(2) page_blocks_le [OF inv, of ?p] by (simp add: unat_word_ariths)
  let ?s1 = "s\<lparr>mref := (mref s)(?p := mref s ?p + 1)\<rparr>"
  have "B ?a = None \<and> heap_inv (?s1\<lparr>mptr := mptr s + n\<rparr>) (B(?a \<mapsto> unat n))"
  proof (rule heap_inv_add [where k = "mquota s", OF inv n(1,3) fits refl p _ _ _ r2])
    show "unat (mptr s + n) = ?a + unat n" using lt n(2) by (simp add: unat_word_ariths)
    have "(mpte s)(?p := 0x17) = mpte s" using m(1) by (simp add: fun_upd_idem)
    then show "?s1\<lparr>mptr := mptr s + n\<rparr> = s\<lparr>mptr := mptr s + n, mpte := (mpte s)(?p := 0x17),
        mref := (mref s)(?p := mref s ?p + 1), mquota := mquota s\<rparr>" by simp
  qed (use al in simp)
  moreover have "mptr s \<noteq> 0" using al by auto
  ultimately show ?thesis using r m(1) by (simp add: get_ref_def set_ref_def)
qed

text \<open>What a call of \<open>malloc\<close> may do: return a new block, or NULL when the kernel has no page left or
  every page is in use.\<close>

definition malloc_ok :: "(nat \<rightharpoonup> nat) \<Rightarrow> nat \<Rightarrow> (u64 \<times> heap) option \<Rightarrow> bool" where
  "malloc_ok B m r \<longleftrightarrow> (\<exists>v s'. r = Some (v, s') \<and>
     (v \<noteq> 0 \<and> B (unat v) = None \<and> heap_inv s' (B(unat v \<mapsto> m)) \<or>
      v = 0 \<and> heap_inv s' B \<and> (mquota s' = 0 \<or> (\<forall>p. 0x8000 \<le> p \<longrightarrow> p < 0xFFFF \<longrightarrow> mpte s' p \<noteq> 0))))"

lemma malloc_place:
  assumes inv: "heap_inv s B" and al: "unat (mptr s) mod 4096 = 0" "unat (mptr s) \<noteq> 0"
    and n: "0 < unat n" "unat n \<le> 4088" "unat n mod 8 = 0"
  shows "malloc_ok B (unat n) (do {
       (found, s2) \<leftarrow> malloc_search n 0 s;
       if \<not> found then Some (0, s2)
       else do {
         let k = (unat (n + 4) + 4095) div 4096;
         let (ok, s3) = malloc_pages k 0 n s2;
         if \<not> ok then Some (0, s3)
         else do {
           s4 \<leftarrow> set_ref (mptr s3 + of_nat k * PGSIZE - 4) 2 s3;
           Some (mptr s4, s4\<lparr>mptr := mptr s4 + n\<rparr>) } } })"
proof -
  obtain b q where s2: "malloc_search n 0 s = Some (b, s\<lparr>mptr := of_nat q * PGSIZE\<rparr>)" and q: "0x8000 \<le> q" "q < 0x10000"
    "b \<longrightarrow> q < 0xFFFF \<and> mpte s q = 0" and f: "\<not> b \<longrightarrow> (\<forall>x. 0x8000 \<le> x \<longrightarrow> x < 0xFFFF \<longrightarrow> mpte s x \<noteq> 0)"
    using malloc_search_heap [OF inv al n(2)] unfolding search_ok_def by blast
  let ?s2 = "s\<lparr>mptr := of_nat q * PGSIZE\<rparr>"
  have "q * 4096 mod 8 = 0" by (simp add: mod_mult_right_eq [symmetric])
  then have inv2: "heap_inv ?s2 B"
    using q page_address [OF q(2)] by (intro heap_inv_mptr [OF inv al(1)]) (simp_all add: mptr_ok_def)
  show ?thesis
  proof (cases "b \<and> mquota s \<noteq> 0")
    case True
    then obtain s3 s4 where "malloc_pages ((unat (n + 4) + 4095) div 4096) 0 n ?s2 = (True, s3)"
      "set_ref (mptr s3 + of_nat ((unat (n + 4) + 4095) div 4096) * PGSIZE - 4) 2 s3 = Some s4" "mptr s4 \<noteq> 0" "B (unat (mptr s4)) = None"
      "heap_inv (s4\<lparr>mptr := mptr s4 + n\<rparr>) (B(unat (mptr s4) \<mapsto> unat n))"
      using malloc_fresh [OF inv2 _ q(1) _ _ _ n] q(3) by auto
    then show ?thesis using s2 True by (auto simp: malloc_ok_def Let_def)
  next
    case False
    have "(unat n + 4 + 4095) div 4096 = Suc 0" using n(2) by (intro div_nat_eqI) simp_all
    moreover have "unat (n + 4) = unat n + 4" using n(2) by (simp add: unat_word_ariths)
    ultimately have "malloc_pages ((unat (n + 4) + 4095) div 4096) 0 n ?s2 = (False, ?s2)" if b
      using False that q page_address [OF q(2)] by (simp add: heap_page_alloc_def heap_page_unmap_def)
    then show ?thesis using s2 False inv2 f by (cases b) (simp_all add: malloc_ok_def Let_def)
  qed
qed

lemma malloc_pointer:
  assumes inv: "heap_inv s B" and nz: "mptr s \<noteq> 0" and n: "0 < unat n" "unat n \<le> 4088"
  shows "malloc_ok B (unat (ROUNDUP n 8)) (malloc n s)"
proof -
  define m where "m = ROUNDUP n 8"
  note sz = malloc_size [OF n, folded m_def]
  note body = malloc_def [of n s, folded m_def, unfolded if_not_P [OF nz] Let_def [of s] Let_def [of m] if_not_P [OF sz(4)]]
  have nz': "unat (mptr s) \<noteq> 0" using nz by (simp add: unat_eq_zero)
  have al: "mptr s mod PGSIZE = 0 \<longleftrightarrow> unat (mptr s) mod 4096 = 0" by (simp add: word_unat_eq_iff unat_mod_distrib)
  consider "mptr s mod PGSIZE \<noteq> 0" "mptr s div PGSIZE = (mptr s + m - 1 + 4) div PGSIZE"
    | "mptr s mod PGSIZE \<noteq> 0" "mptr s div PGSIZE \<noteq> (mptr s + m - 1 + 4) div PGSIZE"
    | "mptr s mod PGSIZE = 0" by metis
  then have "malloc_ok B (unat m) (malloc n s)"
  proof cases
    case 1
    then have c: "mptr s mod PGSIZE \<noteq> 0 \<and> mptr s div PGSIZE = (mptr s + m - 1 + 4) div PGSIZE" by (rule conjI)
    have "unat (mptr s) mod 4096 \<noteq> 0" using 1(1) al by blast
    then obtain r s1 where r: "get_ref (ROUNDUP (mptr s) PGSIZE - 4) s = Some r" "set_ref (ROUNDUP (mptr s) PGSIZE - 4) (r + 1) s = Some s1"
      and s1: "mptr s \<noteq> 0" "B (unat (mptr s)) = None" "heap_inv (s1\<lparr>mptr := mptr s + m\<rparr>) (B(unat (mptr s) \<mapsto> unat m))"
      using malloc_same_page [OF inv _ sz(1-3) 1(2)] by blast
    show ?thesis unfolding body if_P [OF c] Let_def r Option.bind.bind_lunit malloc_ok_def using s1 by blast
  next
    case 2
    then have c: "\<not> (mptr s mod PGSIZE \<noteq> 0 \<and> mptr s div PGSIZE = (mptr s + m - 1 + 4) div PGSIZE)" by metis
    have m0: "unat (mptr s) mod 4096 \<noteq> 0" using 2(1) al by blast
    obtain t where t: "free (mptr s) s = Some t" "mptr t = mptr s" "heap_inv (t\<lparr>mptr := ROUNDDOWN (mptr s + PGSIZE) PGSIZE\<rparr>) B"
      "unat (ROUNDDOWN (mptr s + PGSIZE) PGSIZE) mod 4096 = 0" "unat (ROUNDDOWN (mptr s + PGSIZE) PGSIZE) \<noteq> 0"
      by (rule exE [OF drop_pointer [OF inv m0]], elim conjE, rule that)
    have e: "mptr (t\<lparr>mptr := x\<rparr>) = x" for x by simp
    have "unat (mptr (t\<lparr>mptr := ROUNDDOWN (mptr s + PGSIZE) PGSIZE\<rparr>)) mod 4096 = 0"
      "unat (mptr (t\<lparr>mptr := ROUNDDOWN (mptr s + PGSIZE) PGSIZE\<rparr>)) \<noteq> 0" unfolding e by (rule t(4), rule t(5))
    from malloc_place [OF t(3) this sz(1-3)] show ?thesis
      unfolding body if_not_P [OF c] if_P [OF 2(1)] t(1,2) Option.bind.bind_lunit .
  next
    case 3
    then have c: "\<not> (mptr s mod PGSIZE \<noteq> 0 \<and> mptr s div PGSIZE = (mptr s + m - 1 + 4) div PGSIZE)" "\<not> mptr s mod PGSIZE \<noteq> 0" by metis+
    have "unat (mptr s) mod 4096 = 0" using 3 al by (rule iffD1 [rotated])
    from malloc_place [OF inv this nz' sz(1-3)] show ?thesis
      unfolding body if_not_P [OF c(1)] if_not_P [OF c(2)] Option.bind.bind_lunit .
  qed
  then show ?thesis unfolding m_def .
qed

lemma malloc_correct:
  assumes inv: "heap_inv s B" and n: "0 < unat n" "unat n \<le> 4088"
  shows "malloc_ok B (unat (ROUNDUP n 8)) (malloc n s)"
proof (cases "mptr s = 0")
  case True
  then have "heap_inv (s\<lparr>mptr := mbegin\<rparr>) B" by (intro heap_inv_mptr [OF inv]) (simp_all add: mptr_ok_def)
  from malloc_pointer [OF this _ n] show ?thesis unfolding malloc_def using True by simp
next
  case False
  then show ?thesis by (rule malloc_pointer [OF inv _ n])
qed

section \<open>Sequences of calls\<close>

primrec blocks_after :: "hcall \<Rightarrow> u64 \<Rightarrow> (nat \<rightharpoonup> nat) \<Rightarrow> (nat \<rightharpoonup> nat)" where
  "blocks_after (Malloc n) v B = (if v = 0 then B else B(unat v \<mapsto> unat (ROUNDUP n 8)))"
| "blocks_after (Free a) v B = B(unat a := None)"

text \<open>Requests of at most a page, and each block freed at most once.\<close>

primrec hcall_ok :: "hcall \<Rightarrow> (nat \<rightharpoonup> nat) \<Rightarrow> bool" where
  "hcall_ok (Malloc n) B \<longleftrightarrow> 0 < unat n \<and> unat n \<le> 4088"
| "hcall_ok (Free a) B \<longleftrightarrow> a = 0 \<or> B (unat a) \<noteq> None"

primrec hruns :: "hcall list \<Rightarrow> heap \<Rightarrow> (nat \<rightharpoonup> nat) \<Rightarrow> (heap \<times> (nat \<rightharpoonup> nat)) option" where
  "hruns [] s B = Some (s, B)"
| "hruns (c # cs) s B = do { (v, s1) \<leftarrow> hcall_exec c s; hruns cs s1 (blocks_after c v B) }"

primrec hcalls_ok :: "hcall list \<Rightarrow> heap \<Rightarrow> (nat \<rightharpoonup> nat) \<Rightarrow> bool" where
  "hcalls_ok [] s B \<longleftrightarrow> True"
| "hcalls_ok (c # cs) s B \<longleftrightarrow> hcall_ok c B \<and>
     (case hcall_exec c s of None \<Rightarrow> True | Some (v, s1) \<Rightarrow> hcalls_ok cs s1 (blocks_after c v B))"

lemma hcall_inv:
  assumes inv: "heap_inv s B" and ok: "hcall_ok c B"
  shows "\<exists>v s1. hcall_exec c s = Some (v, s1) \<and> heap_inv s1 (blocks_after c v B)"
proof (cases c)
  case (Malloc n)
  then show ?thesis using malloc_correct [OF inv, of n] ok by (auto simp: malloc_ok_def)
next
  case (Free a)
  show ?thesis
  proof (cases "a = 0")
    case True
    have "B 0 = None" using heap_invD(2) [OF inv, of 0] by (cases "B 0") (auto simp: block_ok_def)
    then have "B(0 := None) = B" by (simp add: fun_upd_idem)
    then show ?thesis using inv Free True by (simp add: free_def)
  next
    case False
    then obtain n where "B (unat a) = Some n" using ok Free by auto
    from free_live_block [OF inv this] show ?thesis using Free by auto
  qed
qed

lemma hruns_inv:
  "heap_inv s B \<Longrightarrow> hcalls_ok cs s B \<Longrightarrow> \<exists>s' B'. hruns cs s B = Some (s', B') \<and> heap_inv s' B'"
proof (induction cs arbitrary: s B)
  case (Cons c cs)
  then obtain v s1 where c: "hcall_exec c s = Some (v, s1)" "heap_inv s1 (blocks_after c v B)"
    using hcall_inv [of s B c] by auto
  then show ?case using Cons.IH [OF c(2)] Cons.prems(2) by simp
qed auto

text \<open>C11. The allocator is safe for requests of 1 to 4088 bytes. After every sequence of such requests and of
  calls of \<open>free\<close> for blocks in use, none of which faults or fails an assertion, each block in use
  lies inside one mapped page before its reference count, no two blocks overlap, and a page
  that holds no block is unmapped unless the next block may be placed there.\<close>

theorem heap_safe:
  assumes "mptr s = 0" "\<forall>p. 0x8000 \<le> p \<longrightarrow> p < 0x10000 \<longrightarrow> mpte s p = 0" "hcalls_ok cs s Map.empty"
  shows "\<exists>s' B. hruns cs s Map.empty = Some (s', B) \<and>
     (\<forall>a n. B a = Some n \<longrightarrow> 0x8000 \<le> a div 4096 \<and> a div 4096 < 0x10000 \<and> mpte s' (a div 4096) = PTE_V OR PTE_U OR PTE_W OR PTE_R \<and>
        a mod 4096 + n + 4 \<le> 4096) \<and>
     (\<forall>a n b m. B a = Some n \<longrightarrow> B b = Some m \<longrightarrow> a \<noteq> b \<longrightarrow> a + n \<le> b \<or> b + m \<le> a) \<and>
     (\<forall>p. 0x8000 \<le> p \<longrightarrow> p < 0x10000 \<longrightarrow> mpte s' p \<noteq> 0 \<longrightarrow> (\<exists>a. B a \<noteq> None \<and> a div 4096 = p) \<or> unat (mptr s') div 4096 = p)"
proof -
  have "page_blocks Map.empty p = {}" for p by (simp add: page_blocks_def)
  then have "heap_inv s Map.empty"
    using assms(1,2) by (simp add: heap_inv_def mptr_ok_def apart_def pages_ok_def live_refs_def)
  from hruns_inv [OF this assms(3)] obtain s' B where r: "hruns cs s Map.empty = Some (s', B)" and inv: "heap_inv s' B" by blast
  have "mpte s' (a div 4096) = 0x17" if "B a = Some n" for a n
  proof -
    have "a \<in> page_blocks B (a div 4096)" using that by (auto simp: page_blocks_def)
    then have "live_refs (mptr s') B (a div 4096) \<noteq> 0" by (auto simp: live_refs_def)
    then show ?thesis using heap_invD(4) [OF inv] heap_invD(2) [OF inv that] by (simp add: pages_ok_def block_ok_def)
  qed
  moreover have "(\<exists>a. B a \<noteq> None \<and> a div 4096 = p) \<or> unat (mptr s') div 4096 = p" if "0x8000 \<le> p" "p < 0x10000" "mpte s' p \<noteq> 0" for p
  proof -
    have "live_refs (mptr s') B p \<noteq> 0" using that heap_invD(4) [OF inv] by (auto simp: pages_ok_def split: if_splits)
    then show ?thesis by (auto simp: live_refs_def page_blocks_def card_gt_0_iff split: if_splits)
  qed
  moreover have "0x8000 \<le> a div 4096 \<and> a div 4096 < 0x10000 \<and> a mod 4096 + n + 4 \<le> 4096" if "B a = Some n" for a n
    using heap_invD(2) [OF inv that] by (simp add: block_ok_def)
  ultimately show ?thesis using r heap_invD(3) [OF inv] unfolding apart_def by auto
qed

theorem heap_safe_witness:
  "\<exists>s' B. hruns [Malloc 100, Malloc 200, Free mbegin] \<lparr>mptr = 0, mpte = \<lambda>_. 0, mref = \<lambda>_. 0, mquota = 1\<rparr> Map.empty = Some (s', B) \<and>
     B 0x8000068 = Some 200 \<and> mpte s' 0x8000 = PTE_V OR PTE_U OR PTE_W OR PTE_R"
proof -
  let ?s = "\<lparr>mptr = 0, mpte = \<lambda>_. 0, mref = \<lambda>_. 0, mquota = 1\<rparr>"
  let ?s1 = "\<lparr>mptr = 0x8000068, mpte = (\<lambda>_. 0)(0x8000 := 0x17), mref = (\<lambda>_. 0)(0x8000 := 2), mquota = 0\<rparr>"
  let ?s2 = "\<lparr>mptr = 0x8000130, mpte = (\<lambda>_. 0)(0x8000 := 0x17), mref = (\<lambda>_. 0)(0x8000 := 3), mquota = 0\<rparr>"
  have u: "ROUNDUP 100 8 = 104" "ROUNDUP 200 8 = 200" "ROUNDUP 0x8000068 PGSIZE = 0x8001000" by (simp_all add: ROUNDUP_def ROUNDDOWN_def)
  have m1: "malloc 100 ?s = Some (mbegin, ?s1)"
    by (simp add: malloc_def u malloc_search.simps [of 104] isfree_def heap_uvpt_pte_def heap_page_alloc_def set_ref_def)
  have m2: "malloc 200 ?s1 = Some (0x8000068, ?s2)"
    by (simp add: malloc_def u get_ref_def set_ref_def)
  have ok: "hcalls_ok [Malloc 100, Malloc 200, Free mbegin] ?s Map.empty" using m1 m2 by (simp split: option.splits prod.splits)
  obtain s' B where r: "hruns [Malloc 100, Malloc 200, Free mbegin] ?s Map.empty = Some (s', B)"
    and b: "\<forall>a n. B a = Some n \<longrightarrow> mpte s' (a div 4096) = PTE_V OR PTE_U OR PTE_W OR PTE_R"
    using heap_safe [of ?s "[Malloc 100, Malloc 200, Free mbegin]"] ok by auto
  have "B 0x8000068 = Some 200" using r m1 m2 u by (auto split: bind_splits)
  moreover from this b have "mpte s' (0x8000068 div 4096) = PTE_V OR PTE_U OR PTE_W OR PTE_R" by blast
  ultimately show ?thesis using r by auto
qed

end
