(* ===== verification/Uprintf.thy ===== *)
theory Uprintf
  imports Printfmt Fd_Calls
begin

unbundle bit_operations_syntax

text \<open>
  Formatted output of programs: \<^verbatim>\<open>lib/riscv/printf.c\<close>, which prints on the console by system calls,
  and \<^verbatim>\<open>lib/riscv/fprintf.c\<close>, which writes to a file descriptor. Both collect the characters in a
  buffer of 256 bytes. The list \<open>pb_buf\<close> holds the bytes before the index \<^verbatim>\<open>idx\<close>. \<open>mem\<close> is the memory
  the string arguments are read from, which printing does not change. The counters \<^verbatim>\<open>cnt\<close> and \<^verbatim>\<open>result\<close> are integers; what a
  C \<^verbatim>\<open>int\<close> does beyond 2147483647 printed characters is not modelled.

  The characters a format prints are those of \<open>printed\<close>, the formatting loop with the output function that
  appends to a list. The lemma \<open>vprintfmt_hom\<close>
  moves a run of the formatting loop from one output function to another; with it the buffered functions
  are shown to print exactly these characters.
\<close>

section \<open>The functions\<close>

record cprintbuf =
  cb_cnt :: int
  cb_buf :: "u8 list"
  cb_proc :: uproc

definition cputch :: "int \<Rightarrow> cprintbuf \<Rightarrow> cprintbuf" where
  "cputch ch b =
     (let b1 = b\<lparr>cb_buf := cb_buf b @ [word_of_int ch]\<rparr>;
          b2 = (if length (cb_buf b1) = 255
                then b1\<lparr>cb_proc := cputs (cb_buf b1) (cb_proc b1), cb_buf := []\<rparr> else b1)
      in b2\<lparr>cb_cnt := cb_cnt b2 + 1\<rparr>)"

definition vcprintf :: "cmem \<Rightarrow> u8 list \<Rightarrow> u64 list \<Rightarrow> uproc \<Rightarrow> (int \<times> uproc) option" where
  "vcprintf mem fmt ap s = do {
     b \<leftarrow> vprintfmt cputch (\<lambda>_. mem) fmt ap \<lparr>cb_cnt = 0, cb_buf = [], cb_proc = s\<rparr>;
     Some (cb_cnt b, cputs (cb_buf b) (cb_proc b)) }"

text \<open>A write that never returns makes \<open>pb_proc\<close> be \<open>None\<close>.\<close>

record printbuf =
  pb_fd :: int
  pb_result :: int
  pb_error :: int
  pb_buf :: "u8 list"
  pb_proc :: "uproc option"

definition writebuf :: "printbuf \<Rightarrow> printbuf" where
  "writebuf b =
     (if pb_error b > 0 then
        (case Option.bind (pb_proc b) (write_fd (pb_fd b) (pb_buf b)) of
           None \<Rightarrow> b\<lparr>pb_proc := None\<rparr>
         | Some (result, s) \<Rightarrow>
             let b1 = b\<lparr>pb_proc := Some s\<rparr>;
                 b2 = (if result > 0 then b1\<lparr>pb_result := pb_result b1 + result\<rparr> else b1)
             in if result \<noteq> int (length (pb_buf b2))
                then b2\<lparr>pb_error := (if result < 0 then result else 0)\<rparr> else b2)
      else b)"

definition putch_fd :: "int \<Rightarrow> printbuf \<Rightarrow> printbuf" where
  "putch_fd ch b =
     (let b1 = b\<lparr>pb_buf := pb_buf b @ [word_of_int ch]\<rparr> in
      if length (pb_buf b1) = 256 then (writebuf b1)\<lparr>pb_buf := []\<rparr> else b1)"

definition vfprintf :: "cmem \<Rightarrow> int \<Rightarrow> u8 list \<Rightarrow> u64 list \<Rightarrow> uproc \<Rightarrow> (int \<times> uproc) option" where
  "vfprintf mem fd fmt ap s = do {
     b \<leftarrow> vprintfmt putch_fd (\<lambda>_. mem) fmt ap
            \<lparr>pb_fd = fd, pb_result = 0, pb_error = 1, pb_buf = [], pb_proc = Some s\<rparr>;
     let b1 = (if length (pb_buf b) > 0 then writebuf b else b);
     s1 \<leftarrow> pb_proc b1;
     Some (if pb_result b1 \<noteq> 0 then pb_result b1 else pb_error b1, s1) }"

definition fprintf :: "cmem \<Rightarrow> int \<Rightarrow> u8 list \<Rightarrow> u64 list \<Rightarrow> uproc \<Rightarrow> (int \<times> uproc) option" where
  "fprintf mem fd fmt ap s = vfprintf mem fd fmt ap s"

definition printf :: "cmem \<Rightarrow> u8 list \<Rightarrow> u64 list \<Rightarrow> uproc \<Rightarrow> (int \<times> uproc) option" where
  "printf mem fmt ap s = vfprintf mem 1 fmt ap s"

section \<open>Changing the output function\<close>

definition hom :: "('s \<Rightarrow> 't) \<Rightarrow> (int \<Rightarrow> 's \<Rightarrow> 's) \<Rightarrow> (int \<Rightarrow> 't \<Rightarrow> 't) \<Rightarrow> bool" where
  "hom f putch putch' \<longleftrightarrow> (\<forall>c st. f (putch c st) = putch' c (f st))"

lemma fold_hom: "hom f putch putch' \<Longrightarrow> f (fold putch cs st) = fold putch' cs (f st)"
  by (induction cs arbitrary: st) (simp_all add: hom_def)

lemma put_times_hom: "hom f putch putch' \<Longrightarrow> f (put_times putch c n st) = put_times putch' c n (f st)"
  unfolding put_times_fold by (rule fold_hom)

lemma put_const_hom: "hom f putch putch' \<Longrightarrow> f (put_const putch cs st) = put_const putch' cs (f st)"
  unfolding put_const_def by (induction cs arbitrary: st) (simp_all add: hom_def)

lemma printnum_hom:
  assumes "hom f putch putch'" "2 \<le> b"
  shows "printnum putch' n b w pad (f st) = map_option f (printnum putch n b w pad st)"
proof (induction n arbitrary: w rule: less_induct)
  case (less n)
  show ?case
  proof (cases "n < b")
    case True
    then show ?thesis
      using put_times_hom [OF assms(1), symmetric] assms(1) by (subst (1 2) printnum.simps) (simp add: hom_def)
  next
    case False
    then have "n div b < n" using assms(2) by simp
    then show ?thesis using False less [of "n div b" "w - 1"] assms(1)
      by (subst (1 2) printnum.simps) (cases "printnum putch (n div b) b (w - 1) pad st"; simp add: hom_def)
  qed
qed

lemma put_signed_hom:
  assumes "hom f putch putch'"
  shows "put_signed putch' num cv (f st) = map_option f (put_signed putch num cv st)"
  by (simp add: put_signed_def printnum_hom [OF assms] assms [unfolded hom_def, rule_format, symmetric])

lemma put_error_hom:
  assumes "hom f putch putch'"
  shows "put_error putch' e (f st) = map_option f (put_error putch e st)"
  unfolding put_error_def Let_def
  by (simp add: put_const_hom [OF assms, symmetric] put_signed_hom [OF assms] split: option.splits)

lemma put_string_loop_hom:
  assumes h: "hom f putch putch'" and l: "put_string_loop putch (\<lambda>_. mem) alt p prec w st = Some y"
  shows "put_string_loop putch' (\<lambda>_. mem) alt p prec w (f st) = Some (fst y, f (snd y))"
proof -
  let ?Q = "\<lambda>g (mm :: 'a \<Rightarrow> cmem) (alt :: bool) (p :: u64) (prec :: int) (w :: int) st (y :: int \<times> 'a).
      g = putch \<longrightarrow> mm = (\<lambda>_. mem) \<longrightarrow> put_string_loop putch' (\<lambda>_. mem) alt p prec w (f st) = Some (fst y, f (snd y))"
  have "?Q putch (\<lambda>_. mem) alt p prec w st y"
  proof (rule put_string_loop.raw_induct [where P = ?Q, OF _ l])
    fix loop g mm alt p prec w st y
    assume IH: "\<And>g mm alt p prec w st y. loop g mm alt p prec w st = Some y \<Longrightarrow> ?Q g mm alt p prec w st y"
      and body: "(let ch = mm st p in
        if ch = 0 then Some (w, st)
        else if prec < 0 \<or> prec - 1 \<ge> 0 then
          loop g mm alt (p + 1) (if prec < 0 then prec else prec - 1) (w - 1)
            (g (if alt \<and> (ch < 0x20 \<or> ch > 0x7e) then 0x3f else uint ch) st)
        else Some (w, st)) = Some y"
    show "?Q g mm alt p prec w st y"
    proof (intro impI)
      assume e: "g = putch" "mm = (\<lambda>_. mem)"
      show "put_string_loop putch' (\<lambda>_. mem) alt p prec w (f st) = Some (fst y, f (snd y))"
      proof (cases "mem p \<noteq> 0 \<and> (prec < 0 \<or> prec - 1 \<ge> 0)")
        case True
        let ?c = "if alt \<and> (mem p < 0x20 \<or> mem p > 0x7e) then 0x3f else uint (mem p)"
        have "loop putch (\<lambda>_. mem) alt (p + 1) (if prec < 0 then prec else prec - 1) (w - 1) (putch ?c st) = Some y"
          using body True by (simp add: e Let_def)
        from IH [OF this] have "put_string_loop putch' (\<lambda>_. mem) alt (p + 1) (if prec < 0 then prec else prec - 1) (w - 1) (f (putch ?c st)) =
          Some (fst y, f (snd y))" by blast
        moreover have "f (putch ?c st) = putch' ?c (f st)" using h by (simp only: hom_def)
        ultimately show ?thesis using True by (simp only: put_string_loop.simps [of putch' _ alt p prec w] Let_def) simp
      next
        case False
        have "y = (w, st)" using body False by (cases "mem p = 0") (simp_all add: e Let_def)
        then show ?thesis using False by (subst put_string_loop.simps) (cases "mem p = 0"; simp add: Let_def)
      qed
    qed
  qed
  then show ?thesis by blast
qed

lemma fmt_string_hom:
  assumes h: "hom f putch putch'" and s: "fmt_string putch (\<lambda>_. mem) cv p st = Some st'"
  shows "fmt_string putch' (\<lambda>_. mem) cv p (f st) = Some (f st')"
proof (cases "p = 0")
  case True
  then show ?thesis using s by (auto simp: fmt_string_def Let_def put_times_hom [OF h] put_const_hom [OF h])
next
  case False
  then show ?thesis
    using s put_string_loop_hom [OF h]
    by (auto simp: fmt_string_def Let_def Option.bind_eq_Some_conv put_times_hom [OF h, symmetric] split: if_splits; force)
qed

lemma convert_hom:
  assumes h: "hom f putch putch'" and c: "convert putch (\<lambda>_. mem) ch cv ap st = Some q"
  shows "convert putch' (\<lambda>_. mem) ch cv ap (f st) = Some (map_option (map_prod id f) q)"
  using c fmt_string_hom [OF h, of mem cv] unfolding convert_def
  by (auto simp: printnum_hom [OF h] put_signed_hom [OF h] put_error_hom [OF h] h [unfolded hom_def, rule_format, symmetric]
      split: if_splits list.splits bind_splits)

lemma vprintfmt_hom:
  assumes h: "hom f putch putch'"
  shows "vprintfmt putch (\<lambda>_. mem) fmt ap st = Some st' \<Longrightarrow> vprintfmt putch' (\<lambda>_. mem) fmt ap (f st) = Some (f st')"
proof (induction "length fmt" arbitrary: fmt ap st rule: less_induct)
  case less
  show ?case
  proof (cases fmt)
    case Nil
    then show ?thesis using less.prems by simp
  next
    case (Cons ch r)
    show ?thesis
    proof (cases "ch = 0x25")
      case False
      then show ?thesis using less.hyps [of r ap "putch (uint ch) st"] less.prems h Cons by (simp add: hom_def)
    next
      case True
      obtain c cv rest ap1 where e: "escape r plain ap = Some (c, cv, rest, ap1)"
        using less.prems Cons True by (auto split: option.splits)
      then have l: "length rest < length fmt" using escape_length [OF e] Cons by simp
      obtain q where q: "convert putch (\<lambda>_. mem) c cv ap1 st = Some q"
        using less.prems Cons True e by (auto split: option.splits)
      note q' = convert_hom [OF h q]
      show ?thesis
      proof (cases q)
        case None
        then show ?thesis using less.hyps [of r ap1 "putch 0x25 st"] less.prems h Cons True e q q' by (simp add: hom_def)
      next
        case (Some x)
        then show ?thesis using less.hyps [OF l] less.prems Cons True e q q' by (cases x) auto
      qed
    qed
  qed
qed

section \<open>What is printed\<close>

definition emit :: "int \<Rightarrow> u8 list \<Rightarrow> u8 list" where
  "emit c xs = xs @ [word_of_int c]"

definition printed :: "cmem \<Rightarrow> u8 list \<Rightarrow> u64 list \<Rightarrow> u8 list option" where
  "printed mem fmt ap = vprintfmt emit (\<lambda>_. mem) fmt ap []"

lemma printed_fold:
  assumes p: "printed mem fmt ap = Some out" and b: "\<And>c st. putch (uint (word_of_int c :: u8)) st = putch c st"
  shows "vprintfmt putch (\<lambda>_. mem) fmt ap st = Some (fold (\<lambda>x. putch (uint x)) out st)"
proof -
  have "hom (\<lambda>xs. fold (\<lambda>x. putch (uint x)) xs st) emit putch" by (simp add: hom_def emit_def b)
  from vprintfmt_hom [OF this p [unfolded printed_def]] show ?thesis by simp
qed

lemma putch_byte: "cputch (uint (word_of_int c :: u8)) b = cputch c b" "putch_fd (uint (word_of_int c :: u8)) b' = putch_fd c b'"
  by (simp_all add: cputch_def putch_fd_def)

subsection \<open>On the console\<close>

lemma cputs_append: "0 \<notin> set xs \<Longrightarrow> cputs ys (cputs xs s) = cputs (xs @ ys) s"
proof -
  assume "0 \<notin> set xs"
  then have tw: "takeWhile (\<lambda>x. x \<noteq> 0) xs = xs" "takeWhile (\<lambda>x. x \<noteq> 0) (xs @ ys) = xs @ takeWhile (\<lambda>x. x \<noteq> 0) ys"
    by (auto intro!: takeWhile_append2 simp: takeWhile_eq_all_conv)
  show ?thesis unfolding cputs_def tw by simp
qed

lemma cputs_Nil: "cputs [] s = s"
  by (simp add: cputs_def)

lemma cputch_fold:
  "0 \<notin> set (cb_buf b) \<Longrightarrow> 0 \<notin> set xs \<Longrightarrow> b' = fold (\<lambda>x. cputch (uint x)) xs b \<Longrightarrow>
     cb_cnt b' = cb_cnt b + int (length xs) \<and> cputs (cb_buf b') (cb_proc b') = cputs (cb_buf b @ xs) (cb_proc b)"
proof (induction xs arbitrary: b)
  case (Cons x xs)
  let ?b = "cputch (uint x) b"
  have c: "cb_cnt ?b = cb_cnt b + 1" "0 \<notin> set (cb_buf ?b)" using Cons.prems(1,2) by (simp_all add: cputch_def Let_def)
  have "cputs (cb_buf ?b @ xs) (cb_proc ?b) = cputs (cb_buf b @ x # xs) (cb_proc b)"
    using cputs_append [of "cb_buf b @ [x]" xs "cb_proc b"] Cons.prems(1,2) by (simp add: cputch_def Let_def)
  then show ?case using Cons.IH [OF c(2)] Cons.prems(2,3) c(1) by simp
qed simp

lemma vcprintf_prints:
  assumes "printed mem fmt ap = Some out" "0 \<notin> set out"
  shows "vcprintf mem fmt ap s = Some (int (length out), cputs out s)"
  unfolding vcprintf_def printed_fold [where putch = cputch, OF assms(1) putch_byte(1)]
  using cputch_fold [of "\<lparr>cb_cnt = 0, cb_buf = [], cb_proc = s\<rparr>" out, OF _ assms(2) refl] by simp

subsection \<open>To a descriptor\<close>

function pieces :: "u8 list \<Rightarrow> u8 list list" where
  "pieces xs = (if xs = [] then [] else take 256 xs # pieces (drop 256 xs))"
  by pat_completeness auto
termination by (relation "measure length") auto

declare pieces.simps [simp del]

text \<open>Writing pieces one after the other up to the first that is not written completely.\<close>

primrec write_pieces :: "int \<Rightarrow> u8 list list \<Rightarrow> int \<Rightarrow> uproc \<Rightarrow> (int \<times> int \<times> uproc) option" where
  "write_pieces fd [] n s = Some (n, 1, s)"
| "write_pieces fd (xs # xss) n s = do {
     (r, s1) \<leftarrow> write_fd fd xs s;
     let n1 = (if r > 0 then n + r else n);
     if r = int (length xs) then write_pieces fd xss n1 s1
     else Some (n1, if r < 0 then r else 0, s1) }"

definition finish :: "printbuf \<Rightarrow> printbuf" where
  "finish b = (if length (pb_buf b) > 0 then writebuf b else b)"

definition outcome :: "printbuf \<Rightarrow> (int \<times> int \<times> uproc) option" where
  "outcome b = map_option (\<lambda>s. (pb_result b, pb_error b, s)) (pb_proc b)"

lemma writebuf_stuck: "pb_error b \<le> 0 \<or> pb_proc b = None \<Longrightarrow> writebuf b = b"
  by (cases b) (auto simp: writebuf_def)

lemma outcome_stuck:
  assumes "pb_error b \<le> 0 \<or> pb_proc b = None"
  shows "outcome (finish (fold (\<lambda>x. putch_fd (uint x)) (xs :: u8 list) b)) = outcome b"
  using assms
proof (induction xs arbitrary: b)
  case Nil
  then show ?case by (simp add: finish_def writebuf_stuck)
next
  case (Cons x xs)
  let ?b = "putch_fd (uint x) b"
  have "writebuf (b\<lparr>pb_buf := pb_buf b @ [x]\<rparr>) = b\<lparr>pb_buf := pb_buf b @ [x]\<rparr>" using Cons.prems by (intro writebuf_stuck) simp
  then have "pb_error ?b = pb_error b" "pb_proc ?b = pb_proc b" "pb_result ?b = pb_result b" by (simp_all add: putch_fd_def Let_def)
  then show ?case using Cons.IH [of ?b] Cons.prems by (simp add: outcome_def)
qed

lemma outcome_pieces:
  "length (pb_buf b) < 256 \<Longrightarrow> pb_error b = 1 \<Longrightarrow> pb_proc b = Some s \<Longrightarrow>
     outcome (finish (fold (\<lambda>x. putch_fd (uint x)) xs b)) = write_pieces (pb_fd b) (pieces (pb_buf b @ xs)) (pb_result b) s"
proof (induction xs arbitrary: b s)
  case Nil
  show ?case
  proof (cases "pb_buf b = []")
    case True
    then show ?thesis using Nil.prems by (simp add: finish_def outcome_def pieces.simps)
  next
    case False
    then have "pieces (pb_buf b) = [pb_buf b]" using Nil.prems(1) by (subst pieces.simps) (simp add: pieces.simps)
    then show ?thesis using Nil.prems False
      by (cases "write_fd (pb_fd b) (pb_buf b) s") (auto simp: finish_def writebuf_def outcome_def Let_def)
  qed
next
  case (Cons x xs)
  let ?c = "pb_buf b @ [x]"
  show ?case
  proof (cases "length ?c = 256")
    case False
    then have "length (pb_buf (putch_fd (uint x) b)) < 256" "putch_fd (uint x) b = b\<lparr>pb_buf := ?c\<rparr>"
      using Cons.prems(1) by (simp_all add: putch_fd_def)
    then show ?thesis using Cons.IH [of "b\<lparr>pb_buf := ?c\<rparr>" s] Cons.prems by simp
  next
    case True
    let ?b = "(writebuf (b\<lparr>pb_buf := ?c\<rparr>))\<lparr>pb_buf := []\<rparr>"
    have b: "putch_fd (uint x) b = ?b" using True by (simp add: putch_fd_def)
    have ps: "pieces (pb_buf b @ x # xs) = ?c # pieces xs" using True by (subst pieces.simps) simp
    show ?thesis
    proof (cases "write_fd (pb_fd b) ?c s")
      case None
      then have "pb_proc ?b = None" using Cons.prems by (simp add: writebuf_def)
      then show ?thesis using outcome_stuck [of ?b xs] None by (simp add: b ps outcome_def)
    next
      case (Some rs)
      obtain r s1 where w: "write_fd (pb_fd b) ?c s = Some (r, s1)" using Some by (cases rs) simp
      then have bb: "pb_fd ?b = pb_fd b" "pb_buf ?b = []" "pb_proc ?b = Some s1" "pb_result ?b = (if r > 0 then pb_result b + r else pb_result b)"
        "pb_error ?b = (if r = 256 then 1 else if r < 0 then r else 0)"
        using Cons.prems True by (simp_all add: writebuf_def Let_def)
      show ?thesis
      proof (cases "r = 256")
        case eq: True
        then show ?thesis using Cons.IH [of ?b s1] bb w True by (simp add: b ps)
      next
        case ne: False
        then show ?thesis using outcome_stuck [of ?b xs] bb w True by (simp add: b ps outcome_def Let_def)
      qed
    qed
  qed
qed

lemma vfprintf_pieces:
  assumes "printed mem fmt ap = Some out"
  shows "vfprintf mem fd fmt ap s =
     map_option (\<lambda>(n, e, s1). (if n \<noteq> 0 then n else e, s1)) (write_pieces fd (pieces out) 0 s)"
proof -
  let ?b = "\<lparr>pb_fd = fd, pb_result = 0, pb_error = 1, pb_buf = [], pb_proc = Some s\<rparr>"
  let ?f = "finish (fold (\<lambda>x. putch_fd (uint x)) out ?b)"
  have "vfprintf mem fd fmt ap s = map_option (\<lambda>(n, e, s1). (if n \<noteq> 0 then n else e, s1)) (outcome ?f)"
    unfolding vfprintf_def printed_fold [where putch = putch_fd, OF assms putch_byte(2)] Option.bind.bind_lunit Let_def finish_def [symmetric]
    by (cases "pb_proc ?f") (simp_all add: outcome_def)
  then show ?thesis using outcome_pieces [of ?b s out] by simp
qed

text \<open>A descriptor of the console takes every piece.\<close>

lemma devcons_write_cputs: "0 \<notin> set xs \<Longrightarrow> devcons_write_loop xs s = cputs xs s"
proof (induction xs s rule: devcons_write_loop.induct)
  case (1 xs s)
  then have "devcons_write_loop xs s = cputs (drop 127 xs) (cputs (take 127 xs) s)" if "xs \<noteq> []"
    using that in_set_dropD [of 0 127 xs] by (subst devcons_write_loop.simps) auto
  moreover have "0 \<notin> set (take 127 xs)" using "1.prems" in_set_takeD [of 0 127 xs] by blast
  ultimately show ?case
    by (cases "xs = []") (simp_all add: cputs_append devcons_write_loop.simps [of "[]"] cputs_Nil)
qed

definition console_fd :: "int \<Rightarrow> uproc \<Rightarrow> bool" where
  "console_fd fd s \<longleftrightarrow> (\<exists>k. fd_lookup fd s = (0, Some k) \<and> fd_dev_id (get_fd k s) = dev_id devcons \<and> fd_omode (get_fd k s) AND 3 \<noteq> 0)"

lemma console_write:
  assumes "console_fd fd s" "0 \<notin> set xs"
  shows "write_fd fd xs s = Some (int (length xs), cputs xs s)" "console_fd fd (cputs xs s)"
proof -
  have "dev_lookup (dev_id devcons) = (0, Some devcons)"
    by (simp add: dev_lookup_def devtab_def devcons_def devfile_def devsock_def devpipe_def)
  then show "write_fd fd xs s = Some (int (length xs), cputs xs s)"
    using assms by (auto simp: console_fd_def write_fd_def devcons_write_cputs) (simp add: devcons_def devcons_write_def devcons_write_cputs)
  have "fd_lookup fd (cputs xs s) = fd_lookup fd s" "get_fd k (cputs xs s) = get_fd k s" for k
    by (simp_all add: fd_lookup_def get_fd_def cputs_def cong: option.case_cong upage.case_cong)
  then show "console_fd fd (cputs xs s)" using assms(1) by (simp add: console_fd_def)
qed

lemma console_pieces:
  "console_fd fd s \<Longrightarrow> 0 \<notin> set xs \<Longrightarrow> write_pieces fd (pieces xs) n s = Some (n + int (length xs), 1, cputs xs s)"
proof (induction xs arbitrary: s n rule: pieces.induct)
  case (1 xs)
  show ?case
  proof (cases "xs = []")
    case True
    then show ?thesis by (simp add: pieces.simps cputs_Nil)
  next
    case False
    have z: "0 \<notin> set (take 256 xs)" "0 \<notin> set (drop 256 xs)" using "1.prems"(2) in_set_takeD in_set_dropD by fast+
    note w = console_write [OF "1.prems"(1) z(1)]
    show ?thesis
      using "1.IH" [OF False w(2) z(2)] w(1) False cputs_append [OF z(1), of "drop 256 xs" s]
      by (subst pieces.simps) (simp add: Let_def min_def)
  qed
qed

text \<open>C31. Buffered printing prints what the format says. If the formatting loop produces the bytes \<open>out\<close>,
  none of them null, then \<^verbatim>\<open>cprintf\<close> shows exactly \<open>out\<close> on the console and returns its length;
  \<^verbatim>\<open>fprintf\<close> makes the same calls as writing \<open>out\<close> in pieces of 256 bytes up to the first error or
  incomplete write, and returns the number of bytes written, or the error if there are none; and
  on a descriptor of the console it shows exactly \<open>out\<close>. It returns 1 for an empty output.\<close>

theorem printf_prints:
  assumes "printed mem fmt ap = Some out" "0 \<notin> set out"
  shows "vcprintf mem fmt ap s = Some (int (length out), cputs out s) \<and>
     vfprintf mem fd fmt ap s =
       map_option (\<lambda>(n, e, s1). (if n \<noteq> 0 then n else e, s1)) (write_pieces fd (pieces out) 0 s) \<and>
     (console_fd fd s \<longrightarrow> fprintf mem fd fmt ap s = Some (if out = [] then 1 else int (length out), cputs out s))"
  using vcprintf_prints [OF assms] vfprintf_pieces [OF assms(1), of fd s] console_pieces [OF _ assms(2), of fd s 0]
  by (simp add: fprintf_def printf_def)

theorem printf_prints_witness:
  "\<exists>s. opencons demo_proc = Some (0, s) \<and> fprintf (\<lambda>_. 0) 0 [0x41, 0x25, 0x75] [7] s = Some (2, cputs [0x41, 0x37] s)"
proof -
  obtain s where s: "opencons demo_proc = Some (0, s)" "console_fd 0 s"
    by (simp add: opencons_def fd_alloc_def find_upt_first alloc_fd_def new_page_def map_fd_def unmap_fd_def addref_def set_fd_def demo_proc_def
        zero_fd_def fun_upd_idem console_fd_def fd_lookup_def get_fd_def)
  have "printed (\<lambda>_. 0) [0x41, 0x25, 0x75] [7] = Some [0x41, 0x37]"
    by (simp add: printed_def emit_def is_digit_def convert_def plain_def getuint_def printnum.simps hexdigit_def dchar_def)
  from printf_prints [OF this, of s 0] s show ?thesis by auto
qed

end
