(* ===== verification/Flash.thy ===== *)
theory Flash
  imports Block_Cache
begin

unbundle bit_operations_syntax

text \<open>
  The driver of the flash memory behind the block cache, \<^verbatim>\<open>fs/cfi_flash.c\<close>, and the self-test of the
  block cache in \<^verbatim>\<open>fs/bc.c\<close>.

  The flash device is hardware: a parameter \<open>N\<close> with a function for a store to and a function for a load from one of its
  words, on a state of any type. \<open>cfi_laws\<close> states what the driver relies on: seen through \<open>vw\<close>, the device
  follows the Intel command set as the automaton \<open>cfi_write\<close> has it, command by command. The
  automaton answers only to the sequences the command set defines: a buffered write is the command, the number of words
  minus one at the same address, that many words, and the confirmation at that address, with all words in
  one page of the erase block; a device is free to do anything after another sequence. \<open>prog old new\<close> is the
  word a cell holds after
  \<open>new\<close> has been programmed over \<open>old\<close>: an emulated flash replaces the word, a real one can only clear bits, and
  the driver does not erase before it writes. Buffers are lists of 32-bit words.
\<close>

section \<open>The driver\<close>

record 'd nor =
  nor_wr :: "u32 \<Rightarrow> u32 \<Rightarrow> 'd \<Rightarrow> 'd"
  nor_rd :: "u32 \<Rightarrow> 'd \<Rightarrow> u32 \<times> 'd"

abbreviation (input) CFIFLASH_CAPACITY :: u32 where "CFIFLASH_CAPACITY \<equiv> 0x2000000"

definition CfiFlashPageWordOffset :: "u32 \<Rightarrow> u32" where
  "CfiFlashPageWordOffset wordOffset = wordOffset AND 0x3FF"

definition CfiFlashEraseBlkWordAddr :: "u32 \<Rightarrow> u32" where
  "CfiFlashEraseBlkWordAddr wordOffset = wordOffset AND NOT 0xFFFF"

definition B2W :: "u32 \<Rightarrow> u32" where
  "B2W bytes = drop_bit 2 bytes"

definition CfiFlashIsReady :: "'d nor \<Rightarrow> u32 \<Rightarrow> 'd \<Rightarrow> bool \<times> 'd" where
  "CfiFlashIsReady N wordOffset d =
     (let (v, d1) = nor_rd N wordOffset (nor_wr N wordOffset 0x70 d) in (v AND 0x80 \<noteq> 0, d1))"

text \<open>The loop that waits for the device.\<close>

partial_function (option) wait_ready :: "'d nor \<Rightarrow> u32 \<Rightarrow> 'd \<Rightarrow> 'd option" where
  "wait_ready N blkAddr d =
     (let (r, d1) = CfiFlashIsReady N blkAddr d in if r then Some d1 else wait_ready N blkAddr d1)"

primrec program_words :: "'d nor \<Rightarrow> u32 \<Rightarrow> u32 list \<Rightarrow> 'd \<Rightarrow> 'd" where
  "program_words N wordOffset [] d = d"
| "program_words N wordOffset (w # ws) d = program_words N (wordOffset + 1) ws (nor_wr N wordOffset w d)"

text \<open>One turn of the loop of \<^verbatim>\<open>CfiFlashWriteBuf\<close>: the words \<open>ws\<close> of one page.\<close>

definition write_page :: "'d nor \<Rightarrow> u32 \<Rightarrow> u32 list \<Rightarrow> 'd \<Rightarrow> 'd option" where
  "write_page N wordOffset ws d =
     (let blkAddr = CfiFlashEraseBlkWordAddr wordOffset;
          d1 = nor_wr N blkAddr 0xE8 d;
          d2 = nor_wr N blkAddr (of_nat (length ws) - 1) d1;
          d3 = program_words N wordOffset ws d2;
          d4 = nor_wr N blkAddr 0xD0 d3
      in wait_ready N blkAddr d4)"

partial_function (option) write_pages :: "'d nor \<Rightarrow> u32 \<Rightarrow> nat \<Rightarrow> u32 list \<Rightarrow> 'd \<Rightarrow> 'd option" where
  "write_pages N wordOffset wordCount buffer d =
     (if buffer = [] then Some d
      else do {
        d1 \<leftarrow> write_page N wordOffset (take wordCount buffer) d;
        let rest = drop wordCount buffer;
        write_pages N (wordOffset + of_nat wordCount) (if length rest \<ge> 1024 then 1024 else length rest) rest d1 })"

definition CfiFlashWriteBuf :: "'d nor \<Rightarrow> u32 \<Rightarrow> u32 list \<Rightarrow> 'd \<Rightarrow> 'd option" where
  "CfiFlashWriteBuf N wordOffset buffer d = do {
     let i = 1024 - unat (CfiFlashPageWordOffset wordOffset);
     d1 \<leftarrow> write_pages N wordOffset (if i > length buffer then length buffer else i) buffer d;
     Some (nor_wr N 0 0x50 d1) }"

definition CfiFlashWrite :: "'d nor \<Rightarrow> u32 list \<Rightarrow> u32 \<Rightarrow> u32 \<Rightarrow> 'd \<Rightarrow> (int \<times> 'd) option" where
  "CfiFlashWrite N buffer offset nbytes d =
     (if offset + nbytes > CFIFLASH_CAPACITY then Some (-1, d)
      else do {
        d1 \<leftarrow> CfiFlashWriteBuf N (B2W offset) (take (unat (B2W nbytes)) buffer) d;
        Some (0, d1) })"

primrec read_words :: "'d nor \<Rightarrow> u32 \<Rightarrow> nat \<Rightarrow> 'd \<Rightarrow> u32 list \<times> 'd" where
  "read_words N wordOffset 0 d = ([], d)"
| "read_words N wordOffset (Suc n) d =
     (let (w, d1) = nor_rd N wordOffset d; (ws, d2) = read_words N (wordOffset + 1) n d1 in (w # ws, d2))"

text \<open>The buffer that is read into is returned; a failed read leaves it as it was.\<close>

definition CfiFlashRead :: "'d nor \<Rightarrow> u32 list \<Rightarrow> u32 \<Rightarrow> u32 \<Rightarrow> 'd \<Rightarrow> int \<times> u32 list \<times> 'd" where
  "CfiFlashRead N buffer offset nbytes d =
     (if offset + nbytes > CFIFLASH_CAPACITY then (-1, buffer, d)
      else let (ws, d1) = read_words N (B2W offset) (unat (B2W nbytes)) d
           in (0, ws @ drop (length ws) buffer, d1))"

definition CfiFlashErase :: "'d nor \<Rightarrow> u32 \<Rightarrow> 'd \<Rightarrow> (int \<times> 'd) option" where
  "CfiFlashErase N offset d =
     (if offset > CFIFLASH_CAPACITY then Some (-1, d)
      else do {
        let blkAddr = CfiFlashEraseBlkWordAddr (B2W offset);
        d1 \<leftarrow> wait_ready N blkAddr (nor_wr N blkAddr 0xD0 (nor_wr N blkAddr 0x20 d));
        Some (0, nor_wr N 0 0x50 d1) })"

text \<open>The identification of the device; the bytes are the lowest bytes of words.\<close>

definition CfiFlashQueryQRY :: "'d nor \<Rightarrow> 'd \<Rightarrow> int \<times> 'd" where
  "CfiFlashQueryQRY N d =
     (let (q, d1) = nor_rd N 0x10 d in
      if (ucast q :: u8) \<noteq> 0x51 then (-1, d1)
      else let (r, d2) = nor_rd N 0x11 d1 in
      if (ucast r :: u8) \<noteq> 0x52 then (-1, d2)
      else let (y, d3) = nor_rd N 0x12 d2 in
      if (ucast y :: u8) \<noteq> 0x59 then (-1, d3) else (0, d3))"

definition CfiFlashQuery :: "'d nor \<Rightarrow> 'd \<Rightarrow> int \<times> 'd" where
  "CfiFlashQuery N d =
     (let (r, d1) = CfiFlashQueryQRY N (nor_wr N 0x55 0x98 d) in
      if r \<noteq> 0 then (-1, d1) else (0, nor_wr N 0 0xFF d1))"

text \<open>The sector loops. The results of the calls are not used.\<close>

primrec cfi_flash_read_loop :: "'d nor \<Rightarrow> u32 \<Rightarrow> nat \<Rightarrow> nat \<Rightarrow> u32 list \<Rightarrow> 'd \<Rightarrow> u32 list \<times> 'd" where
  "cfi_flash_read_loop N secno i 0 dst d = (dst, d)"
| "cfi_flash_read_loop N secno i (Suc nsecs) dst d =
     (let (_, sec, d1) = CfiFlashRead N (take 128 dst) (0x800000 + (secno + of_nat i) * 512) 512 d;
          (rest, d2) = cfi_flash_read_loop N secno (Suc i) nsecs (drop 128 dst) d1
      in (sec @ rest, d2))"

definition cfi_flash_read :: "'d nor \<Rightarrow> u32 \<Rightarrow> u32 list \<Rightarrow> nat \<Rightarrow> 'd \<Rightarrow> u32 list \<times> 'd" where
  "cfi_flash_read N secno dst nsecs d = cfi_flash_read_loop N secno 0 nsecs dst d"

primrec cfi_flash_write_loop :: "'d nor \<Rightarrow> u32 \<Rightarrow> nat \<Rightarrow> nat \<Rightarrow> u32 list \<Rightarrow> 'd \<Rightarrow> 'd option" where
  "cfi_flash_write_loop N secno i 0 src d = Some d"
| "cfi_flash_write_loop N secno i (Suc nsecs) src d = do {
     (_, d1) \<leftarrow> CfiFlashWrite N src (0x800000 + (secno + of_nat i) * 512) 512 d;
     cfi_flash_write_loop N secno (Suc i) nsecs (drop 128 src) d1 }"

definition cfi_flash_write :: "'d nor \<Rightarrow> u32 \<Rightarrow> u32 list \<Rightarrow> nat \<Rightarrow> 'd \<Rightarrow> 'd option" where
  "cfi_flash_write N secno src nsecs d = cfi_flash_write_loop N secno 0 nsecs src d"

section \<open>The device\<close>

text \<open>Words written at an offset of the memory.\<close>

definition programmed :: "(u32 \<Rightarrow> u32 \<Rightarrow> u32) \<Rightarrow> nat \<Rightarrow> u32 list \<Rightarrow> (nat \<Rightarrow> u32) \<Rightarrow> nat \<Rightarrow> u32" where
  "programmed prog off ws a j = (if off \<le> j \<and> j < off + length ws then prog (a j) (ws ! (j - off)) else a j)"

text \<open>The command set: \<open>Array\<close> is the mode in which loads return the memory, \<open>Count a\<close> follows the command of a
  buffered write, \<open>Load a n ws\<close> expects \<open>n\<close> more words, or the confirmation when \<open>n\<close> is 0, and \<open>Busy n\<close> is the state
  of a command for which \<open>n\<close> more loads of the status show that the device is not ready. \<open>k\<close> is how
  long the command will take.\<close>

datatype cfi_mode = Array | Count u32 | Load u32 nat "(u32 \<times> u32) list" | Busy nat

definition one_page :: "u32 \<Rightarrow> (u32 \<times> u32) list \<Rightarrow> bool" where
  "one_page blk ws \<longleftrightarrow> (\<forall>(a, w) \<in> set ws. a AND NOT 0xFFFF = blk) \<and> (\<forall>(a, w) \<in> set ws. \<forall>(b, v) \<in> set ws. unat a div 1024 = unat b div 1024)"

definition program_cells :: "(u32 \<Rightarrow> u32 \<Rightarrow> u32) \<Rightarrow> (u32 \<times> u32) list \<Rightarrow> (nat \<Rightarrow> u32) \<Rightarrow> nat \<Rightarrow> u32" where
  "program_cells prog ws = fold (\<lambda>(a, w) m. m(unat a := prog (m (unat a)) w)) ws"

fun cfi_write :: "(u32 \<Rightarrow> u32 \<Rightarrow> u32) \<Rightarrow> nat \<Rightarrow> u32 \<Rightarrow> u32 \<Rightarrow> cfi_mode \<times> (nat \<Rightarrow> u32) \<Rightarrow> (cfi_mode \<times> (nat \<Rightarrow> u32)) option" where
  "cfi_write prog k a w (Array, m) = (if w = 0xE8 then Some (Count a, m) else None)"
| "cfi_write prog k a w (Busy n, m) =
     (if w = 0x70 then Some (Busy n, m)
      else if n = 0 \<and> w = 0x50 then Some (Array, m)
      else if n = 0 \<and> w = 0xE8 then Some (Count a, m)
      else None)"
| "cfi_write prog k a w (Count b, m) = (if a = b \<and> unat w < 1024 then Some (Load b (unat w + 1) [], m) else None)"
| "cfi_write prog k a w (Load b (Suc n) ws, m) = Some (Load b n (ws @ [(a, w)]), m)"
| "cfi_write prog k a w (Load b 0 ws, m) =
     (if a = b \<and> w = 0xD0 \<and> one_page b ws then Some (Busy k, program_cells prog ws m) else None)"

definition cfi_laws :: "'d nor \<Rightarrow> ('d \<Rightarrow> cfi_mode \<times> (nat \<Rightarrow> u32)) \<Rightarrow> (u32 \<Rightarrow> u32 \<Rightarrow> u32) \<Rightarrow> ('d \<Rightarrow> nat) \<Rightarrow> bool" where
  "cfi_laws N vw prog busy \<longleftrightarrow>
     (\<forall>d a w x. cfi_write prog (busy d) a w (vw d) = Some x \<longrightarrow> vw (nor_wr N a w d) = x) \<and>
     (\<forall>d a m. vw d = (Array, m) \<longrightarrow> nor_rd N a d = (m (unat a), d)) \<and>
     (\<forall>d a n m. vw d = (Busy n, m) \<longrightarrow>
        (fst (nor_rd N a d) AND 0x80 \<noteq> 0 \<longleftrightarrow> n = 0) \<and> vw (snd (nor_rd N a d)) = (Busy (n - 1), m))"

definition idle :: "('d \<Rightarrow> cfi_mode \<times> (nat \<Rightarrow> u32)) \<Rightarrow> 'd \<Rightarrow> bool" where
  "idle vw d \<longleftrightarrow> fst (vw d) = Array"

definition arr :: "('d \<Rightarrow> cfi_mode \<times> (nat \<Rightarrow> u32)) \<Rightarrow> 'd \<Rightarrow> nat \<Rightarrow> u32" where
  "arr vw d = snd (vw d)"

definition done_st :: "('d \<Rightarrow> cfi_mode \<times> (nat \<Rightarrow> u32)) \<Rightarrow> 'd \<Rightarrow> bool" where
  "done_st vw d \<longleftrightarrow> fst (vw d) = Busy 0"

lemma cfi_wrD: "cfi_laws N vw prog busy \<Longrightarrow> vw d = y \<Longrightarrow> cfi_write prog (busy d) a w y = Some x \<Longrightarrow> vw (nor_wr N a w d) = x"
  unfolding cfi_laws_def by blast

lemma cfi_rdD:
  "cfi_laws N vw prog busy \<Longrightarrow> vw d = (Busy n, m) \<Longrightarrow>
     (fst (nor_rd N a d) AND 0x80 \<noteq> 0 \<longleftrightarrow> n = 0) \<and> vw (snd (nor_rd N a d)) = (Busy (n - 1), m)"
  unfolding cfi_laws_def by blast

lemma programmed_append: "programmed prog (off + length us) vs (programmed prog off us a) = programmed prog off (us @ vs) a"
  by (auto simp: programmed_def nth_append fun_eq_iff)

lemma programmed_Nil [simp]: "programmed prog off [] a = a"
  by (auto simp: programmed_def fun_eq_iff)

section \<open>One page\<close>

text \<open>The device becomes ready.\<close>

lemma wait_ready_spec:
  assumes laws: "cfi_laws N vw prog busy"
  shows "vw d = (Busy n, m) \<Longrightarrow> \<exists>d'. wait_ready N blk d = Some d' \<and> vw d' = (Busy 0, m)"
proof (induction n arbitrary: d)
  case 0
  have "vw (nor_wr N blk 0x70 d) = (Busy 0, m)" by (rule cfi_wrD [OF laws 0]) simp
  from cfi_rdD [OF laws this, of blk] show ?case
    by (subst wait_ready.simps) (auto simp: CfiFlashIsReady_def Let_def split: prod.splits)
next
  case (Suc n)
  have "vw (nor_wr N blk 0x70 d) = (Busy (Suc n), m)" by (rule cfi_wrD [OF laws Suc.prems]) simp
  from cfi_rdD [OF laws this, of blk] Suc.IH [of "snd (nor_rd N blk (nor_wr N blk 0x70 d))"] show ?case
    by (subst wait_ready.simps) (auto simp: CfiFlashIsReady_def Let_def split: prod.splits)
qed

text \<open>The words with their addresses.\<close>

primrec addressed :: "u32 \<Rightarrow> u32 list \<Rightarrow> (u32 \<times> u32) list" where
  "addressed a [] = []"
| "addressed a (w # ws) = (a, w) # addressed (a + 1) ws"

lemma program_words_spec:
  assumes laws: "cfi_laws N vw prog busy"
  shows "vw d = (Load b (length ws) us, m) \<Longrightarrow> vw (program_words N a ws d) = (Load b 0 (us @ addressed a ws), m)"
proof (induction ws arbitrary: a d us)
  case (Cons w ws)
  have "vw (nor_wr N a w d) = (Load b (length ws) (us @ [(a, w)]), m)" by (rule cfi_wrD [OF laws Cons.prems]) simp
  from Cons.IH [OF this] show ?case by simp
qed simp

lemma addressed_set: "unat off + length ws \<le> 2 ^ 32 \<Longrightarrow> (a, w) \<in> set (addressed off ws) \<Longrightarrow> unat off \<le> unat a \<and> unat a < unat off + length ws"
proof (induction ws arbitrary: off)
  case (Cons v ws)
  show ?case
  proof (cases "ws = []")
    case False
    then have "unat (off + 1) = unat off + 1" using Cons.prems(1) by (cases ws) (auto simp: unat_word_ariths)
    then show ?thesis using Cons.IH [of "off + 1"] Cons.prems by auto
  qed (use Cons.prems in auto)
qed simp

lemma program_addressed: "unat off + length ws \<le> 2 ^ 32 \<Longrightarrow> program_cells prog (addressed off ws) m = programmed prog (unat off) ws m"
proof (induction ws arbitrary: off m)
  case (Cons w ws)
  have p: "programmed prog (unat off + 1) ws (m(unat off := prog (m (unat off)) w)) = programmed prog (unat off) (w # ws) m"
    by (auto simp: programmed_def fun_eq_iff nth_Cons')
  show ?case
  proof (cases "ws = []")
    case True
    then show ?thesis using p by (simp add: program_cells_def)
  next
    case False
    then have "unat (off + 1) = unat off + 1" using Cons.prems by (cases ws) (auto simp: unat_word_ariths)
    then show ?thesis using Cons.IH [of "off + 1" "m(unat off := prog (m (unat off)) w)"] Cons.prems p
      by (simp add: program_cells_def del: fun_upd_apply)
  qed
qed (simp add: program_cells_def)

lemma page_in_range: "unat (off :: u32) mod 1024 + n \<le> 1024 \<Longrightarrow> unat off + n \<le> 2 ^ 32"
proof -
  assume "unat off mod 1024 + n \<le> 1024"
  then have "unat off + n \<le> 1024 * (unat off div 1024) + 1024"
    using div_mult_mod_eq [of "unat off" 1024] by linarith
  also have "unat off < 1024 * 2 ^ 22" using unsigned_less [of off] by simp
  then have "unat off div 1024 < 2 ^ 22" by (simp add: less_mult_imp_div_less)
  then have "1024 * (unat off div 1024) + 1024 \<le> 2 ^ 32" by simp
  finally show ?thesis .
qed

lemma same_erase_block: "unat (a :: u32) div 1024 = unat b div 1024 \<Longrightarrow> a AND NOT 0xFFFF = b AND NOT 0xFFFF"
proof -
  assume "unat a div 1024 = unat b div 1024"
  then have "unat a div 1024 div 64 = unat b div 1024 div 64" by simp
  then have "drop_bit 16 a = drop_bit 16 b"
    by (simp add: word_unat_eq_iff drop_bit_eq_div unat_div div_mult2_eq [symmetric])
  moreover have "x AND NOT 0xFFFF = push_bit 16 (drop_bit 16 x)" for x :: u32
  proof -
    have m: "(0xFFFF :: u32) = mask 16" by (simp add: mask_eq_exp_minus_1)
    show ?thesis unfolding m by (rule bit_word_eqI) (auto simp: bit_simps)
  qed
  ultimately show ?thesis by simp
qed

lemma one_page_addressed:
  assumes "unat off mod 1024 + length ws \<le> 1024"
  shows "one_page (off AND NOT 0xFFFF) (addressed off ws)"
proof -
  have d: "unat a div 1024 = unat off div 1024" if "(a, w) \<in> set (addressed off ws)" for a w
  proof -
    have a: "unat off \<le> unat a" "unat a < unat off + length ws"
      using addressed_set [OF page_in_range [OF assms] that] by auto
    define q where "q = unat off div 1024"
    define r where "r = unat off mod 1024"
    have q: "q * 1024 + r = unat off" unfolding q_def r_def by (rule div_mult_mod_eq)
    have r: "r + length ws \<le> 1024" using assms unfolding r_def .
    have "1024 * q \<le> unat a" using a(1) q by linarith
    moreover have "unat a < 1024 * Suc q" using a(2) q r by simp
    ultimately have "unat a div 1024 = q" by (rule div_nat_eqI)
    then show ?thesis unfolding q_def .
  qed
  have "a AND NOT 0xFFFF = off AND NOT 0xFFFF" if "(a, w) \<in> set (addressed off ws)" for a w
    by (rule same_erase_block [OF d [OF that]])
  moreover have "unat a div 1024 = unat b div 1024"
    if "(a, w) \<in> set (addressed off ws)" "(b, v) \<in> set (addressed off ws)" for a w b v
    using d [OF that(1)] d [OF that(2)] by (rule trans [OF _ sym])
  ultimately show ?thesis unfolding one_page_def by blast
qed

lemma write_page_spec:
  assumes laws: "cfi_laws N vw prog busy" and d: "idle vw d \<or> done_st vw d"
    and ws: "ws \<noteq> []" "unat off mod 1024 + length ws \<le> 1024"
  shows "\<exists>d'. write_page N off ws d = Some d' \<and> done_st vw d' \<and> arr vw d' = programmed prog (unat off) ws (arr vw d)"
proof -
  define blk where "blk = off AND NOT 0xFFFF"
  define m where "m = arr vw d"
  have v: "vw d = (Array, m) \<or> vw d = (Busy 0, m)" using d by (auto simp: idle_def done_st_def arr_def m_def prod_eq_iff)
  let ?d1 = "nor_wr N blk 0xE8 d"
  have d1: "vw ?d1 = (Count blk, m)" 
    by (rule disjE [OF v]) (erule cfi_wrD [OF laws], simp)+
  let ?d2 = "nor_wr N blk (of_nat (length ws) - 1) ?d1"
  have "unat (of_nat (length ws) - 1 :: u32) = length ws - 1"
    using ws by (simp add: unat_minus_one of_nat_eq_0_iff unat_of_nat word_unat_eq_iff)
  then have d2: "vw ?d2 = (Load blk (length ws) [], m)" using ws by (intro cfi_wrD [OF laws d1]) (auto simp: Suc_le_eq)
  let ?d3 = "program_words N off ws ?d2"
  have d3: "vw ?d3 = (Load blk 0 (addressed off ws), m)" using program_words_spec [OF laws d2, of off] by simp
  let ?d4 = "nor_wr N blk 0xD0 ?d3"
  have d4: "vw ?d4 = (Busy (busy ?d3), programmed prog (unat off) ws m)"
    using one_page_addressed [OF ws(2)] program_addressed [OF page_in_range [OF ws(2)]]
    by (intro cfi_wrD [OF laws d3]) (simp add: blk_def)
  obtain d' where d': "wait_ready N blk ?d4 = Some d'" "vw d' = (Busy 0, programmed prog (unat off) ws m)"
    using wait_ready_spec [OF laws d4] by blast
  have "write_page N off ws d = Some d'"
    using d'(1) unfolding write_page_def CfiFlashEraseBlkWordAddr_def blk_def Let_def .
  then show ?thesis using d'(2) by (auto simp: done_st_def arr_def m_def)
qed

lemma cfi_lawsD:
  assumes "cfi_laws N vw prog busy"
  shows "idle vw d \<Longrightarrow> nor_rd N off d = (arr vw d (unat off), d)"
    "done_st vw d \<Longrightarrow> idle vw (nor_wr N 0 0x50 d)" "done_st vw d \<Longrightarrow> arr vw (nor_wr N 0 0x50 d) = arr vw d"
proof -
  show "idle vw d \<Longrightarrow> nor_rd N off d = (arr vw d (unat off), d)"
    using assms unfolding cfi_laws_def idle_def arr_def by (metis prod.collapse)
  have "vw (nor_wr N 0 0x50 d) = (Array, snd (vw d))" if "done_st vw d"
    using that by (intro cfi_wrD [OF assms, of d "(Busy 0, snd (vw d))"]) (auto simp: done_st_def prod_eq_iff)
  then show "done_st vw d \<Longrightarrow> idle vw (nor_wr N 0 0x50 d)" "done_st vw d \<Longrightarrow> arr vw (nor_wr N 0 0x50 d) = arr vw d"
    by (simp_all add: idle_def arr_def)
qed

section \<open>Buffers\<close>

lemma write_pages_spec:
  assumes laws: "cfi_laws N vw prog busy"
  shows "idle vw d \<or> done_st vw d \<Longrightarrow> unat off + length ws < 2 ^ 32 \<Longrightarrow> cnt = min (1024 - unat off mod 1024) (length ws) \<Longrightarrow> ws \<noteq> [] \<Longrightarrow>
     \<exists>d'. write_pages N off cnt ws d = Some d' \<and> done_st vw d' \<and> arr vw d' = programmed prog (unat off) ws (arr vw d)"
proof (induction "length ws" arbitrary: off cnt ws d rule: less_induct)
  case less
  let ?us = "take cnt ws" and ?vs = "drop cnt ws"
  have cnt: "0 < cnt" "cnt \<le> length ws" "unat off mod 1024 + cnt \<le> 1024"
    using less.prems(3,4) mod_less_divisor [of 1024 "unat off"] by (auto simp: min_def)
  then have us: "length ?us = cnt" "?us \<noteq> []" by auto
  obtain d1 where d1: "write_page N off ?us d = Some d1" "done_st vw d1"
    and a1: "arr vw d1 = programmed prog (unat off) ?us (arr vw d)"
    using write_page_spec [OF laws less.prems(1) us(2), of off] cnt(3) us(1) by auto
  show ?case
  proof (cases "?vs = []")
    case True
    then have "?us = ws" by (metis append_Nil2 append_take_drop_id)
    then show ?thesis using d1(1,2) a1 less.prems(4) True by (auto simp: write_pages.simps [of N off cnt ws] write_pages.simps [of _ _ _ "[]"])
  next
    case False
    have off: "unat (off + of_nat cnt) = unat off + cnt" using less.prems(2) cnt(2) by (simp add: unat_word_ariths unat_of_nat)
    have "cnt = 1024 - unat off mod 1024" using False less.prems(3) by (auto simp: min_def split: if_splits)
    then have "(unat off + cnt) mod 1024 = 0"
      using mod_less_divisor [of 1024 "unat off"] mod_add_left_eq [of "unat off" 1024 cnt] by simp
    then have c: "(if length ?vs \<ge> 1024 then 1024 else length ?vs) = min (1024 - unat (off + of_nat cnt) mod 1024) (length ?vs)"
      unfolding off by (simp add: min_def)
    obtain d' where d': "write_pages N (off + of_nat cnt) (if length ?vs \<ge> 1024 then 1024 else length ?vs) ?vs d1 = Some d'" "done_st vw d'"
      "arr vw d' = programmed prog (unat (off + of_nat cnt)) ?vs (arr vw d1)"
      using less.hyps [of ?vs d1 "off + of_nat cnt", OF _ _ _ c False] d1(2) off less.prems(2,4) cnt by auto
    have "arr vw d' = programmed prog (unat off) ws (arr vw d)"
      using programmed_append [of prog "unat off" ?us ?vs "arr vw d"] d'(3) a1 us(1) off by simp
    then show ?thesis using d1(1) d'(1,2) less.prems(4) by (auto simp: write_pages.simps [of N off cnt ws] Let_def)
  qed
qed

lemma CfiFlashWriteBuf_spec:
  assumes laws: "cfi_laws N vw prog busy" and d: "idle vw d" and ws: "unat off + length ws < 2 ^ 32" "ws \<noteq> []"
  shows "\<exists>d'. CfiFlashWriteBuf N off ws d = Some d' \<and> idle vw d' \<and> arr vw d' = programmed prog (unat off) ws (arr vw d)"
proof -
  have m: "unat (CfiFlashPageWordOffset off) = unat off mod 1024"
  proof -
    have "off AND 0x3FF = take_bit 10 off" by (simp add: take_bit_eq_mask mask_eq_exp_minus_1)
    then show ?thesis by (simp only: CfiFlashPageWordOffset_def unsigned_take_bit_eq) (simp add: take_bit_eq_mod)
  qed
  have c: "(if 1024 - unat off mod 1024 > length ws then length ws else 1024 - unat off mod 1024) = min (1024 - unat off mod 1024) (length ws)"
    by simp
  obtain d1 where d1: "write_pages N off (min (1024 - unat off mod 1024) (length ws)) ws d = Some d1" "done_st vw d1"
    "arr vw d1 = programmed prog (unat off) ws (arr vw d)"
    using write_pages_spec [OF laws _ ws(1) refl ws(2)] d by blast
  show ?thesis unfolding CfiFlashWriteBuf_def m Let_def c d1(1) using cfi_lawsD(2,3) [OF laws d1(2)] d1(3) by simp
qed

lemma read_words_spec:
  assumes laws: "cfi_laws N vw prog busy" and d: "idle vw d"
  shows "unat off + n < 2 ^ 32 \<Longrightarrow> read_words N off n d = (map (\<lambda>k. arr vw d (unat off + k)) [0..<n], d)"
proof (induction n arbitrary: off)
  case (Suc n)
  have "unat (off + 1) = unat off + 1" using Suc.prems by (simp add: unat_word_ariths)
  then show ?case using Suc.IH [of "off + 1"] Suc.prems cfi_lawsD(1) [OF laws d]
    by (simp add: map_upt_Suc del: upt_Suc)
qed simp

section \<open>Sectors and blocks\<close>

text \<open>The first word of a sector.\<close>

definition sec_word :: "nat \<Rightarrow> nat" where
  "sec_word k = 0x200000 + k * 128"

lemma sector_offset:
  assumes "k < 0x600000"
  shows "unat (0x800000 + of_nat k * 512 :: u32) = 0x800000 + k * 512"
    "unat (B2W (0x800000 + of_nat k * 512)) = sec_word k" "0x800000 + of_nat k * 512 + 512 > CFIFLASH_CAPACITY \<longleftrightarrow> 0xC000 \<le> k"
    "unat (B2W 512) = 128"
proof -
  show u: "unat (0x800000 + of_nat k * 512 :: u32) = 0x800000 + k * 512"
    using assms by (simp add: unat_word_ariths unat_of_nat)
  show "unat (B2W (0x800000 + of_nat k * 512)) = sec_word k"
    by (simp only: B2W_def unat_drop_bit_eq u) (simp add: drop_bit_eq_div sec_word_def)
  have "unat (0x800000 + of_nat k * 512 + 512 :: u32) = 0x800000 + k * 512 + 512"
    using assms by (simp add: unat_word_ariths unat_of_nat)
  then show "0x800000 + of_nat k * 512 + 512 > CFIFLASH_CAPACITY \<longleftrightarrow> 0xC000 \<le> k"
    by (auto simp: word_less_nat_alt)
  show "unat (B2W 512) = 128" by (simp add: B2W_def unat_drop_bit_eq drop_bit_eq_div)
qed

lemma flash_write_sectors:
  assumes laws: "cfi_laws N vw prog busy"
  shows "idle vw d \<Longrightarrow> k + i + n \<le> 0xC000 \<Longrightarrow> length src = n * 128 \<Longrightarrow>
     \<exists>d'. cfi_flash_write_loop N (of_nat k) i n src d = Some d' \<and> idle vw d' \<and> arr vw d' = programmed prog (sec_word (k + i)) src (arr vw d)"
proof (induction n arbitrary: i src d)
  case 0
  then show ?case by simp
next
  case (Suc n)
  have k: "k + i < 0x600000" "\<not> 0xC000 \<le> k + i" using Suc.prems(2) by simp_all
  note so = sector_offset [OF k(1), unfolded of_nat_add]
  let ?ws = "take 128 src"
  have ws: "length ?ws = 128" "?ws \<noteq> []" "unat (B2W (0x800000 + (of_nat k + of_nat i) * 512)) + length ?ws < 2 ^ 32"
    using Suc.prems so(2) by (auto simp: sec_word_def)
  obtain d1 where d1: "CfiFlashWriteBuf N (B2W (0x800000 + (of_nat k + of_nat i) * 512)) ?ws d = Some d1" "idle vw d1"
    "arr vw d1 = programmed prog (sec_word (k + i)) ?ws (arr vw d)"
    using CfiFlashWriteBuf_spec [OF laws Suc.prems(1) ws(3,2)] so(2) by auto
  obtain d' where d': "cfi_flash_write_loop N (of_nat k) (Suc i) n (drop 128 src) d1 = Some d'" "idle vw d'"
    "arr vw d' = programmed prog (sec_word (k + Suc i)) (drop 128 src) (arr vw d1)"
    using Suc.IH [OF d1(2), of "Suc i" "drop 128 src"] Suc.prems by auto
  have "sec_word (k + Suc i) = sec_word (k + i) + length ?ws" using ws(1) by (simp add: sec_word_def)
  then have "arr vw d' = programmed prog (sec_word (k + i)) src (arr vw d)"
    using programmed_append [of prog "sec_word (k + i)" ?ws "drop 128 src" "arr vw d"] d'(3) d1(3) by simp
  then show ?case using d1(1) d'(1,2) so(3,4) k(2) by (simp add: CfiFlashWrite_def)
qed

lemma flash_read_sectors:
  assumes laws: "cfi_laws N vw prog busy" and d: "idle vw d"
  shows "k + i + n \<le> 0xC000 \<Longrightarrow> length dst = n * 128 \<Longrightarrow>
     cfi_flash_read_loop N (of_nat k) i n dst d = (map (\<lambda>j. arr vw d (sec_word (k + i) + j)) [0..<n * 128], d)"
proof (induction n arbitrary: i dst)
  case (Suc n)
  have k: "k + i < 0x600000" "\<not> 0xC000 \<le> k + i" using Suc.prems(1) by simp_all
  note so = sector_offset [OF k(1), unfolded of_nat_add]
  have "unat (B2W (0x800000 + (of_nat k + of_nat i) * 512)) + 128 < 2 ^ 32" using so(2) k(1) by (simp add: sec_word_def)
  from read_words_spec [OF laws d this]
  have r: "CfiFlashRead N (take 128 dst) (0x800000 + (of_nat k + of_nat i) * 512) 512 d = (0, map (\<lambda>j. arr vw d (sec_word (k + i) + j)) [0..<128], d)"
    using so k(2) Suc.prems(2) by (simp add: CfiFlashRead_def del: upt_rec_numeral)
  have "[0..<Suc n * 128] = [0..<128] @ [128..<128 + n * 128]" using upt_add_eq_append [of 0 128 "n * 128"] by (simp add: add.commute del: upt_rec_numeral)
  also have "[128..<128 + n * 128] = map (\<lambda>j. j + 128) [0..<n * 128]" using map_add_upt [of 128 "n * 128"] by (simp add: add.commute)
  finally have u: "[0..<Suc n * 128] = [0..<128] @ map (\<lambda>j. j + 128) [0..<n * 128]" .
  have s: "sec_word (k + Suc i) + j = sec_word (k + i) + (j + 128)" for j by (simp add: sec_word_def)
  have "cfi_flash_read_loop N (of_nat k) (Suc i) n (drop 128 dst) d = (map (\<lambda>j. arr vw d (sec_word (k + i) + (j + 128))) [0..<n * 128], d)"
    using Suc.IH [of "Suc i" "drop 128 dst"] Suc.prems unfolding s by simp
  then show ?case unfolding u cfi_flash_read_loop.simps r by (simp add: comp_def del: upt_rec_numeral)
qed simp

lemma beyond_capacity:
  "0xC000 \<le> k \<Longrightarrow> k + i < 0x600000 \<Longrightarrow> 0x800000 + (of_nat k + of_nat i) * 512 + 512 > CFIFLASH_CAPACITY"
  using sector_offset(3) [of "k + i"] by simp

lemma flash_write_beyond:
  "0xC000 \<le> k \<Longrightarrow> k + i + n \<le> 0x600000 \<Longrightarrow> cfi_flash_write_loop N (of_nat k) i n src d = Some d"
proof (induction n arbitrary: i src)
  case (Suc n)
  then show ?case using beyond_capacity [of k i] by (simp add: CfiFlashWrite_def)
qed simp

lemma flash_read_beyond:
  "0xC000 \<le> k \<Longrightarrow> k + i + n \<le> 0x600000 \<Longrightarrow> length dst = n * 128 \<Longrightarrow> cfi_flash_read_loop N (of_nat k) i n dst d = (dst, d)"
proof (induction n arbitrary: i dst)
  case (Suc n)
  then show ?case using beyond_capacity [of k i] by (simp add: CfiFlashRead_def)
qed simp

text \<open>C12. The flash driver stores blocks. On a device that follows the command set, writing block \<open>b\<close> of the file
  system sends correct commands and ends, in array mode, and a read of the block then returns the words programmed
  over the previous contents, word for word; these are the words written if the device replaces words, as the emulated flash
  does. Every other block reads as before. This holds for the 6144 blocks the device has room for.
  For every other block of the block cache a write changes nothing and a read leaves the buffer as it is, and
  neither reports an error.\<close>

theorem flash_blocks:
  assumes laws: "cfi_laws N vw prog busy" and d: "idle vw d" and ws: "length ws = 1024" "length dst = 1024" and b: "b < 6144"
  shows "\<exists>d'. cfi_flash_write N (8 * of_nat b) ws 8 d = Some d' \<and> idle vw d' \<and>
     cfi_flash_read N (8 * of_nat b) dst 8 d' = (map2 prog (fst (cfi_flash_read N (8 * of_nat b) dst 8 d)) ws, d') \<and>
     ((\<forall>v w. prog v w = w) \<longrightarrow> cfi_flash_read N (8 * of_nat b) dst 8 d' = (ws, d')) \<and>
     (\<forall>c < 6144. c \<noteq> b \<longrightarrow> cfi_flash_read N (8 * of_nat c) dst 8 d' = (fst (cfi_flash_read N (8 * of_nat c) dst 8 d), d')) \<and>
     (\<forall>c. 6144 \<le> c \<and> c < DISKBLOCKS \<longrightarrow>
        cfi_flash_write N (8 * of_nat c) ws 8 d = Some d \<and> cfi_flash_read N (8 * of_nat c) dst 8 d = (dst, d))"
proof -
  have e: "8 * of_nat c = (of_nat (8 * c) :: u32)" for c by simp
  obtain d' where d': "cfi_flash_write N (8 * of_nat b) ws 8 d = Some d'" "idle vw d'" "arr vw d' = programmed prog (sec_word (8 * b)) ws (arr vw d)"
    using flash_write_sectors [OF laws d, of "8 * b" 0 8 ws] b ws(1) unfolding cfi_flash_write_def e by auto
  have rd: "cfi_flash_read N (8 * of_nat c) dst 8 x = (map (\<lambda>j. arr vw x (sec_word (8 * c) + j)) [0..<1024], x)" if "c < 6144" "idle vw x" for c x
    using flash_read_sectors [OF laws that(2), of "8 * c" 0 8 dst] that(1) ws(2) unfolding cfi_flash_read_def e by (simp del: upt_rec_numeral)
  have same: "map (\<lambda>j. arr vw d' (sec_word (8 * b) + j)) [0..<1024] = map2 prog (map (\<lambda>j. arr vw d (sec_word (8 * b) + j)) [0..<1024]) ws"
    using ws(1) by (intro nth_equalityI) (simp_all add: d'(3) programmed_def del: upt_rec_numeral)
  have repl: "map (\<lambda>j. arr vw d' (sec_word (8 * b) + j)) [0..<1024] = ws" if "\<forall>v w. prog v w = w"
    using ws(1) that by (intro nth_equalityI) (simp_all add: d'(3) programmed_def del: upt_rec_numeral)
  have other: "map (\<lambda>j. arr vw d' (sec_word (8 * c) + j)) [0..<1024] = map (\<lambda>j. arr vw d (sec_word (8 * c) + j)) [0..<1024]" if "c \<noteq> b" for c
    using that ws(1) by (auto simp: d'(3) programmed_def sec_word_def simp del: upt_rec_numeral)
  have "cfi_flash_write N (8 * of_nat c) ws 8 d = Some d \<and> cfi_flash_read N (8 * of_nat c) dst 8 d = (dst, d)" if "6144 \<le> c \<and> c < DISKBLOCKS" for c
    using flash_write_beyond [of "8 * c" 0 8 N ws d] flash_read_beyond [of "8 * c" 0 8 dst N d] that ws
    unfolding cfi_flash_write_def cfi_flash_read_def e by simp
  then show ?thesis using d'(1,2) rd [OF b d] rd [OF b d'(2)] rd [OF _ d] rd [OF _ d'(2)] same repl other by (simp del: upt_rec_numeral)
qed

text \<open>A device that follows the command set, replaces words and is ready at the third load of its status.\<close>

definition demo_nor :: "(cfi_mode \<times> (nat \<Rightarrow> u32)) nor" where
  "demo_nor = \<lparr>nor_wr = (\<lambda>a w d. case cfi_write (\<lambda>_ w. w) 2 a w d of Some x \<Rightarrow> x | None \<Rightarrow> d),
     nor_rd = (\<lambda>a d. case fst d of
        Array \<Rightarrow> (snd d (unat a), d)
      | Busy n \<Rightarrow> (if n = 0 then 0x80 else 0, (Busy (n - 1), snd d))
      | _ \<Rightarrow> (0, d))\<rparr>"

lemma demo_laws: "cfi_laws demo_nor (\<lambda>d. d) (\<lambda>_ w. w) (\<lambda>_. 2)"
  unfolding cfi_laws_def by (simp add: demo_nor_def)

theorem flash_blocks_witness:
  "\<exists>d'. cfi_flash_write demo_nor 24 (replicate 1024 0x41) 8 (Array, \<lambda>_. 0) = Some d' \<and>
     cfi_flash_read demo_nor 24 (replicate 1024 0) 8 d' = (replicate 1024 0x41, d')"
proof -
  let ?d = "(Array, \<lambda>_. 0) :: cfi_mode \<times> (nat \<Rightarrow> u32)" and ?ws = "replicate 1024 (0x41 :: u32)" and ?z = "replicate 1024 (0 :: u32)"
  have "idle (\<lambda>d. d) ?d" by (simp add: idle_def)
  from flash_blocks [OF demo_laws this, of ?ws ?z 3] obtain d' where
    "cfi_flash_write demo_nor (8 * of_nat 3) ?ws 8 ?d = Some d'" "cfi_flash_read demo_nor (8 * of_nat 3) ?z 8 d' = (?ws, d')"
    by auto
  then show ?thesis by auto
qed

section \<open>The self-test of the block cache\<close>

text \<open>\<^verbatim>\<open>memmove\<close> from and to a block, and \<^verbatim>\<open>strcmp\<close> of the start of a block with a string.\<close>

primrec bc_read_bytes :: "nat \<Rightarrow> nat \<Rightarrow> nat \<Rightarrow> bcache \<Rightarrow> (u8 list \<times> bcache) option" where
  "bc_read_bytes b i 0 c = Some ([], c)"
| "bc_read_bytes b i (Suc n) c = do {
     (x, c1) \<leftarrow> bc_load b i c;
     (xs, c2) \<leftarrow> bc_read_bytes b (i + 1) n c1;
     Some (x # xs, c2) }"

primrec bc_write_bytes :: "nat \<Rightarrow> nat \<Rightarrow> u8 list \<Rightarrow> bcache \<Rightarrow> bcache option" where
  "bc_write_bytes b i [] c = Some c"
| "bc_write_bytes b i (x # xs) c = do { c1 \<leftarrow> bc_store b i x c; bc_write_bytes b (i + 1) xs c1 }"

primrec bc_streq :: "nat \<Rightarrow> nat \<Rightarrow> u8 list \<Rightarrow> bcache \<Rightarrow> (bool \<times> bcache) option" where
  "bc_streq b i [] c = do { (x, c1) \<leftarrow> bc_load b i c; Some (x = 0, c1) }"
| "bc_streq b i (y # ys) c = do {
     (x, c1) \<leftarrow> bc_load b i c;
     if x \<noteq> y then Some (False, c1) else bc_streq b (i + 1) ys c1 }"

definition smashed :: "u8 list" where
  "smashed = [0x4F, 0x4F, 0x50, 0x53, 0x21, 0x0A]"

text \<open>One of the two rounds; only the first checks that the flushed page is clean.\<close>

definition check_bc_round :: "bool \<Rightarrow> bcache \<Rightarrow> bcache option" where
  "check_bc_round clean c = do {
     a \<leftarrow> bc_diskaddr 1 c;
     (backup, c1) \<leftarrow> bc_read_bytes a 0 264 c;
     c2 \<leftarrow> bc_write_bytes a 0 (smashed @ [0]) c1;
     c3 \<leftarrow> bc_flush_block a c2;
     assert_that (va_is_mapped a c3);
     assert_that (\<not> clean \<or> \<not> va_is_dirty a c3);
     let c4 = bc_evict a c3;
     assert_that (\<not> va_is_mapped a c4);
     (eq, c5) \<leftarrow> bc_streq a 0 smashed c4;
     assert_that eq;
     c6 \<leftarrow> bc_write_bytes a 0 backup c5;
     bc_flush_block a c6 }"

definition check_bc :: "bcache \<Rightarrow> bcache option" where
  "check_bc c = do { c1 \<leftarrow> check_bc_round True c; check_bc_round False c1 }"

definition bc_init :: "bcache \<Rightarrow> bcache option" where
  "bc_init c = do {
     c1 \<leftarrow> check_bc c;
     a \<leftarrow> bc_diskaddr 1 c1;
     (super, c2) \<leftarrow> bc_read_bytes a 0 264 c1;
     Some c2 }"

lemma bc_read_bytes_mapped:
  "page c b = Some p \<Longrightarrow> bc_read_bytes b i n c = Some (map (\<lambda>k. p (i + k)) [0..<n], c)"
proof (induction n arbitrary: i)
  case (Suc n)
  then show ?case using Suc.IH [of "i + 1"] by (simp add: bc_load_def bc_touch_def map_upt_Suc del: upt_Suc)
qed simp

text \<open>A block with bytes stored at an offset.\<close>

definition patch :: "nat \<Rightarrow> u8 list \<Rightarrow> block \<Rightarrow> block" where
  "patch i xs p j = (if i \<le> j \<and> j < i + length xs then xs ! (j - i) else p j)"

lemma patch_Nil [simp]: "patch i [] p = p"
  by (auto simp: patch_def fun_eq_iff)

lemma patch_Cons: "patch i (x # xs) p = patch (i + 1) xs (p(i := x))"
  by (auto simp: patch_def fun_eq_iff nth_Cons')

lemma bc_write_bytes_mapped:
  "page c b = Some p \<Longrightarrow> xs \<noteq> [] \<Longrightarrow>
     bc_write_bytes b i xs c = Some (c\<lparr>page := (page c)(b := Some (patch i xs p)), pte_d := (pte_d c)(b := True)\<rparr>)"
proof (induction xs arbitrary: i c p)
  case (Cons x xs)
  let ?c = "c\<lparr>page := (page c)(b := Some (p(i := x))), pte_d := (pte_d c)(b := True)\<rparr>"
  have s: "bc_store b i x c = Some ?c" using Cons.prems(1) by (simp add: bc_store_def bc_touch_def)
  show ?case
  proof (cases "xs = []")
    case True
    then show ?thesis using s by (simp add: patch_Cons fun_upd_def)
  next
    case False
    then show ?thesis using s Cons.IH [of ?c "p(i := x)" "i + 1"] by (simp add: patch_Cons fun_upd_def cong: if_cong)
  qed
qed simp

lemma bc_streq_mapped:
  "page c b = Some p \<Longrightarrow> \<forall>k < length ys. p (i + k) = ys ! k \<Longrightarrow> p (i + length ys) = 0 \<Longrightarrow> bc_streq b i ys c = Some (True, c)"
proof (induction ys arbitrary: i)
  case (Cons y ys)
  have "p i = y" using Cons.prems(2) by (metis add_0_right length_greater_0_conv list.distinct(1) nth_Cons_0)
  moreover have "\<forall>k < length ys. p (i + 1 + k) = ys ! k" using Cons.prems(2) by fastforce
  ultimately show ?case using Cons.IH [of "i + 1"] Cons.prems(1,3) by (simp add: bc_load_def bc_touch_def)
qed (simp add: bc_load_def bc_touch_def)

lemma bc_load_fault: "page c b = None \<Longrightarrow> bc_pgfault b c = Some c' \<Longrightarrow> page c' b \<noteq> None \<Longrightarrow> bc_load b i c = bc_load b i c'"
  by (auto simp: bc_load_def bc_touch_def)

lemma bc_streq_fault: "page c b = None \<Longrightarrow> bc_pgfault b c = Some c' \<Longrightarrow> page c' b \<noteq> None \<Longrightarrow> bc_streq b i ys c = bc_streq b i ys c'"
  using bc_load_fault by (cases ys) simp_all

lemma check_bc_round_restores:
  assumes c: "page c 1 = Some (flash c 1)" "\<not> pte_d c 1" "\<not> super_set c" "\<not> bitmap_set c"
  shows "check_bc_round clean c = Some c"
proof -
  let ?p = "flash c 1" and ?q = "patch 0 (smashed @ [0]) (flash c 1)"
  let ?c3 = "c\<lparr>page := (page c)(1 := Some ?q), flash := (flash c)(1 := ?q), pte_d := (pte_d c)(1 := False)\<rparr>"
  have a: "bc_diskaddr 1 c = Some 1" using c(3) by (simp add: bc_diskaddr_def)
  have len: "length smashed = 6" by (simp add: smashed_def)
  have w: "bc_write_bytes 1 0 (smashed @ [0]) c = Some (c\<lparr>page := (page c)(1 := Some ?q), pte_d := (pte_d c)(1 := True)\<rparr>)"
    using bc_write_bytes_mapped [OF c(1), of "smashed @ [0]" 0] by simp
  have f: "bc_flush_block 1 (c\<lparr>page := (page c)(1 := Some ?q), pte_d := (pte_d c)(1 := True)\<rparr>) = Some ?c3"
    by (simp add: bc_flush_block_def flash_store_def Let_def va_is_mapped_def va_is_dirty_def)
  have pf: "bc_pgfault 1 (bc_evict 1 ?c3) = Some ?c3" "page (bc_evict 1 ?c3) 1 = None"
    using c(3,4) by (simp_all add: bc_pgfault_def flash_load_def bc_evict_def Let_def)
  have q: "\<forall>k < length smashed. ?q (0 + k) = smashed ! k" "?q (0 + length smashed) = 0" by (simp_all add: patch_def nth_append)
  have st: "bc_streq 1 0 smashed (bc_evict 1 ?c3) = Some (True, ?c3)"
    using bc_streq_fault [OF pf(2,1)] bc_streq_mapped [of ?c3 1 ?q smashed 0] q by simp
  let ?bk = "map (\<lambda>k. ?p (0 + k)) [0..<264]"
  have bk: "patch 0 ?bk ?q = ?p" by (auto simp: patch_def fun_eq_iff len simp del: upt_rec_numeral)
  have w2: "bc_write_bytes 1 0 ?bk ?c3 = Some (?c3\<lparr>page := (page ?c3)(1 := Some ?p), pte_d := (pte_d ?c3)(1 := True)\<rparr>)"
    using bc_write_bytes_mapped [of ?c3 1 ?q ?bk 0] bk by (simp del: upt_rec_numeral)
  have f2: "bc_flush_block 1 (?c3\<lparr>page := (page ?c3)(1 := Some ?p), pte_d := (pte_d ?c3)(1 := True)\<rparr>) = Some c"
    using c(1,2) by (simp add: bc_flush_block_def flash_store_def Let_def va_is_mapped_def va_is_dirty_def fun_upd_idem)
  have m: "va_is_mapped 1 ?c3" "\<not> va_is_dirty 1 ?c3" "\<not> va_is_mapped 1 (bc_evict 1 ?c3)"
    by (simp_all add: va_is_mapped_def va_is_dirty_def bc_evict_def)
  show ?thesis
    unfolding check_bc_round_def a Option.bind.bind_lunit bc_read_bytes_mapped [OF c(1)] prod.case w f Let_def st w2 f2
    using m by simp
qed

lemma bc_read_bytes_fault:
  "page c b = None \<Longrightarrow> bc_pgfault b c = Some c' \<Longrightarrow> page c' b \<noteq> None \<Longrightarrow> 0 < n \<Longrightarrow>
     bc_read_bytes b i n c = bc_read_bytes b i n c'"
  using bc_load_fault by (cases n) simp_all

lemma check_bc_round_fault:
  assumes "page c 1 = None" "bc_pgfault 1 c = Some c'" "page c' 1 \<noteq> None" "\<not> super_set c" "\<not> super_set c'"
  shows "check_bc_round clean c = check_bc_round clean c'"
  using assms bc_read_bytes_fault [of c 1 c' 264 0] unfolding check_bc_round_def by (simp add: bc_diskaddr_def)

text \<open>C32. The initialisation of the block cache succeeds and restores the disk. Before the super block and the bitmap
  are known, the two rounds of the self-test, which overwrite the super block on the device with a string and read it
  back through a page fault, end with the super block mapped and clean, and with the flash device, the other pages and
  the other dirty bits as they were.\<close>

theorem bc_init_restores:
  assumes "page c 1 = None" "\<not> super_set c" "\<not> bitmap_set c"
  shows "bc_init c = Some (c\<lparr>page := (page c)(1 := Some (flash c 1)), pte_d := (pte_d c)(1 := False)\<rparr>)"
proof -
  let ?c = "c\<lparr>page := (page c)(1 := Some (flash c 1)), pte_d := (pte_d c)(1 := False)\<rparr>"
  have pf: "bc_pgfault 1 c = Some ?c" using assms by (simp add: bc_pgfault_def flash_load_def Let_def)
  have r: "check_bc_round clean ?c = Some ?c" for clean using check_bc_round_restores [of ?c clean] assms by simp
  have "check_bc c = Some ?c"
    unfolding check_bc_def using check_bc_round_fault [OF assms(1) pf] assms(2) r by simp
  moreover have "bc_diskaddr 1 ?c = Some 1" using assms(2) by (simp add: bc_diskaddr_def)
  ultimately show ?thesis unfolding bc_init_def using bc_read_bytes_mapped [of ?c 1 "flash c 1" 0 264] by (simp del: upt_rec_numeral)
qed

theorem bc_init_restores_witness:
  "\<exists>c. page c 1 = None \<and> \<not> super_set c \<and> \<not> bitmap_set c \<and> flash c 1 = (\<lambda>i. of_nat i) \<and>
     map_option (\<lambda>c'. (map_option (\<lambda>p. p 5) (page c' 1), flash c' 1 3, pte_d c' 1)) (bc_init c) = Some (Some 5, 3, False)"
proof -
  let ?c = "\<lparr>flash = \<lambda>_ i. of_nat i, page = \<lambda>_. None, pte_d = \<lambda>_. False, super_set = False, bitmap_set = False\<rparr>"
  have "page ?c 1 = None" "\<not> super_set ?c" "\<not> bitmap_set ?c" by simp_all
  then show ?thesis using bc_init_restores [of ?c] by (intro exI [of _ ?c]) simp
qed

end
