(* ===== verification/Spec2Isabelle.thy ===== *)
theory Spec2Isabelle
  imports Boot Trap Fork_Props Monitor Fd_Sockets Spinlock Args Malloc Uprintf Flash
begin

text \<open>
  A verification development of ZynexOS, a small operating system for 64-bit RISC-V with an exokernel-style
  system call interface. The RISC-V variant is modelled (\<^verbatim>\<open>kern/riscv\<close>, \<^verbatim>\<open>lib/riscv\<close>, \<^verbatim>\<open>inc/riscv\<close> and \<^verbatim>\<open>fs\<close>
  under \<^verbatim>\<open>src/\<close>).

  \<^bold>\<open>The parts.\<close> The kernel owns the physical pages, the page tables and the environments (processes). It is
  entered by a trap, serves a system call, a page fault or a timer interrupt, and leaves
  by running an environment. User environments build everything else from the page calls and messages: copy-on-write
  \<^verbatim>\<open>fork\<close>, file descriptors, pipes, \<^verbatim>\<open>malloc\<close>. The file server is an environment with a block cache over a flash
  memory, and the library sends it requests; sockets are requests to a network server.

  \<^bold>\<open>Conventions\<close> (\<open>Kernel_Prelude\<close>). A C function is a function of the state it uses, with the new state in its
  result. \<open>None\<close> is a panic, a failed assertion, a fault, or a call that waits for ever; error codes of the
  source are negative integers. Machine integers are words of their width. A loop without an evident bound is a
  \<^theory_text>\<open>partial_function (option)\<close>, and the theorems that need it show that it returns; no definition has
  fuel. A theorem that concludes \<open>f x = Some y\<close> therefore says that the code returns.

  \<^bold>\<open>Memory of the kernel\<close> (\<^verbatim>\<open>kern/riscv/pmap.c\<close>, \<^verbatim>\<open>pmap.h\<close>, \<^verbatim>\<open>inc/riscv/mmu.h\<close>).
  \<^item> \<open>Mmu\<close>: the address macros, on words.
  \<^item> \<open>Kstate\<close>: the record of the kernel state: page descriptors, page contents, environments, the registers that
    hold the root of the page tables, the console.
  \<^item> \<open>Page_Alloc\<close>: \<^verbatim>\<open>boot_alloc\<close>, \<^verbatim>\<open>page_init\<close>, \<^verbatim>\<open>page_alloc\<close>, \<^verbatim>\<open>page_free\<close>. The locale \<open>page_allocator\<close> states the
    contract of an allocator and is interpreted on these functions; the free list is a stack of distinct pages.
  \<^item> \<open>Page_Table\<close>, \<open>Address_Space\<close>, \<open>Page_Ops\<close>, \<open>Vm_Contracts\<close>: \<^verbatim>\<open>pgdir_walk\<close>, \<^verbatim>\<open>page_insert\<close>, \<^verbatim>\<open>page_lookup\<close>,
    \<^verbatim>\<open>page_remove\<close>, \<^verbatim>\<open>boot_map_region\<close>. The abstract view of the four-level tables is \<open>va_pte\<close>, the entry of each address
    of each address space. The invariant \<open>vm_inv\<close> says that the tables form a tree, that the reference counts
    are the numbers of references and that the free list holds the unreferenced pages. Each operation
    keeps it and changes the view as its contract says, at one address.
  \<^item> \<open>Boot\<close>: the two parts of \<^verbatim>\<open>mem_init\<close> around its self-tests. The first establishes the invariant; the second, from any
    state that satisfies it and has enough free pages, maps the regions of the documented layout.

  \<^bold>\<open>Environments, system calls and traps\<close> (\<^verbatim>\<open>env.c\<close>, \<^verbatim>\<open>sched.c\<close>, \<^verbatim>\<open>syscall.c\<close>, \<^verbatim>\<open>trap.c\<close>, \<^verbatim>\<open>clint.c\<close>, \<^verbatim>\<open>spinlock.c\<close>).
  \<^item> \<open>Handles\<close> is the contract of identifiers that carry a slot number and are not reused (locale \<open>handle_table\<close>),
    interpreted on the environment identifiers (\<open>Env_Id\<close>) and on the file identifiers of the server (\<open>Fs_Serv\<close>).
  \<^item> \<open>Environments\<close> and \<open>Env_Props\<close>: \<^verbatim>\<open>env_alloc\<close>, \<^verbatim>\<open>load_icode\<close>, \<^verbatim>\<open>env_free\<close> and the rest of \<^verbatim>\<open>env.c\<close>.
  \<^item> \<open>Sched\<close>: the round-robin scheduler and that every runnable environment is chosen within one round.
  \<^item> \<open>Syscall\<close> and \<open>Syscall_Props\<close>: every system call and the dispatcher; protection, mapping, message passing.
  \<^item> \<open>Trap\<close>: trap handling, the exception stack of user page faults, the timer.
  \<^item> \<open>Spinlock\<close>: processors as a step relation on a lock and the data it protects; mutual exclusion of the sections between
    \<^verbatim>\<open>spin_lock\<close> and \<^verbatim>\<open>spin_unlock\<close> and the equivalence of each interleaving with a sequential run of the sections. Which
    entries to the kernel take the big kernel lock is not part of it.
  \<^item> \<open>Fifo\<close> is the contract of a bounded queue (locale \<open>fifo\<close>), interpreted on the console buffer and on pipes.
  \<^item> \<open>Console\<close>, \<open>Monitor\<close>, \<open>E1000\<close>: console input, line editor and kernel monitor, and the descriptor rings of the
    network card, whose packets are at most 1024 bytes long.

  \<^bold>\<open>The user library\<close> (\<^verbatim>\<open>lib/riscv\<close>).
  \<^item> \<open>Ulib\<close>, \<open>Fork\<close> and \<open>Fork_Props\<close>: \<^verbatim>\<open>fork\<close> and its page fault handler, composed of the system calls of \<open>Syscall\<close>; parent and
    child see the same bytes and later writes stay private.
  \<^item> \<open>Pipe\<close>: reader and writer of a pipe as interleaved turns.
  \<^item> \<open>Fd\<close>, \<open>Fd_Ops\<close>, \<open>Fd_Props\<close>, \<open>Fd_Calls\<close>, \<open>Fd_Sockets\<close>: file descriptors, files, console, pipes and sockets of
    one process (\<^verbatim>\<open>fd.c\<close>, \<^verbatim>\<open>file.c\<close>, \<^verbatim>\<open>console.c\<close>, \<^verbatim>\<open>pipe.c\<close>, \<^verbatim>\<open>sockets.c\<close>, \<^verbatim>\<open>nsipc.c\<close>). The invariant \<open>fds_ok\<close> types the
    descriptor table and counts the references; it is kept by every call, and \<open>uruns\<close> is the
    relation of states reached by calls. A \<^verbatim>\<open>dup\<close> to a number outside of the table, which the code does not
    reject, is outside of the model.
  \<^item> \<open>Malloc\<close>: the page-based allocator; safe for requests that fit a page, with a proved failure for larger ones.
  \<^item> \<open>Cstring\<close>, \<open>Printfmt\<close>, \<open>Uprintf\<close>, \<open>Args\<close>: strings over a memory of bytes, formatted printing to a buffer,
    to the console and to a descriptor, and command line flags.

  \<^bold>\<open>The file server\<close> (\<^verbatim>\<open>fs\<close>).
  \<^item> \<open>Block_Cache\<close> refines a memory of blocks with a disk behind it, on the 6144 blocks the device has room for; what is
    stored in other blocks is lost. \<open>Flash\<close> is the flash driver below it, shown to store blocks on a device that follows the command
    set, and the self-test that runs when the cache is initialised.
  \<^item> \<open>Fs\<close> and \<open>Fs_Props\<close>: bitmap, files, directories and paths of \<^verbatim>\<open>fs.c\<close>; written bytes are read back.
  \<^item> \<open>Fs_Serv\<close>: the open-file table and the requests of \<^verbatim>\<open>serv.c\<close>.

  \<^bold>\<open>Parameters.\<close> Hardware, firmware and the network server are arguments or fields of the state: the memory size the
  firmware reports, the characters the console delivers, the answers of the network server, the flash
  device. Where a theorem relies on their behaviour it says so in a hypothesis (\<open>cfi_laws\<close>, the commands of the flash device one by one), which
  a concrete instance is shown to satisfy.

  \<^bold>\<open>Bounds.\<close> The sizes are those of the source: 1024 environments, 32 descriptors of a process, 32 bytes
  in a pipe, 512 in the console buffer, 1024 open files, 8 processors, 6144 blocks of flash memory.

  \<^bold>\<open>Not modelled.\<close> The assembly code apart from the program counter a trap returns to, the order of the
  start-up calls and the start of further processors, PCI enumeration, the network server and the lwIP stack, program
  loading by \<^verbatim>\<open>spawn\<close>, the small wrappers \<^verbatim>\<open>ipc_send\<close>, \<^verbatim>\<open>wait\<close> and \<^verbatim>\<open>exit\<close>, the user programs, the disk image builder, the i386
  variant, the self-tests \<^verbatim>\<open>check_page_free_list\<close>, \<^verbatim>\<open>check_page_alloc\<close>, \<^verbatim>\<open>check_page\<close>, \<^verbatim>\<open>check_kern_pgdir\<close> and
  \<^verbatim>\<open>check_page_installed_pgdir\<close> of \<^verbatim>\<open>pmap.c\<close> (they assert, and also change the free list and page tables), requests to the file
  server at a negative position, and debug printing.
\<close>

end
